(* ===== verification/Prelude.thy ===== *)
theory Prelude
  imports Main "HOL-Library.Product_Lexorder" "HOL-Library.Signed_Division"
begin

text \<open>
  What every component of the development shares: the machine-integer ranges of the
  Rust code and its checked arithmetic, the \<open>Result\<close> type with the combinators behind
  the question-mark operator, early-return folds and maps over a vector, and the generic
  lemmas on lists that the component theories use.  Fixed-width integers are modelled as
  \<open>int\<close> together with an explicit range test at every point where the code tests
  for overflow, so an overflow is a branch of the model and never a silent wrap.
\<close>

section \<open>Collections of facts\<close>

text \<open>\<open>res_simps\<close> inverts successful results, \<open>range_defs\<close> unfolds the integer ranges.\<close>

named_theorems res_simps
named_theorems range_defs

section \<open>Machine integer ranges\<close>

definition in_i32 :: "int \<Rightarrow> bool" where
  [range_defs]: "in_i32 x \<longleftrightarrow> - (2 ^ 31) \<le> x \<and> x < 2 ^ 31"

definition in_i64 :: "int \<Rightarrow> bool" where
  [range_defs]: "in_i64 x \<longleftrightarrow> - (2 ^ 63) \<le> x \<and> x < 2 ^ 63"

definition in_i128 :: "int \<Rightarrow> bool" where
  [range_defs]: "in_i128 x \<longleftrightarrow> - (2 ^ 127) \<le> x \<and> x < 2 ^ 127"

definition in_u32 :: "int \<Rightarrow> bool" where
  [range_defs]: "in_u32 x \<longleftrightarrow> 0 \<le> x \<and> x < 2 ^ 32"

definition in_u64 :: "int \<Rightarrow> bool" where
  [range_defs]: "in_u64 x \<longleftrightarrow> 0 \<le> x \<and> x < 2 ^ 64"

definition in_u128 :: "int \<Rightarrow> bool" where
  [range_defs]: "in_u128 x \<longleftrightarrow> 0 \<le> x \<and> x < 2 ^ 128"

text \<open>
  \<open>fit R x\<close> is the value of a checked operation whose exact result is \<open>x\<close> at an
  integer type of range \<open>R\<close>: \<open>None\<close> on overflow.  \<open>i64::checked_add(a, b)\<close> is
  \<open>fit in_i64 (a + b)\<close>, and likewise for the other operators and for \<open>try_from\<close>.
\<close>

definition fit :: "(int \<Rightarrow> bool) \<Rightarrow> int \<Rightarrow> int option" where
  "fit R x = (if R x then Some x else None)"

text \<open>Division truncates towards zero; a zero divisor and \<open>MIN / -1\<close> give \<open>None\<close>.\<close>

definition checked_div :: "(int \<Rightarrow> bool) \<Rightarrow> int \<Rightarrow> int \<Rightarrow> int option" where
  "checked_div R a b = (if b = 0 then None else fit R (a sdiv b))"

definition checked_rem :: "(int \<Rightarrow> bool) \<Rightarrow> int \<Rightarrow> int \<Rightarrow> int option" where
  "checked_rem R a b = (if b = 0 \<or> \<not> R (a sdiv b) then None else Some (a smod b))"

lemma fit_eq_Some_iff [simp]: "fit R x = Some y \<longleftrightarrow> R x \<and> y = x"
  by (auto simp: fit_def)

lemma fit_eq_None_iff [simp]: "fit R x = None \<longleftrightarrow> \<not> R x"
  by (simp add: fit_def)

lemma in_i64_zero [simp]: "in_i64 0"
  by (simp add: in_i64_def)

lemma in_i64_abs_u128: "in_i64 x \<Longrightarrow> in_u128 \<bar>x\<bar>"
  by (simp add: range_defs abs_if)

lemma i64_mul_i128: "in_i64 a \<Longrightarrow> in_i64 b \<Longrightarrow> in_i128 (a * b)"
proof -
  assume "in_i64 a" and "in_i64 b"
  then have "\<bar>a\<bar> \<le> 2 ^ 63" and "\<bar>b\<bar> \<le> 2 ^ 63"
    by (auto simp: in_i64_def)
  then have "\<bar>a\<bar> * \<bar>b\<bar> \<le> 2 ^ 63 * 2 ^ 63"
    by (intro mult_mono) auto
  then show ?thesis
    by (auto simp: in_i128_def abs_mult [symmetric])
qed

section \<open>Results\<close>

text \<open>
  \<open>Result<T, E>\<close> is the sum \<open>'e + 'a\<close>, the error on the left.  \<open>and_then r f\<close> is the
  code's \<open>let x = r?; f(x)\<close>; \<open>ok_or\<close> and \<open>map_err\<close> are the methods of those names.
\<close>

definition and_then :: "'e + 'a \<Rightarrow> ('a \<Rightarrow> 'e + 'b) \<Rightarrow> 'e + 'b" where
  "and_then r f = (case r of Inl e \<Rightarrow> Inl e | Inr x \<Rightarrow> f x)"

definition ok_or :: "'e \<Rightarrow> 'a option \<Rightarrow> 'e + 'a" where
  "ok_or e v = (case v of None \<Rightarrow> Inl e | Some x \<Rightarrow> Inr x)"

definition map_err :: "('e \<Rightarrow> 'f) \<Rightarrow> 'e + 'a \<Rightarrow> 'f + 'a" where
  "map_err f r = (case r of Inl e \<Rightarrow> Inl (f e) | Inr x \<Rightarrow> Inr x)"

definition map_ok :: "('a \<Rightarrow> 'b) \<Rightarrow> 'e + 'a \<Rightarrow> 'e + 'b" where
  "map_ok f r = (case r of Inl e \<Rightarrow> Inl e | Inr x \<Rightarrow> Inr (f x))"

definition is_ok :: "'e + 'a \<Rightarrow> bool" where
  "is_ok r = (case r of Inl _ \<Rightarrow> False | Inr _ \<Rightarrow> True)"

text \<open>\<open>guard c e\<close> is \<open>if !c { return Err(e) }\<close>.\<close>

definition guard :: "bool \<Rightarrow> 'e \<Rightarrow> 'e + unit" where
  "guard c e = (if c then Inr () else Inl e)"

lemma and_then_simps [simp]:
  "and_then (Inl e) f = Inl e"
  "and_then (Inr x) f = f x"
  by (simp_all add: and_then_def)

lemma ok_or_simps [simp]: "ok_or e None = Inl e" "ok_or e (Some x) = Inr x"
  by (simp_all add: ok_or_def)

lemma map_err_simps [simp]: "map_err f (Inl e) = Inl (f e)" "map_err f (Inr x) = Inr x"
  by (simp_all add: map_err_def)

lemma map_ok_simps [simp]: "map_ok f (Inl e) = Inl e" "map_ok f (Inr x) = Inr (f x)"
  by (simp_all add: map_ok_def)

lemma is_ok_simps [simp]: "is_ok (Inl e) = False" "is_ok (Inr x) = True"
  by (simp_all add: is_ok_def)

lemma guard_simps [simp]: "guard True e = Inr ()" "guard False e = Inl e"
  by (simp_all add: guard_def)

lemma and_then_Inr_iff [res_simps]:
  "and_then r f = Inr y \<longleftrightarrow> (\<exists>x. r = Inr x \<and> f x = Inr y)"
  by (cases r) auto

declare bind_eq_Some_conv [res_simps]

lemma and_then_Inl_iff:
  "and_then r f = Inl e \<longleftrightarrow> r = Inl e \<or> (\<exists>x. r = Inr x \<and> f x = Inl e)"
  by (cases r) auto

lemma ok_or_Inr_iff [res_simps]: "ok_or e v = Inr x \<longleftrightarrow> v = Some x"
  by (cases v) auto

lemma ok_or_Inl_iff [simp]: "ok_or e v = Inl e' \<longleftrightarrow> v = None \<and> e' = e"
  by (cases v) auto

lemma map_err_Inr_iff [res_simps]: "map_err f r = Inr x \<longleftrightarrow> r = Inr x"
  by (cases r) auto

lemma map_ok_Inr_iff [res_simps]: "map_ok f r = Inr y \<longleftrightarrow> (\<exists>x. r = Inr x \<and> y = f x)"
  by (cases r) auto

lemma guard_Inr_iff [res_simps]: "guard c e = Inr u \<longleftrightarrow> c"
  by (cases c) auto

lemma is_ok_iff: "is_ok r \<longleftrightarrow> (\<exists>x. r = Inr x)"
  by (cases r) auto

lemma and_then_cong [fundef_cong]:
  "r = s \<Longrightarrow> (\<And>x. s = Inr x \<Longrightarrow> f x = g x) \<Longrightarrow> and_then r f = and_then s g"
  by (cases s) auto

section \<open>Folds and maps that stop at the first error\<close>

text \<open>\<open>try_fold\<close> is the iterator method; \<open>try_map f\<close> is \<open>map(f).collect::<Result<Vec<_>, _>>()\<close>.\<close>

fun try_fold :: "('s \<Rightarrow> 'a \<Rightarrow> 'e + 's) \<Rightarrow> 's \<Rightarrow> 'a list \<Rightarrow> 'e + 's" where
  "try_fold f s [] = Inr s"
| "try_fold f s (x # xs) = and_then (f s x) (\<lambda>s'. try_fold f s' xs)"

fun try_map :: "('a \<Rightarrow> 'e + 'b) \<Rightarrow> 'a list \<Rightarrow> 'e + 'b list" where
  "try_map f [] = Inr []"
| "try_map f (x # xs) =
     and_then (f x) (\<lambda>y. and_then (try_map f xs) (\<lambda>ys. Inr (y # ys)))"

lemma try_fold_append:
  "try_fold f s (xs @ ys) = and_then (try_fold f s xs) (\<lambda>s'. try_fold f s' ys)"
  by (induction xs arbitrary: s) (auto simp: and_then_def split: sum.splits)

lemma try_fold_map: "try_fold f s (map g xs) = try_fold (\<lambda>s x. f s (g x)) s xs"
  by (induction xs arbitrary: s) (auto simp: and_then_def split: sum.splits)

lemma try_fold_invariant:
  assumes "try_fold f s xs = Inr t" and "P s"
    and "\<And>s x s'. P s \<Longrightarrow> x \<in> set xs \<Longrightarrow> f s x = Inr s' \<Longrightarrow> P s'"
  shows "P t"
  using assms
proof (induction xs arbitrary: s)
  case Nil
  then show ?case by simp
next
  case (Cons x xs)
  from Cons.prems(1) obtain s' where s': "f s x = Inr s'" and "try_fold f s' xs = Inr t"
    by (auto simp: res_simps)
  moreover have "P s'" by (rule Cons.prems(3) [OF Cons.prems(2) _ s']) simp
  moreover have "P v" if "P u" "y \<in> set xs" "f u y = Inr v" for u y v
    using Cons.prems(3) [of u y v] that by simp
  ultimately show ?case using Cons.IH [of s'] by blast
qed

lemma try_map_Inr_iff:
  "try_map f xs = Inr ys \<longleftrightarrow> list_all2 (\<lambda>x y. f x = Inr y) xs ys"
  by (induction xs arbitrary: ys) (auto simp: res_simps list_all2_Cons1)

lemma try_map_length: "try_map f xs = Inr ys \<Longrightarrow> length ys = length xs"
  by (simp add: try_map_Inr_iff list_all2_lengthD)

lemma try_map_nth:
  "try_map f xs = Inr ys \<Longrightarrow> i < length xs \<Longrightarrow> f (xs ! i) = Inr (ys ! i)"
  by (simp add: try_map_Inr_iff list_all2_conv_all_nth)

lemma try_map_all_ok:
  assumes "\<And>x. x \<in> set xs \<Longrightarrow> f x = Inr (g x)"
  shows "try_map f xs = Inr (map g xs)"
  using assms by (induction xs) auto

lemma try_map_first_error:
  assumes "\<forall>x \<in> set xs. \<exists>y. f x = Inr y" and "f a = Inl e"
  shows "try_map f (xs @ a # zs) = Inl e"
  using assms by (induction xs) auto

text \<open>A loop that keeps the elements passing a fallible test.\<close>

lemma try_fold_filter:
  assumes "\<And>x. x \<in> set xs \<Longrightarrow> g x = Inr (P x)"
  shows "try_fold (\<lambda>acc x. map_ok (\<lambda>f. if f then acc else acc @ [x]) (g x)) acc xs
    = Inr (acc @ filter (\<lambda>x. \<not> P x) xs)"
  using assms by (induction xs arbitrary: acc) auto

lemma try_fold_collect:
  assumes "\<And>x. x \<in> set xs \<Longrightarrow> g x = Inr (h x)"
  shows "try_fold (\<lambda>acc x. map_ok (\<lambda>s. if P s then acc @ [(x, s)] else acc) (g x)) acc xs
    = Inr (acc @ map (\<lambda>x. (x, h x)) (filter (\<lambda>x. P (h x)) xs))"
  using assms by (induction xs arbitrary: acc) auto

section \<open>Vectors\<close>

text \<open>\<open>xs.get(i)\<close>, and \<open>xs.get(i).copied().unwrap_or(d)\<close>.\<close>

definition get :: "'a list \<Rightarrow> nat \<Rightarrow> 'a option" where
  "get xs i = (if i < length xs then Some (xs ! i) else None)"

lemma get_eq_Some_iff [res_simps]: "get xs i = Some x \<longleftrightarrow> i < length xs \<and> x = xs ! i"
  by (auto simp: get_def)

definition get_or :: "'a list \<Rightarrow> nat \<Rightarrow> 'a \<Rightarrow> 'a" where
  "get_or xs i d = (if i < length xs then xs ! i else d)"

lemma sum_list_upd_nth:
  fixes xs :: "int list"
  shows "i < length xs \<Longrightarrow> sum_list (xs[i := v]) = sum_list xs - xs ! i + v"
  by (induction xs arbitrary: i) (auto split: nat.splits)

lemma sum_list_nonneg_member_le:
  fixes xs :: "int list"
  assumes "\<forall>x \<in> set xs. 0 \<le> x" and "y \<in> set xs"
  shows "y \<le> sum_list xs"
proof -
  from assms(2) obtain as bs where xs: "xs = as @ y # bs"
    by (auto simp: in_set_conv_decomp)
  then have "0 \<le> sum_list as" and "0 \<le> sum_list bs"
    using assms(1) by (auto intro!: sum_list_nonneg)
  with xs show ?thesis by simp
qed

text \<open>
  \<open>iter_mut().find(p)\<close> followed by an update of the element found: the first match is
  changed, \<open>None\<close> when nothing matches.
\<close>

fun update_first :: "('a \<Rightarrow> bool) \<Rightarrow> ('a \<Rightarrow> 'a) \<Rightarrow> 'a list \<Rightarrow> 'a list option" where
  "update_first p f [] = None"
| "update_first p f (x # xs) =
     (if p x then Some (f x # xs) else map_option ((#) x) (update_first p f xs))"

lemma update_first_map:
  "update_first p f xs = Some ys \<Longrightarrow> (\<And>x. g (f x) = g x) \<Longrightarrow> map g ys = map g xs"
  by (induction xs arbitrary: ys) (auto split: if_splits)

lemma update_first_None_iff: "update_first p f xs = None \<longleftrightarrow> (\<forall>x \<in> set xs. \<not> p x)"
  by (induction xs) auto

lemma update_first_split:
  "update_first p f xs = Some ys \<Longrightarrow>
     \<exists>as x bs. xs = as @ x # bs \<and> ys = as @ f x # bs \<and> p x \<and> (\<forall>a \<in> set as. \<not> p a)"
proof (induction xs arbitrary: ys)
  case (Cons x xs)
  show ?case
  proof (cases "p x")
    case True
    with Cons.prems show ?thesis by (intro exI [of _ "[]"]) auto
  next
    case False
    with Cons.prems obtain zs where zs: "update_first p f xs = Some zs" "ys = x # zs" by auto
    from Cons.IH [OF zs(1)] obtain as y bs where
      "xs = as @ y # bs \<and> zs = as @ f y # bs \<and> p y \<and> (\<forall>a \<in> set as. \<not> p a)" by blast
    with zs(2) False show ?thesis by (intro exI [of _ "x # as"]) auto
  qed
qed simp

lemma update_first_set:
  "update_first p f xs = Some ys \<Longrightarrow> y \<in> set ys \<Longrightarrow> y \<in> set xs \<or> (\<exists>x \<in> set xs. p x \<and> y = f x)"
  by (drule update_first_split) auto

lemma find_None_map: "List.find (\<lambda>x. g x = k) xs = None \<longleftrightarrow> k \<notin> set (map g xs)"
  by (auto simp: find_None_iff)

end
