(* ===== verification/Money.thy ===== *)
theory Money
  imports Prelude
begin

text \<open>
  The money primitives of \<open>crates/sahl-core/src/money\<close>: the closed set of currencies,
  amounts as exact minor units, proportional rates in basis points, the three rounding
  modes, and the checked arithmetic built from them.  The lemmas show that an operation
  either returns the exact integer result inside \<open>i64\<close> or one of the errors, and that
  the rounded division is the nearest (or truncated) quotient of its mode.
\<close>

section \<open>Currencies\<close>

datatype currency = Bdt | Sar | Aed | Usd

datatype money_error =
    CurrencyMismatch currency currency
  | Overflow
  | DivisionByZero
  | InvalidWeights
  | UnknownCurrency string

text \<open>The derived order of the enum is the order of its variants.\<close>

fun currency_rank :: "currency \<Rightarrow> nat" where
  "currency_rank Bdt = 0"
| "currency_rank Sar = 1"
| "currency_rank Aed = 2"
| "currency_rank Usd = 3"

lemma currency_rank_inj: "currency_rank a = currency_rank b \<longleftrightarrow> a = b"
  by (cases a; cases b) simp_all

instantiation currency :: linorder
begin

definition less_eq_currency :: "currency \<Rightarrow> currency \<Rightarrow> bool" where
  "less_eq_currency a b \<longleftrightarrow> currency_rank a \<le> currency_rank b"

definition less_currency :: "currency \<Rightarrow> currency \<Rightarrow> bool" where
  "less_currency a b \<longleftrightarrow> currency_rank a < currency_rank b"

instance
  by standard
    (auto simp: less_eq_currency_def less_currency_def currency_rank_inj [symmetric])

end

fun code :: "currency \<Rightarrow> string" where
  "code Bdt = ''BDT''"
| "code Sar = ''SAR''"
| "code Aed = ''AED''"
| "code Usd = ''USD''"

fun exponent :: "currency \<Rightarrow> nat" where
  "exponent Bdt = 2"
| "exponent Sar = 2"
| "exponent Aed = 2"
| "exponent Usd = 2"

definition minor_per_major :: "currency \<Rightarrow> int" where
  "minor_per_major c =
     (let e = exponent c
      in if e = 0 then 1 else if e = 1 then 10 else if e = 2 then 100
         else if e = 3 then 1000 else 100)"

definition ascii_upper :: "char \<Rightarrow> char" where
  "ascii_upper c =
     (let n = (of_char c :: nat) in if 97 \<le> n \<and> n \<le> 122 then char_of (n - 32) else c)"

definition from_code :: "string \<Rightarrow> money_error + currency" where
  "from_code s =
     (let u = map ascii_upper s
      in if u = ''BDT'' then Inr Bdt
         else if u = ''SAR'' then Inr Sar
         else if u = ''AED'' then Inr Aed
         else if u = ''USD'' then Inr Usd
         else Inl (UnknownCurrency u))"

lemma minor_per_major_100 [simp]: "minor_per_major c = 100"
  by (cases c) (simp_all add: minor_per_major_def)

lemma from_code_iff: "from_code s = Inr c \<longleftrightarrow> map ascii_upper s = code c"
  by (cases c) (auto simp: from_code_def Let_def)

section \<open>Rates and rounding modes\<close>

record rate =
  basis_points :: int

definition rate_zero :: rate where
  "rate_zero = \<lparr>basis_points = 0\<rparr>"

definition basis_points_per_unit :: int where
  "basis_points_per_unit = 10000"

definition from_basis_points :: "int \<Rightarrow> rate" where
  "from_basis_points bp = \<lparr>basis_points = bp\<rparr>"

definition from_percent :: "int \<Rightarrow> rate option" where
  "from_percent p =
     (case fit in_i32 (p * 100) of
        Some bp \<Rightarrow> Some \<lparr>basis_points = bp\<rparr>
      | None \<Rightarrow> None)"

definition rate_is_zero :: "rate \<Rightarrow> bool" where
  "rate_is_zero r \<longleftrightarrow> basis_points r = 0"

datatype rounding = HalfUp | HalfEven | TowardZero

section \<open>Rounded division\<close>

definition round_away :: "rounding \<Rightarrow> int \<Rightarrow> int \<Rightarrow> int \<Rightarrow> money_error + bool" where
  "round_away mode twice_remainder magnitude quot =
     (case mode of
        TowardZero \<Rightarrow> Inr False
      | HalfUp \<Rightarrow> Inr (twice_remainder \<ge> magnitude)
      | HalfEven \<Rightarrow>
          (if twice_remainder > magnitude then Inr True
           else if twice_remainder < magnitude then Inr False
           else and_then (ok_or Overflow (checked_rem in_i128 quot 2))
                  (\<lambda>r. Inr (\<bar>r\<bar> = 1))))"

definition divide_rounded :: "int \<Rightarrow> int \<Rightarrow> rounding \<Rightarrow> money_error + int" where
  "divide_rounded numerator denominator mode =
     (if denominator = 0 then Inl DivisionByZero
      else
        and_then (ok_or Overflow (checked_div in_i128 numerator denominator)) (\<lambda>quot.
        and_then (ok_or Overflow (checked_rem in_i128 numerator denominator)) (\<lambda>remainder.
        if remainder = 0 then Inr quot
        else
          let step = (if (numerator < 0) = (denominator < 0) then 1 else -1)
          in
            and_then (ok_or Overflow
              (Option.bind (fit in_i128 \<bar>remainder\<bar>) (\<lambda>r. fit in_i128 (r * 2))))
              (\<lambda>twice_remainder.
            and_then (ok_or Overflow (fit in_i128 \<bar>denominator\<bar>)) (\<lambda>magnitude.
            and_then (round_away mode twice_remainder magnitude quot) (\<lambda>away.
            if away then ok_or Overflow (fit in_i128 (quot + step))
            else Inr quot))))))"

text \<open>
  The contract of a rounding mode, stated without division: \<open>q\<close> is at most half a unit
  from the exact quotient, ties going away from zero or to the even neighbour, or it is
  the last integer on the way from zero to the exact quotient.
\<close>

definition rounds_to :: "rounding \<Rightarrow> int \<Rightarrow> int \<Rightarrow> int \<Rightarrow> bool" where
  "rounds_to mode n d q \<longleftrightarrow>
     (case mode of
        TowardZero \<Rightarrow> \<bar>n - q * d\<bar> < \<bar>d\<bar> \<and> \<bar>q * d\<bar> \<le> \<bar>n\<bar>
      | HalfUp \<Rightarrow> 2 * \<bar>n - q * d\<bar> \<le> \<bar>d\<bar>
          \<and> (2 * \<bar>n - q * d\<bar> = \<bar>d\<bar> \<longrightarrow> \<bar>n\<bar> < \<bar>q * d\<bar>)
      | HalfEven \<Rightarrow> 2 * \<bar>n - q * d\<bar> \<le> \<bar>d\<bar>
          \<and> (2 * \<bar>n - q * d\<bar> = \<bar>d\<bar> \<longrightarrow> even q))"

subsection \<open>Truncating division\<close>

lemma abs_sdiv_smod:
  fixes n d :: int
  shows "\<bar>n sdiv d\<bar> = \<bar>n\<bar> div \<bar>d\<bar>" and "\<bar>n smod d\<bar> = \<bar>n\<bar> mod \<bar>d\<bar>"
  by (cases "d = 0"; auto simp: signed_divide_int_def signed_modulo_int_def abs_mult abs_sgn_eq
      pos_imp_zdiv_nonneg_iff)+

lemma in_i128_sdiv:
  assumes "in_i128 n" and "d \<noteq> 0" and "d \<noteq> - 1 \<or> n \<noteq> - (2 ^ 127)"
  shows "in_i128 (n sdiv d)"
proof -
  have le: "\<bar>n sdiv d\<bar> \<le> \<bar>n\<bar>"
    using assms(2) by (simp add: abs_sdiv_smod div_by_1 zdiv_mono2 [of "\<bar>n\<bar>" 1 "\<bar>d\<bar>", simplified])
  show ?thesis
  proof (cases "n = - (2 ^ 127)")
    case False
    with le assms(1) show ?thesis by (auto simp: in_i128_def)
  next
    case True
    show ?thesis
    proof (cases "\<bar>d\<bar> = 1")
      case t: True
      with True assms(3) have "d = 1" by auto
      with assms(1) show ?thesis by (simp add: signed_divide_int_def sgn_mult_abs)
    next
      case False
      with assms(2) have "\<bar>d\<bar> \<ge> 2" by auto
      then have "\<bar>n\<bar> div \<bar>d\<bar> \<le> \<bar>n\<bar> div 2"
        by (intro zdiv_mono2) auto
      with True have "\<bar>n sdiv d\<bar> \<le> 2 ^ 126"
        by (simp add: abs_sdiv_smod)
      then show ?thesis by (auto simp: in_i128_def)
    qed
  qed
qed

lemma round_core:
  fixes n d :: int
  assumes d: "d \<noteq> 0" and r: "n smod d \<noteq> 0"
  defines "step \<equiv> (if (n < 0) = (d < 0) then 1 else - 1 :: int)"
  shows "\<bar>n - (n sdiv d) * d\<bar> = \<bar>n smod d\<bar>"
    and "\<bar>n - (n sdiv d + step) * d\<bar> = \<bar>d\<bar> - \<bar>n smod d\<bar>"
    and "\<bar>(n sdiv d) * d\<bar> = \<bar>n\<bar> - \<bar>n smod d\<bar>"
    and "\<bar>(n sdiv d + step) * d\<bar> = \<bar>n\<bar> - \<bar>n smod d\<bar> + \<bar>d\<bar>"
    and "\<bar>n smod d\<bar> < \<bar>d\<bar>"
    and "0 < \<bar>n smod d\<bar>"
proof -
  define K where "K = \<bar>n\<bar> div \<bar>d\<bar> * \<bar>d\<bar>"
  define R where "R = \<bar>n\<bar> mod \<bar>d\<bar>"
  have a: "K + R = \<bar>n\<bar>" by (simp add: K_def R_def)
  have n0: "n \<noteq> 0" using r by (auto simp: signed_modulo_int_def)
  have b: "0 \<le> R" "R < \<bar>d\<bar>" using d by (simp_all add: R_def)
  have k0: "0 \<le> K" using d by (simp add: K_def pos_imp_zdiv_nonneg_iff)
  have q: "(n sdiv d) * d = sgn n * K"
    by (simp add: K_def signed_divide_int_def mult.assoc mult.left_commute abs_sgn)
  have s: "step * d = sgn n * \<bar>d\<bar>"
    using d n0 by (auto simp: step_def sgn_if)
  have m: "\<bar>n smod d\<bar> = R" by (simp add: R_def abs_sdiv_smod)
  show "\<bar>n smod d\<bar> < \<bar>d\<bar>" using m b by simp
  show "0 < \<bar>n smod d\<bar>" using r by simp
  show "\<bar>n - (n sdiv d) * d\<bar> = \<bar>n smod d\<bar>"
    unfolding q m using n0 a b k0 by (auto simp: sgn_if)
  show "\<bar>n - (n sdiv d + step) * d\<bar> = \<bar>d\<bar> - \<bar>n smod d\<bar>"
    unfolding distrib_right q s m using n0 a b k0 by (auto simp: sgn_if)
  show "\<bar>(n sdiv d) * d\<bar> = \<bar>n\<bar> - \<bar>n smod d\<bar>"
    unfolding q m using n0 a b k0 by (auto simp: sgn_if)
  show "\<bar>(n sdiv d + step) * d\<bar> = \<bar>n\<bar> - \<bar>n smod d\<bar> + \<bar>d\<bar>"
    unfolding distrib_right q s m using n0 a b k0 by (auto simp: sgn_if)
qed

lemma smod_zero_exact: "(n::int) smod d = 0 \<Longrightarrow> (n sdiv d) * d = n"
  using sdiv_mult_smod_eq [of n d] by simp

lemma abs_smod_two: "\<bar>x smod 2\<bar> = 1 \<longleftrightarrow> odd (x :: int)"
proof -
  have "\<bar>x\<bar> mod 2 = 1 \<longleftrightarrow> odd \<bar>x\<bar>"
    by (rule odd_iff_mod_2_eq_one [symmetric])
  then show ?thesis by (simp only: abs_sdiv_smod(2) abs_numeral dvd_abs_iff)
qed

lemma divide_rounded_sound:
  assumes "divide_rounded n d mode = Inr q"
  shows "d \<noteq> 0 \<and> rounds_to mode n d q"
proof (cases "n smod d = 0")
  case True
  then have e: "(n sdiv d) * d = n" by (rule smod_zero_exact)
  from assms True have d: "d \<noteq> 0" and "q = n sdiv d"
    by (auto simp: divide_rounded_def res_simps checked_div_def checked_rem_def split: if_splits)
  with e show ?thesis by (auto simp: rounds_to_def split: rounding.splits)
next
  case False
  from assms have d: "d \<noteq> 0" by (auto simp: divide_rounded_def)
  define step where "step = (if (n < 0) = (d < 0) then 1 else - 1 :: int)"
  from assms False d obtain away where
    away: "round_away mode (2 * \<bar>n smod d\<bar>) \<bar>d\<bar> (n sdiv d) = Inr away"
    and q: "q = (if away then n sdiv d + step else n sdiv d)"
    by (auto simp: divide_rounded_def res_simps checked_div_def checked_rem_def Let_def
        mult.commute step_def [symmetric] split: if_splits)
  note core = round_core [OF d False, folded step_def]
  have odd_step: "odd step" by (simp add: step_def)
  have ev: "\<bar>(n sdiv d) smod 2\<bar> = 1 \<longleftrightarrow> odd (n sdiv d)"
    by (rule abs_smod_two)
  have parity: "\<not> away \<Longrightarrow> 2 * \<bar>n smod d\<bar> = \<bar>d\<bar> \<Longrightarrow> mode = HalfEven \<Longrightarrow> even (n sdiv d)"
      "away \<Longrightarrow> 2 * \<bar>n smod d\<bar> = \<bar>d\<bar> \<Longrightarrow> mode = HalfEven \<Longrightarrow> odd (n sdiv d)"
    using away ev by (simp_all add: round_away_def checked_rem_def res_simps split: if_splits)
  have side: "mode = TowardZero \<Longrightarrow> \<not> away"
      "mode = HalfUp \<Longrightarrow> away \<longleftrightarrow> \<bar>d\<bar> \<le> 2 * \<bar>n smod d\<bar>"
      "mode = HalfEven \<Longrightarrow> away \<Longrightarrow> \<bar>d\<bar> \<le> 2 * \<bar>n smod d\<bar>"
      "mode = HalfEven \<Longrightarrow> \<not> away \<Longrightarrow> 2 * \<bar>n smod d\<bar> \<le> \<bar>d\<bar>"
    using away by (auto simp: round_away_def split: if_splits)
  show ?thesis
  proof (cases away)
    case True
    then have "rounds_to mode n d (n sdiv d + step)"
      using side parity(2) odd_step core(5,6)
      by (cases mode) (simp_all add: rounds_to_def core(2,4))
    with True d q show ?thesis by simp
  next
    case False
    then have "rounds_to mode n d (n sdiv d)"
      using side parity(1) core(5,6)
      by (cases mode) (simp_all add: rounds_to_def core(1,3))
    with False d q show ?thesis by simp
  qed
qed

lemma abs_ge_one: "(d::int) \<noteq> 0 \<Longrightarrow> 1 \<le> \<bar>d\<bar>"
  by simp

lemma divide_rounded_total:
  assumes n: "\<bar>n\<bar> \<le> 2 ^ 126" and d: "d \<noteq> 0" "in_i64 d"
  shows "\<exists>q. divide_rounded n d mode = Inr q"
proof -
  have d': "\<bar>d\<bar> \<le> 2 ^ 63" using d(2) by (auto simp: in_i64_def)
  have qd: "\<bar>n sdiv d\<bar> \<le> 2 ^ 126"
    using d(1) n zdiv_mono2 [of "\<bar>n\<bar>" 1 "\<bar>d\<bar>"] by (auto simp: abs_sdiv_smod dest: abs_ge_one)
  have rd: "\<bar>n smod d\<bar> \<le> 2 ^ 63"
    unfolding abs_sdiv_smod(2) using d(1) d' pos_mod_bound [of "\<bar>d\<bar>" "\<bar>n\<bar>"] by linarith
  have s2: "\<bar>(n sdiv d) sdiv 2\<bar> \<le> 2 ^ 126"
    using qd by (simp add: abs_sdiv_smod)
  have fits: "in_i128 (n sdiv d)" "in_i128 (n sdiv d + 1)" "in_i128 (n sdiv d - 1)"
      "in_i128 \<bar>n smod d\<bar>" "in_i128 (\<bar>n smod d\<bar> * 2)" "in_i128 \<bar>d\<bar>"
      "in_i128 ((n sdiv d) sdiv 2)"
    using qd rd s2 d' by (simp_all add: in_i128_def abs_le_iff) linarith+
  then have "\<exists>away. round_away mode (\<bar>n smod d\<bar> * 2) \<bar>d\<bar> (n sdiv d) = Inr away"
    by (cases mode) (auto simp: round_away_def checked_rem_def ex_bool_eq)
  then obtain away where
    "round_away mode (\<bar>n smod d\<bar> * 2) \<bar>d\<bar> (n sdiv d) = Inr away" ..
  with fits d(1) show ?thesis
    by (cases away) (auto simp: divide_rounded_def checked_div_def checked_rem_def fit_def)
qed

text \<open>The contract determines the quotient.\<close>

lemma multiple_close:
  fixes d x y :: int
  assumes "\<bar>x * d - y * d\<bar> < \<bar>d\<bar>"
  shows "x = y"
proof (rule ccontr)
  assume "x \<noteq> y"
  then have "1 * \<bar>d\<bar> \<le> \<bar>x - y\<bar> * \<bar>d\<bar>" by (intro mult_right_mono) auto
  with assms show False by (simp add: abs_mult [symmetric] left_diff_distrib)
qed

lemma multiple_far: "x * d = 0 \<or> \<bar>d\<bar> \<le> \<bar>x * (d::int)\<bar>"
  using multiple_close [of x d 0] by force

lemma multiple_adjacent:
  fixes d x y :: int
  assumes "\<bar>x * d - y * d\<bar> = \<bar>d\<bar>" and "d \<noteq> 0"
  shows "x = y + 1 \<or> x = y - 1"
proof -
  from assms(1) have "\<bar>x - y\<bar> * \<bar>d\<bar> = 1 * \<bar>d\<bar>"
    by (simp add: abs_mult [symmetric] left_diff_distrib)
  with assms(2) have "\<bar>x - y\<bar> = 1" by simp
  then show ?thesis by auto
qed

lemma rounds_to_unique:
  assumes d: "d \<noteq> 0" and q: "rounds_to mode n d q" and q': "rounds_to mode n d q'"
  shows "q = q'"
proof (rule ccontr)
  assume neq: "q \<noteq> q'"
  then have far: "\<bar>d\<bar> \<le> \<bar>q * d - q' * d\<bar>"
    using multiple_close [of q d q'] by force
  show False
  proof (cases mode)
    case TowardZero
    with q q' far show False
      by (simp add: rounds_to_def) linarith
  next
    case HalfUp
    with q q' far multiple_far [of q d] multiple_far [of q' d] d show False
      by (simp add: rounds_to_def) (smt (verit))
  next
    case HalfEven
    with q q' have le: "2 * \<bar>n - q * d\<bar> \<le> \<bar>d\<bar>" "2 * \<bar>n - q' * d\<bar> \<le> \<bar>d\<bar>"
      and even: "2 * \<bar>n - q * d\<bar> = \<bar>d\<bar> \<Longrightarrow> even q"
        "2 * \<bar>n - q' * d\<bar> = \<bar>d\<bar> \<Longrightarrow> even q'"
      by (simp_all add: rounds_to_def)
    from le far have "\<bar>q * d - q' * d\<bar> = \<bar>d\<bar>" by (smt (verit))
    moreover from le far have "2 * \<bar>n - q * d\<bar> = \<bar>d\<bar>" by (smt (verit))
    moreover from le far have "2 * \<bar>n - q' * d\<bar> = \<bar>d\<bar>" by (smt (verit))
    ultimately show False using multiple_adjacent [OF _ d, of q q'] even by auto
  qed
qed

text \<open>A rounded quotient stays between integer bounds of the exact quotient.\<close>

lemma rounds_to_between:
  assumes "rounds_to mode n d q" and d: "0 < d"
  shows "a * d \<le> n \<Longrightarrow> a \<le> q" and "n \<le> b * d \<Longrightarrow> q \<le> b"
proof -
  have close: "\<bar>n - q * d\<bar> < d"
    using assms by (cases mode) (auto simp: rounds_to_def)
  show "a \<le> q" if "a * d \<le> n"
  proof (rule ccontr)
    assume "\<not> a \<le> q"
    then have "(q + 1) * d \<le> a * d" using d by (intro mult_right_mono) auto
    with that close show False by (simp add: distrib_right)
  qed
  show "q \<le> b" if "n \<le> b * d"
  proof (rule ccontr)
    assume "\<not> q \<le> b"
    then have "(b + 1) * d \<le> q * d" using d by (intro mult_right_mono) auto
    with that close show False by (simp add: distrib_right)
  qed
qed

section \<open>Amounts\<close>

record money =
  minor :: int
  currency :: currency

text \<open>The range a Rust \<open>Money\<close> value always has.\<close>

definition wf_money :: "money \<Rightarrow> bool" where
  "wf_money m \<longleftrightarrow> in_i64 (minor m)"

definition from_minor :: "int \<Rightarrow> currency \<Rightarrow> money" where
  "from_minor n c = \<lparr>minor = n, currency = c\<rparr>"

definition money_zero :: "currency \<Rightarrow> money" where
  "money_zero c = \<lparr>minor = 0, currency = c\<rparr>"

definition from_major :: "int \<Rightarrow> currency \<Rightarrow> money_error + money" where
  "from_major major c =
     and_then (ok_or Overflow (fit in_i64 (major * minor_per_major c)))
       (\<lambda>n. Inr \<lparr>minor = n, currency = c\<rparr>)"

definition is_zero :: "money \<Rightarrow> bool" where
  "is_zero m \<longleftrightarrow> minor m = 0"

definition is_positive :: "money \<Rightarrow> bool" where
  "is_positive m \<longleftrightarrow> minor m > 0"

definition is_negative :: "money \<Rightarrow> bool" where
  "is_negative m \<longleftrightarrow> minor m < 0"

definition assert_same_currency :: "money \<Rightarrow> money \<Rightarrow> money_error + unit" where
  "assert_same_currency a b =
     (if currency a = currency b then Inr ()
      else Inl (CurrencyMismatch (currency a) (currency b)))"

definition checked_add :: "money \<Rightarrow> money \<Rightarrow> money_error + money" where
  "checked_add a b =
     and_then (assert_same_currency a b) (\<lambda>_.
     and_then (ok_or Overflow (fit in_i64 (minor a + minor b))) (\<lambda>n.
     Inr \<lparr>minor = n, currency = currency a\<rparr>))"

definition checked_sub :: "money \<Rightarrow> money \<Rightarrow> money_error + money" where
  "checked_sub a b =
     and_then (assert_same_currency a b) (\<lambda>_.
     and_then (ok_or Overflow (fit in_i64 (minor a - minor b))) (\<lambda>n.
     Inr \<lparr>minor = n, currency = currency a\<rparr>))"

definition checked_mul :: "money \<Rightarrow> int \<Rightarrow> money_error + money" where
  "checked_mul a factor =
     and_then (ok_or Overflow (fit in_i64 (minor a * factor))) (\<lambda>n.
     Inr \<lparr>minor = n, currency = currency a\<rparr>)"

definition checked_neg :: "money \<Rightarrow> money_error + money" where
  "checked_neg a =
     and_then (ok_or Overflow (fit in_i64 (- minor a))) (\<lambda>n.
     Inr \<lparr>minor = n, currency = currency a\<rparr>)"

definition checked_abs :: "money \<Rightarrow> money_error + money" where
  "checked_abs a =
     and_then (ok_or Overflow (fit in_i64 \<bar>minor a\<bar>)) (\<lambda>n.
     Inr \<lparr>minor = n, currency = currency a\<rparr>)"

definition try_sum :: "money list \<Rightarrow> currency \<Rightarrow> money_error + money" where
  "try_sum amounts c = try_fold checked_add (money_zero c) amounts"

definition mul_ratio :: "money \<Rightarrow> int \<Rightarrow> int \<Rightarrow> rounding \<Rightarrow> money_error + money" where
  "mul_ratio m numerator denominator mode =
     and_then (ok_or Overflow (fit in_i128 (minor m * numerator))) (\<lambda>product.
     and_then (divide_rounded product denominator mode) (\<lambda>scaled.
     and_then (ok_or Overflow (fit in_i64 scaled)) (\<lambda>n.
     Inr \<lparr>minor = n, currency = currency m\<rparr>)))"

definition apply_rate :: "money \<Rightarrow> rate \<Rightarrow> rounding \<Rightarrow> money_error + money" where
  "apply_rate m r mode = mul_ratio m (basis_points r) basis_points_per_unit mode"


subsection \<open>Inversion of the checked operations\<close>

text \<open>
  Each checked operation succeeds exactly when its exact result is representable (and the
  currencies agree), and then returns that exact result.
\<close>

lemma money_eq_iff: "a = b \<longleftrightarrow> minor a = minor b \<and> currency a = currency b"
  for a b :: money
  by (cases a; cases b) simp

lemma assert_same_currency_Inr_iff [res_simps]:
  "assert_same_currency a b = Inr u \<longleftrightarrow> currency a = currency b"
  by (simp add: assert_same_currency_def)

lemma checked_add_Inr_iff [res_simps]:
  "checked_add a b = Inr c \<longleftrightarrow> currency a = currency b \<and> in_i64 (minor a + minor b)
     \<and> c = \<lparr>minor = minor a + minor b, currency = currency a\<rparr>"
  by (auto simp: checked_add_def res_simps)

lemma checked_sub_Inr_iff [res_simps]:
  "checked_sub a b = Inr c \<longleftrightarrow> currency a = currency b \<and> in_i64 (minor a - minor b)
     \<and> c = \<lparr>minor = minor a - minor b, currency = currency a\<rparr>"
  by (auto simp: checked_sub_def res_simps)

lemma checked_mul_Inr_iff [res_simps]:
  "checked_mul a k = Inr c \<longleftrightarrow> in_i64 (minor a * k)
     \<and> c = \<lparr>minor = minor a * k, currency = currency a\<rparr>"
  by (auto simp: checked_mul_def res_simps)

lemma checked_neg_Inr_iff [res_simps]:
  "checked_neg a = Inr c \<longleftrightarrow> in_i64 (- minor a)
     \<and> c = \<lparr>minor = - minor a, currency = currency a\<rparr>"
  by (auto simp: checked_neg_def res_simps)

lemma checked_abs_Inr_iff [res_simps]:
  "checked_abs a = Inr c \<longleftrightarrow> in_i64 \<bar>minor a\<bar>
     \<and> c = \<lparr>minor = \<bar>minor a\<bar>, currency = currency a\<rparr>"
  by (auto simp: checked_abs_def res_simps)

lemma mul_ratio_Inr:
  assumes "mul_ratio m num den mode = Inr r"
  shows "den \<noteq> 0" and "rounds_to mode (minor m * num) den (minor r)"
    and "currency r = currency m" and "wf_money r"
  using assms divide_rounded_sound [of "minor m * num" den mode "minor r"]
  by (auto simp: mul_ratio_def res_simps wf_money_def)

lemma wf_money_ops:
  "checked_add a b = Inr c \<Longrightarrow> wf_money c"
  "checked_sub a b = Inr c \<Longrightarrow> wf_money c"
  "checked_mul a k = Inr c \<Longrightarrow> wf_money c"
  "checked_neg a = Inr c \<Longrightarrow> wf_money c"
  "checked_abs a = Inr c \<Longrightarrow> wf_money c"
  by (auto simp: res_simps wf_money_def)

lemma wf_money_zero [simp]: "wf_money (money_zero c)"
  by (simp add: wf_money_def money_zero_def)

lemma money_zero_sel [simp]: "minor (money_zero c) = 0" "currency (money_zero c) = c"
  by (simp_all add: money_zero_def)

text \<open>A sum that succeeds is the exact sum, in the currency asked for.\<close>

lemma try_sum_fold:
  assumes "try_fold checked_add a ms = Inr t"
  shows "minor t = minor a + sum_list (map minor ms) \<and> currency t = currency a
     \<and> (\<forall>m \<in> set ms. currency m = currency a)"
  using assms
proof (induction ms arbitrary: a)
  case (Cons m ms)
  then obtain a' where "checked_add a m = Inr a'" and t: "try_fold checked_add a' ms = Inr t"
    by (auto simp: res_simps)
  then show ?case using Cons.IH [OF t] by (auto simp: res_simps)
qed simp

lemma try_sum_Inr:
  assumes "try_sum ms c = Inr t"
  shows "minor t = sum_list (map minor ms)" and "currency t = c"
    and "m \<in> set ms \<Longrightarrow> currency m = c"
  using try_sum_fold [of "money_zero c" ms t] assms by (auto simp: try_sum_def)

lemma try_sum_wf: "try_sum ms c = Inr t \<Longrightarrow> wf_money t"
  unfolding try_sum_def
  by (rule try_fold_invariant [where P = wf_money]) (auto dest: wf_money_ops)

text \<open>A running total over amounts that are computed on the way.\<close>

lemma try_fold_add_sum:
  assumes "try_fold (\<lambda>t x. and_then (g x) (\<lambda>m. map_err e (checked_add t m))) z xs = Inr t"
  shows "\<exists>ms. list_all2 (\<lambda>x m. g x = Inr m) xs ms \<and> minor t = minor z + sum_list (map minor ms)
    \<and> currency t = currency z"
  using assms
proof (induction xs arbitrary: z)
  case (Cons x xs)
  from Cons.prems obtain m z' where m: "g x = Inr m" and z': "checked_add z m = Inr z'"
    and r: "try_fold (\<lambda>t x. and_then (g x) (\<lambda>m. map_err e (checked_add t m))) z' xs = Inr t"
    by (simp only: try_fold.simps and_then_Inr_iff map_err_Inr_iff) blast
  from z' have z: "minor z' = minor z + minor m" "currency z' = currency z" by (auto simp: res_simps)
  from Cons.IH [OF r] obtain ms where "list_all2 (\<lambda>x m. g x = Inr m) xs ms"
    "minor t = minor z' + sum_list (map minor ms)" "currency t = currency z'" by blast
  with m z show ?case by (intro exI [of _ "m # ms"]) simp
qed simp

text \<open>Amounts in the examples.\<close>

definition taka :: "int \<Rightarrow> money" where
  "taka n = \<lparr>minor = n, currency = Bdt\<rparr>"

end
