(* ===== verification/Allocation.thy ===== *)
theory Allocation
  imports Money
begin

text \<open>
  \<open>Money::allocate\<close> and \<open>Money::split\<close> of \<open>money/amount.rs\<close>: an amount is divided
  across weights by largest remainders.  The lemmas show that the parts always sum to
  the amount, that every part is the exact proportional share rounded down or up, that a
  part of weight zero gets nothing, and exactly when the operation returns an error.
\<close>

section \<open>Definitions\<close>

definition u128_sum :: "int list \<Rightarrow> money_error + int" where
  "u128_sum xs = try_fold (\<lambda>acc x. ok_or Overflow (fit in_u128 (acc + x))) 0 xs"

text \<open>One turn of the loop over the weights: the truncated share and its remainder.\<close>

definition share_and_remainder :: "int \<Rightarrow> int \<Rightarrow> int \<Rightarrow> money_error + int \<times> int" where
  "share_and_remainder magnitude total_weight weight =
     and_then (ok_or Overflow (fit in_u128 (magnitude * weight))) (\<lambda>product.
     and_then (ok_or DivisionByZero (checked_div in_u128 product total_weight)) (\<lambda>share.
     and_then (ok_or DivisionByZero (checked_rem in_u128 product total_weight)) (\<lambda>remainder.
     Inr (share, remainder))))"

text \<open>The indices by decreasing remainder, ties by position.\<close>

definition leftover_order :: "int list \<Rightarrow> nat \<Rightarrow> nat list" where
  "leftover_order remainders n = sort_key (\<lambda>i. (- get_or remainders i 0, i)) [0..<n]"

definition give_unit :: "int list \<Rightarrow> nat \<Rightarrow> money_error + int list" where
  "give_unit shares i =
     (if i < length shares
      then and_then (ok_or Overflow (fit in_u128 (shares ! i + 1))) (\<lambda>v. Inr (shares[i := v]))
      else Inr shares)"

definition to_part :: "money \<Rightarrow> int \<Rightarrow> money_error + money" where
  "to_part m share =
     and_then (ok_or Overflow (fit in_i64 share)) (\<lambda>v.
     and_then (if minor m < 0 then ok_or Overflow (fit in_i64 (- v)) else Inr v) (\<lambda>n.
     Inr \<lparr>minor = n, currency = currency m\<rparr>))"

definition usize_max :: int where
  "usize_max = 2 ^ 64 - 1"

definition allocate :: "money \<Rightarrow> int list \<Rightarrow> money_error + money list" where
  "allocate m weights =
     (if weights = [] then Inl InvalidWeights
      else
        and_then (u128_sum weights) (\<lambda>total_weight.
        if total_weight = 0 then Inl InvalidWeights
        else
          let magnitude = \<bar>minor m\<bar> in
          and_then (try_map (share_and_remainder magnitude total_weight) weights) (\<lambda>pairs.
          let shares = map fst pairs; remainders = map snd pairs in
          and_then (u128_sum shares) (\<lambda>distributed.
          and_then (ok_or Overflow (fit in_u128 (magnitude - distributed))) (\<lambda>leftover.
          let leftover_parts = nat (if leftover \<le> usize_max then leftover else usize_max) in
          and_then
            (if leftover_parts > 0
             then try_fold give_unit shares
                    (take leftover_parts (leftover_order remainders (length shares)))
             else Inr shares) (\<lambda>final.
          try_map (to_part m) final))))))"

definition split :: "money \<Rightarrow> nat \<Rightarrow> money_error + money list" where
  "split m parts =
     (if parts = 0 then Inl InvalidWeights else allocate m (replicate parts 1))"

section \<open>The arithmetic of largest remainders\<close>

text \<open>The share and the remainder a weight is due, and the units left after truncation.\<close>

definition due :: "int \<Rightarrow> int list \<Rightarrow> nat \<Rightarrow> int" where
  "due a ws i = a * ws ! i div sum_list ws"

definition due_rem :: "int \<Rightarrow> int list \<Rightarrow> nat \<Rightarrow> int" where
  "due_rem a ws i = a * ws ! i mod sum_list ws"

definition left_over :: "int \<Rightarrow> int list \<Rightarrow> int" where
  "left_over a ws = a - (\<Sum>i<length ws. due a ws i)"

lemma left_over_times:
  "left_over a ws * sum_list ws = (\<Sum>i<length ws. due_rem a ws i)"
proof -
  have "(\<Sum>i<length ws. a * ws ! i) = a * sum_list ws"
    by (simp add: sum_list_sum_nth atLeast0LessThan sum_distrib_left)
  moreover have "(\<Sum>i<length ws. a * ws ! i)
      = (\<Sum>i<length ws. due a ws i) * sum_list ws + (\<Sum>i<length ws. due_rem a ws i)"
    by (simp add: due_def due_rem_def sum_distrib_right sum.distrib [symmetric])
  ultimately show ?thesis
    by (simp add: left_over_def left_diff_distrib)
qed

lemma rest_bounds:
  assumes "0 < sum_list ws"
  shows "0 \<le> due_rem a ws i" and "due_rem a ws i < sum_list ws"
  using assms by (simp_all add: due_rem_def)

lemma left_over_nonneg:
  assumes "0 < sum_list ws"
  shows "0 \<le> left_over a ws"
proof -
  have "0 \<le> left_over a ws * sum_list ws"
    using assms by (simp add: left_over_times sum_nonneg rest_bounds)
  with assms show ?thesis by (simp add: zero_le_mult_iff)
qed

text \<open>There are at least as many nonzero remainders as there are units left.\<close>

lemma left_over_le_nonzero:
  assumes "0 < sum_list ws"
  shows "nat (left_over a ws) \<le> card {i. i < length ws \<and> due_rem a ws i \<noteq> 0}"
proof -
  let ?N = "{i. i < length ws \<and> due_rem a ws i \<noteq> 0}"
  have "left_over a ws * sum_list ws = (\<Sum>i \<in> ?N. due_rem a ws i)"
    unfolding left_over_times by (rule sum.mono_neutral_right) auto
  also have "\<dots> \<le> (\<Sum>i \<in> ?N. sum_list ws)"
    using rest_bounds [OF assms] by (intro sum_mono) (auto intro: less_imp_le)
  also have "\<dots> = int (card ?N) * sum_list ws" by simp
  finally have "left_over a ws \<le> int (card ?N)"
    using assms by simp
  then show ?thesis by simp
qed

section \<open>The order of the leftover units\<close>

lemma set_leftover_order [simp]: "set (leftover_order rs n) = {..<n}"
  by (auto simp: leftover_order_def)

lemma distinct_leftover_order [simp]: "distinct (leftover_order rs n)"
  by (simp add: leftover_order_def)

lemma length_leftover_order [simp]: "length (leftover_order rs n) = n"
  by (simp add: leftover_order_def)

lemma leftover_order_decreasing:
  assumes "i \<le> j" and "j < n" and "n = length rs"
  shows "rs ! (leftover_order rs n ! j) \<le> rs ! (leftover_order rs n ! i)"
proof -
  let ?o = "leftover_order rs n" and ?k = "\<lambda>i. (- get_or rs i 0, i)"
  have "sorted (map ?k ?o)" by (simp add: leftover_order_def)
  then have "map ?k ?o ! i \<le> map ?k ?o ! j"
    using assms by (intro sorted_nth_mono) auto
  then have "- get_or rs (?o ! i) 0 \<le> - get_or rs (?o ! j) 0"
    using assms by (auto simp: less_eq_prod_def)
  moreover have "?o ! i < n" "?o ! j < n"
    using assms nth_mem [of _ ?o] by (auto simp del: nth_mem)
  ultimately show ?thesis using assms(3) by (simp add: get_or_def)
qed

lemma leftover_order_nonzero:
  assumes n: "n = length rs" and nonneg: "\<forall>r \<in> set rs. 0 \<le> r"
    and k: "k \<le> card {i. i < n \<and> rs ! i \<noteq> 0}"
    and i: "i \<in> set (take k (leftover_order rs n))"
  shows "rs ! i \<noteq> 0"
proof
  let ?o = "leftover_order rs n"
  assume zero: "rs ! i = 0"
  from i obtain p where p: "p < k" "p < n" "?o ! p = i"
    by (auto simp: in_set_conv_nth)
  have "{i. i < n \<and> rs ! i \<noteq> 0} \<subseteq> set (take p ?o)"
  proof
    fix j assume j: "j \<in> {i. i < n \<and> rs ! i \<noteq> 0}"
    then have "j \<in> set ?o" by simp
    then obtain q where q: "q < n" "?o ! q = j"
      by (auto simp: in_set_conv_nth simp del: set_leftover_order)
    have "q < p"
    proof (rule ccontr)
      assume "\<not> q < p"
      then have "rs ! j \<le> rs ! i"
        using leftover_order_decreasing [of p q n rs] p q n by simp
      with zero nonneg j n nth_mem [of j rs] show False by fastforce
    qed
    with q show "j \<in> set (take p ?o)"
      using n by (auto simp: in_set_conv_nth)
  qed
  then have "card {i. i < n \<and> rs ! i \<noteq> 0} \<le> card (set (take p ?o))"
    by (intro card_mono) auto
  also have "\<dots> \<le> p" using card_length [of "take p ?o"] by simp
  finally show False using k p by simp
qed

section \<open>The loops\<close>

lemma u128_sum_Inr: "u128_sum xs = Inr s \<Longrightarrow> s = sum_list xs"
proof -
  assume s: "u128_sum xs = Inr s"
  have "try_fold (\<lambda>acc x. ok_or Overflow (fit in_u128 (acc + x))) a xs = Inr s
      \<Longrightarrow> s = a + sum_list xs" for a
    by (induction xs arbitrary: a) (force simp: res_simps)+
  from this [of 0] s show ?thesis by (simp add: u128_sum_def)
qed

lemma u128_sum_ok:
  assumes "\<forall>x \<in> set xs. 0 \<le> x" and "sum_list xs < 2 ^ 128"
  shows "u128_sum xs = Inr (sum_list xs)"
proof -
  have "0 \<le> a \<Longrightarrow> \<forall>x \<in> set xs. 0 \<le> x \<Longrightarrow> a + sum_list xs < 2 ^ 128 \<Longrightarrow>
      try_fold (\<lambda>acc x. ok_or Overflow (fit in_u128 (acc + x))) a xs = Inr (a + sum_list xs)" for a
  proof (induction xs arbitrary: a)
    case (Cons x xs)
    have "0 \<le> sum_list xs" using Cons.prems(2) by (intro sum_list_nonneg) auto
    with Cons.prems have "in_u128 (a + x)" by (simp add: in_u128_def)
    with Cons.prems Cons.IH [of "a + x"] show ?case by (simp add: fit_def add.assoc)
  qed simp
  from this [of 0] assms show ?thesis by (simp add: u128_sum_def)
qed

lemma sdiv_smod_nonneg:
  fixes a b :: int
  assumes "0 \<le> a" and "0 < b"
  shows "a sdiv b = a div b" and "a smod b = a mod b"
  using assms by (cases "a = 0"; simp add: signed_divide_int_def signed_modulo_int_def)+

lemma share_and_remainder_eq:
  assumes a: "0 \<le> a" "a \<le> 2 ^ 63" and w: "in_u64 w" and t: "0 < t"
  shows "share_and_remainder a t w = Inr (a * w div t, a * w mod t)"
proof -
  have "a * w \<le> 2 ^ 63 * 2 ^ 64"
    by (rule mult_mono) (use a w in \<open>simp_all add: in_u64_def\<close>)
  moreover have "0 \<le> a * w" using a w by (simp add: in_u64_def)
  ultimately have p: "in_u128 (a * w)" and nn: "0 \<le> a * w"
    by (simp_all add: in_u128_def)
  have "a * w div t \<le> a * w"
    using nn t zdiv_mono2 [of "a * w" 1 t] by simp
  then have "in_u128 (a * w div t)"
    using p nn t by (simp add: in_u128_def pos_imp_zdiv_nonneg_iff)
  with p nn t show ?thesis
    by (simp add: share_and_remainder_def checked_div_def checked_rem_def sdiv_smod_nonneg fit_def)
qed

lemma give_units_Inr:
  assumes "try_fold give_unit ss idx = Inr ss'" and "distinct idx"
    and "\<forall>i \<in> set idx. i < length ss"
  shows "length ss' = length ss
     \<and> (\<forall>i < length ss. ss' ! i = ss ! i + (if i \<in> set idx then 1 else 0))"
  using assms
proof (induction idx arbitrary: ss)
  case (Cons k idx)
  then obtain ss1 where "give_unit ss k = Inr ss1" and "try_fold give_unit ss1 idx = Inr ss'"
    by (auto simp: res_simps)
  moreover from this(1) Cons.prems(3) have "ss1 = ss[k := ss ! k + 1]"
    by (auto simp: give_unit_def res_simps)
  ultimately have "try_fold give_unit (ss[k := ss ! k + 1]) idx = Inr ss'" by simp
  with Cons.IH [of "ss[k := ss ! k + 1]"] Cons.prems(2,3) show ?case
    by (auto simp: nth_list_update)
qed simp

lemma give_units_ok:
  assumes "\<forall>i < length ss. 0 \<le> ss ! i \<and> ss ! i + 1 < 2 ^ 128" and "distinct idx"
  shows "\<exists>ss'. try_fold give_unit ss idx = Inr ss'"
proof -
  have "distinct idx \<Longrightarrow> \<forall>i < length ss. i \<in> set idx \<longrightarrow> 0 \<le> ss ! i \<and> ss ! i + 1 < 2 ^ 128 \<Longrightarrow>
      \<exists>ss'. try_fold give_unit ss idx = Inr ss'" for ss
  proof (induction idx arbitrary: ss)
    case (Cons k idx)
    show ?case
    proof (cases "k < length ss")
      case True
      with Cons.prems(2) have "in_u128 (ss ! k + 1)" by (simp add: in_u128_def)
      with True Cons show ?thesis by (simp add: give_unit_def fit_def nth_list_update)
    qed (use Cons in \<open>simp add: give_unit_def\<close>)
  qed simp
  with assms show ?thesis by blast
qed

lemma to_part_Inr:
  assumes "to_part m s = Inr p"
  shows "minor p = (if minor m < 0 then - s else s)" and "currency p = currency m"
    and "wf_money p"
  using assms by (auto simp: to_part_def res_simps wf_money_def split: if_splits)

lemma to_part_ok: "0 \<le> s \<Longrightarrow> s < 2 ^ 63 \<Longrightarrow> \<exists>p. to_part m s = Inr p"
  by (simp add: to_part_def fit_def in_i64_def)

section \<open>What allocation returns\<close>

text \<open>The indices that receive a leftover unit, and the final share of each index.\<close>

definition lucky :: "int \<Rightarrow> int list \<Rightarrow> nat set" where
  "lucky a ws = set (take (nat (left_over a ws))
     (leftover_order (map (due_rem a ws) [0..<length ws]) (length ws)))"

definition final_share :: "int \<Rightarrow> int list \<Rightarrow> nat \<Rightarrow> int" where
  "final_share a ws i = due a ws i + (if i \<in> lucky a ws then 1 else 0)"

lemma left_over_le_length:
  assumes "0 < sum_list ws"
  shows "nat (left_over a ws) \<le> length ws"
proof -
  have "card {i. i < length ws \<and> due_rem a ws i \<noteq> 0} \<le> card {..<length ws}"
    by (intro card_mono) auto
  with left_over_le_nonzero [OF assms, of a] show ?thesis by simp
qed

lemma card_lucky:
  assumes "0 < sum_list ws"
  shows "lucky a ws \<subseteq> {..<length ws}" and "card (lucky a ws) = nat (left_over a ws)"
proof -
  show "lucky a ws \<subseteq> {..<length ws}"
    using set_take_subset [of _ "leftover_order (map (due_rem a ws) [0..<length ws]) (length ws)"]
    by (auto simp: lucky_def)
  show "card (lucky a ws) = nat (left_over a ws)"
    using left_over_le_length [OF assms, of a]
    by (simp add: lucky_def distinct_card)
qed

lemma lucky_rest:
  assumes "0 < sum_list ws" and "i \<in> lucky a ws"
  shows "due_rem a ws i \<noteq> 0"
proof -
  let ?rs = "map (due_rem a ws) [0..<length ws]"
  have i: "i < length ws" using card_lucky(1) [OF assms(1)] assms(2) by auto
  have "{i. i < length ws \<and> ?rs ! i \<noteq> 0} = {i. i < length ws \<and> due_rem a ws i \<noteq> 0}"
    by auto
  then have "?rs ! i \<noteq> 0"
    using leftover_order_nonzero [of "length ws" ?rs "nat (left_over a ws)" i]
      left_over_le_nonzero [OF assms(1), of a] assms(2) rest_bounds(1) [OF assms(1)]
    by (auto simp: lucky_def)
  with i show ?thesis by simp
qed

lemma final_share_zero:
  assumes "0 < sum_list ws"
  shows "final_share 0 ws i = 0"
  by (simp add: final_share_def lucky_def left_over_def due_def)

lemma sum_final_share:
  assumes "0 < sum_list ws"
  shows "(\<Sum>i<length ws. final_share a ws i) = a"
proof -
  have "(\<Sum>i<length ws. if i \<in> lucky a ws then 1 else (0::int)) = int (card (lucky a ws))"
    using card_lucky(1) [OF assms, of a]
    by (simp add: sum.If_cases Int_absorb1)
  also have "\<dots> = left_over a ws"
    using card_lucky(2) [OF assms, of a] left_over_nonneg [OF assms, of a] by simp
  finally show ?thesis
    by (simp add: final_share_def sum.distrib left_over_def)
qed

lemma final_share_bounds:
  assumes t: "0 < sum_list ws" and a: "0 \<le> a" and w: "\<forall>w \<in> set ws. 0 \<le> w" and i: "i < length ws"
  shows "0 \<le> final_share a ws i" and "final_share a ws i \<le> a"
proof -
  have nn: "0 \<le> final_share a ws j" if "j < length ws" for j
    using t a w that nth_mem [OF that]
    by (simp add: final_share_def due_def pos_imp_zdiv_nonneg_iff)
  then show "0 \<le> final_share a ws i" using i .
  have "final_share a ws i \<le> (\<Sum>j<length ws. final_share a ws j)"
    using i nn by (intro member_le_sum) auto
  then show "final_share a ws i \<le> a" by (simp add: sum_final_share [OF t])
qed

lemma final_share_le_weight:
  assumes t: "0 < sum_list ws" and "a \<le> sum_list ws" and w: "0 \<le> ws ! i"
  shows "final_share a ws i \<le> ws ! i"
proof -
  have le: "a * ws ! i \<le> ws ! i * sum_list ws"
    using assms(2) w by (simp add: mult.commute mult_right_mono)
  then have due: "due a ws i \<le> ws ! i"
    using zdiv_mono1 [OF le t] t by (simp add: due_def)
  show ?thesis
  proof (cases "i \<in> lucky a ws")
    case True
    have "due a ws i * sum_list ws < ws ! i * sum_list ws"
      using le lucky_rest [OF t True] rest_bounds(1) [OF t, of a i]
        div_mult_mod_eq [of "a * ws ! i" "sum_list ws"]
      unfolding due_def due_rem_def by linarith
    then have "due a ws i < ws ! i" using t by simp
    with True show ?thesis by (simp add: final_share_def)
  qed (use due in \<open>simp add: final_share_def\<close>)
qed

lemma give_leftover:
  fixes a :: int and ws :: "int list"
  defines "shares \<equiv> map (due a ws) [0..<length ws]"
    and "order \<equiv> leftover_order (map (due_rem a ws) [0..<length ws]) (length ws)"
  assumes t: "0 < sum_list ws" and a: "0 \<le> a" "a \<le> 2 ^ 63" and nn: "\<forall>w \<in> set ws. 0 \<le> w"
  shows "(if nat (left_over a ws) > 0
      then try_fold give_unit shares (take (nat (left_over a ws)) order)
      else Inr shares) = Inr (map (final_share a ws) [0..<length ws])"
proof (cases "nat (left_over a ws) > 0")
  case False
  then have "lucky a ws = {}" by (simp add: lucky_def)
  with False show ?thesis by (simp add: shares_def final_share_def)
next
  case True
  let ?idx = "take (nat (left_over a ws)) order"
  have lucky: "set ?idx = lucky a ws" by (simp add: lucky_def order_def)
  have "0 \<le> shares ! i \<and> shares ! i + 1 < 2 ^ 128" if "i < length shares" for i
  proof -
    have "due a ws i \<le> final_share a ws i" by (simp add: final_share_def)
    with that final_share_bounds [OF t a(1) nn, of i] a show ?thesis
      by (auto simp: shares_def due_def pos_imp_zdiv_nonneg_iff t nn)
  qed
  then obtain ss where ss: "try_fold give_unit shares ?idx = Inr ss"
    using give_units_ok [of shares ?idx] by (auto simp: order_def)
  have "distinct ?idx" by (simp add: order_def)
  moreover have "\<forall>i \<in> set ?idx. i < length shares"
    unfolding lucky using card_lucky(1) [OF t, of a] by (auto simp: shares_def)
  ultimately have "length ss = length shares
      \<and> (\<forall>i < length shares. ss ! i = shares ! i + (if i \<in> lucky a ws then 1 else 0))"
    using give_units_Inr [OF ss] lucky by simp
  then have "ss = map (final_share a ws) [0..<length ws]"
    by (intro nth_equalityI) (simp_all add: shares_def final_share_def)
  with True ss show ?thesis by simp
qed

lemma allocate_eq:
  assumes m: "wf_money m" and w: "\<forall>w \<in> set ws. in_u64 w" and t: "0 < sum_list ws"
    and fits: "sum_list ws < 2 ^ 128"
  shows "allocate m ws = try_map (to_part m) (map (final_share \<bar>minor m\<bar> ws) [0..<length ws])"
proof -
  let ?a = "\<bar>minor m\<bar>" and ?t = "sum_list ws" and ?n = "length ws"
  let ?shares = "map (due ?a ws) [0..<?n]" and ?rs = "map (due_rem ?a ws) [0..<?n]"
  have a: "0 \<le> ?a" "?a \<le> 2 ^ 63" using m by (auto simp: wf_money_def in_i64_def)
  have nn: "\<forall>w \<in> set ws. 0 \<le> w" using w by (simp add: in_u64_def)
  have pairs: "try_map (share_and_remainder ?a ?t) ws = Inr (map (\<lambda>w. (?a * w div ?t, ?a * w mod ?t)) ws)"
    using share_and_remainder_eq [OF a _ t] w by (intro try_map_all_ok) auto
  have shares: "map (\<lambda>w. ?a * w div ?t) ws = ?shares" "map (\<lambda>w. ?a * w mod ?t) ws = ?rs"
    by (auto simp: due_def due_rem_def intro: nth_equalityI)
  have due_nn: "\<forall>x \<in> set ?shares. 0 \<le> x"
    using t a nn by (auto simp: due_def pos_imp_zdiv_nonneg_iff)
  have sum_due: "sum_list ?shares = ?a - left_over ?a ws"
    by (simp add: left_over_def interv_sum_list_conv_sum_set_nat atLeast0LessThan)
  have lo: "0 \<le> left_over ?a ws" "left_over ?a ws \<le> ?a"
  proof -
    show "0 \<le> left_over ?a ws" by (rule left_over_nonneg [OF t])
    have "0 \<le> sum_list ?shares" using due_nn by (intro sum_list_nonneg) blast
    then show "left_over ?a ws \<le> ?a" unfolding sum_due by linarith
  qed
  have dist: "u128_sum ?shares = Inr (?a - left_over ?a ws)"
    using u128_sum_ok [OF due_nn] sum_due lo a by simp
  have loops: "(if nat (left_over ?a ws) > 0
      then try_fold give_unit ?shares (take (nat (left_over ?a ws)) (leftover_order ?rs ?n))
      else Inr ?shares) = Inr (map (final_share ?a ws) [0..<?n])"
    by (rule give_leftover) (use t a nn in auto)
  have "left_over ?a ws \<le> usize_max" "in_u128 (left_over ?a ws)"
    using lo a by (auto simp: usize_max_def in_u128_def nat_le_iff)
  moreover have "fit in_u128 (?a - (?a - left_over ?a ws)) = Some (left_over ?a ws)"
    using calculation(2) by (simp add: fit_def)
  moreover have "ws \<noteq> []" "?t \<noteq> 0" using t by auto
  ultimately show ?thesis
    unfolding allocate_def Let_def u128_sum_ok [OF nn fits] and_then_simps pairs map_map comp_def
      fst_conv snd_conv shares dist ok_or_simps length_map length_upt
    by (simp only: if_False if_True simp_thms ok_or_simps and_then_simps loops minus_nat.diff_0)
qed

lemma u128_sum_range: "u128_sum xs = Inr s \<Longrightarrow> in_u128 s"
  unfolding u128_sum_def
  by (rule try_fold_invariant [where P = in_u128]) (auto simp: res_simps in_u128_def)

lemma allocate_Inr_weights:
  assumes "allocate m ws = Inr parts" and "\<forall>w \<in> set ws. in_u64 w"
  shows "ws \<noteq> []" and "0 < sum_list ws" and "sum_list ws < 2 ^ 128"
proof -
  from assms(1) show "ws \<noteq> []" by (auto simp: allocate_def)
  from assms(1) have "u128_sum ws = Inr (sum_list ws)" and "sum_list ws \<noteq> 0"
    by (auto simp: allocate_def res_simps dest: u128_sum_Inr split: if_splits)
  moreover have "0 \<le> sum_list ws"
    using assms(2) by (intro sum_list_nonneg) (auto simp: in_u64_def)
  ultimately show "0 < sum_list ws" and "sum_list ws < 2 ^ 128"
    by (auto dest!: u128_sum_range simp: in_u128_def)
qed

text \<open>Every part of a successful allocation, by its index.\<close>

lemma allocate_part:
  assumes m: "wf_money m" and w: "\<forall>w \<in> set ws. in_u64 w" and ok: "allocate m ws = Inr parts"
  shows "length parts = length ws"
    and "i < length ws \<Longrightarrow> minor (parts ! i)
      = (if minor m < 0 then - final_share \<bar>minor m\<bar> ws i else final_share \<bar>minor m\<bar> ws i)"
    and "i < length ws \<Longrightarrow> currency (parts ! i) = currency m \<and> wf_money (parts ! i)"
proof -
  have "try_map (to_part m) (map (final_share \<bar>minor m\<bar> ws) [0..<length ws]) = Inr parts"
    using allocate_eq [OF m w] allocate_Inr_weights [OF ok w] ok by simp
  note parts = try_map_length [OF this] try_map_nth [OF this, of i]
  show "length parts = length ws" using parts(1) by simp
  show "i < length ws \<Longrightarrow> minor (parts ! i)
      = (if minor m < 0 then - final_share \<bar>minor m\<bar> ws i else final_share \<bar>minor m\<bar> ws i)"
    and "i < length ws \<Longrightarrow> currency (parts ! i) = currency m \<and> wf_money (parts ! i)"
    using parts(2) to_part_Inr [of m "final_share \<bar>minor m\<bar> ws i" "parts ! i"] by auto
qed

lemma exact_sum:
  assumes "wf_money m" and "\<forall>w \<in> set ws. in_u64 w" and "allocate m ws = Inr parts"
  shows "sum_list (map minor parts) = minor m"
proof -
  note part = allocate_part [OF assms]
  have "sum_list (map minor parts) = (\<Sum>i<length ws. minor (parts ! i))"
    using part(1) by (simp add: sum_list_sum_nth atLeast0LessThan)
  also have "\<dots> = (\<Sum>i<length ws. sgn (minor m) * final_share \<bar>minor m\<bar> ws i)"
  proof (rule sum.cong [OF refl])
    fix i assume "i \<in> {..<length ws}"
    then show "minor (parts ! i) = sgn (minor m) * final_share \<bar>minor m\<bar> ws i"
      using part(2) [of i] final_share_zero [of ws i] allocate_Inr_weights [OF assms(3,2)]
      by (cases "minor m = 0") (auto simp: sgn_if)
  qed
  also have "\<dots> = minor m"
    using sum_final_share [OF allocate_Inr_weights(2) [OF assms(3,2)], of "\<bar>minor m\<bar>"]
    by (simp add: sum_distrib_left [symmetric] sgn_mult_abs)
  finally show ?thesis .
qed

section \<open>Properties\<close>

text \<open>C1: an allocation that succeeds returns one part per weight, every part in the amount's
  currency and in range, and the parts sum to exactly the amount: no minor unit is created
  or lost.\<close>

theorem allocate_exact:
  assumes "wf_money m" and "\<forall>w \<in> set ws. in_u64 w" and "allocate m ws = Inr parts"
  shows "length parts = length ws \<and> sum_list (map minor parts) = minor m
     \<and> (\<forall>i < length ws. currency (parts ! i) = currency m \<and> wf_money (parts ! i))"
  using exact_sum [OF assms] allocate_part [OF assms] by simp

lemma allocate_exact_witness:
  "allocate \<lparr>minor = 1000, currency = Bdt\<rparr> [1, 1, 1]
     = Inr [\<lparr>minor = 334, currency = Bdt\<rparr>, \<lparr>minor = 333, currency = Bdt\<rparr>,
            \<lparr>minor = 333, currency = Bdt\<rparr>]
   \<and> sum_list [334, 333, 333] = (1000 :: int)"
proof -
  let ?m = "\<lparr>minor = 1000, currency = Bdt\<rparr>"
  let ?ps = "[\<lparr>minor = 334, currency = Bdt\<rparr>, \<lparr>minor = 333, currency = Bdt\<rparr>,
            \<lparr>minor = 333, currency = Bdt\<rparr>]"
  have ok: "allocate ?m [1, 1, 1] = Inr ?ps" by code_simp
  have "wf_money ?m" "\<forall>w \<in> set [1, 1, 1]. in_u64 w"
    by (simp_all add: wf_money_def range_defs)
  from allocate_exact [OF this ok] ok show ?thesis by simp
qed

text \<open>Every part obeys the quota rule: its magnitude is the exact proportional share
  \<open>|amount| * weight / total\<close> rounded down or rounded up (so a part of weight zero is zero),
  and it has the sign of the amount.\<close>

theorem allocate_quota:
  assumes "wf_money m" and "\<forall>w \<in> set ws. in_u64 w" and "allocate m ws = Inr parts"
    and "i < length ws"
  shows "(\<bar>minor (parts ! i)\<bar> = \<bar>minor m\<bar> * ws ! i div sum_list ws
      \<or> \<bar>minor (parts ! i)\<bar> = - ((- (\<bar>minor m\<bar> * ws ! i)) div sum_list ws))
     \<and> 0 \<le> minor (parts ! i) * sgn (minor m)"
proof -
  note ws = allocate_Inr_weights [OF assms(3,2)]
  have nn: "\<forall>w \<in> set ws. 0 \<le> w" using assms(2) by (simp add: in_u64_def)
  let ?f = "final_share \<bar>minor m\<bar> ws i"
  have f0: "0 \<le> ?f" by (rule final_share_bounds [OF ws(2) _ nn assms(4)]) simp
  have up: "?f = - ((- (\<bar>minor m\<bar> * ws ! i)) div sum_list ws)" if "i \<in> lucky \<bar>minor m\<bar> ws"
    using lucky_rest [OF ws(2) that] that
      zdiv_zminus1_eq_if [of "sum_list ws" "\<bar>minor m\<bar> * ws ! i"] ws(2)
    by (simp add: final_share_def due_def due_rem_def)
  have down: "?f = \<bar>minor m\<bar> * ws ! i div sum_list ws" if "i \<notin> lucky \<bar>minor m\<bar> ws"
    using that by (simp add: final_share_def due_def)
  have mag: "\<bar>minor (parts ! i)\<bar> = ?f" and sg: "0 \<le> minor (parts ! i) * sgn (minor m)"
    using allocate_part(2) [OF assms(1,2,3), of i] assms(4) f0 by (auto simp: sgn_if)
  from mag sg up down show ?thesis by (cases "i \<in> lucky \<bar>minor m\<bar> ws") simp_all
qed

lemma allocate_quota_witness:
  "\<exists>parts. allocate \<lparr>minor = - 100, currency = Sar\<rparr> [1, 0, 2] = Inr parts
     \<and> \<bar>minor (parts ! 2)\<bar> = 67 \<and> minor (parts ! 1) = 0"
proof -
  let ?m = "\<lparr>minor = - 100, currency = Sar\<rparr>"
  let ?ps = "[\<lparr>minor = - 33, currency = Sar\<rparr>, \<lparr>minor = 0, currency = Sar\<rparr>,
            \<lparr>minor = - 67, currency = Sar\<rparr>]"
  have ok: "allocate ?m [1, 0, 2] = Inr ?ps" by code_simp
  have h: "wf_money ?m" "\<forall>w \<in> set [1, 0, 2]. in_u64 w"
    by (simp_all add: wf_money_def range_defs)
  show ?thesis
    using ok allocate_quota [OF h ok, of 1] allocate_quota [OF h ok, of 2] by simp
qed

text \<open>C2: allocation is total on real baskets: with at least one positive weight and an amount
  other than the least \<open>i64\<close> it returns parts, and the invalid-weights error is returned
  exactly for no weights or an all-zero weight vector.\<close>

theorem allocate_total:
  assumes "wf_money m" and "\<forall>w \<in> set ws. in_u64 w" and "sum_list ws < 2 ^ 128"
    and "minor m \<noteq> - (2 ^ 63)"
  shows "if ws = [] \<or> sum_list ws = 0 then allocate m ws = Inl InvalidWeights
    else \<exists>parts. allocate m ws = Inr parts"
proof -
  have nn: "\<forall>w \<in> set ws. 0 \<le> w" using assms(2) by (simp add: in_u64_def)
  show ?thesis
  proof (cases "ws = [] \<or> sum_list ws = 0")
    case True
    then show ?thesis using u128_sum_ok [OF nn] by (auto simp: allocate_def)
  next
    case False
    then have t: "0 < sum_list ws"
      using nn sum_list_nonneg [of ws] by (simp add: order.not_eq_order_implies_strict)
    have "\<bar>minor m\<bar> < 2 ^ 63" using assms(1,4) by (auto simp: wf_money_def in_i64_def)
    then have "\<exists>p. to_part m (final_share \<bar>minor m\<bar> ws i) = Inr p" if "i < length ws" for i
      using final_share_bounds [OF t _ nn that, of "\<bar>minor m\<bar>"] by (intro to_part_ok) auto
    then obtain g where "\<And>i. i < length ws \<Longrightarrow> to_part m (final_share \<bar>minor m\<bar> ws i) = Inr (g i)"
      by metis
    then have "try_map (to_part m) (map (final_share \<bar>minor m\<bar> ws) [0..<length ws])
        = Inr (map g [0..<length ws])"
      by (simp add: try_map_Inr_iff list_all2_conv_all_nth)
    with False show ?thesis using allocate_eq [OF assms(1,2) t assms(3)] by simp
  qed
qed

lemma allocate_total_witness:
  "(\<exists>parts. allocate \<lparr>minor = 7, currency = Aed\<rparr> [2, 3] = Inr parts)
   \<and> allocate \<lparr>minor = 7, currency = Aed\<rparr> [0, 0] = Inl InvalidWeights"
  using allocate_total [of "\<lparr>minor = 7, currency = Aed\<rparr>" "[2, 3]"]
    allocate_total [of "\<lparr>minor = 7, currency = Aed\<rparr>" "[0, 0]"]
  by (simp add: wf_money_def range_defs)

text \<open>The least \<open>i64\<close> amount cannot be allocated to one weight: the magnitude is
  computed, but the share does not convert back, and the call is an overflow error.\<close>

theorem allocate_min_overflow:
  assumes "minor m = - (2 ^ 63)" and "in_u64 w" and "0 < w"
  shows "allocate m [w] = Inl Overflow"
proof -
  have m: "wf_money m" using assms(1) by (simp add: wf_money_def in_i64_def)
  have "sum_list [w] = w" by simp
  then have "final_share (2 ^ 63) [w] 0 = 2 ^ 63"
    using sum_final_share [of "[w]" "2 ^ 63"] assms(3) by simp
  then show ?thesis
    using allocate_eq [OF m, of "[w]"] assms
    by (simp add: to_part_def fit_def in_i64_def in_u64_def)
qed

lemma allocate_min_overflow_witness:
  "allocate \<lparr>minor = - 9223372036854775808, currency = Bdt\<rparr> [1] = Inl Overflow"
  by (rule allocate_min_overflow) (simp_all add: in_u64_def)

lemma leftover_order_equal:
  assumes "length rs = n" and "\<forall>i < n. rs ! i = r"
  shows "leftover_order rs n = [0..<n]"
proof -
  have "sorted (map (\<lambda>i. (- get_or rs i 0, i)) [0..<n])"
    using assms by (auto simp: sorted_iff_nth_mono get_or_def)
  then show ?thesis unfolding leftover_order_def by (rule sort_key_id_if_sorted)
qed

lemma final_share_even:
  assumes "0 < n" and "i < n"
  shows "final_share a (replicate n 1) i
    = a div int n + (if i < nat (left_over a (replicate n 1)) then 1 else 0)"
proof -
  let ?ws = "replicate n (1::int)"
  have s: "sum_list ?ws = int n" by (simp add: sum_list_replicate)
  have "leftover_order (map (due_rem a ?ws) [0..<n]) n = [0..<n]"
    by (rule leftover_order_equal [where r = "a mod int n"]) (simp_all add: due_rem_def s)
  then have "lucky a ?ws = set (take (nat (left_over a ?ws)) [0..<n])"
    by (simp add: lucky_def)
  then have "i \<in> lucky a ?ws \<longleftrightarrow> i < nat (left_over a ?ws)"
    using assms by (auto simp: in_set_conv_nth)
  with assms show ?thesis by (simp add: final_share_def due_def s)
qed

text \<open>An even split of an amount gives parts that differ by at most one minor unit, the
  larger ones first.\<close>

theorem split_even:
  assumes "wf_money m" and "split m n = Inr parts" and "i \<le> j" and "j < n"
  shows "length parts = n \<and> sum_list (map minor parts) = minor m
     \<and> \<bar>minor (parts ! j)\<bar> \<le> \<bar>minor (parts ! i)\<bar>
     \<and> \<bar>minor (parts ! i)\<bar> \<le> \<bar>minor (parts ! j)\<bar> + 1"
proof -
  let ?ws = "replicate n (1::int)"
  have ok: "allocate m ?ws = Inr parts" and w: "\<forall>w \<in> set ?ws. in_u64 w" and n: "0 < n"
    using assms(2,4) by (auto simp: split_def in_u64_def)
  note part = allocate_part [OF assms(1) w ok]
  have nn: "0 \<le> \<bar>minor m\<bar> div int n" using n by (simp add: pos_imp_zdiv_nonneg_iff)
  have mag: "\<bar>minor (parts ! k)\<bar>
      = \<bar>minor m\<bar> div int n + (if k < nat (left_over \<bar>minor m\<bar> ?ws) then 1 else 0)" if "k < n" for k
    using part(2) [of k] that nn by (simp add: final_share_even [OF n that])
  have "sum_list (map minor parts) = minor m"
    using exact_sum [OF assms(1) w ok] .
  with part(1) mag [of i] mag [of j] assms(3,4) show ?thesis by simp
qed

lemma split_even_witness:
  "\<exists>parts. split \<lparr>minor = 1000, currency = Bdt\<rparr> 3 = Inr parts
     \<and> sum_list (map minor parts) = 1000 \<and> \<bar>minor (parts ! 0)\<bar> \<le> \<bar>minor (parts ! 2)\<bar> + 1"
proof -
  let ?m = "\<lparr>minor = 1000, currency = Bdt\<rparr>"
  have "split ?m 3 = Inr [\<lparr>minor = 334, currency = Bdt\<rparr>, \<lparr>minor = 333, currency = Bdt\<rparr>,
      \<lparr>minor = 333, currency = Bdt\<rparr>]" by code_simp
  moreover have "wf_money ?m" by (simp add: wf_money_def range_defs)
  ultimately show ?thesis using split_even [of ?m 3 _ 0 2] by fastforce
qed

end
