(* ===== verification/Units.thy ===== *)
theory Units
  imports Money
begin

text \<open>
  The other scalar types of \<open>sahl-core\<close>: identifiers, quantities in thousandths of a unit
  (\<open>quantity.rs\<close>) and timestamps in milliseconds (\<open>time.rs\<close>).  A UUID is the number its
  sixteen bytes spell, so that its order is the byte order the code compares by; nothing
  else about it is used.
\<close>

type_synonym uuid = nat

section \<open>Quantities\<close>

record quantity =
  milli :: int

definition milli_per_unit :: int where
  "milli_per_unit = 1000"

definition quantity_one :: quantity where
  "quantity_one = \<lparr>milli = milli_per_unit\<rparr>"

definition quantity_zero :: quantity where
  "quantity_zero = \<lparr>milli = 0\<rparr>"

definition from_milli :: "int \<Rightarrow> quantity" where
  "from_milli n = \<lparr>milli = n\<rparr>"

definition from_units :: "int \<Rightarrow> money_error + quantity" where
  "from_units n =
     and_then (ok_or Overflow (fit in_i64 (n * milli_per_unit))) (\<lambda>m. Inr \<lparr>milli = m\<rparr>)"

definition quantity_is_zero :: "quantity \<Rightarrow> bool" where
  "quantity_is_zero q \<longleftrightarrow> milli q = 0"

definition quantity_is_negative :: "quantity \<Rightarrow> bool" where
  "quantity_is_negative q \<longleftrightarrow> milli q < 0"

definition quantity_checked_add :: "quantity \<Rightarrow> quantity \<Rightarrow> money_error + quantity" where
  "quantity_checked_add a b =
     and_then (ok_or Overflow (fit in_i64 (milli a + milli b))) (\<lambda>m. Inr \<lparr>milli = m\<rparr>)"

definition quantity_checked_neg :: "quantity \<Rightarrow> money_error + quantity" where
  "quantity_checked_neg a =
     and_then (ok_or Overflow (fit in_i64 (- milli a))) (\<lambda>m. Inr \<lparr>milli = m\<rparr>)"

lemma quantity_checked_add_Inr_iff [res_simps]:
  "quantity_checked_add a b = Inr c \<longleftrightarrow> in_i64 (milli a + milli b) \<and> c = \<lparr>milli = milli a + milli b\<rparr>"
  by (auto simp: quantity_checked_add_def res_simps)

lemma quantity_checked_neg_Inr_iff [res_simps]:
  "quantity_checked_neg a = Inr c \<longleftrightarrow> in_i64 (- milli a) \<and> c = \<lparr>milli = - milli a\<rparr>"
  by (auto simp: quantity_checked_neg_def res_simps)

section \<open>Timestamps\<close>

record timestamp =
  millis :: int

definition epoch :: timestamp where
  "epoch = \<lparr>millis = 0\<rparr>"

definition from_millis :: "int \<Rightarrow> timestamp" where
  "from_millis n = \<lparr>millis = n\<rparr>"

text \<open>\<open>div_euclid\<close> by a positive divisor rounds towards minus infinity, as \<open>div\<close> does.\<close>

definition as_seconds :: "timestamp \<Rightarrow> int" where
  "as_seconds t = millis t div 1000"

definition checked_add_millis :: "timestamp \<Rightarrow> int \<Rightarrow> money_error + timestamp" where
  "checked_add_millis t n =
     and_then (ok_or Overflow (fit in_i64 (millis t + n))) (\<lambda>s. Inr \<lparr>millis = s\<rparr>)"

text \<open>\<open>i64::saturating_sub\<close>, \<open>saturating_add\<close> and \<open>saturating_abs\<close> clamp to the range.\<close>

definition saturate :: "int \<Rightarrow> int" where
  "saturate x = max (- (2 ^ 63)) (min (2 ^ 63 - 1) x)"

lemma saturate_id [simp]: "in_i64 x \<Longrightarrow> saturate x = x"
  by (simp add: saturate_def in_i64_def)

lemma in_i64_saturate [simp]: "in_i64 (saturate x)"
  by (simp add: saturate_def in_i64_def)

end
