(* ===== verification/Tax.thy ===== *)
theory Tax
  imports Allocation Units "HOL-Library.Multiset"
begin

text \<open>
  The VAT engine of \<open>crates/sahl-core/src/tax\<close>: tax classes, discounts, the order as it
  is submitted and the totals as they are calculated.  The lemmas follow the two loops of
  \<open>calculate\<close> and show that every aggregate is the exact sum of its lines, that the
  summary groups partition the lines by class, and that discounts never take a price
  below zero.
\<close>

section \<open>Tax classes and discounts\<close>

datatype tax_error =
    TaxMoney money_error
  | LineCurrencyMismatch nat currency currency
  | EmptyOrder

datatype tax_class = Standard rate | ZeroRated | Exempt

definition standard :: "int \<Rightarrow> tax_class" where
  "standard bp = Standard (from_basis_points bp)"

fun rate_of :: "tax_class \<Rightarrow> rate" where
  "rate_of (Standard r) = r"
| "rate_of ZeroRated = rate_zero"
| "rate_of Exempt = rate_zero"

fun is_taxable :: "tax_class \<Rightarrow> bool" where
  "is_taxable (Standard r) = (\<not> rate_is_zero r)"
| "is_taxable ZeroRated = False"
| "is_taxable Exempt = False"

fun class_sort_key :: "tax_class \<Rightarrow> nat \<times> int" where
  "class_sort_key (Standard r) = (0, basis_points r)"
| "class_sort_key ZeroRated = (1, 0)"
| "class_sort_key Exempt = (2, 0)"

lemma class_sort_key_inj: "class_sort_key a = class_sort_key b \<longleftrightarrow> a = b"
  by (cases a; cases b) auto

text \<open>The derived order of the class agrees with its sort key.\<close>

instantiation tax_class :: linorder
begin

definition less_eq_tax_class :: "tax_class \<Rightarrow> tax_class \<Rightarrow> bool" where
  "less_eq_tax_class a b \<longleftrightarrow> class_sort_key a \<le> class_sort_key b"

definition less_tax_class :: "tax_class \<Rightarrow> tax_class \<Rightarrow> bool" where
  "less_tax_class a b \<longleftrightarrow> class_sort_key a < class_sort_key b"

instance
  by standard
    (auto simp: less_eq_tax_class_def less_tax_class_def class_sort_key_inj [symmetric])

end

datatype discount = DiscountNone | Percentage rate | Amount money

definition discount_raw :: "discount \<Rightarrow> money \<Rightarrow> rounding \<Rightarrow> tax_error + money" where
  "discount_raw d base mode =
     (case d of
        DiscountNone \<Rightarrow> Inr (money_zero (currency base))
      | Percentage r \<Rightarrow> map_err TaxMoney (apply_rate base r mode)
      | Amount amount \<Rightarrow>
          (if currency amount \<noteq> currency base
           then Inl (TaxMoney (CurrencyMismatch (currency base) (currency amount)))
           else Inr amount))"

definition resolve :: "discount \<Rightarrow> money \<Rightarrow> rounding \<Rightarrow> tax_error + money" where
  "resolve d base mode =
     (if is_negative base \<or> is_zero base then Inr (money_zero (currency base))
      else
        and_then (discount_raw d base mode) (\<lambda>raw.
        if is_negative raw then Inr (money_zero (currency base))
        else Inr (if minor raw > minor base then base else raw)))"

section \<open>Orders and totals\<close>

datatype pricing_mode = TaxExclusive | TaxInclusive

record line_input =
  li_unit_price :: money
  li_quantity :: quantity
  li_tax_class :: tax_class
  li_discount :: discount

definition line_input_new :: "money \<Rightarrow> quantity \<Rightarrow> tax_class \<Rightarrow> line_input" where
  "line_input_new p q c =
     \<lparr>li_unit_price = p, li_quantity = q, li_tax_class = c, li_discount = DiscountNone\<rparr>"

definition with_discount :: "line_input \<Rightarrow> discount \<Rightarrow> line_input" where
  "with_discount l d = l\<lparr>li_discount := d\<rparr>"

record order_input =
  oi_currency :: currency
  oi_pricing_mode :: pricing_mode
  oi_rounding :: rounding
  oi_lines :: "line_input list"
  oi_order_discount :: discount

definition order_input_new :: "currency \<Rightarrow> line_input list \<Rightarrow> order_input" where
  "order_input_new c ls =
     \<lparr>oi_currency = c, oi_pricing_mode = TaxInclusive, oi_rounding = HalfUp,
      oi_lines = ls, oi_order_discount = DiscountNone\<rparr>"

definition tax_exclusive :: "order_input \<Rightarrow> order_input" where
  "tax_exclusive order = order\<lparr>oi_pricing_mode := TaxExclusive\<rparr>"

definition with_order_discount :: "order_input \<Rightarrow> discount \<Rightarrow> order_input" where
  "with_order_discount order d = order\<lparr>oi_order_discount := d\<rparr>"

record line_totals =
  lt_gross :: money
  lt_discount :: money
  lt_net :: money
  lt_tax :: money
  lt_total :: money
  lt_tax_class :: tax_class

record tax_group =
  tg_tax_class :: tax_class
  tg_taxable_base :: money
  tg_tax :: money

record order_totals =
  ot_lines :: "line_totals list"
  ot_tax_groups :: "tax_group list"
  ot_gross :: money
  ot_discount :: money
  ot_net :: money
  ot_tax :: money
  ot_total :: money

section \<open>The engine\<close>

text \<open>One turn of the first loop: gross, line discount and discounted base of a line.\<close>

definition price_line :: "order_input \<Rightarrow> nat \<times> line_input \<Rightarrow> tax_error + money \<times> money \<times> money" where
  "price_line order il =
     (let index = fst il; line = snd il in
      if currency (li_unit_price line) \<noteq> oi_currency order
      then Inl (LineCurrencyMismatch index (oi_currency order) (currency (li_unit_price line)))
      else
        and_then (map_err TaxMoney
          (mul_ratio (li_unit_price line) (milli (li_quantity line)) milli_per_unit
             (oi_rounding order))) (\<lambda>gross.
        and_then (resolve (li_discount line) gross (oi_rounding order)) (\<lambda>d.
        and_then (map_err TaxMoney (checked_sub gross d)) (\<lambda>base.
        Inr (gross, d, base)))))"

definition resolve_tax ::
    "money \<Rightarrow> tax_class \<Rightarrow> pricing_mode \<Rightarrow> rounding \<Rightarrow> tax_error + money \<times> money" where
  "resolve_tax taxable class mode rounding =
     (let rate = rate_of class in
      if rate_is_zero rate then Inr (taxable, money_zero (currency taxable))
      else case mode of
        TaxExclusive \<Rightarrow>
          and_then (map_err TaxMoney (apply_rate taxable rate rounding)) (\<lambda>tax.
          Inr (taxable, tax))
      | TaxInclusive \<Rightarrow>
          and_then (ok_or (TaxMoney Overflow)
            (fit in_i64 (basis_points_per_unit + basis_points rate))) (\<lambda>denominator.
          and_then (map_err TaxMoney
            (mul_ratio taxable (basis_points rate) denominator rounding)) (\<lambda>tax.
          and_then (map_err TaxMoney (checked_sub taxable tax)) (\<lambda>net.
          Inr (net, tax)))))"

definition apportion :: "money \<Rightarrow> money list \<Rightarrow> currency \<Rightarrow> tax_error + money list" where
  "apportion amount bases c =
     (if is_zero amount \<or> bases = [] then Inr (replicate (length bases) (money_zero c))
      else
        let weights = map (\<lambda>base. \<bar>minor base\<bar>) bases in
        if list_all (\<lambda>w. w = 0) weights
        then map_err TaxMoney (allocate amount (replicate (length bases) 1))
        else map_err TaxMoney (allocate amount weights))"

fun accumulate_group ::
    "tax_group list \<Rightarrow> tax_class \<Rightarrow> money \<Rightarrow> money \<Rightarrow> tax_error + tax_group list" where
  "accumulate_group [] class net tax =
     Inr [\<lparr>tg_tax_class = class, tg_taxable_base = net, tg_tax = tax\<rparr>]"
| "accumulate_group (g # gs) class net tax =
     (if tg_tax_class g = class
      then
        and_then (map_err TaxMoney (checked_add (tg_taxable_base g) net)) (\<lambda>b.
        and_then (map_err TaxMoney (checked_add (tg_tax g) tax)) (\<lambda>t.
        Inr (g\<lparr>tg_taxable_base := b, tg_tax := t\<rparr> # gs)))
      else and_then (accumulate_group gs class net tax) (\<lambda>gs'. Inr (g # gs')))"

text \<open>One turn of the second loop: the line's totals, appended, and its group.\<close>

definition settle_line ::
    "order_input \<Rightarrow> money list \<Rightarrow> money list \<Rightarrow> money list \<Rightarrow> money list
      \<Rightarrow> line_totals list \<times> tax_group list \<Rightarrow> nat \<times> line_input
      \<Rightarrow> tax_error + line_totals list \<times> tax_group list" where
  "settle_line order grosses discounts bases apportioned acc il =
     (let index = fst il; line = snd il in
        and_then (ok_or EmptyOrder (get grosses index)) (\<lambda>gross.
        and_then (ok_or EmptyOrder (get discounts index)) (\<lambda>line_discount.
        and_then (ok_or EmptyOrder (get bases index)) (\<lambda>base.
        and_then (ok_or EmptyOrder (get apportioned index)) (\<lambda>share.
        and_then (map_err TaxMoney (checked_sub base share)) (\<lambda>taxable.
        and_then (resolve_tax taxable (li_tax_class line) (oi_pricing_mode order)
          (oi_rounding order)) (\<lambda>(net, tax).
        and_then (map_err TaxMoney (checked_add line_discount share)) (\<lambda>d.
        and_then (map_err TaxMoney (checked_add net tax)) (\<lambda>total.
        and_then (accumulate_group (snd acc) (li_tax_class line) net tax) (\<lambda>groups.
        Inr (fst acc @ [\<lparr>lt_gross = gross, lt_discount = d, lt_net = net, lt_tax = tax,
               lt_total = total, lt_tax_class = li_tax_class line\<rparr>], groups)))))))))))"

definition calculate :: "order_input \<Rightarrow> tax_error + order_totals" where
  "calculate order =
     (if oi_lines order = [] then Inl EmptyOrder
      else
        let c = oi_currency order; indexed = enumerate 0 (oi_lines order) in
        and_then (try_map (price_line order) indexed) (\<lambda>priced.
        let grosses = map fst priced; discounts = map (fst \<circ> snd) priced;
            bases = map (snd \<circ> snd) priced in
        and_then (map_err TaxMoney (try_sum bases c)) (\<lambda>subtotal.
        and_then (resolve (oi_order_discount order) subtotal (oi_rounding order))
          (\<lambda>order_discount.
        and_then (apportion order_discount bases c) (\<lambda>apportioned.
        and_then (try_fold (settle_line order grosses discounts bases apportioned) ([], []) indexed)
          (\<lambda>(lines, groups).
        and_then (map_err TaxMoney (try_sum (map lt_gross lines) c)) (\<lambda>gross.
        and_then (map_err TaxMoney (try_sum (map lt_discount lines) c)) (\<lambda>d.
        and_then (map_err TaxMoney (try_sum (map lt_net lines) c)) (\<lambda>net.
        and_then (map_err TaxMoney (try_sum (map lt_tax lines) c)) (\<lambda>tax.
        and_then (map_err TaxMoney (try_sum (map lt_total lines) c)) (\<lambda>total.
        Inr \<lparr>ot_lines = lines,
             ot_tax_groups = sort_key (\<lambda>g. class_sort_key (tg_tax_class g)) groups,
             ot_gross = gross, ot_discount = d, ot_net = net, ot_tax = tax,
             ot_total = total\<rparr>)))))))))))"

section \<open>The loops of the engine\<close>

lemma resolve_bounds:
  assumes "resolve d base mode = Inr r"
  shows "currency r = currency base"
    and "if minor base \<le> 0 then minor r = 0 else 0 \<le> minor r \<and> minor r \<le> minor base"
proof -
  have cur: "currency raw = currency base" if "discount_raw d base mode = Inr raw" for raw
    using that mul_ratio_Inr(3) [of base _ _ mode raw]
    by (auto simp: discount_raw_def res_simps apply_rate_def split: discount.splits if_splits)
  show "currency r = currency base"
    using assms cur by (auto simp: resolve_def res_simps split: if_splits)
  show "if minor base \<le> 0 then minor r = 0 else 0 \<le> minor r \<and> minor r \<le> minor base"
    using assms by (auto simp: resolve_def res_simps is_negative_def is_zero_def split: if_splits)
qed

text \<open>What a settled line is, given the line's priced amounts and its share of the discount.\<close>

definition settled ::
    "order_input \<Rightarrow> money \<Rightarrow> money \<Rightarrow> money \<Rightarrow> money \<Rightarrow> line_input \<Rightarrow> line_totals \<Rightarrow> bool" where
  "settled order gross d base share line l \<longleftrightarrow>
     (\<exists>taxable. checked_sub base share = Inr taxable
        \<and> resolve_tax taxable (li_tax_class line) (oi_pricing_mode order) (oi_rounding order)
            = Inr (lt_net l, lt_tax l)
        \<and> checked_add d share = Inr (lt_discount l)
        \<and> checked_add (lt_net l) (lt_tax l) = Inr (lt_total l)
        \<and> lt_gross l = gross \<and> lt_tax_class l = li_tax_class line)"

definition fold_groups :: "tax_group list \<Rightarrow> line_totals list \<Rightarrow> tax_error + tax_group list" where
  "fold_groups = try_fold (\<lambda>gs l. accumulate_group gs (lt_tax_class l) (lt_net l) (lt_tax l))"

lemma settle_line_Inr:
  assumes "settle_line order gs ds bs as (ls, grps) (i, line) = Inr (ls', grps')"
  shows "\<exists>l. ls' = ls @ [l] \<and> i < length as \<and> settled order (gs ! i) (ds ! i) (bs ! i) (as ! i) line l
     \<and> accumulate_group grps (lt_tax_class l) (lt_net l) (lt_tax l) = Inr grps'"
  using assms
  by (clarsimp simp: settle_line_def Let_def res_simps settled_def)

lemma settle_fold_Inr:
  assumes "try_fold (settle_line order gs ds bs as) (ls, grps) (enumerate k lines) = Inr (ls', grps')"
  shows "\<exists>new. ls' = ls @ new \<and> length new = length lines
     \<and> (\<forall>i < length lines. k + i < length as
          \<and> settled order (gs ! (k + i)) (ds ! (k + i)) (bs ! (k + i)) (as ! (k + i)) (lines ! i) (new ! i))
     \<and> fold_groups grps new = Inr grps'"
  using assms
proof (induction lines arbitrary: k ls grps)
  case Nil
  then show ?case by (simp add: fold_groups_def)
next
  case (Cons line lines)
  then obtain ls1 grps1 where
    one: "settle_line order gs ds bs as (ls, grps) (k, line) = Inr (ls1, grps1)"
    and more: "try_fold (settle_line order gs ds bs as) (ls1, grps1) (enumerate (Suc k) lines)
      = Inr (ls', grps')"
    by (auto simp: res_simps)
  from settle_line_Inr [OF one] obtain l where
    l: "ls1 = ls @ [l]" "k < length as"
      "settled order (gs ! k) (ds ! k) (bs ! k) (as ! k) line l"
      "accumulate_group grps (lt_tax_class l) (lt_net l) (lt_tax l) = Inr grps1" by blast
  from Cons.IH [OF more] obtain new where
    new: "ls' = ls1 @ new" "length new = length lines"
      "\<forall>i < length lines. Suc k + i < length as \<and> settled order (gs ! (Suc k + i))
        (ds ! (Suc k + i)) (bs ! (Suc k + i)) (as ! (Suc k + i)) (lines ! i) (new ! i)"
      "fold_groups grps1 new = Inr grps'" by blast
  show ?case
  proof (intro exI conjI allI impI)
    show "ls' = ls @ (l # new)" and "length (l # new) = length (line # lines)"
      using l new by simp_all
    show "fold_groups grps (l # new) = Inr grps'"
      using l(4) new(4) by (simp add: fold_groups_def)
    fix i assume "i < length (line # lines)"
    then show "k + i < length as"
      and "settled order (gs ! (k + i)) (ds ! (k + i)) (bs ! (k + i)) (as ! (k + i))
        ((line # lines) ! i) ((l # new) ! i)"
      using l(2,3) new(3) by (cases i; force)+
  qed
qed

subsection \<open>Summary groups\<close>

definition base_of :: "tax_group list \<Rightarrow> tax_class \<Rightarrow> int" where
  "base_of gs c = (\<Sum>g\<leftarrow>gs. if tg_tax_class g = c then minor (tg_taxable_base g) else 0)"

definition tax_of :: "tax_group list \<Rightarrow> tax_class \<Rightarrow> int" where
  "tax_of gs c = (\<Sum>g\<leftarrow>gs. if tg_tax_class g = c then minor (tg_tax g) else 0)"

lemma accumulate_group_Inr:
  assumes "accumulate_group gs class net tax = Inr gs'"
  shows "set (map tg_tax_class gs') = insert class (set (map tg_tax_class gs))"
    and "distinct (map tg_tax_class gs) \<Longrightarrow> distinct (map tg_tax_class gs')"
    and "base_of gs' c = base_of gs c + (if class = c then minor net else 0)"
    and "tax_of gs' c = tax_of gs c + (if class = c then minor tax else 0)"
    and "(\<Sum>g\<leftarrow>gs'. minor (tg_taxable_base g)) = (\<Sum>g\<leftarrow>gs. minor (tg_taxable_base g)) + minor net"
    and "(\<Sum>g\<leftarrow>gs'. minor (tg_tax g)) = (\<Sum>g\<leftarrow>gs. minor (tg_tax g)) + minor tax"
proof -
  have "set (map tg_tax_class gs') = insert class (set (map tg_tax_class gs))
     \<and> base_of gs' c = base_of gs c + (if class = c then minor net else 0)
     \<and> tax_of gs' c = tax_of gs c + (if class = c then minor tax else 0)
     \<and> (\<Sum>g\<leftarrow>gs'. minor (tg_taxable_base g)) = (\<Sum>g\<leftarrow>gs. minor (tg_taxable_base g)) + minor net
     \<and> (\<Sum>g\<leftarrow>gs'. minor (tg_tax g)) = (\<Sum>g\<leftarrow>gs. minor (tg_tax g)) + minor tax
     \<and> (distinct (map tg_tax_class gs) \<longrightarrow> distinct (map tg_tax_class gs'))"
    using assms
  proof (induction gs arbitrary: gs')
    case Nil
    then show ?case by (auto simp: base_of_def tax_of_def)
  next
    case (Cons g gs)
    show ?case
    proof (cases "tg_tax_class g = class")
      case True
      with Cons.prems show ?thesis
        by (auto simp: base_of_def tax_of_def res_simps)
    next
      case False
      with Cons.prems obtain gs1 where gs1: "accumulate_group gs class net tax = Inr gs1"
          "gs' = g # gs1" by (auto simp: res_simps)
      from Cons.IH [OF gs1(1)] gs1(2) False show ?thesis
        by (auto simp: base_of_def tax_of_def)
    qed
  qed
  then show "set (map tg_tax_class gs') = insert class (set (map tg_tax_class gs))"
    and "distinct (map tg_tax_class gs) \<Longrightarrow> distinct (map tg_tax_class gs')"
    and "base_of gs' c = base_of gs c + (if class = c then minor net else 0)"
    and "tax_of gs' c = tax_of gs c + (if class = c then minor tax else 0)"
    and "(\<Sum>g\<leftarrow>gs'. minor (tg_taxable_base g)) = (\<Sum>g\<leftarrow>gs. minor (tg_taxable_base g)) + minor net"
    and "(\<Sum>g\<leftarrow>gs'. minor (tg_tax g)) = (\<Sum>g\<leftarrow>gs. minor (tg_tax g)) + minor tax"
    by blast+
qed

lemma fold_groups_Inr:
  assumes "fold_groups gs ls = Inr gs'"
  shows "set (map tg_tax_class gs') = set (map tg_tax_class gs) \<union> set (map lt_tax_class ls)
     \<and> (distinct (map tg_tax_class gs) \<longrightarrow> distinct (map tg_tax_class gs'))
     \<and> base_of gs' c = base_of gs c + (\<Sum>l\<leftarrow>ls. if lt_tax_class l = c then minor (lt_net l) else 0)
     \<and> tax_of gs' c = tax_of gs c + (\<Sum>l\<leftarrow>ls. if lt_tax_class l = c then minor (lt_tax l) else 0)
     \<and> (\<Sum>g\<leftarrow>gs'. minor (tg_taxable_base g))
         = (\<Sum>g\<leftarrow>gs. minor (tg_taxable_base g)) + (\<Sum>l\<leftarrow>ls. minor (lt_net l))
     \<and> (\<Sum>g\<leftarrow>gs'. minor (tg_tax g)) = (\<Sum>g\<leftarrow>gs. minor (tg_tax g)) + (\<Sum>l\<leftarrow>ls. minor (lt_tax l))"
  using assms
proof (induction ls arbitrary: gs)
  case Nil
  then show ?case by (simp add: fold_groups_def)
next
  case (Cons l ls)
  then obtain gs1 where one: "accumulate_group gs (lt_tax_class l) (lt_net l) (lt_tax l) = Inr gs1"
    and more: "fold_groups gs1 ls = Inr gs'"
    by (auto simp: fold_groups_def res_simps)
  from Cons.IH [OF more] accumulate_group_Inr [OF one] show ?case by auto
qed

lemma base_of_unique:
  assumes "distinct (map tg_tax_class gs)" and "g \<in> set gs"
  shows "base_of gs (tg_tax_class g) = minor (tg_taxable_base g)"
    and "tax_of gs (tg_tax_class g) = minor (tg_tax g)"
proof -
  have "tg_tax_class g \<notin> set (map tg_tax_class gs) \<Longrightarrow> base_of gs (tg_tax_class g) = 0
      \<and> tax_of gs (tg_tax_class g) = 0" for gs and g :: tax_group
    by (induction gs) (auto simp: base_of_def tax_of_def)
  with assms have "base_of gs (tg_tax_class g) = minor (tg_taxable_base g)
      \<and> tax_of gs (tg_tax_class g) = minor (tg_tax g)"
  proof (induction gs)
    case (Cons h gs)
    then show ?case
      by (cases "g = h") (auto simp: base_of_def tax_of_def)
  qed simp
  then show "base_of gs (tg_tax_class g) = minor (tg_taxable_base g)"
    and "tax_of gs (tg_tax_class g) = minor (tg_tax g)" by simp_all
qed

subsection \<open>A successful calculation, taken apart\<close>

lemma price_line_Inr:
  assumes "price_line order (i, line) = Inr (gross, d, base)"
  shows "mul_ratio (li_unit_price line) (milli (li_quantity line)) 1000 (oi_rounding order) = Inr gross"
    and "resolve (li_discount line) gross (oi_rounding order) = Inr d"
    and "checked_sub gross d = Inr base"
    and "currency (li_unit_price line) = oi_currency order"
  using assms by (auto simp: price_line_def Let_def res_simps milli_per_unit_def split: if_splits)

lemma length_enumerate_map: "length (enumerate n xs) = length xs"
  by simp

text \<open>
  The witnesses of a successful calculation: the priced lines, the order discount and its
  shares, and the settled lines with their groups.
\<close>

definition trace ::
    "order_input \<Rightarrow> order_totals \<Rightarrow> (money \<times> money \<times> money) list \<Rightarrow> money \<Rightarrow> money \<Rightarrow> money list
      \<Rightarrow> tax_group list \<Rightarrow> bool" where
  "trace order t priced subtotal od shares groups \<longleftrightarrow>
     oi_lines order \<noteq> []
     \<and> length priced = length (oi_lines order)
     \<and> length (ot_lines t) = length (oi_lines order)
     \<and> (\<forall>i < length (oi_lines order).
          price_line order (i, oi_lines order ! i) = Inr (priced ! i)
          \<and> i < length shares
          \<and> settled order (fst (priced ! i)) (fst (snd (priced ! i))) (snd (snd (priced ! i)))
              (shares ! i) (oi_lines order ! i) (ot_lines t ! i))
     \<and> try_sum (map (snd \<circ> snd) priced) (oi_currency order) = Inr subtotal
     \<and> resolve (oi_order_discount order) subtotal (oi_rounding order) = Inr od
     \<and> apportion od (map (snd \<circ> snd) priced) (oi_currency order) = Inr shares
     \<and> fold_groups [] (ot_lines t) = Inr groups
     \<and> ot_tax_groups t = sort_key (\<lambda>g. class_sort_key (tg_tax_class g)) groups
     \<and> try_sum (map lt_gross (ot_lines t)) (oi_currency order) = Inr (ot_gross t)
     \<and> try_sum (map lt_discount (ot_lines t)) (oi_currency order) = Inr (ot_discount t)
     \<and> try_sum (map lt_net (ot_lines t)) (oi_currency order) = Inr (ot_net t)
     \<and> try_sum (map lt_tax (ot_lines t)) (oi_currency order) = Inr (ot_tax t)
     \<and> try_sum (map lt_total (ot_lines t)) (oi_currency order) = Inr (ot_total t)"

lemma calculate_trace:
  assumes "calculate order = Inr t"
  shows "\<exists>priced subtotal od shares groups. trace order t priced subtotal od shares groups"
proof -
  let ?lines = "oi_lines order" and ?c = "oi_currency order"
  let ?idx = "enumerate 0 ?lines"
  from assms have ne: "?lines \<noteq> []" by (auto simp: calculate_def)
  from assms ne obtain priced subtotal od shares groups where
    priced: "try_map (price_line order) ?idx = Inr priced"
    and sub: "try_sum (map (snd \<circ> snd) priced) ?c = Inr subtotal"
    and od: "resolve (oi_order_discount order) subtotal (oi_rounding order) = Inr od"
    and shares: "apportion od (map (snd \<circ> snd) priced) ?c = Inr shares"
    and fold: "try_fold (settle_line order (map fst priced) (map (fst \<circ> snd) priced)
        (map (snd \<circ> snd) priced) shares) ([], []) ?idx = Inr (ot_lines t, groups)"
    and groups: "ot_tax_groups t = sort_key (\<lambda>g. class_sort_key (tg_tax_class g)) groups"
    and sums: "try_sum (map lt_gross (ot_lines t)) ?c = Inr (ot_gross t)"
      "try_sum (map lt_discount (ot_lines t)) ?c = Inr (ot_discount t)"
      "try_sum (map lt_net (ot_lines t)) ?c = Inr (ot_net t)"
      "try_sum (map lt_tax (ot_lines t)) ?c = Inr (ot_tax t)"
      "try_sum (map lt_total (ot_lines t)) ?c = Inr (ot_total t)"
    by (clarsimp simp: calculate_def Let_def res_simps split: prod.splits)
  have len: "length priced = length ?lines"
    using try_map_length [OF priced] by simp
  have each: "price_line order (i, ?lines ! i) = Inr (priced ! i)" if "i < length ?lines" for i
    using try_map_nth [OF priced, of i] that by (simp add: nth_enumerate_eq)
  from settle_fold_Inr [OF fold] len
  have "length (ot_lines t) = length ?lines" and "fold_groups [] (ot_lines t) = Inr groups"
    and "\<forall>i < length ?lines. i < length shares
      \<and> settled order (fst (priced ! i)) (fst (snd (priced ! i))) (snd (snd (priced ! i)))
          (shares ! i) (?lines ! i) (ot_lines t ! i)"
    by auto
  with ne len each sub od shares groups sums show ?thesis
    unfolding trace_def by blast
qed

lemma settled_amounts:
  assumes "settled order gross d base share line l"
  shows "minor (lt_discount l) = minor d + minor share"
    and "minor (lt_total l) = minor (lt_net l) + minor (lt_tax l)"
    and "oi_pricing_mode order = TaxInclusive \<Longrightarrow> minor (lt_total l) = minor base - minor share"
    and "oi_pricing_mode order = TaxExclusive \<Longrightarrow> minor (lt_net l) = minor base - minor share"
  using assms
  by (auto simp: settled_def res_simps resolve_tax_def Let_def money_eq_iff
      split: if_splits pricing_mode.splits)

lemma trace_line:
  assumes "trace order t priced subtotal od shares groups" and "i < length (oi_lines order)"
  shows "price_line order (i, oi_lines order ! i)
      = Inr (fst (priced ! i), fst (snd (priced ! i)), snd (snd (priced ! i)))"
    and "settled order (fst (priced ! i)) (fst (snd (priced ! i))) (snd (snd (priced ! i)))
      (shares ! i) (oi_lines order ! i) (ot_lines t ! i)"
    and "minor (snd (snd (priced ! i))) = minor (lt_gross (ot_lines t ! i)) - minor (fst (snd (priced ! i)))"
proof -
  show p: "price_line order (i, oi_lines order ! i)
      = Inr (fst (priced ! i), fst (snd (priced ! i)), snd (snd (priced ! i)))"
    and s: "settled order (fst (priced ! i)) (fst (snd (priced ! i))) (snd (snd (priced ! i)))
      (shares ! i) (oi_lines order ! i) (ot_lines t ! i)"
    using assms by (auto simp: trace_def)
  show "minor (snd (snd (priced ! i))) = minor (lt_gross (ot_lines t ! i)) - minor (fst (snd (priced ! i)))"
    using price_line_Inr(3) [OF p] s by (auto simp: res_simps settled_def)
qed

lemma trace_sums:
  assumes "trace order t priced subtotal od shares groups"
  shows "minor (ot_gross t) = (\<Sum>l\<leftarrow>ot_lines t. minor (lt_gross l))"
    and "minor (ot_discount t) = (\<Sum>l\<leftarrow>ot_lines t. minor (lt_discount l))"
    and "minor (ot_net t) = (\<Sum>l\<leftarrow>ot_lines t. minor (lt_net l))"
    and "minor (ot_tax t) = (\<Sum>l\<leftarrow>ot_lines t. minor (lt_tax l))"
    and "minor (ot_total t) = (\<Sum>l\<leftarrow>ot_lines t. minor (lt_total l))"
    and "currency (ot_total t) = oi_currency order" and "wf_money (ot_total t)"
    and "minor subtotal = (\<Sum>p\<leftarrow>priced. minor (snd (snd p)))"
proof -
  from assms have ts:
    "try_sum (map lt_gross (ot_lines t)) (oi_currency order) = Inr (ot_gross t)"
    "try_sum (map lt_discount (ot_lines t)) (oi_currency order) = Inr (ot_discount t)"
    "try_sum (map lt_net (ot_lines t)) (oi_currency order) = Inr (ot_net t)"
    "try_sum (map lt_tax (ot_lines t)) (oi_currency order) = Inr (ot_tax t)"
    "try_sum (map lt_total (ot_lines t)) (oi_currency order) = Inr (ot_total t)"
    "try_sum (map (snd \<circ> snd) priced) (oi_currency order) = Inr subtotal"
    by (simp_all add: trace_def)
  note sums = ts [THEN try_sum_Inr(1), unfolded map_map comp_def]
  show "minor (ot_gross t) = (\<Sum>l\<leftarrow>ot_lines t. minor (lt_gross l))"
    and "minor (ot_discount t) = (\<Sum>l\<leftarrow>ot_lines t. minor (lt_discount l))"
    and "minor (ot_net t) = (\<Sum>l\<leftarrow>ot_lines t. minor (lt_net l))"
    and "minor (ot_tax t) = (\<Sum>l\<leftarrow>ot_lines t. minor (lt_tax l))"
    and "minor (ot_total t) = (\<Sum>l\<leftarrow>ot_lines t. minor (lt_total l))"
    and "minor subtotal = (\<Sum>p\<leftarrow>priced. minor (snd (snd p)))"
    using sums by simp_all
  show "currency (ot_total t) = oi_currency order" by (rule try_sum_Inr(2) [OF ts(5)])
  show "wf_money (ot_total t)" by (rule try_sum_wf [OF ts(5)])
qed

lemma trace_total:
  assumes "trace ord t priced subtotal od shares groups"
  shows "minor (ot_total t) = minor (ot_net t) + minor (ot_tax t)"
proof -
  have "\<forall>l \<in> set (ot_lines t). minor (lt_total l) = minor (lt_net l) + minor (lt_tax l)"
    using settled_amounts(2) [OF trace_line(2) [OF assms]] assms by (auto simp: in_set_conv_nth trace_def)
  then have "(\<Sum>l\<leftarrow>ot_lines t. minor (lt_total l)) = (\<Sum>l\<leftarrow>ot_lines t. minor (lt_net l) + minor (lt_tax l))"
    by (intro arg_cong [where f = sum_list] map_cong) auto
  with trace_sums [OF assms] show ?thesis by (simp add: sum_list_addf)
qed

subsection \<open>Orders without returns\<close>

text \<open>An order all of whose prices, quantities and rates are nonnegative.\<close>

definition nonneg_order :: "order_input \<Rightarrow> bool" where
  "nonneg_order order \<longleftrightarrow>
     (\<forall>l \<in> set (oi_lines order). 0 \<le> minor (li_unit_price l) \<and> 0 \<le> milli (li_quantity l)
        \<and> 0 \<le> basis_points (rate_of (li_tax_class l)))"

lemma price_line_nonneg:
  assumes "price_line order (i, line) = Inr (gross, d, base)"
    and "0 \<le> minor (li_unit_price line)" and "0 \<le> milli (li_quantity line)"
  shows "0 \<le> minor gross" and "0 \<le> minor d" and "minor d \<le> minor gross"
    and "minor base = minor gross - minor d" and "wf_money base"
proof -
  note p = price_line_Inr [OF assms(1)]
  show gross: "0 \<le> minor gross"
    using rounds_to_between(1) [OF mul_ratio_Inr(2) [OF p(1)], of 0] assms(2,3) by simp
  show "0 \<le> minor d" and "minor d \<le> minor gross"
    using resolve_bounds(2) [OF p(2)] gross by (auto split: if_splits)
  show "minor base = minor gross - minor d" using p(3) by (simp add: res_simps)
  show "wf_money base" by (rule wf_money_ops(2) [OF p(3)])
qed

lemma apportion_nonneg:
  assumes ok: "apportion od bases c = Inr shares" and i: "i < length shares"
    and nn: "\<forall>b \<in> set bases. 0 \<le> minor b \<and> wf_money b"
    and od: "0 \<le> minor od" "minor od \<le> (\<Sum>b\<leftarrow>bases. minor b)" "wf_money od"
  shows "i < length bases \<and> 0 \<le> minor (shares ! i) \<and> minor (shares ! i) \<le> minor (bases ! i)"
proof (cases "is_zero od \<or> bases = []")
  case True
  with ok i nn show ?thesis by (auto simp: apportion_def)
next
  case False
  let ?ws = "map (\<lambda>b. \<bar>minor b\<bar>) bases"
  have ws: "?ws = map minor bases" using nn by auto
  have "0 < sum_list ?ws"
    using False od unfolding ws by (auto simp: is_zero_def)
  then have "\<not> list_all (\<lambda>w. w = 0) ?ws"
    using sum_list_nonneg_eq_0_iff [of ?ws] by (fastforce simp: list_all_iff)
  with False ok have al: "allocate od ?ws = Inr shares"
    by (auto simp: apportion_def Let_def res_simps)
  have u64: "\<forall>w \<in> set ?ws. in_u64 w"
    using nn by (auto simp: wf_money_def range_defs)
  note part = allocate_part [OF od(3) u64 al]
  have i': "i < length ?ws" using i part(1) by simp
  then have b: "0 \<le> minor (bases ! i)" using nn by simp
  have le: "final_share (minor od) ?ws i \<le> ?ws ! i"
    using \<open>0 < sum_list ?ws\<close> od(2) i' b by (intro final_share_le_weight) (auto simp: ws)
  have "0 \<le> final_share (minor od) ?ws i"
    using \<open>0 < sum_list ?ws\<close> od(1) i' by (intro final_share_bounds) auto
  with le part(1) part(2) [OF i'] i' b od(1) show ?thesis by simp
qed

lemma resolve_tax_nonneg:
  assumes ok: "resolve_tax taxable class mode rounding = Inr (net, tax)"
    and "0 \<le> minor taxable" and "0 \<le> basis_points (rate_of class)"
  shows "0 \<le> minor net" and "0 \<le> minor tax"
proof -
  let ?bp = "basis_points (rate_of class)"
  have tb: "0 \<le> minor taxable * ?bp" using assms(2,3) by simp
  have "0 \<le> minor net \<and> 0 \<le> minor tax"
  proof (cases "rate_is_zero (rate_of class)")
    case True
    with ok assms(2) show ?thesis by (auto simp: resolve_tax_def Let_def)
  next
    case False
    show ?thesis
    proof (cases mode)
      case TaxExclusive
      with False ok have "mul_ratio taxable ?bp 10000 rounding = Inr tax" and "net = taxable"
        by (auto simp: resolve_tax_def Let_def res_simps apply_rate_def basis_points_per_unit_def)
      with rounds_to_between(1) [OF mul_ratio_Inr(2), of taxable ?bp 10000 rounding tax 0] tb assms(2)
      show ?thesis by simp
    next
      case TaxInclusive
      with False ok have m: "mul_ratio taxable ?bp (10000 + ?bp) rounding = Inr tax"
        and net: "minor net = minor taxable - minor tax"
        by (auto simp: resolve_tax_def Let_def res_simps basis_points_per_unit_def)
      have "minor taxable * ?bp \<le> minor taxable * (10000 + ?bp)"
        using assms(2) by (intro mult_left_mono) auto
      with rounds_to_between [OF mul_ratio_Inr(2) [OF m]] tb assms(3) net show ?thesis by fastforce
    qed
  qed
  then show "0 \<le> minor net" and "0 \<le> minor tax" by simp_all
qed

section \<open>Properties of the engine\<close>

text \<open>A basket of three tax treatments with a line and an order discount, for the witnesses.\<close>

definition sample_order :: order_input where
  "sample_order =
     \<lparr>oi_currency = Bdt, oi_pricing_mode = TaxInclusive, oi_rounding = HalfUp,
      oi_lines =
        [\<lparr>li_unit_price = \<lparr>minor = 10000, currency = Bdt\<rparr>, li_quantity = \<lparr>milli = 1000\<rparr>,
          li_tax_class = Standard \<lparr>basis_points = 1500\<rparr>, li_discount = DiscountNone\<rparr>,
         \<lparr>li_unit_price = \<lparr>minor = 5050, currency = Bdt\<rparr>, li_quantity = \<lparr>milli = 2500\<rparr>,
          li_tax_class = Exempt, li_discount = Percentage \<lparr>basis_points = 1000\<rparr>\<rparr>,
         \<lparr>li_unit_price = \<lparr>minor = 777, currency = Bdt\<rparr>, li_quantity = \<lparr>milli = 3000\<rparr>,
          li_tax_class = Standard \<lparr>basis_points = 500\<rparr>, li_discount = DiscountNone\<rparr>],
      oi_order_discount = Amount \<lparr>minor = 5000, currency = Bdt\<rparr>\<rparr>"

lemma sample_order_ok:
  "\<exists>t. calculate sample_order = Inr t \<and> minor (ot_total t) = 18693 \<and> minor (ot_gross t) = 24956
     \<and> minor (ot_discount t) = 6263"
proof -
  have "map_ok (\<lambda>t. (minor (ot_total t), minor (ot_gross t), minor (ot_discount t)))
      (calculate sample_order) = Inr (18693, 24956, 6263)" by code_simp
  then show ?thesis by (auto simp: res_simps)
qed

lemma sample_order_nonneg: "nonneg_order sample_order"
  by (simp add: nonneg_order_def sample_order_def rate_zero_def)

text \<open>C3: a calculated order has one totals line per order line, every aggregate is the exact
  sum of its lines, and total is net plus tax, on each line and on the order.\<close>

theorem calculate_aggregates:
  assumes "calculate order = Inr t"
  shows "length (ot_lines t) = length (oi_lines order)
     \<and> minor (ot_gross t) = (\<Sum>l\<leftarrow>ot_lines t. minor (lt_gross l))
     \<and> minor (ot_discount t) = (\<Sum>l\<leftarrow>ot_lines t. minor (lt_discount l))
     \<and> minor (ot_net t) = (\<Sum>l\<leftarrow>ot_lines t. minor (lt_net l))
     \<and> minor (ot_tax t) = (\<Sum>l\<leftarrow>ot_lines t. minor (lt_tax l))
     \<and> minor (ot_total t) = minor (ot_net t) + minor (ot_tax t)
     \<and> (\<forall>l \<in> set (ot_lines t). minor (lt_total l) = minor (lt_net l) + minor (lt_tax l))
     \<and> wf_money (ot_total t) \<and> currency (ot_total t) = oi_currency order"
proof -
  from calculate_trace [OF assms] obtain priced subtotal od shares groups
    where tr: "trace order t priced subtotal od shares groups" by blast
  have lines: "\<forall>l \<in> set (ot_lines t). minor (lt_total l) = minor (lt_net l) + minor (lt_tax l)"
    using settled_amounts(2) [OF trace_line(2) [OF tr]] tr
    by (auto simp: in_set_conv_nth trace_def)
  have "(\<Sum>l\<leftarrow>ot_lines t. minor (lt_total l))
      = (\<Sum>l\<leftarrow>ot_lines t. minor (lt_net l) + minor (lt_tax l))"
    using lines by (intro arg_cong [where f = sum_list] map_cong) auto
  with lines trace_sums [OF tr] tr show ?thesis
    by (simp add: trace_def sum_list_addf)
qed

lemma calculate_aggregates_witness:
  "\<exists>t. calculate sample_order = Inr t \<and> minor (ot_total t) = 18693
     \<and> minor (ot_total t) = minor (ot_net t) + minor (ot_tax t) \<and> length (ot_lines t) = 3"
  using sample_order_ok calculate_aggregates [of sample_order] by (auto simp: sample_order_def)

text \<open>C4: the VAT summary has one group per tax class on the order, in the conventional order
  (standard rates ascending, then zero-rated, then exempt), each group holds exactly the net
  and the tax of the lines of its class, and the groups sum to the order's net and tax.\<close>

theorem calculate_groups:
  assumes "calculate order = Inr t"
  shows "sorted (map tg_tax_class (ot_tax_groups t)) \<and> distinct (map tg_tax_class (ot_tax_groups t))
     \<and> set (map tg_tax_class (ot_tax_groups t)) = set (map lt_tax_class (ot_lines t))
     \<and> (\<forall>g \<in> set (ot_tax_groups t).
          minor (tg_taxable_base g)
            = (\<Sum>l\<leftarrow>ot_lines t. if lt_tax_class l = tg_tax_class g then minor (lt_net l) else 0)
          \<and> minor (tg_tax g)
            = (\<Sum>l\<leftarrow>ot_lines t. if lt_tax_class l = tg_tax_class g then minor (lt_tax l) else 0))
     \<and> (\<Sum>g\<leftarrow>ot_tax_groups t. minor (tg_taxable_base g)) = minor (ot_net t)
     \<and> (\<Sum>g\<leftarrow>ot_tax_groups t. minor (tg_tax g)) = minor (ot_tax t)"
proof -
  from calculate_trace [OF assms] obtain priced subtotal od shares groups
    where tr: "trace order t priced subtotal od shares groups" by blast
  let ?k = "\<lambda>g. class_sort_key (tg_tax_class g)"
  have sorted: "ot_tax_groups t = sort_key ?k groups" and fold: "fold_groups [] (ot_lines t) = Inr groups"
    using tr by (simp_all add: trace_def)
  note facts = fold_groups_Inr [OF fold]
  have dist: "distinct (map tg_tax_class groups)" using facts by simp
  have perm: "mset (map f (ot_tax_groups t)) = mset (map f groups)" for f :: "tax_group \<Rightarrow> 'b"
    by (simp add: sorted)
  have sums: "(\<Sum>g\<leftarrow>ot_tax_groups t. f g) = (\<Sum>g\<leftarrow>groups. f g)" for f :: "tax_group \<Rightarrow> int"
    using arg_cong [OF perm [of f], of sum_mset] by (simp only: sum_mset_sum_list)
  have set: "set (ot_tax_groups t) = set groups" by (simp add: sorted)
  have "sorted (map ?k (ot_tax_groups t))" by (simp add: sorted)
  then have "sorted (map tg_tax_class (ot_tax_groups t))"
    by (simp add: sorted_map less_eq_tax_class_def)
  moreover have "distinct (map tg_tax_class (ot_tax_groups t))"
    using dist mset_eq_imp_distinct_iff [OF perm [of tg_tax_class]] by simp
  moreover have "set (map tg_tax_class (ot_tax_groups t)) = set (map lt_tax_class (ot_lines t))"
    using facts set by (metis list.set_map set_map map_is_Nil_conv sup_bot_left list.set(1) list.simps(8))
  moreover have "minor (tg_taxable_base g)
            = (\<Sum>l\<leftarrow>ot_lines t. if lt_tax_class l = tg_tax_class g then minor (lt_net l) else 0)
          \<and> minor (tg_tax g)
            = (\<Sum>l\<leftarrow>ot_lines t. if lt_tax_class l = tg_tax_class g then minor (lt_tax l) else 0)"
    if "g \<in> set (ot_tax_groups t)" for g
    using fold_groups_Inr [OF fold, of "tg_tax_class g"] base_of_unique [OF dist, of g] that set
    by (simp add: base_of_def tax_of_def)
  ultimately show ?thesis
    using facts sums trace_sums(3,4) [OF tr] by simp
qed

lemma calculate_groups_witness:
  "\<exists>t. calculate sample_order = Inr t \<and> minor (ot_total t) = 18693
     \<and> (\<Sum>g\<leftarrow>ot_tax_groups t. minor (tg_tax g)) = minor (ot_tax t)"
  using sample_order_ok calculate_groups [of sample_order] by (auto simp: sample_order_def)

text \<open>With tax-inclusive prices a line costs exactly its gross less its discounts (a shelf
  label rings up as printed) and so does the order; with tax-exclusive prices the same amount
  is the net.\<close>

theorem calculate_label_price:
  assumes "calculate order = Inr t"
  shows "if oi_pricing_mode order = TaxInclusive
    then (\<forall>l \<in> set (ot_lines t). minor (lt_total l) = minor (lt_gross l) - minor (lt_discount l))
      \<and> minor (ot_total t) = minor (ot_gross t) - minor (ot_discount t)
    else (\<forall>l \<in> set (ot_lines t). minor (lt_net l) = minor (lt_gross l) - minor (lt_discount l))
      \<and> minor (ot_net t) = minor (ot_gross t) - minor (ot_discount t)"
proof -
  from calculate_trace [OF assms] obtain priced subtotal od shares groups
    where tr: "trace order t priced subtotal od shares groups" by blast
  define x :: "line_totals \<Rightarrow> money" where "x = (if oi_pricing_mode order = TaxInclusive then lt_total else lt_net)"
  have each: "\<forall>l \<in> set (ot_lines t). minor (x l) = minor (lt_gross l) - minor (lt_discount l)"
  proof
    fix l assume "l \<in> set (ot_lines t)"
    then obtain i where i: "i < length (oi_lines order)" "l = ot_lines t ! i"
      using tr by (auto simp: in_set_conv_nth trace_def)
    show "minor (x l) = minor (lt_gross l) - minor (lt_discount l)"
      using settled_amounts [OF trace_line(2) [OF tr i(1)]] trace_line(3) [OF tr i(1)] i(2)
      by (cases "oi_pricing_mode order") (simp_all add: x_def)
  qed
  then have "(\<Sum>l\<leftarrow>ot_lines t. minor (x l)) = (\<Sum>l\<leftarrow>ot_lines t. minor (lt_gross l) - minor (lt_discount l))"
    by (intro arg_cong [where f = sum_list] map_cong) auto
  then have "(\<Sum>l\<leftarrow>ot_lines t. minor (x l)) = minor (ot_gross t) - minor (ot_discount t)"
    using trace_sums [OF tr] by (simp add: sum_list_subtractf)
  with each show ?thesis
    using trace_sums [OF tr] by (simp add: x_def split: if_splits)
qed

lemma calculate_label_price_witness:
  "\<exists>t. calculate sample_order = Inr t \<and> minor (ot_total t) = 18693
     \<and> minor (ot_total t) = 24956 - 6263"
  using sample_order_ok calculate_label_price [of sample_order] by (auto simp: sample_order_def)

text \<open>C6: on an order without returns no discount, however large, takes anything below zero:
  every line's combined discount lies between zero and its gross, and its net and tax and the
  order's total are nonnegative.\<close>

theorem calculate_never_negative:
  assumes "calculate order = Inr t" and "nonneg_order order"
  shows "(\<forall>l \<in> set (ot_lines t). 0 \<le> minor (lt_discount l) \<and> minor (lt_discount l) \<le> minor (lt_gross l)
        \<and> 0 \<le> minor (lt_net l) \<and> 0 \<le> minor (lt_tax l))
     \<and> 0 \<le> minor (ot_total t)"
proof -
  from calculate_trace [OF assms(1)] obtain priced subtotal od shares groups
    where tr: "trace order t priced subtotal od shares groups" by blast
  let ?bases = "map (snd \<circ> snd) priced"
  have priced: "0 \<le> minor (fst (snd (priced ! i))) \<and> minor (fst (snd (priced ! i))) \<le> minor (fst (priced ! i))
      \<and> minor (snd (snd (priced ! i))) = minor (fst (priced ! i)) - minor (fst (snd (priced ! i)))
      \<and> wf_money (snd (snd (priced ! i)))" if i: "i < length (oi_lines order)" for i
    using price_line_nonneg [OF trace_line(1) [OF tr i]] assms(2) i by (auto simp: nonneg_order_def)
  have bases: "\<forall>b \<in> set ?bases. 0 \<le> minor b \<and> wf_money b"
    using priced tr by (fastforce simp: in_set_conv_nth trace_def)
  have sub: "minor subtotal = (\<Sum>b\<leftarrow>?bases. minor b)"
    using trace_sums(8) [OF tr] by (simp add: comp_def)
  then have "0 \<le> minor subtotal" using bases by (auto intro!: sum_list_nonneg)
  moreover have "wf_money subtotal" using tr by (auto simp: trace_def intro: try_sum_wf)
  ultimately have od: "0 \<le> minor od" "minor od \<le> minor subtotal" "wf_money od"
    using tr resolve_bounds(2) [of "oi_order_discount order" subtotal "oi_rounding order" od]
    by (auto simp: trace_def wf_money_def in_i64_def split: if_splits)
  have lines: "0 \<le> minor (lt_discount l) \<and> minor (lt_discount l) \<le> minor (lt_gross l)
        \<and> 0 \<le> minor (lt_net l) \<and> 0 \<le> minor (lt_tax l)" if "l \<in> set (ot_lines t)" for l
  proof -
    from that obtain i where i: "i < length (oi_lines order)" and l: "l = ot_lines t ! i"
      using tr by (auto simp: in_set_conv_nth trace_def)
    have share: "0 \<le> minor (shares ! i)" "minor (shares ! i) \<le> minor (snd (snd (priced ! i)))"
      using apportion_nonneg [of od ?bases "oi_currency order" shares i] tr bases od sub i
      by (auto simp: trace_def)
    note st = trace_line(2) [OF tr i, folded l]
    from st obtain taxable
      where "checked_sub (snd (snd (priced ! i))) (shares ! i) = Inr taxable" and tax: "resolve_tax taxable (li_tax_class (oi_lines order ! i)) (oi_pricing_mode order)
        (oi_rounding order) = Inr (lt_net l, lt_tax l)"
      by (auto simp: settled_def)
    with share have "0 \<le> minor taxable" by (auto simp: res_simps)
    with resolve_tax_nonneg [OF tax] assms(2) i have "0 \<le> minor (lt_net l)" "0 \<le> minor (lt_tax l)"
      by (auto simp: nonneg_order_def)
    moreover have "lt_gross l = fst (priced ! i)" using st by (auto simp: settled_def)
    ultimately show ?thesis using priced [OF i] share settled_amounts(1) [OF st] by simp
  qed
  have "minor (ot_total t) = (\<Sum>l\<leftarrow>ot_lines t. minor (lt_net l) + minor (lt_tax l))"
    using trace_sums(5) [OF tr] settled_amounts(2) [OF trace_line(2) [OF tr]] tr
    by (auto intro!: arg_cong [where f = sum_list] map_cong simp: in_set_conv_nth trace_def)
  with lines show ?thesis by (auto intro!: sum_list_nonneg)
qed

lemma calculate_never_negative_witness:
  "\<exists>t. calculate sample_order = Inr t \<and> 0 \<le> minor (ot_total t) \<and> nonneg_order sample_order"
  using sample_order_ok calculate_never_negative [of sample_order] sample_order_nonneg by blast

lemma resolve_tax_rounds:
  assumes "resolve_tax taxable class mode rounding = Inr (net, tax)"
  shows "if basis_points (rate_of class) = 0 then minor tax = 0
    else case mode of
      TaxExclusive \<Rightarrow> rounds_to rounding (minor net * basis_points (rate_of class)) 10000 (minor tax)
    | TaxInclusive \<Rightarrow> rounds_to rounding ((minor net + minor tax) * basis_points (rate_of class))
        (10000 + basis_points (rate_of class)) (minor tax)"
  using assms
  by (auto simp: resolve_tax_def Let_def res_simps rate_is_zero_def apply_rate_def
      basis_points_per_unit_def dest!: mul_ratio_Inr(2) split: pricing_mode.splits if_splits)

text \<open>The tax on every line is the correctly rounded quotient of its mode: of the taxable
  amount times the rate with exclusive prices, and of the tax contained in the line's price
  with inclusive prices; a class with rate zero carries no tax.\<close>

theorem calculate_tax_rounding:
  assumes "calculate order = Inr t" and "l \<in> set (ot_lines t)"
  shows "if basis_points (rate_of (lt_tax_class l)) = 0 then minor (lt_tax l) = 0
    else case oi_pricing_mode order of
      TaxExclusive \<Rightarrow> rounds_to (oi_rounding order)
        (minor (lt_net l) * basis_points (rate_of (lt_tax_class l))) 10000 (minor (lt_tax l))
    | TaxInclusive \<Rightarrow> rounds_to (oi_rounding order)
        (minor (lt_total l) * basis_points (rate_of (lt_tax_class l)))
        (10000 + basis_points (rate_of (lt_tax_class l))) (minor (lt_tax l))"
proof -
  from calculate_trace [OF assms(1)] obtain priced subtotal od shares groups
    where tr: "trace order t priced subtotal od shares groups" by blast
  from assms(2) obtain i where i: "i < length (oi_lines order)" and l: "l = ot_lines t ! i"
    using tr by (auto simp: in_set_conv_nth trace_def)
  note st = trace_line(2) [OF tr i, folded l]
  from st obtain taxable where "resolve_tax taxable (lt_tax_class l) (oi_pricing_mode order)
        (oi_rounding order) = Inr (lt_net l, lt_tax l)"
    by (auto simp: settled_def)
  from resolve_tax_rounds [OF this] settled_amounts(2) [OF st] show ?thesis
    by (cases "oi_pricing_mode order") (simp_all split: if_splits)
qed

lemma calculate_tax_rounding_witness:
  "\<exists>t. calculate sample_order = Inr t
     \<and> rounds_to HalfUp (minor (lt_total (ot_lines t ! 0)) * 1500) 11500 (minor (lt_tax (ot_lines t ! 0)))
     \<and> minor (lt_tax (ot_lines t ! 0)) = 1029"
proof -
  have "map_ok (\<lambda>t. (length (ot_lines t), lt_tax_class (ot_lines t ! 0), minor (lt_tax (ot_lines t ! 0))))
      (calculate sample_order) = Inr (3, Standard \<lparr>basis_points = 1500\<rparr>, 1029)" by code_simp
  then obtain t where t: "calculate sample_order = Inr t" "length (ot_lines t) = 3"
      "lt_tax_class (ot_lines t ! 0) = Standard \<lparr>basis_points = 1500\<rparr>"
      "minor (lt_tax (ot_lines t ! 0)) = 1029"
    by (auto simp: res_simps)
  then have "ot_lines t ! 0 \<in> set (ot_lines t)" by simp
  from calculate_tax_rounding [OF t(1) this] t show ?thesis by (simp add: sample_order_def)
qed

end
