(* ===== verification/Lease.thy ===== *)
theory Lease
  imports Units "HOL-Library.Multiset"
begin

text \<open>
  \<open>policy/lease.rs\<close>: which device owns an open ticket, whether another may take it, and who
  wins when two devices claimed it apart.  The locale \<open>contest\<close> states what the resolution
  of a contest has to be for every device to agree on the winner.
\<close>

definition lease_idle_timeout_millis :: int where
  "lease_idle_timeout_millis = 10 * 60 * 1000"

record ticket_lease =
  ticket_id :: uuid
  holder :: uuid
  claimed_at :: timestamp
  touched_at :: timestamp

definition lease_new :: "uuid \<Rightarrow> uuid \<Rightarrow> timestamp \<Rightarrow> ticket_lease" where
  "lease_new ticket device at =
     \<lparr>ticket_id = ticket, holder = device, claimed_at = at, touched_at = at\<rparr>"

definition lease_is_expired :: "ticket_lease \<Rightarrow> timestamp \<Rightarrow> bool" where
  "lease_is_expired l now \<longleftrightarrow>
     saturate \<bar>saturate (millis now - millis (touched_at l))\<bar> \<ge> lease_idle_timeout_millis"

definition lease_touched :: "ticket_lease \<Rightarrow> timestamp \<Rightarrow> ticket_lease" where
  "lease_touched l at = l\<lparr>touched_at := at\<rparr>"

datatype claim_verdict = Free | AlreadyHeld | Stale uuid | Held uuid

fun permits_claim :: "claim_verdict \<Rightarrow> bool" where
  "permits_claim Free = True"
| "permits_claim AlreadyHeld = True"
| "permits_claim (Stale h) = True"
| "permits_claim (Held h) = False"

fun is_contested :: "claim_verdict \<Rightarrow> bool" where
  "is_contested (Stale h) = True"
| "is_contested Free = False"
| "is_contested AlreadyHeld = False"
| "is_contested (Held h) = False"

definition evaluate_claim :: "ticket_lease option \<Rightarrow> uuid \<Rightarrow> timestamp \<Rightarrow> claim_verdict" where
  "evaluate_claim lease device now =
     (case lease of
        None \<Rightarrow> Free
      | Some l \<Rightarrow>
          (if holder l = device then AlreadyHeld
           else if lease_is_expired l now then Stale (holder l)
           else Held (holder l)))"

definition resolve_contest :: "ticket_lease \<Rightarrow> ticket_lease \<Rightarrow> ticket_lease" where
  "resolve_contest first second =
     (if millis (claimed_at first) < millis (claimed_at second) then first
      else if millis (claimed_at first) > millis (claimed_at second) then second
      else if holder first \<le> holder second then first else second)"

section \<open>What a contest resolution must be\<close>

text \<open>
  On the claims a contest can be about, the winner is one of the two, and does not depend on
  the order in which a device learns of the claims.
\<close>

locale contest =
  fixes pick :: "'c \<Rightarrow> 'c \<Rightarrow> 'c" and claims :: "'c set"
  assumes pick_one: "pick a b = a \<or> pick a b = b"
    and pick_commute: "a \<in> claims \<Longrightarrow> b \<in> claims \<Longrightarrow> pick a b = pick b a"
    and pick_assoc: "pick (pick a b) c = pick a (pick b c)"
begin

lemma fold_pick_in: "fold (\<lambda>c w. pick w c) cs w \<in> insert w (set cs)"
proof (induction cs arbitrary: w)
  case (Cons c cs)
  show ?case using Cons.IH [of "pick w c"] pick_one [of w c] by auto
qed simp

text \<open>Every delivery order of a set of claims elects the same winner.\<close>

lemma fold_pick_swap:
  assumes "a \<in> claims" and "b \<in> claims"
  shows "pick (pick w a) b = pick (pick w b) a"
  using assms by (simp add: pick_assoc pick_commute [of a b])

lemma fold_pick_move:
  assumes "set cs \<subseteq> claims" and "a \<in> claims"
  shows "fold (\<lambda>c w. pick w c) cs (pick w a) = pick (fold (\<lambda>c w. pick w c) cs w) a"
  using assms by (induction cs arbitrary: w) (auto simp: fold_pick_swap)

lemma fold_pick_perm:
  assumes "mset cs = mset ds" and "set cs \<subseteq> claims"
  shows "fold (\<lambda>c w. pick w c) cs w = fold (\<lambda>c w. pick w c) ds w"
  using assms
proof (induction cs arbitrary: ds w)
  case (Cons a cs)
  then have "a \<in> set ds" by (metis list.set_intros(1) mset_eq_setD)
  then obtain as bs where ds: "ds = as @ a # bs" by (auto simp: in_set_conv_decomp)
  with Cons.prems have m: "mset cs = mset (as @ bs)" by simp
  have sub: "set ds \<subseteq> claims" using Cons.prems by (metis mset_eq_setD)
  have "fold (\<lambda>c w. pick w c) (a # cs) w = fold (\<lambda>c w. pick w c) (as @ bs) (pick w a)"
    using Cons.IH [OF m] Cons.prems(2) by simp
  also have "\<dots> = fold (\<lambda>c w. pick w c) ds w"
    using fold_pick_move [of as a w] sub by (simp add: ds)
  finally show ?case .
qed simp

end

text \<open>The fresh claims on one ticket: what \<open>lease_new\<close> makes.\<close>

definition fresh_claims :: "uuid \<Rightarrow> ticket_lease set" where
  "fresh_claims t = {l. ticket_id l = t \<and> touched_at l = claimed_at l}"

lemma fresh_claims_eq:
  "a \<in> fresh_claims t \<Longrightarrow> b \<in> fresh_claims t \<Longrightarrow> holder a = holder b
     \<Longrightarrow> millis (claimed_at a) = millis (claimed_at b) \<Longrightarrow> a = b"
  by (cases a; cases b) (auto simp: fresh_claims_def intro: timestamp.equality)

interpretation lease_contest: contest resolve_contest "fresh_claims t"
proof unfold_locales
  show "resolve_contest a b = a \<or> resolve_contest a b = b" for a b
    by (simp add: resolve_contest_def)
  show "resolve_contest a b = resolve_contest b a"
    if "a \<in> fresh_claims t" "b \<in> fresh_claims t" for a b
    using that fresh_claims_eq [of a t b] by (auto simp: resolve_contest_def)
  show "resolve_contest (resolve_contest a b) c = resolve_contest a (resolve_contest b c)" for a b c
    by (auto simp: resolve_contest_def)
qed

lemma lease_new_fresh: "lease_new t d at \<in> fresh_claims t"
  by (simp add: lease_new_def fresh_claims_def)

section \<open>Properties\<close>

lemma resolve_contest_earliest:
  "millis (claimed_at (resolve_contest a b)) = min (millis (claimed_at a)) (millis (claimed_at b))"
  by (simp add: resolve_contest_def)

lemma fold_contest_earliest:
  "millis (claimed_at (fold (\<lambda>c w. resolve_contest w c) cs w)) \<le> millis (claimed_at w)
   \<and> (\<forall>c \<in> set cs. millis (claimed_at (fold (\<lambda>c w. resolve_contest w c) cs w)) \<le> millis (claimed_at c))"
proof (induction cs arbitrary: w)
  case (Cons c cs)
  from Cons.IH [of "resolve_contest w c"] show ?case
    by (auto simp: resolve_contest_earliest)
qed simp

text \<open>The lease after a list of contested claims, each a device and a time, reached a holder.\<close>

definition contested :: "uuid \<Rightarrow> ticket_lease \<Rightarrow> (uuid \<times> timestamp) list \<Rightarrow> ticket_lease" where
  "contested t w claims = fold (\<lambda>c w. resolve_contest w c) (map (\<lambda>(d, at). lease_new t d at) claims) w"

text \<open>Contested claims on a ticket resolve to the same winner in whatever order a device
  or the server learns of them; the winner is one of the claims made, and none was earlier.\<close>

theorem contest_order_independent:
  assumes "mset claims = mset claims'"
  shows "contested t (lease_new t d0 at0) claims = contested t (lease_new t d0 at0) claims'
     \<and> (\<exists>(d, at) \<in> set ((d0, at0) # claims). contested t (lease_new t d0 at0) claims = lease_new t d at
          \<and> (\<forall>(d', at') \<in> set ((d0, at0) # claims). millis at \<le> millis at'))"
proof -
  let ?l = "\<lambda>(d, at). lease_new t d at" and ?w = "lease_new t d0 at0"
  have sub: "set (map ?l claims) \<subseteq> fresh_claims t" by (auto simp: lease_new_fresh)
  have "mset (map ?l claims) = mset (map ?l claims')" using assms by simp
  then have same: "contested t ?w claims = contested t ?w claims'"
    unfolding contested_def using sub by (rule lease_contest.fold_pick_perm)
  have "contested t ?w claims \<in> insert ?w (set (map ?l claims))"
    unfolding contested_def by (rule lease_contest.fold_pick_in)
  then obtain d at where c: "(d, at) \<in> set ((d0, at0) # claims)" "contested t ?w claims = lease_new t d at"
    by auto
  have "millis at \<le> millis at'" if "(d', at') \<in> set ((d0, at0) # claims)" for d' at'
    using fold_contest_earliest [where cs = "map ?l claims" and w = ?w] that c(2)
    by (auto simp: contested_def lease_new_def)
  with same c show ?thesis by blast
qed

lemma contest_order_independent_witness:
  "contested 1 (lease_new 1 7 \<lparr>millis = 50\<rparr>) [(8, \<lparr>millis = 40\<rparr>), (9, \<lparr>millis = 40\<rparr>)]
     = contested 1 (lease_new 1 7 \<lparr>millis = 50\<rparr>) [(9, \<lparr>millis = 40\<rparr>), (8, \<lparr>millis = 40\<rparr>)]
   \<and> holder (contested 1 (lease_new 1 7 \<lparr>millis = 50\<rparr>) [(9, \<lparr>millis = 40\<rparr>), (8, \<lparr>millis = 40\<rparr>)]) = 8"
  using contest_order_independent
    [of "[(8, \<lparr>millis = 40\<rparr>), (9, \<lparr>millis = 40\<rparr>)]" "[(9, \<lparr>millis = 40\<rparr>), (8, \<lparr>millis = 40\<rparr>)]"
      1 7 "\<lparr>millis = 50\<rparr>"]
  by (simp add: contested_def resolve_contest_def lease_new_def add_mset_commute)

end
