(* ===== verification/Projection.thy ===== *)
theory Projection
  imports Prelude
begin

text \<open>
  Every aggregate of \<open>sahl-core\<close> is a projection: its state is what a fallible step
  function makes of a list of events, starting from an opening event.  This theory states
  that contract as locales.  \<open>event_sourced\<close> asks only for an invariant that every accepted
  event keeps; \<open>evidence_log\<close> adds a preorder that every accepted event climbs, which is how
  the code promises that recorded facts are never erased.  The aggregates interpret both.
\<close>

locale event_sourced =
  fixes step :: "'s \<Rightarrow> 'ev \<Rightarrow> 'err + 's" and good :: "'s \<Rightarrow> bool"
  assumes step_good: "good s \<Longrightarrow> step s e = Inr s' \<Longrightarrow> good s'"
begin

lemma run_good: "try_fold step s es = Inr s' \<Longrightarrow> good s \<Longrightarrow> good s'"
  by (rule try_fold_invariant [where P = good]) (auto intro: step_good)

text \<open>Replaying a whole history is replaying a prefix and then the rest.\<close>

lemma run_incremental:
  "try_fold step s (es @ fs) = and_then (try_fold step s es) (\<lambda>m. try_fold step m fs)"
  by (rule try_fold_append)

lemma run_prefix:
  assumes "try_fold step s (es @ fs) = Inr s'" and "good s"
  shows "\<exists>m. try_fold step s es = Inr m \<and> good m \<and> try_fold step m fs = Inr s'"
  using assms by (auto simp: try_fold_append res_simps intro: run_good)

end

locale evidence_log = event_sourced step good
  for step :: "'s \<Rightarrow> 'ev \<Rightarrow> 'err + 's" and good :: "'s \<Rightarrow> bool" +
  fixes keeps :: "'s \<Rightarrow> 's \<Rightarrow> bool"
  assumes keeps_refl: "keeps s s"
    and keeps_trans: "keeps a b \<Longrightarrow> keeps b c \<Longrightarrow> keeps a c"
    and step_keeps: "good s \<Longrightarrow> step s e = Inr s' \<Longrightarrow> keeps s s'"
begin

lemma run_keeps:
  assumes "try_fold step s es = Inr s'" and "good s"
  shows "keeps s s'"
proof -
  have "good s' \<and> keeps s s'"
    using assms(1)
    by (rule try_fold_invariant [where P = "\<lambda>x. good x \<and> keeps s x"])
      (auto simp: assms(2) keeps_refl intro: step_good keeps_trans step_keeps)
  then show ?thesis by simp
qed

end

text \<open>A ledger reading of a projection: every accepted event moves the level of a key by an amount
  that the event alone determines, so a level is the sum of the movements.\<close>

locale accounted = event_sourced step good
  for step :: "'s \<Rightarrow> 'ev \<Rightarrow> 'err + 's" and good :: "'s \<Rightarrow> bool" +
  fixes level :: "'s \<Rightarrow> 'k \<Rightarrow> int"
    and change :: "'k \<Rightarrow> 'ev \<Rightarrow> int"
  assumes step_level: "good s \<Longrightarrow> step s e = Inr s' \<Longrightarrow> level s' k = level s k + change k e"
begin

lemma run_level:
  "try_fold step s es = Inr s' \<Longrightarrow> good s \<Longrightarrow> level s' k = level s k + (\<Sum>e\<leftarrow>es. change k e)"
proof (induction es arbitrary: s)
  case (Cons e es)
  then obtain m where m: "step s e = Inr m" "try_fold step m es = Inr s'"
    by (auto simp: res_simps)
  with Cons.IH [OF m(2) step_good] Cons.prems step_level [of s e m k] show ?case by simp
qed simp

end

end
