(* ===== verification/Text.thy ===== *)
theory Text
  imports Prelude "HOL-Library.List_Lexorder" "HOL-Library.Char_ord"
begin

text \<open>
  Text as the Rust standard library sees it: a string is the list of its Unicode scalar values.
  Its order is the order of the code points, which is also the byte order of UTF-8.  The methods
  of \<open>str\<close> that the catalogue, the importer and the scale labels use are modelled here.
\<close>

type_synonym utext = "int list"

definition lit :: "string \<Rightarrow> utext" where
  "lit s = map of_char s"

text \<open>\<open>char::is_whitespace\<close>: the Unicode property \<open>White_Space\<close>.\<close>

definition is_whitespace :: "int \<Rightarrow> bool" where
  "is_whitespace c \<longleftrightarrow> 9 \<le> c \<and> c \<le> 13 \<or> c \<in> set [32, 133, 160, 5760, 8232, 8233, 8239, 8287, 12288]
     \<or> 8192 \<le> c \<and> c \<le> 8202"

definition trim_start :: "utext \<Rightarrow> utext" where
  "trim_start s = dropWhile is_whitespace s"

definition trim :: "utext \<Rightarrow> utext" where
  "trim s = rev (trim_start (rev (trim_start s)))"

definition is_ascii_digit :: "int \<Rightarrow> bool" where
  "is_ascii_digit c \<longleftrightarrow> 48 \<le> c \<and> c \<le> 57"

text \<open>\<open>split_once\<close> at a character, and \<open>split\<close> at any of several.\<close>

definition split_once :: "int \<Rightarrow> utext \<Rightarrow> (utext \<times> utext) option" where
  "split_once d s =
     (if d \<in> set s then Some (takeWhile (\<lambda>c. c \<noteq> d) s, tl (dropWhile (\<lambda>c. c \<noteq> d) s)) else None)"

fun split_any :: "int list \<Rightarrow> utext \<Rightarrow> utext \<Rightarrow> utext list" where
  "split_any ds acc [] = [acc]"
| "split_any ds acc (c # s) =
     (if c \<in> set ds then acc # split_any ds [] s else split_any ds (acc @ [c]) s)"

text \<open>\<open>str::lines\<close>: a line ends at a line feed, and loses a carriage return before it.\<close>

definition strip_cr :: "utext \<Rightarrow> utext" where
  "strip_cr s = (if s \<noteq> [] \<and> last s = 13 then butlast s else s)"

fun lines_from :: "utext \<Rightarrow> utext \<Rightarrow> utext list" where
  "lines_from acc [] = (if acc = [] then [] else [acc])"
| "lines_from acc (c # s) =
     (if c = 10 then strip_cr acc # lines_from [] s else lines_from (acc @ [c]) s)"

definition text_lines :: "utext \<Rightarrow> utext list" where
  "text_lines s = lines_from [] s"

text \<open>\<open>parse\<close> at an integer type of range \<open>R\<close>: an optional sign and decimal digits.\<close>

definition digits_value :: "utext \<Rightarrow> int" where
  "digits_value s = foldl (\<lambda>v c. v * 10 + (c - 48)) 0 s"

definition parse_int :: "(int \<Rightarrow> bool) \<Rightarrow> utext \<Rightarrow> int option" where
  "parse_int R s =
     (case s of
        [] \<Rightarrow> None
      | c # cs \<Rightarrow>
          let (sign, body) = (if c = 45 then (- 1, cs) else if c = 43 then (1, cs) else (1, s)) in
          if body = [] \<or> \<not> list_all is_ascii_digit body then None
          else fit R (sign * digits_value body))"

lemma trim_Nil_iff: "trim s = [] \<longleftrightarrow> list_all is_whitespace s"
proof
  assume "trim s = []"
  then have "list_all is_whitespace (trim_start s)"
    by (auto simp: trim_def trim_start_def dropWhile_eq_Nil_conv list_all_iff)
  moreover have "\<forall>c \<in> set (takeWhile is_whitespace s). is_whitespace c" by (auto dest: set_takeWhileD)
  moreover have "s = takeWhile is_whitespace s @ trim_start s" by (simp add: trim_start_def)
  ultimately show "list_all is_whitespace s" by (metis list_all_append list_all_iff)
next
  assume "list_all is_whitespace s"
  then have "trim_start s = []" by (auto simp: trim_start_def dropWhile_eq_Nil_conv list_all_iff)
  moreover have "trim_start [] = []" by (simp add: trim_start_def)
  ultimately show "trim s = []" by (simp add: trim_def)
qed

lemma trim_trim_Nil [simp]: "trim (trim s) = [] \<longleftrightarrow> trim s = []"
proof
  assume "trim (trim s) = []"
  then have w: "list_all is_whitespace (trim s)" by (simp add: trim_Nil_iff)
  have "\<forall>c \<in> set (takeWhile is_whitespace t). is_whitespace c" for t by (auto dest: set_takeWhileD)
  moreover have "t = takeWhile is_whitespace t @ trim_start t" for t by (simp add: trim_start_def)
  ultimately have pre: "list_all is_whitespace t \<longleftrightarrow> list_all is_whitespace (trim_start t)" for t
    by (metis list_all_append list_all_iff)
  have "list_all is_whitespace (rev (trim_start (rev (trim_start s))))" using w by (simp add: trim_def)
  then have "list_all is_whitespace (rev (trim_start s))" using pre by simp
  then have "list_all is_whitespace s" using pre by simp
  then show "trim s = []" by (simp add: trim_Nil_iff)
next
  assume "trim s = []"
  moreover have "trim [] = []" by (simp add: trim_def trim_start_def)
  ultimately show "trim (trim s) = []" by simp
qed

lemma digits_value_snoc: "digits_value (s @ [c]) = digits_value s * 10 + (c - 48)"
  by (simp add: digits_value_def)

lemma digits_value_bounds:
  "list_all is_ascii_digit s \<Longrightarrow> 0 \<le> digits_value s \<and> digits_value s < 10 ^ length s"
proof (induction s rule: rev_induct)
  case (snoc c s)
  then show ?case by (auto simp: digits_value_snoc is_ascii_digit_def)
qed (simp add: digits_value_def)

lemma parse_int_digits:
  "list_all is_ascii_digit s \<Longrightarrow> s \<noteq> [] \<Longrightarrow> parse_int R s = fit R (digits_value s)"
  by (cases s) (auto simp: parse_int_def is_ascii_digit_def)

end
