(* ===== verification/Sale.thy ===== *)
theory Sale
  imports Tax Lease Projection Text "HOL-Library.Sublist"
begin

text \<open>
  A sale as \<open>crates/sahl-core/src/sale\<close> has it: the events of a ticket, the state they
  replay to, its totals through the VAT engine, and the guards on every transition.
  \<open>sale_apply\<close> is \<open>Sale::apply\<close>: it takes the sale by mutable reference, so the model
  returns the sale as the call leaves it, on the error paths too.
\<close>

section \<open>Lines and tenders\<close>

datatype void_reason = Mistake | CustomerChanged | Damaged | Unavailable

record line_void =
  lv_reason :: void_reason
  lv_authorized_by :: uuid

record modifier =
  mo_option_id :: uuid
  mo_name :: utext
  mo_price_delta :: money

record sale_line =
  l_id :: uuid
  l_product_id :: uuid
  l_name :: utext
  l_unit_price :: money
  l_quantity :: quantity
  l_tax_class :: tax_class
  l_discount :: discount
  l_modifiers :: "modifier list"
  l_void :: "line_void option"

definition is_active :: "sale_line \<Rightarrow> bool" where
  "is_active l \<longleftrightarrow> l_void l = None"

definition effective_unit_price :: "sale_line \<Rightarrow> money_error + money" where
  "effective_unit_price l =
     try_fold (\<lambda>price m. checked_add price (mo_price_delta m)) (l_unit_price l) (l_modifiers l)"

definition to_tax_input :: "sale_line \<Rightarrow> money_error + line_input" where
  "to_tax_input l =
     and_then (effective_unit_price l) (\<lambda>p.
     Inr \<lparr>li_unit_price = p, li_quantity = l_quantity l, li_tax_class = l_tax_class l,
          li_discount = l_discount l\<rparr>)"

definition line_value :: "sale_line \<Rightarrow> money_error + money" where
  "line_value l =
     and_then (effective_unit_price l) (\<lambda>p.
     mul_ratio p (milli (l_quantity l)) milli_per_unit HalfUp)"

definition modifier_total :: "sale_line \<Rightarrow> money_error + money" where
  "modifier_total l =
     try_fold (\<lambda>sum m. checked_add sum (mo_price_delta m))
       (from_minor 0 (currency (l_unit_price l))) (l_modifiers l)"

datatype wallet = Bkash | Nagad | Rocket | Upay | StcPay

datatype tender_method = Cash | Card | MobileWallet wallet | BankTransfer | StoreCredit

fun accepts_overtender :: "tender_method \<Rightarrow> bool" where
  "accepts_overtender Cash = True"
| "accepts_overtender Card = False"
| "accepts_overtender (MobileWallet w) = False"
| "accepts_overtender BankTransfer = False"
| "accepts_overtender StoreCredit = False"

fun affects_cash_drawer :: "tender_method \<Rightarrow> bool" where
  "affects_cash_drawer Cash = True"
| "affects_cash_drawer Card = False"
| "affects_cash_drawer (MobileWallet w) = False"
| "affects_cash_drawer BankTransfer = False"
| "affects_cash_drawer StoreCredit = False"

record tender =
  te_id :: uuid
  te_method :: tender_method
  te_amount :: money
  te_reference :: "string option"

section \<open>Events and errors\<close>

datatype sale_event =
    Opened (ev_sale_id: uuid) uuid currency pricing_mode rounding
  | LineAdded (ev_sale_id: uuid) uuid uuid utext money quantity tax_class "modifier list"
  | LineQuantityChanged (ev_sale_id: uuid) uuid quantity
  | LineDiscounted (ev_sale_id: uuid) uuid discount uuid
  | LineVoided (ev_sale_id: uuid) uuid void_reason uuid
  | OrderDiscounted (ev_sale_id: uuid) discount uuid
  | TenderRecorded (ev_sale_id: uuid) uuid tender_method money "string option"
  | Completed (ev_sale_id: uuid) money money timestamp
  | TicketClaimed (ev_sale_id: uuid) uuid timestamp
  | TicketReleased (ev_sale_id: uuid) uuid
  | Seated (ev_sale_id: uuid) uuid nat timestamp uuid
  | LinesFired (ev_sale_id: uuid) "uuid list" nat timestamp uuid
  | Abandoned (ev_sale_id: uuid) uuid

definition event_sale_id :: "sale_event \<Rightarrow> uuid" where
  "event_sale_id ev = ev_sale_id ev"

fun sale_event_kind :: "sale_event \<Rightarrow> string" where
  "sale_event_kind (Opened _ _ _ _ _) = ''sale.opened''"
| "sale_event_kind (LineAdded _ _ _ _ _ _ _ _) = ''sale.line_added''"
| "sale_event_kind (LineQuantityChanged _ _ _) = ''sale.line_quantity_changed''"
| "sale_event_kind (LineDiscounted _ _ _ _) = ''sale.line_discounted''"
| "sale_event_kind (LineVoided _ _ _ _) = ''sale.line_voided''"
| "sale_event_kind (OrderDiscounted _ _ _) = ''sale.order_discounted''"
| "sale_event_kind (TicketClaimed _ _ _) = ''sale.ticket_claimed''"
| "sale_event_kind (TicketReleased _ _) = ''sale.ticket_released''"
| "sale_event_kind (Seated _ _ _ _ _) = ''sale.seated''"
| "sale_event_kind (LinesFired _ _ _ _ _) = ''sale.lines_fired''"
| "sale_event_kind (TenderRecorded _ _ _ _ _) = ''sale.tender_recorded''"
| "sale_event_kind (Completed _ _ _ _) = ''sale.completed''"
| "sale_event_kind (Abandoned _ _) = ''sale.abandoned''"

datatype sale_error =
    SaleMoney money_error
  | NoCovers
  | NegativeLinePrice uuid
  | SaleTax tax_error
  | NotOpenedFirst string
  | AlreadyOpened
  | WrongSale uuid uuid
  | NotOpen string
  | DuplicateLine uuid
  | UnknownLine uuid
  | AlreadyVoided uuid
  | NoActiveLines
  | Outstanding money
  | NonCashOvertender money money
  | ChangeMismatch money money
  | TotalMismatch money money
  | NonPositiveTender money

section \<open>The sale\<close>

datatype sale_status = StatusOpen | StatusCompleted | StatusAbandoned

fun status_label :: "sale_status \<Rightarrow> string" where
  "status_label StatusOpen = ''open''"
| "status_label StatusCompleted = ''completed''"
| "status_label StatusAbandoned = ''abandoned''"

record seating =
  se_table_id :: uuid
  se_covers :: nat
  se_seated_at :: timestamp

record sale =
  s_id :: uuid
  s_status :: sale_status
  s_opened_by :: uuid
  s_currency :: currency
  s_pricing_mode :: pricing_mode
  s_rounding :: rounding
  s_lines :: "sale_line list"
  s_order_discount :: discount
  s_tenders :: "tender list"
  s_settled_total :: "money option"
  s_change_given :: "money option"
  s_settled_at :: "timestamp option"
  s_lease :: "ticket_lease option"
  s_seating :: "seating option"
  s_fired :: "uuid list"
  s_rounds_fired :: nat

definition sale_opened :: "sale_event \<Rightarrow> sale_error + sale" where
  "sale_opened ev =
     (case ev of
        Opened sale_id opened_by c mode r \<Rightarrow>
          Inr \<lparr>s_id = sale_id, s_status = StatusOpen, s_opened_by = opened_by, s_currency = c,
               s_pricing_mode = mode, s_rounding = r, s_lines = [], s_order_discount = DiscountNone,
               s_tenders = [], s_settled_total = None, s_change_given = None, s_settled_at = None,
               s_lease = None, s_seating = None, s_fired = [], s_rounds_fired = 0\<rparr>
      | _ \<Rightarrow> Inl (NotOpenedFirst (sale_event_kind ev)))"

definition sale_totals :: "sale \<Rightarrow> sale_error + order_totals" where
  "sale_totals s =
     and_then (map_err SaleMoney (try_map to_tax_input (filter is_active (s_lines s)))) (\<lambda>lines.
     if lines = [] then Inl NoActiveLines
     else
       let order = with_order_discount (order_input_new (s_currency s) lines) (s_order_discount s);
           order = order\<lparr>oi_pricing_mode := s_pricing_mode s, oi_rounding := s_rounding s\<rparr>
       in map_err SaleTax (calculate order))"

definition tendered :: "sale \<Rightarrow> sale_error + money" where
  "tendered s = map_err SaleMoney (try_sum (map te_amount (s_tenders s)) (s_currency s))"

definition balance_due :: "sale \<Rightarrow> sale_error + money" where
  "balance_due s =
     and_then (sale_totals s) (\<lambda>t.
     and_then (tendered s) (\<lambda>paid.
     map_err SaleMoney (checked_sub (ot_total t) paid)))"

definition change_due :: "sale \<Rightarrow> sale_error + money" where
  "change_due s =
     and_then (balance_due s) (\<lambda>balance.
     if is_negative balance then map_err SaleMoney (checked_neg balance)
     else Inr (money_zero (s_currency s)))"

definition cash_tenders :: "sale \<Rightarrow> money list" where
  "cash_tenders s = map te_amount (filter (\<lambda>t. affects_cash_drawer (te_method t)) (s_tenders s))"

definition net_cash :: "sale \<Rightarrow> sale_error + money" where
  "net_cash s =
     and_then (map_err SaleMoney (try_sum (cash_tenders s) (s_currency s))) (\<lambda>cash.
     let change = (case s_change_given s of Some c \<Rightarrow> c | None \<Rightarrow> money_zero (s_currency s)) in
     map_err SaleMoney (checked_sub cash change))"

definition non_cash_tenders :: "sale \<Rightarrow> money list" where
  "non_cash_tenders s =
     map te_amount (filter (\<lambda>t. \<not> accepts_overtender (te_method t)) (s_tenders s))"

definition assert_non_cash_within_total :: "sale \<Rightarrow> sale_error + unit" where
  "assert_non_cash_within_total s =
     and_then (map_err SaleMoney (try_sum (non_cash_tenders s) (s_currency s))) (\<lambda>non_cash.
     case sale_totals s of
       Inl _ \<Rightarrow> Inr ()
     | Inr totals \<Rightarrow>
         (if minor non_cash > minor (ot_total totals)
          then Inl (NonCashOvertender non_cash (ot_total totals)) else Inr ()))"

definition find_line :: "sale \<Rightarrow> uuid \<Rightarrow> sale_line option" where
  "find_line s line_id = List.find (\<lambda>l. l_id l = line_id) (s_lines s)"

text \<open>\<open>line_mut(id)?\<close> followed by an assignment to the line it found.\<close>

definition on_line :: "sale \<Rightarrow> uuid \<Rightarrow> (sale_line \<Rightarrow> sale_line) \<Rightarrow> sale_error + sale" where
  "on_line s line_id f =
     (case update_first (\<lambda>l. l_id l = line_id) f (s_lines s) of
        None \<Rightarrow> Inl (UnknownLine line_id)
      | Some ls \<Rightarrow> Inr (s\<lparr>s_lines := ls\<rparr>))"

text \<open>An arm of the match that fails before it assigns anything, or assigns and succeeds.\<close>

definition assigning :: "sale \<Rightarrow> sale_error + sale \<Rightarrow> sale \<times> (sale_error + unit)" where
  "assigning s r = (case r of Inl e \<Rightarrow> (s, Inl e) | Inr s' \<Rightarrow> (s', Inr ()))"

definition fire :: "uuid list \<Rightarrow> uuid list \<Rightarrow> uuid list" where
  "fire fired ids = foldl (\<lambda>fs i. if i \<in> set fs then fs else fs @ [i]) fired ids"

definition add_line :: "sale \<Rightarrow> sale_line \<Rightarrow> sale_error + sale" where
  "add_line s line =
     (if find_line s (l_id line) \<noteq> None then Inl (DuplicateLine (l_id line))
      else
        and_then (map_err SaleMoney (effective_unit_price line)) (\<lambda>price.
        if minor price < 0 then Inl (NegativeLinePrice (l_id line))
        else Inr (s\<lparr>s_lines := s_lines s @ [line]\<rparr>)))"

definition void_line :: "sale \<Rightarrow> uuid \<Rightarrow> line_void \<Rightarrow> sale_error + sale" where
  "void_line s line_id v =
     (case find_line s line_id of
        None \<Rightarrow> Inl (UnknownLine line_id)
      | Some line \<Rightarrow>
          (if l_void line \<noteq> None then Inl (AlreadyVoided line_id)
           else on_line s line_id (\<lambda>l. l\<lparr>l_void := Some v\<rparr>)))"

definition claim_ticket :: "sale \<Rightarrow> uuid \<Rightarrow> uuid \<Rightarrow> timestamp \<Rightarrow> sale" where
  "claim_ticket s sale_id device at =
     (let claim = lease_new sale_id device at in
      s\<lparr>s_lease := Some (case s_lease s of
          Some held \<Rightarrow> (if holder held \<noteq> device then resolve_contest held claim else claim)
        | None \<Rightarrow> claim)\<rparr>)"

definition release_ticket :: "sale \<Rightarrow> uuid \<Rightarrow> sale" where
  "release_ticket s device =
     (case s_lease s of
        Some held \<Rightarrow> (if holder held = device then s\<lparr>s_lease := None\<rparr> else s)
      | None \<Rightarrow> s)"

definition complete_sale :: "sale \<Rightarrow> money \<Rightarrow> money \<Rightarrow> timestamp \<Rightarrow> sale_error + sale" where
  "complete_sale s recorded change at =
     (if s_status s \<noteq> StatusOpen then Inl (NotOpen (status_label (s_status s)))
      else
        and_then (sale_totals s) (\<lambda>t.
        if ot_total t \<noteq> recorded then Inl (TotalMismatch recorded (ot_total t))
        else
          and_then (balance_due s) (\<lambda>outstanding.
          if is_positive outstanding then Inl (Outstanding outstanding)
          else
            and_then (change_due s) (\<lambda>calculated_change.
            if calculated_change \<noteq> change then Inl (ChangeMismatch change calculated_change)
            else Inr (s\<lparr>s_settled_total := Some recorded, s_change_given := Some change,
                        s_settled_at := Some at, s_status := StatusCompleted\<rparr>)))))"

fun is_terminal_event :: "sale_event \<Rightarrow> bool" where
  "is_terminal_event (Completed _ _ _ _) = True"
| "is_terminal_event (Abandoned _ _) = True"
| "is_terminal_event _ = False"

definition sale_apply :: "sale \<Rightarrow> sale_event \<Rightarrow> sale \<times> (sale_error + unit)" where
  "sale_apply s ev =
     (if event_sale_id ev \<noteq> s_id s then (s, Inl (WrongSale (s_id s) (event_sale_id ev)))
      else if \<not> is_terminal_event ev \<and> s_status s \<noteq> StatusOpen
      then (s, Inl (NotOpen (status_label (s_status s))))
      else case ev of
        Opened _ _ _ _ _ \<Rightarrow> (s, Inl AlreadyOpened)
      | LineAdded _ line_id product_id name unit_price quantity tax_class modifiers \<Rightarrow>
          assigning s (add_line s
            \<lparr>l_id = line_id, l_product_id = product_id, l_name = name, l_unit_price = unit_price,
             l_quantity = quantity, l_tax_class = tax_class, l_discount = DiscountNone,
             l_modifiers = modifiers, l_void = None\<rparr>)
      | LineQuantityChanged _ line_id quantity \<Rightarrow>
          assigning s (on_line s line_id (\<lambda>l. l\<lparr>l_quantity := quantity\<rparr>))
      | LineDiscounted _ line_id d _ \<Rightarrow>
          assigning s (on_line s line_id (\<lambda>l. l\<lparr>l_discount := d\<rparr>))
      | LineVoided _ line_id reason authorized_by \<Rightarrow>
          assigning s (void_line s line_id \<lparr>lv_reason = reason, lv_authorized_by = authorized_by\<rparr>)
      | TicketClaimed sale_id device at \<Rightarrow> (claim_ticket s sale_id device at, Inr ())
      | TicketReleased _ device \<Rightarrow> (release_ticket s device, Inr ())
      | Seated _ table_id covers at _ \<Rightarrow>
          (if covers = 0 then (s, Inl NoCovers)
           else (s\<lparr>s_seating := Some \<lparr>se_table_id = table_id, se_covers = covers,
                    se_seated_at = at\<rparr>\<rparr>, Inr ()))
      | LinesFired _ line_ids round _ _ \<Rightarrow>
          (s\<lparr>s_fired := fire (s_fired s) line_ids, s_rounds_fired := max (s_rounds_fired s) round\<rparr>,
           Inr ())
      | OrderDiscounted _ d _ \<Rightarrow> (s\<lparr>s_order_discount := d\<rparr>, Inr ())
      | TenderRecorded _ tender_id paid_by amount reference \<Rightarrow>
          (if \<not> is_positive amount then (s, Inl (NonPositiveTender amount))
           else
             let s' = s\<lparr>s_tenders := s_tenders s @
                   [\<lparr>te_id = tender_id, te_method = paid_by, te_amount = amount,
                     te_reference = reference\<rparr>]\<rparr>
             in (s', assert_non_cash_within_total s'))
      | Completed _ recorded change at \<Rightarrow> assigning s (complete_sale s recorded change at)
      | Abandoned _ _ \<Rightarrow>
          (if s_status s \<noteq> StatusOpen then (s, Inl (NotOpen (status_label (s_status s))))
           else (s\<lparr>s_status := StatusAbandoned\<rparr>, Inr ())))"

text \<open>A step of a replay: \<open>sale.apply(event)?\<close>, which drops the sale on an error.\<close>

definition sale_step :: "sale \<Rightarrow> sale_event \<Rightarrow> sale_error + sale" where
  "sale_step s ev =
     (let (s', r) = sale_apply s ev in case r of Inl e \<Rightarrow> Inl e | Inr _ \<Rightarrow> Inr s')"

definition sale_replay :: "sale_event list \<Rightarrow> sale_error + sale" where
  "sale_replay events =
     (case events of
        [] \<Rightarrow> Inl (NotOpenedFirst ''nothing'')
      | first # rest \<Rightarrow> and_then (sale_opened first) (\<lambda>s. try_fold sale_step s rest))"

definition may_write :: "sale \<Rightarrow> uuid \<Rightarrow> timestamp \<Rightarrow> claim_verdict" where
  "may_write s device now = evaluate_claim (s_lease s) device now"

definition has_unfired_lines :: "sale \<Rightarrow> bool" where
  "has_unfired_lines s \<longleftrightarrow> list_ex (\<lambda>l. l_id l \<notin> set (s_fired s)) (filter is_active (s_lines s))"

definition void_count :: "sale \<Rightarrow> nat" where
  "void_count s = length (filter (\<lambda>l. \<not> is_active l) (s_lines s))"

definition needs_drawer :: "sale \<Rightarrow> bool" where
  "needs_drawer s \<longleftrightarrow> list_ex (\<lambda>t. affects_cash_drawer (te_method t)) (s_tenders s)"

section \<open>The transitions as a relation\<close>

text \<open>
  The abstract view of a sale: one rule per event the sale accepts, with the guard the event
  has to meet.  Every rule needs an open sale, so a completed or abandoned one is final.
\<close>

inductive moves :: "sale \<Rightarrow> sale_event \<Rightarrow> sale \<Rightarrow> bool" where
  add: "s_status s = StatusOpen \<Longrightarrow> sid = s_id s \<Longrightarrow> lid \<notin> l_id ` set (s_lines s) \<Longrightarrow>
    line = \<lparr>l_id = lid, l_product_id = prd, l_name = name, l_unit_price = price, l_quantity = q,
      l_tax_class = class, l_discount = DiscountNone, l_modifiers = mods, l_void = None\<rparr> \<Longrightarrow>
    effective_unit_price line = Inr p \<Longrightarrow> 0 \<le> minor p \<Longrightarrow>
    moves s (LineAdded sid lid prd name price q class mods) (s\<lparr>s_lines := s_lines s @ [line]\<rparr>)"
| requantify: "s_status s = StatusOpen \<Longrightarrow> sid = s_id s \<Longrightarrow> s_lines s = as @ l # bs \<Longrightarrow> l_id l = lid \<Longrightarrow>
    \<forall>a \<in> set as. l_id a \<noteq> lid \<Longrightarrow>
    moves s (LineQuantityChanged sid lid q) (s\<lparr>s_lines := as @ l\<lparr>l_quantity := q\<rparr> # bs\<rparr>)"
| rediscount: "s_status s = StatusOpen \<Longrightarrow> sid = s_id s \<Longrightarrow> s_lines s = as @ l # bs \<Longrightarrow> l_id l = lid \<Longrightarrow>
    \<forall>a \<in> set as. l_id a \<noteq> lid \<Longrightarrow>
    moves s (LineDiscounted sid lid d by_whom) (s\<lparr>s_lines := as @ l\<lparr>l_discount := d\<rparr> # bs\<rparr>)"
| void: "s_status s = StatusOpen \<Longrightarrow> sid = s_id s \<Longrightarrow> s_lines s = as @ l # bs \<Longrightarrow> l_id l = lid \<Longrightarrow>
    \<forall>a \<in> set as. l_id a \<noteq> lid \<Longrightarrow> l_void l = None \<Longrightarrow>
    moves s (LineVoided sid lid reason by_whom)
      (s\<lparr>s_lines := as @ l\<lparr>l_void := Some \<lparr>lv_reason = reason, lv_authorized_by = by_whom\<rparr>\<rparr> # bs\<rparr>)"
| order_discount: "s_status s = StatusOpen \<Longrightarrow> sid = s_id s \<Longrightarrow>
    moves s (OrderDiscounted sid d by_whom) (s\<lparr>s_order_discount := d\<rparr>)"
| pay: "s_status s = StatusOpen \<Longrightarrow> sid = s_id s \<Longrightarrow> 0 < minor amount \<Longrightarrow>
    s' = s\<lparr>s_tenders := s_tenders s @ [\<lparr>te_id = tid, te_method = paid_by, te_amount = amount,
      te_reference = refno\<rparr>]\<rparr> \<Longrightarrow> assert_non_cash_within_total s' = Inr () \<Longrightarrow>
    moves s (TenderRecorded sid tid paid_by amount refno) s'"
| close: "s_status s = StatusOpen \<Longrightarrow> sid = s_id s \<Longrightarrow> sale_totals s = Inr t \<Longrightarrow> ot_total t = recorded \<Longrightarrow>
    balance_due s = Inr b \<Longrightarrow> minor b \<le> 0 \<Longrightarrow> change_due s = Inr change \<Longrightarrow>
    moves s (Completed sid recorded change at) (s\<lparr>s_settled_total := Some recorded,
      s_change_given := Some change, s_settled_at := Some at, s_status := StatusCompleted\<rparr>)"
| claim: "s_status s = StatusOpen \<Longrightarrow> sid = s_id s \<Longrightarrow>
    moves s (TicketClaimed sid device at) (claim_ticket s sid device at)"
| release: "s_status s = StatusOpen \<Longrightarrow> sid = s_id s \<Longrightarrow>
    moves s (TicketReleased sid device) (release_ticket s device)"
| seat: "s_status s = StatusOpen \<Longrightarrow> sid = s_id s \<Longrightarrow> covers \<noteq> 0 \<Longrightarrow>
    moves s (Seated sid table covers at by_whom) (s\<lparr>s_seating := Some \<lparr>se_table_id = table,
      se_covers = covers, se_seated_at = at\<rparr>\<rparr>)"
| fire: "s_status s = StatusOpen \<Longrightarrow> sid = s_id s \<Longrightarrow>
    moves s (LinesFired sid ids round at by_whom)
      (s\<lparr>s_fired := fire (s_fired s) ids, s_rounds_fired := max (s_rounds_fired s) round\<rparr>)"
| abandon: "s_status s = StatusOpen \<Longrightarrow> sid = s_id s \<Longrightarrow>
    moves s (Abandoned sid by_whom) (s\<lparr>s_status := StatusAbandoned\<rparr>)"

inductive_cases moves_completedE: "moves s (Completed sid recorded change at) s'"
inductive_cases moves_tenderE: "moves s (TenderRecorded sid tid paid_by amount refno) s'"

lemma assigning_simps [simp]:
  "assigning s (Inl e) = (s, Inl e)" "assigning s (Inr s') = (s', Inr ())"
  by (simp_all add: assigning_def)

lemma find_line_None_iff: "find_line s lid = None \<longleftrightarrow> lid \<notin> l_id ` set (s_lines s)"
  by (auto simp: find_line_def find_None_iff)

lemma find_append_first:
  "\<forall>a \<in> set as. \<not> p a \<Longrightarrow> p x \<Longrightarrow> List.find p (as @ x # bs) = Some x"
  by (induction as) auto

lemma on_line_Inr:
  "on_line s lid f = Inr s' \<longleftrightarrow>
     (\<exists>as l bs. s_lines s = as @ l # bs \<and> l_id l = lid \<and> (\<forall>a \<in> set as. l_id a \<noteq> lid)
        \<and> s' = s\<lparr>s_lines := as @ f l # bs\<rparr>)"
proof
  assume "on_line s lid f = Inr s'"
  then obtain ls where "update_first (\<lambda>l. l_id l = lid) f (s_lines s) = Some ls"
    and "s' = s\<lparr>s_lines := ls\<rparr>"
    by (auto simp: on_line_def split: option.splits)
  then show "\<exists>as l bs. s_lines s = as @ l # bs \<and> l_id l = lid \<and> (\<forall>a \<in> set as. l_id a \<noteq> lid)
        \<and> s' = s\<lparr>s_lines := as @ f l # bs\<rparr>"
    by (auto dest!: update_first_split)
next
  have upd: "update_first (\<lambda>l. l_id l = lid) f (as @ l # bs) = Some (as @ f l # bs)"
    if "l_id l = lid" "\<forall>a \<in> set as. l_id a \<noteq> lid" for as l bs
    using that by (induction as) auto
  assume "\<exists>as l bs. s_lines s = as @ l # bs \<and> l_id l = lid \<and> (\<forall>a \<in> set as. l_id a \<noteq> lid)
        \<and> s' = s\<lparr>s_lines := as @ f l # bs\<rparr>"
  then obtain as l bs where "s_lines s = as @ l # bs" and l: "l_id l = lid" "\<forall>a \<in> set as. l_id a \<noteq> lid"
    and "s' = s\<lparr>s_lines := as @ f l # bs\<rparr>"
    by blast
  then show "on_line s lid f = Inr s'"
    by (simp only: on_line_def upd [OF l]) simp
qed

lemma void_line_Inr:
  "void_line s lid v = Inr s' \<longleftrightarrow>
     (\<exists>as l bs. s_lines s = as @ l # bs \<and> l_id l = lid \<and> (\<forall>a \<in> set as. l_id a \<noteq> lid) \<and> l_void l = None
        \<and> s' = s\<lparr>s_lines := as @ l\<lparr>l_void := Some v\<rparr> # bs\<rparr>)"
proof -
  have found: "find_line s lid = Some l" if "s_lines s = as @ l # bs" "l_id l = lid" "\<forall>a \<in> set as. l_id a \<noteq> lid"
    for as l bs
    using that unfolding find_line_def that(1) by (intro find_append_first) auto
  show ?thesis
  proof (cases "find_line s lid")
    case None
    then have "void_line s lid v = Inl (UnknownLine lid)"
      by (simp add: void_line_def)
    moreover have "lid \<notin> l_id ` set (s_lines s)"
      using None by (simp add: find_line_None_iff)
    ultimately show ?thesis by auto
  next
    case (Some line)
    then show ?thesis
      by (fastforce simp: void_line_def on_line_Inr dest: found split: if_splits)
  qed
qed

lemma sale_step_Inr_iff: "sale_step s ev = Inr s' \<longleftrightarrow> sale_apply s ev = (s', Inr ())"
  by (auto simp: sale_step_def split: prod.splits sum.splits)

lemma assigning_Inr_iff: "assigning s r = (s', Inr ()) \<longleftrightarrow> r = Inr s'"
  by (cases r) auto

lemma add_line_Inr:
  "add_line s line = Inr s' \<longleftrightarrow>
     l_id line \<notin> l_id ` set (s_lines s) \<and> (\<exists>p. effective_unit_price line = Inr p \<and> 0 \<le> minor p)
     \<and> s' = s\<lparr>s_lines := s_lines s @ [line]\<rparr>"
  by (cases "effective_unit_price line") (auto simp: add_line_def find_line_None_iff [symmetric])

lemma complete_sale_Inr:
  "complete_sale s recorded change at = Inr s' \<longleftrightarrow>
     s_status s = StatusOpen \<and> (\<exists>t b. sale_totals s = Inr t \<and> ot_total t = recorded
       \<and> balance_due s = Inr b \<and> minor b \<le> 0 \<and> change_due s = Inr change)
     \<and> s' = s\<lparr>s_settled_total := Some recorded, s_change_given := Some change,
          s_settled_at := Some at, s_status := StatusCompleted\<rparr>"
  by (auto simp: complete_sale_def res_simps is_positive_def not_less split: if_splits)

lemmas accepted_simps = sale_step_Inr_iff sale_apply_def event_sale_id_def assigning_Inr_iff
  add_line_Inr on_line_Inr void_line_Inr complete_sale_Inr is_positive_def Let_def

lemma step_then_moves: "sale_step s ev = Inr s' \<Longrightarrow> moves s ev s'"
  by (cases ev) (auto simp: accepted_simps intro: moves.intros split: if_splits)

lemma moves_then_step: "moves s ev s' \<Longrightarrow> sale_step s ev = Inr s'"
  by (induction rule: moves.induct) (auto simp: accepted_simps)

section \<open>What every sale satisfies\<close>

definition settled_ok :: "sale \<Rightarrow> bool" where
  "settled_ok s \<longleftrightarrow>
     (case (s_status s, s_settled_total s, s_change_given s, s_settled_at s) of
        (StatusCompleted, Some t, Some c, Some _) \<Rightarrow>
          0 \<le> minor c \<and> wf_money c \<and> currency c = s_currency s \<and> map_ok ot_total (sale_totals s) = Inr t
          \<and> map_ok minor (tendered s) = Inr (minor t + minor c)
      | (StatusOpen, None, None, None) \<Rightarrow> True
      | (StatusAbandoned, None, None, None) \<Rightarrow> True
      | _ \<Rightarrow> False)"

definition priced_ok :: "sale_line \<Rightarrow> bool" where
  "priced_ok l \<longleftrightarrow> (case effective_unit_price l of Inl _ \<Rightarrow> False | Inr p \<Rightarrow> 0 \<le> minor p)"

definition good_sale :: "sale \<Rightarrow> bool" where
  "good_sale s \<longleftrightarrow>
     distinct (map l_id (s_lines s)) \<and> list_all priced_ok (s_lines s)
     \<and> list_all (\<lambda>t. 0 < minor (te_amount t)) (s_tenders s)
     \<and> distinct (s_fired s)
     \<and> (case s_seating s of None \<Rightarrow> True | Some se \<Rightarrow> 0 < se_covers se)
     \<and> settled_ok s"

text \<open>What an accepted event may not touch on a line, and on the sale.\<close>

definition line_keeps :: "sale_line \<Rightarrow> sale_line \<Rightarrow> bool" where
  "line_keeps l l' \<longleftrightarrow>
     l_id l' = l_id l \<and> l_product_id l' = l_product_id l \<and> l_name l' = l_name l
     \<and> l_unit_price l' = l_unit_price l \<and> l_tax_class l' = l_tax_class l
     \<and> l_modifiers l' = l_modifiers l \<and> (l_void l \<noteq> None \<longrightarrow> l_void l' = l_void l)"

definition sale_keeps :: "sale \<Rightarrow> sale \<Rightarrow> bool" where
  "sale_keeps s s' \<longleftrightarrow>
     s_id s' = s_id s \<and> s_opened_by s' = s_opened_by s \<and> s_currency s' = s_currency s
     \<and> s_pricing_mode s' = s_pricing_mode s \<and> s_rounding s' = s_rounding s
     \<and> prefix (s_tenders s) (s_tenders s')
     \<and> list_all2 line_keeps (s_lines s) (take (length (s_lines s)) (s_lines s'))
     \<and> prefix (s_fired s) (s_fired s') \<and> s_rounds_fired s \<le> s_rounds_fired s'
     \<and> (s_status s \<noteq> StatusOpen \<longrightarrow> s' = s)"

lemma line_keeps_refl [simp]: "line_keeps l l"
  by (simp add: line_keeps_def)

lemma line_keeps_trans: "line_keeps a b \<Longrightarrow> line_keeps b c \<Longrightarrow> line_keeps a c"
  by (auto simp: line_keeps_def)

lemma list_all2_line_keeps_refl [simp]: "list_all2 line_keeps ls ls"
  by (simp add: list_all2_refl)

lemma sale_keeps_refl: "sale_keeps s s"
  by (simp add: sale_keeps_def)

lemma list_all2_take_trans:
  assumes "list_all2 P xs (take (length xs) ys)" and "list_all2 P ys (take (length ys) zs)"
    and "\<And>a b c. P a b \<Longrightarrow> P b c \<Longrightarrow> P a c"
  shows "list_all2 P xs (take (length xs) zs)"
proof -
  have len: "length xs \<le> length ys" using list_all2_lengthD [OF assms(1)] by simp
  have "list_all2 P (take (length xs) ys) (take (length xs) (take (length ys) zs))"
    using assms(2) by (rule list_all2_takeI)
  then have "list_all2 P (take (length xs) ys) (take (length xs) zs)"
    using len by (simp add: min_def)
  with assms(1) show ?thesis by (rule list_all2_trans [rotated]) (rule assms(3))
qed

lemma sale_keeps_trans: "sale_keeps a b \<Longrightarrow> sale_keeps b c \<Longrightarrow> sale_keeps a c"
  unfolding sale_keeps_def
  using list_all2_take_trans [of line_keeps "s_lines a" "s_lines b" "s_lines c"] line_keeps_trans
  by (auto intro: prefix_order.trans)

lemma fire_simps [simp]:
  "fire fs [] = fs"
  "fire fs (i # ids) = fire (if i \<in> set fs then fs else fs @ [i]) ids"
  by (simp_all add: fire_def)

lemma fire_prefix: "prefix fs (fire fs ids)"
proof (induction ids arbitrary: fs)
  case (Cons i ids)
  show ?case
    using Cons.IH [of fs] append_prefixD [OF Cons.IH [of "fs @ [i]"]] by simp
qed simp

lemma fire_distinct: "distinct fs \<Longrightarrow> distinct (fire fs ids)"
  by (induction ids arbitrary: fs) auto

lemma fire_set: "set (fire fs ids) = set fs \<union> set ids"
  by (induction ids arbitrary: fs) auto

lemma list_all2_keeps_upd:
  "line_keeps l l' \<Longrightarrow> list_all2 line_keeps (as @ l # bs) (as @ l' # bs)"
  by (rule list_all2_appendI) simp_all

lemma moves_keeps: "moves s ev s' \<Longrightarrow> sale_keeps s s'"
proof (induction rule: moves.induct)
  case (claim s sid device at)
  then show ?case by (simp add: sale_keeps_def claim_ticket_def Let_def)
next
  case (release s sid device)
  then show ?case by (simp add: sale_keeps_def release_ticket_def split: option.splits)
qed (simp_all add: sale_keeps_def list_all2_keeps_upd fire_prefix line_keeps_def)

lemma open_settled_ok:
  "s_status s = StatusOpen \<Longrightarrow>
     settled_ok s \<longleftrightarrow> s_settled_total s = None \<and> s_change_given s = None \<and> s_settled_at s = None"
  by (auto simp: settled_ok_def split: option.splits)

lemma tendered_minor:
  assumes "balance_due s = Inr b" and "change_due s = Inr c" and "sale_totals s = Inr t" and "minor b \<le> 0"
  shows "map_ok minor (tendered s) = Inr (minor (ot_total t) + minor c) \<and> 0 \<le> minor c
    \<and> wf_money c \<and> currency c = s_currency s"
proof -
  from assms(1,3) obtain paid where paid: "tendered s = Inr paid" "checked_sub (ot_total t) paid = Inr b"
    by (auto simp: balance_due_def res_simps)
  then have b: "minor b = minor (ot_total t) - minor paid" "currency b = currency paid"
    by (auto simp: res_simps)
  have "currency paid = s_currency s"
    using paid(1) by (auto simp: tendered_def res_simps dest: try_sum_Inr(2))
  moreover have "minor c = - minor b" "wf_money c" "currency c = currency b \<or> currency c = s_currency s"
    using assms(1,2,4)
    by (auto simp: change_due_def res_simps is_negative_def money_zero_def from_minor_def wf_money_def
        split: if_splits)
  ultimately show ?thesis using paid b assms(4) by auto
qed

lemma priced_ok_update [simp]:
  "priced_ok (l\<lparr>l_quantity := q\<rparr>) = priced_ok l"
  "priced_ok (l\<lparr>l_discount := d\<rparr>) = priced_ok l"
  "priced_ok (l\<lparr>l_void := v\<rparr>) = priced_ok l"
  by (simp_all add: priced_ok_def effective_unit_price_def)

lemma moves_good: "moves s ev s' \<Longrightarrow> good_sale s \<Longrightarrow> good_sale s'"
proof (induction rule: moves.induct)
  case (claim s sid device at)
  then show ?case by (simp add: good_sale_def claim_ticket_def Let_def open_settled_ok)
next
  case (release s sid device)
  then show ?case
    by (simp add: good_sale_def release_ticket_def open_settled_ok split: option.splits)
next
  case (add s sid lid line prd name price q tc mods p)
  then show ?case by (simp add: good_sale_def priced_ok_def open_settled_ok)
next
  case (close s sid t recorded b change at)
  have tot: "sale_totals (s\<lparr>s_settled_total := Some recorded, s_change_given := Some change,
      s_settled_at := Some at, s_status := StatusCompleted\<rparr>) = sale_totals s"
    and paid: "tendered (s\<lparr>s_settled_total := Some recorded, s_change_given := Some change,
      s_settled_at := Some at, s_status := StatusCompleted\<rparr>) = tendered s"
    by (simp_all add: sale_totals_def tendered_def cong: if_cong)
  have "settled_ok (s\<lparr>s_settled_total := Some recorded, s_change_given := Some change,
      s_settled_at := Some at, s_status := StatusCompleted\<rparr>)"
    using tendered_minor [OF close(5,7,3,6)] close(3,4) unfolding settled_ok_def tot paid by simp
  with close.prems show ?case by (simp add: good_sale_def)
next
  case (abandon s sid by_whom)
  then have "settled_ok (s\<lparr>s_status := StatusAbandoned\<rparr>)"
    by (simp add: good_sale_def open_settled_ok) (simp add: settled_ok_def)
  with abandon.prems show ?case by (simp add: good_sale_def)
next
  case (pay s sid amount s' tid paid_by refno)
  then show ?case by (simp add: good_sale_def open_settled_ok)
next
  case (fire s sid ids round at by_whom)
  then show ?case by (simp add: good_sale_def open_settled_ok fire_distinct)
qed (simp_all add: good_sale_def open_settled_ok)

lemma opened_good: "sale_opened ev = Inr s \<Longrightarrow> good_sale s"
  by (auto simp: sale_opened_def good_sale_def settled_ok_def split: sale_event.splits)

interpretation sale_log: evidence_log sale_step good_sale sale_keeps
proof
  show "good_sale s'" if "good_sale s" "sale_step s e = Inr s'" for s e s'
    using that step_then_moves moves_good by blast
  show "sale_keeps s s" for s by (rule sale_keeps_refl)
  show "sale_keeps a c" if "sale_keeps a b" "sale_keeps b c" for a b c
    using that by (rule sale_keeps_trans)
  show "sale_keeps s s'" if "good_sale s" "sale_step s e = Inr s'" for s e s'
    using that step_then_moves moves_keeps by blast
qed

section \<open>Properties\<close>

lemma priced_ok_iff: "priced_ok l \<longleftrightarrow> (\<exists>p. effective_unit_price l = Inr p \<and> 0 \<le> minor p)"
  by (cases "effective_unit_price l") (auto simp: priced_ok_def)

lemma sale_replay_Inr:
  "sale_replay es = Inr s \<longleftrightarrow>
     (\<exists>e es' s0. es = e # es' \<and> sale_opened e = Inr s0 \<and> try_fold sale_step s0 es' = Inr s)"
  by (auto simp: sale_replay_def res_simps split: list.splits)

lemma sale_replay_good: "sale_replay es = Inr s \<Longrightarrow> good_sale s"
  unfolding sale_replay_Inr using opened_good sale_log.run_good by blast

lemma sum_partition:
  fixes f :: "'a \<Rightarrow> int"
  shows "sum_list (map f (filter p xs)) + sum_list (map f (filter (\<lambda>x. \<not> p x) xs)) = sum_list (map f xs)"
  by (induction xs) auto

lemma drawer_iff_overtender: "affects_cash_drawer m \<longleftrightarrow> accepts_overtender m"
  by (cases m) auto

text \<open>Sums of amounts that all have one sign cannot overflow on a part of a sum that fits.\<close>

lemma try_sum_bounded:
  assumes "\<forall>m \<in> set ms. currency m = c \<and> 0 \<le> minor m" and "sum_list (map minor ms) < 2 ^ 63"
  shows "\<exists>t. try_sum ms c = Inr t \<and> minor t = sum_list (map minor ms) \<and> currency t = c"
proof -
  have "\<exists>t. try_fold checked_add a ms = Inr t \<and> minor t = minor a + sum_list (map minor ms) \<and> currency t = c"
    if "currency a = c" "0 \<le> minor a" "minor a + sum_list (map minor ms) < 2 ^ 63" for a
    using assms(1) that
  proof (induction ms arbitrary: a)
    case (Cons m ms)
    have "0 \<le> sum_list (map minor ms)"
      using Cons.prems(1) by (intro sum_list_nonneg) auto
    with Cons.prems have "checked_add a m = Inr \<lparr>minor = minor a + minor m, currency = c\<rparr>"
      by (auto simp: res_simps in_i64_def)
    moreover have "\<exists>t. try_fold checked_add \<lparr>minor = minor a + minor m, currency = c\<rparr> ms = Inr t
        \<and> minor t = minor a + minor m + sum_list (map minor ms) \<and> currency t = c"
      using Cons.IH [of "\<lparr>minor = minor a + minor m, currency = c\<rparr>"] Cons.prems by simp
    ultimately show ?case by (auto simp: add.assoc)
  qed simp
  from this [of "money_zero c"] assms(2) show ?thesis
    by (simp add: try_sum_def money_zero_def from_minor_def)
qed

lemma completed_ok:
  assumes "good_sale s" and "s_status s = StatusCompleted"
  obtains t c at tot paid where "s_settled_total s = Some t" "s_change_given s = Some c"
    "s_settled_at s = Some at" "0 \<le> minor c" "wf_money c" "currency c = s_currency s" "sale_totals s = Inr tot" "ot_total tot = t"
    "tendered s = Inr paid" "minor paid = minor t + minor c"
  using assms by (auto simp: good_sale_def settled_ok_def res_simps split: option.splits)

text \<open>A retail sale for the witnesses: two items, one voided, paid part by card and part in cash.\<close>

definition sample_item :: "uuid \<Rightarrow> int \<Rightarrow> sale_event" where
  "sample_item lid price = LineAdded 1 lid (lid + 500) (lit ''Item'') (taka price) \<lparr>milli = 1000\<rparr>
     (Standard \<lparr>basis_points = 1500\<rparr>) []"

definition sample_opening :: sale_event where
  "sample_opening = Opened 1 900 Bdt TaxInclusive HalfUp"

definition sample_events :: "sale_event list" where
  "sample_events =
     [sample_opening, sample_item 11 10000, sample_item 12 5000, LineVoided 1 12 Mistake 901,
      TenderRecorded 1 21 Card (taka 4000) None, TenderRecorded 1 22 Cash (taka 10000) None,
      Completed 1 (taka 10000) (taka 4000) \<lparr>millis = 77\<rparr>]"

text \<open>Paid in full by card, then an item is voided, then closed.\<close>

definition card_change_events :: "sale_event list" where
  "card_change_events =
     [sample_opening, sample_item 11 10000, sample_item 12 5000,
      TenderRecorded 1 21 Card (taka 15000) None, LineVoided 1 12 CustomerChanged 901,
      Completed 1 (taka 10000) (taka 5000) \<lparr>millis = 77\<rparr>]"

lemma sample_events_ok: "\<exists>s. sale_replay sample_events = Inr s \<and> s_status s = StatusCompleted
    \<and> s_settled_total s = Some (taka 10000) \<and> s_change_given s = Some (taka 4000)
    \<and> map te_amount (s_tenders s) = [taka 4000, taka 10000] \<and> map l_id (s_lines s) = [11, 12]"
proof -
  have "map_ok (\<lambda>s. (s_status s, s_settled_total s, s_change_given s, map te_amount (s_tenders s), map l_id (s_lines s)))
      (sale_replay sample_events)
    = Inr (StatusCompleted, Some (taka 10000), Some (taka 4000), [taka 4000, taka 10000], [11, 12])"
    by code_simp
  then show ?thesis by (auto simp: res_simps)
qed

text \<open>C7: the code's event handler accepts exactly the moves of the abstract sale, and produces
  their states: every guard of \<open>Sale::apply\<close> is a side condition of the relation and every
  side condition is checked by the code.\<close>

theorem sale_step_iff_moves: "sale_step s ev = Inr s' \<longleftrightarrow> moves s ev s'"
  using step_then_moves moves_then_step by blast

text \<open>C8: every sale a replay produces has distinct line ids, no line priced below zero, only
  positive tenders, no item fired twice, at least one cover at its table, settlement fields
  exactly when completed, and, when completed, a settled total that the VAT engine recomputes
  and tenders equal to that total plus the change given.\<close>

theorem sale_replay_invariant:
  assumes "sale_replay es = Inr s"
  shows "distinct (map l_id (s_lines s))
    \<and> (\<forall>l \<in> set (s_lines s). \<exists>p. effective_unit_price l = Inr p \<and> 0 \<le> minor p)
    \<and> (\<forall>t \<in> set (s_tenders s). 0 < minor (te_amount t))
    \<and> distinct (s_fired s)
    \<and> (\<forall>se. s_seating s = Some se \<longrightarrow> 0 < se_covers se)
    \<and> (s_status s = StatusCompleted \<longleftrightarrow> s_settled_total s \<noteq> None)
    \<and> (s_status s = StatusCompleted \<longrightarrow>
        (\<exists>t c totals paid. s_settled_total s = Some t \<and> s_change_given s = Some c \<and> 0 \<le> minor c
          \<and> sale_totals s = Inr totals \<and> ot_total totals = t
          \<and> tendered s = Inr paid \<and> minor paid = minor t + minor c))"
proof -
  have good: "good_sale s" using assms by (rule sale_replay_good)
  then have "\<forall>l \<in> set (s_lines s). \<exists>p. effective_unit_price l = Inr p \<and> 0 \<le> minor p"
    by (simp add: good_sale_def list_all_iff priced_ok_iff)
  moreover have "s_status s = StatusCompleted \<longleftrightarrow> s_settled_total s \<noteq> None"
    using good by (auto simp: good_sale_def settled_ok_def split: sale_status.splits option.splits)
  ultimately show ?thesis
    using good by (auto simp: good_sale_def list_all_iff elim!: completed_ok [OF good])
qed

lemma sale_replay_invariant_witness:
  "\<exists>s paid. sale_replay sample_events = Inr s \<and> distinct (map l_id (s_lines s))
     \<and> tendered s = Inr paid \<and> minor paid = 14000"
proof -
  obtain s where s: "sale_replay sample_events = Inr s" "s_status s = StatusCompleted"
    "s_settled_total s = Some (taka 10000)" "s_change_given s = Some (taka 4000)"
    using sample_events_ok by (elim exE conjE) (rule that)
  from sale_replay_invariant [OF s(1)] have d: "distinct (map l_id (s_lines s))"
    and "\<exists>t c totals paid. s_settled_total s = Some t \<and> s_change_given s = Some c \<and> 0 \<le> minor c
          \<and> sale_totals s = Inr totals \<and> ot_total totals = t
          \<and> tendered s = Inr paid \<and> minor paid = minor t + minor c"
    by (simp_all only: s(2) simp_thms)
  then obtain t c paid where t: "s_settled_total s = Some t" and c: "s_change_given s = Some c"
    and paid: "tendered s = Inr paid" "minor paid = minor t + minor c"
    by (elim exE conjE) (rule that)
  have "t = taka 10000" "c = taka 4000" using t c s(3,4) by simp_all
  then have "minor paid = 14000" using paid(2) by (simp add: taka_def)
  then show ?thesis using s(1) d paid(1) by (intro exI conjI)
qed

lemma good_sale_reconciles:
  assumes good: "good_sale s" and "s_status s = StatusCompleted"
  shows "\<exists>t c. s_settled_total s = Some t \<and> net_cash s = Inr c
     \<and> minor c + sum_list (map minor (non_cash_tenders s)) = minor t"
proof -
  obtain t c at tot paid where f: "s_settled_total s = Some t" "s_change_given s = Some c"
    "0 \<le> minor c" "wf_money c" "currency c = s_currency s" "sale_totals s = Inr tot" "ot_total tot = t"
    "tendered s = Inr paid" "minor paid = minor t + minor c"
    by (rule completed_ok [OF good assms(2)]) (rule that)
  let ?amount = "\<lambda>t. minor (te_amount t)" and ?drawer = "\<lambda>t. affects_cash_drawer (te_method t)"
  have sum: "try_sum (map te_amount (s_tenders s)) (s_currency s) = Inr paid"
    using f by (simp add: tendered_def res_simps)
  have part: "sum_list (map minor (cash_tenders s)) + sum_list (map minor (non_cash_tenders s)) = minor paid"
    using sum_partition [of ?amount ?drawer "s_tenders s"] try_sum_Inr(1) [OF sum]
    by (simp add: cash_tenders_def non_cash_tenders_def drawer_iff_overtender comp_def)
  have pos: "\<forall>m \<in> set (map te_amount (s_tenders s)). currency m = s_currency s \<and> 0 \<le> minor m"
    using good try_sum_Inr(3) [OF sum] by (fastforce simp: good_sale_def list_all_iff)
  have "0 \<le> sum_list (map minor (cash_tenders s))" and "0 \<le> sum_list (map minor (non_cash_tenders s))"
    using pos by (auto simp: cash_tenders_def non_cash_tenders_def intro!: sum_list_nonneg)
  moreover have "minor paid < 2 ^ 63"
    using try_sum_wf [OF sum] by (simp add: wf_money_def in_i64_def)
  ultimately have "sum_list (map minor (cash_tenders s)) < 2 ^ 63" using part by linarith
  moreover have "\<forall>m \<in> set (cash_tenders s). currency m = s_currency s \<and> 0 \<le> minor m"
    using pos by (simp add: cash_tenders_def)
  ultimately obtain cash where cash: "try_sum (cash_tenders s) (s_currency s) = Inr cash"
    "minor cash = sum_list (map minor (cash_tenders s))" "currency cash = s_currency s"
    using try_sum_bounded by metis
  have "in_i64 (minor c)" and "in_i64 (minor cash)"
    using f try_sum_wf [OF cash(1)] by (simp_all add: wf_money_def)
  moreover have "0 \<le> minor cash"
    using cash(2) pos by (auto simp: cash_tenders_def intro!: sum_list_nonneg)
  ultimately have "in_i64 (minor cash - minor c)"
    using \<open>0 \<le> minor c\<close> by (simp add: in_i64_def)
  then have "net_cash s = Inr \<lparr>minor = minor cash - minor c, currency = s_currency s\<rparr>"
    using cash f by (simp add: net_cash_def res_simps)
  then show ?thesis
    using cash f part by simp
qed

text \<open>C9: money of a completed sale reconciles: the cash that should be in the drawer from it
  (cash tendered less change) can always be computed, and it and the non-cash tenders add up to
  exactly the settled total.\<close>

theorem sale_reconciles:
  assumes "sale_replay es = Inr s" and "s_status s = StatusCompleted"
  shows "\<exists>t c. s_settled_total s = Some t \<and> net_cash s = Inr c
     \<and> minor c + sum_list (map minor (non_cash_tenders s)) = minor t"
  using good_sale_reconciles [OF sale_replay_good [OF assms(1)] assms(2)] .

lemma sale_reconciles_witness:
  "\<exists>s t c. sale_replay sample_events = Inr s \<and> s_settled_total s = Some t \<and> net_cash s = Inr c
     \<and> minor c + sum_list (map minor (non_cash_tenders s)) = minor t"
proof -
  obtain s where s: "sale_replay sample_events = Inr s" "s_status s = StatusCompleted"
    using sample_events_ok by (elim exE conjE) (rule that)
  from sale_reconciles [OF s] s(1) show ?thesis by (elim exE conjE) (intro exI conjI)
qed

text \<open>A completed or abandoned sale is final: every event is refused and changes nothing.\<close>

theorem closed_sale_final:
  assumes "s_status s \<noteq> StatusOpen"
  shows "\<exists>e. sale_apply s ev = (s, Inl e)"
  using assms by (cases ev) (auto simp: sale_apply_def complete_sale_def)

lemma closed_sale_final_witness:
  "\<exists>s e. sale_replay sample_events = Inr s
     \<and> sale_apply s (TenderRecorded 1 23 Cash (taka 1) None) = (s, Inl e)"
proof -
  obtain s where s: "sale_replay sample_events = Inr s" "s_status s = StatusCompleted"
    using sample_events_ok by (elim exE conjE) (rule that)
  then show ?thesis using closed_sale_final [of s "TenderRecorded 1 23 Cash (taka 1) None"] by auto
qed

text \<open>An event that is refused leaves the sale as it was, with one exception: a tender whose
  check against the total fails is refused after it has been added.\<close>

theorem refused_event_effect:
  assumes "sale_apply s ev = (s', Inl e)"
  shows "s' = s \<or> (\<exists>sid tid paid_by amount refno. ev = TenderRecorded sid tid paid_by amount refno
     \<and> 0 < minor amount \<and> s' = s\<lparr>s_tenders := s_tenders s @ [\<lparr>te_id = tid, te_method = paid_by,
          te_amount = amount, te_reference = refno\<rparr>]\<rparr>
     \<and> assert_non_cash_within_total s' = Inl e)"
  using assms
  by (cases ev) (auto simp: sale_apply_def assigning_def Let_def is_positive_def split: if_splits sum.splits)

lemma refused_event_effect_witness:
  "\<exists>s s' e. sale_replay (take 3 sample_events) = Inr s
     \<and> sale_apply s (TenderRecorded 1 21 Card (taka 90000) None) = (s', Inl e) \<and> s' \<noteq> s
     \<and> assert_non_cash_within_total s' = Inl e"
proof -
  let ?ev = "TenderRecorded 1 21 Card (taka 90000) None"
  let ?e = "NonCashOvertender (taka 90000) (taka 15000)"
  have "map_ok (\<lambda>s. (snd (sale_apply s ?ev), length (s_tenders s), length (s_tenders (fst (sale_apply s ?ev)))))
      (sale_replay (take 3 sample_events)) = Inr (Inl ?e, 0, 1)"
    by code_simp
  then obtain s where s: "sale_replay (take 3 sample_events) = Inr s"
    and e: "snd (sale_apply s ?ev) = Inl ?e"
    and l: "length (s_tenders s) = 0" "length (s_tenders (fst (sale_apply s ?ev))) = 1"
    by (auto simp: res_simps)
  from e have a: "sale_apply s ?ev = (fst (sale_apply s ?ev), Inl ?e)" by (metis prod.collapse)
  from l have "fst (sale_apply s ?ev) \<noteq> s" by auto
  with refused_event_effect [OF a] s a show ?thesis by blast
qed

text \<open>C10: recorded evidence is never erased: replaying more events keeps the sale's identity,
  its tenders in order, every line with its snapshot of the product, every void and every
  firing, and a closed sale stays exactly as it was.\<close>

theorem sale_evidence_kept:
  assumes "sale_replay (es @ fs) = Inr s" and "es \<noteq> []"
  shows "\<exists>m. sale_replay es = Inr m \<and> sale_keeps m s"
proof -
  obtain e es' where es: "es = e # es'" using assms(2) by (cases es) auto
  with assms(1) obtain s0 m where m: "sale_opened e = Inr s0" "try_fold sale_step s0 es' = Inr m"
    "try_fold sale_step m fs = Inr s"
    by (auto simp: sale_replay_Inr try_fold_append res_simps)
  then have "good_sale m" using opened_good sale_log.run_good by blast
  with m(3) have "sale_keeps m s" by (intro sale_log.run_keeps)
  with m es show ?thesis by (auto simp: sale_replay_Inr)
qed

lemma sale_evidence_kept_witness:
  "\<exists>m s. sale_replay (take 4 sample_events) = Inr m \<and> sale_replay sample_events = Inr s \<and> sale_keeps m s"
proof -
  obtain s where s: "sale_replay sample_events = Inr s" using sample_events_ok by (elim exE conjE) (rule that)
  then have "sale_replay (take 4 sample_events @ drop 4 sample_events) = Inr s" by simp
  from sale_evidence_kept [OF this] s show ?thesis by (auto simp: sample_events_def)
qed

text \<open>The non-cash check runs only when a tender is recorded, so voiding an item afterwards
  lets a sale paid entirely by card close with change from the drawer: the net cash is negative.\<close>

theorem card_change_after_void:
  "\<exists>s. sale_replay card_change_events = Inr s \<and> s_status s = StatusCompleted
     \<and> non_cash_tenders s = [taka 15000] \<and> s_settled_total s = Some (taka 10000)
     \<and> net_cash s = Inr (taka (- 5000))"
proof -
  have "map_ok (\<lambda>s. (s_status s, non_cash_tenders s, s_settled_total s, net_cash s))
      (sale_replay card_change_events)
    = Inr (StatusCompleted, [taka 15000], Some (taka 10000), Inr (taka (- 5000)))"
    by code_simp
  then show ?thesis by (auto simp: res_simps)
qed

end
