(* ===== verification/Split.thy ===== *)
theory Split
  imports Sale
begin

text \<open>
  Splitting a bill (\<open>crates/sahl-core/src/sale/split.rs\<close>): evenly over a number of people,
  or by who ordered what.  A split only computes amounts; the sale itself is untouched.
\<close>

record split_part =
  sp_number :: int
  sp_amount :: money
  sp_line_ids :: "uuid list"

datatype split_error =
    SplitMoney money_error
  | NoParts
  | Mismatched nat nat
  | UnknownSplitLine uuid
  | LineAssignedTwice uuid
  | LineUnassigned uuid

text \<open>\<open>u32::try_from(index).unwrap_or(u32::MAX).saturating_add(1)\<close>.\<close>

definition part_number :: "nat \<Rightarrow> int" where
  "part_number index = min (2 ^ 32 - 1) ((if in_u32 (int index) then int index else 2 ^ 32 - 1) + 1)"

definition evenly :: "money \<Rightarrow> nat \<Rightarrow> money_error + split_part list" where
  "evenly total_due ways =
     (if ways = 0 then Inl InvalidWeights
      else
        and_then (allocate total_due (replicate ways 1)) (\<lambda>amounts.
        Inr (map (\<lambda>(i, amount). \<lparr>sp_number = part_number i, sp_amount = amount, sp_line_ids = []\<rparr>)
          (enumerate 0 amounts))))"

text \<open>The check of one assigned line id against the active lines and those seen before it.\<close>

definition see_line :: "(uuid \<times> money) list \<Rightarrow> uuid list \<Rightarrow> uuid \<Rightarrow> split_error + uuid list" where
  "see_line active seen line_id =
     (if \<not> list_ex (\<lambda>(i, _). i = line_id) active then Inl (UnknownSplitLine line_id)
      else if line_id \<in> set seen then Inl (LineAssignedTwice line_id)
      else Inr (seen @ [line_id]))"

definition line_total_of :: "(uuid \<times> money) list \<Rightarrow> uuid \<Rightarrow> split_error + money" where
  "line_total_of active line_id =
     ok_or (UnknownSplitLine line_id) (map_option snd (List.find (\<lambda>(i, _). i = line_id) active))"

definition part_amount :: "(uuid \<times> money) list \<Rightarrow> currency \<Rightarrow> uuid list \<Rightarrow> split_error + money" where
  "part_amount active c line_ids =
     try_fold (\<lambda>amount line_id.
        and_then (line_total_of active line_id) (\<lambda>line_total.
        map_err SplitMoney (checked_add amount line_total)))
       (from_minor 0 c) line_ids"

definition active_totals :: "sale_line list \<Rightarrow> money list \<Rightarrow> (uuid \<times> money) list" where
  "active_totals lines ts = map (\<lambda>(line, t). (l_id line, t)) (filter (\<lambda>(line, _). is_active line) (zip lines ts))"

definition assert_all_assigned :: "(uuid \<times> money) list \<Rightarrow> uuid list \<Rightarrow> split_error + unit" where
  "assert_all_assigned active seen =
     (case List.find (\<lambda>(i, _). i \<notin> set seen) active of
        Some p \<Rightarrow> Inl (LineUnassigned (fst p))
      | None \<Rightarrow> Inr ())"

definition by_lines :: "sale_line list \<Rightarrow> money list \<Rightarrow> uuid list list \<Rightarrow> split_error + split_part list" where
  "by_lines lines line_totals assignment =
     (if assignment = [] then Inl NoParts
      else if length lines \<noteq> length line_totals then Inl (Mismatched (length lines) (length line_totals))
      else
        let active = active_totals lines line_totals in
        and_then (try_fold (try_fold (see_line active)) [] assignment) (\<lambda>seen.
        and_then (assert_all_assigned active seen) (\<lambda>_.
            let c = (case active of [] \<Rightarrow> Bdt | (_, m) # _ \<Rightarrow> currency m) in
            try_map (\<lambda>(index, line_ids).
                and_then (part_amount active c line_ids) (\<lambda>amount.
                Inr \<lparr>sp_number = part_number index, sp_amount = amount, sp_line_ids = line_ids\<rparr>))
              (enumerate 0 assignment))))"

section \<open>What the checks establish\<close>

lemma see_line_Inr:
  "see_line active seen i = Inr s \<longleftrightarrow> i \<in> fst ` set active \<and> i \<notin> set seen \<and> s = seen @ [i]"
  by (auto simp: see_line_def list_ex_iff split: if_splits) force+

lemma see_part_Inr:
  "try_fold (see_line active) seen ids = Inr s \<Longrightarrow> distinct seen \<Longrightarrow> set seen \<subseteq> fst ` set active
   \<Longrightarrow> s = seen @ ids \<and> distinct s \<and> set s \<subseteq> fst ` set active"
proof (induction ids arbitrary: seen)
  case (Cons i ids)
  from Cons.prems(1) have i: "i \<in> fst ` set active" "i \<notin> set seen"
    and r: "try_fold (see_line active) (seen @ [i]) ids = Inr s"
    by (auto simp: res_simps see_line_Inr)
  have "s = (seen @ [i]) @ ids \<and> distinct s \<and> set s \<subseteq> fst ` set active"
    by (rule Cons.IH [OF r]) (use i Cons.prems(2,3) in auto)
  then show ?case by auto
qed simp

lemma see_all_Inr:
  "try_fold (try_fold (see_line active)) seen parts = Inr s \<Longrightarrow> distinct seen \<Longrightarrow> set seen \<subseteq> fst ` set active
   \<Longrightarrow> s = seen @ concat parts \<and> distinct s \<and> set s \<subseteq> fst ` set active"
proof (induction parts arbitrary: seen)
  case (Cons p parts)
  from Cons.prems(1) obtain m where m: "try_fold (see_line active) seen p = Inr m"
    and r: "try_fold (try_fold (see_line active)) m parts = Inr s"
    by (auto simp: res_simps)
  note part = see_part_Inr [OF m Cons.prems(2,3)]
  have "s = m @ concat parts \<and> distinct s \<and> set s \<subseteq> fst ` set active"
    by (rule Cons.IH [OF r]) (use part in auto)
  with part show ?case by (metis append.assoc concat.simps(2))
qed simp

lemma find_map_of: "map_option snd (List.find (\<lambda>(i, _). i = k) xs) = map_of xs k"
  by (induction xs) auto

lemma line_total_of_Inr [res_simps]: "line_total_of active i = Inr m \<longleftrightarrow> map_of active i = Some m"
  by (simp add: line_total_of_def find_map_of res_simps)

definition owed :: "(uuid \<times> money) list \<Rightarrow> uuid \<Rightarrow> int" where
  "owed active i = (case map_of active i of None \<Rightarrow> 0 | Some m \<Rightarrow> minor m)"

lemma part_amount_Inr:
  assumes "part_amount active c ids = Inr a"
  shows "minor a = sum_list (map (owed active) ids)" "currency a = c"
proof -
  let ?f = "\<lambda>amount line_id. and_then (line_total_of active line_id) (\<lambda>line_total.
        map_err SplitMoney (checked_add amount line_total))"
  have "try_fold ?f b ids = Inr a
    \<Longrightarrow> minor a = minor b + sum_list (map (owed active) ids) \<and> currency a = currency b" for b
  proof (induction ids arbitrary: b)
    case (Cons i ids)
    from Cons.prems obtain b' where b: "?f b i = Inr b'" "try_fold ?f b' ids = Inr a"
      by (auto simp: res_simps)
    from b(1) have "minor b' = minor b + owed active i" "currency b' = currency b"
      by (auto simp: res_simps owed_def)
    with Cons.IH [OF b(2)] show ?case by simp
  qed simp
  from this [of "from_minor 0 c"] assms show "minor a = sum_list (map (owed active) ids)" "currency a = c"
    by (simp_all add: part_amount_def from_minor_def)
qed

lemma active_totals_distinct:
  assumes "distinct (map l_id lines)"
  shows "distinct (map fst (active_totals lines ts))"
proof -
  have "distinct (map l_id (map fst (zip lines ts)))"
    using assms by (simp add: map_fst_zip_take distinct_take flip: take_map)
  then have "distinct (map (l_id \<circ> fst) (filter (\<lambda>(line, _). is_active line) (zip lines ts)))"
    by (simp add: distinct_map_filter)
  moreover have "map fst (active_totals lines ts)
      = map (l_id \<circ> fst) (filter (\<lambda>(line, _). is_active line) (zip lines ts))"
    by (auto simp: active_totals_def)
  ultimately show ?thesis by simp
qed

lemma owed_all:
  assumes "distinct (map fst active)"
  shows "sum_list (map (owed active) (map fst active)) = sum_list (map (minor \<circ> snd) active)"
proof -
  have "owed active (fst p) = minor (snd p)" if "p \<in> set active" for p
    using map_of_is_SomeI [OF assms, of "fst p" "snd p"] that by (simp add: owed_def)
  then have "map (owed active) (map fst active) = map (minor \<circ> snd) active" by simp
  then show ?thesis by (rule arg_cong)
qed

lemma by_lines_Inr:
  assumes "by_lines lines ts assignment = Inr parts"
  shows "length lines = length ts"
    and "distinct (concat assignment)" and "set (concat assignment) = fst ` set (active_totals lines ts)"
    and "length parts = length assignment"
    and "i < length parts \<Longrightarrow> sp_number (parts ! i) = part_number i \<and> sp_line_ids (parts ! i) = assignment ! i
      \<and> minor (sp_amount (parts ! i)) = sum_list (map (owed (active_totals lines ts)) (assignment ! i))"
proof -
  let ?active = "active_totals lines ts"
  let ?c = "case ?active of [] \<Rightarrow> Bdt | (_, m) # _ \<Rightarrow> currency m"
  let ?part = "\<lambda>(index, line_ids). and_then (part_amount ?active ?c line_ids) (\<lambda>amount.
      Inr \<lparr>sp_number = part_number index, sp_amount = amount, sp_line_ids = line_ids\<rparr>)"
  from assms show "length lines = length ts" by (simp add: by_lines_def split: if_splits)
  with assms obtain seen where seen: "try_fold (try_fold (see_line ?active)) [] assignment = Inr seen"
    and all: "assert_all_assigned ?active seen = Inr ()"
    and parts: "try_map ?part (enumerate 0 assignment) = Inr parts"
    by (auto simp: by_lines_def Let_def res_simps split: if_splits)
  have s: "seen = [] @ concat assignment \<and> distinct seen \<and> set seen \<subseteq> fst ` set ?active"
    by (rule see_all_Inr [OF seen]) simp_all
  have "seen = concat assignment" using s by (elim conjE) simp
  moreover have "distinct seen" using s by blast
  moreover have "set seen \<subseteq> fst ` set ?active" using s by blast
  moreover from all have "fst ` set ?active \<subseteq> set seen" by (force simp: assert_all_assigned_def find_None_iff split: option.splits)
  ultimately show "distinct (concat assignment)" "set (concat assignment) = fst ` set ?active" by auto
  show len: "length parts = length assignment" using try_map_length [OF parts] by simp
  show "sp_number (parts ! i) = part_number i \<and> sp_line_ids (parts ! i) = assignment ! i
      \<and> minor (sp_amount (parts ! i)) = sum_list (map (owed ?active) (assignment ! i))" if "i < length parts"
  proof -
    have "?part (i, assignment ! i) = Inr (parts ! i)"
      using try_map_nth [OF parts, of i] that len by (simp add: nth_enumerate_eq)
    then obtain a where "part_amount ?active ?c (assignment ! i) = Inr a"
      and "parts ! i = \<lparr>sp_number = part_number i, sp_amount = a, sp_line_ids = assignment ! i\<rparr>"
      by (auto simp: res_simps)
    then show ?thesis using part_amount_Inr(1) by simp
  qed
qed

section \<open>Properties\<close>

text \<open>C12: a bill split by items collects every active line exactly once: the parts are the ones
  assigned, each part's amount is the sum of its lines' totals, and the parts together are
  exactly what the active lines come to, so nothing is lost and nothing is charged twice.\<close>

theorem by_lines_exact:
  assumes "by_lines lines ts assignment = Inr parts" and "distinct (map l_id lines)"
  shows "map sp_line_ids parts = assignment
     \<and> mset (concat assignment) = mset (map fst (active_totals lines ts))
     \<and> (\<Sum>p\<leftarrow>parts. minor (sp_amount p)) = (\<Sum>(_, t)\<leftarrow>active_totals lines ts. minor t)"
proof -
  note part = by_lines_Inr [OF assms(1)]
  let ?active = "active_totals lines ts"
  have d: "distinct (map fst ?active)" using assms(2) by (rule active_totals_distinct)
  have same: "mset (concat assignment) = mset (map fst ?active)"
    using set_eq_iff_mset_eq_distinct [OF part(2) d] part(3) by (simp only: set_map simp_thms)
  have "map (minor \<circ> sp_amount) parts = map (\<lambda>ids. sum_list (map (owed ?active) ids)) assignment"
    using part(4,5) by (intro nth_equalityI) simp_all
  then have "(\<Sum>p\<leftarrow>parts. minor (sp_amount p)) = sum_list (map (\<lambda>ids. sum_list (map (owed ?active) ids)) assignment)"
    by (simp add: comp_def)
  also have "\<dots> = sum_list (map (owed ?active) (concat assignment))"
    by (induction assignment) auto
  also have "\<dots> = sum_list (map (owed ?active) (map fst ?active))"
    using same by (metis mset_map sum_mset_sum_list)
  also have "\<dots> = (\<Sum>(_, t)\<leftarrow>?active. minor t)"
    using owed_all [OF d] by (simp add: comp_def case_prod_unfold)
  finally have "(\<Sum>p\<leftarrow>parts. minor (sp_amount p)) = (\<Sum>(_, t)\<leftarrow>?active. minor t)" .
  moreover have "map sp_line_ids parts = assignment"
    using part(4,5) by (intro nth_equalityI) simp_all
  ultimately show ?thesis using same by blast
qed

definition sample_split_lines :: "sale_line list" where
  "sample_split_lines = map (\<lambda>(i, v). \<lparr>l_id = i, l_product_id = i + 100, l_name = lit ''Item'',
     l_unit_price = taka 10000, l_quantity = quantity_one, l_tax_class = Exempt, l_discount = DiscountNone,
     l_modifiers = [], l_void = v\<rparr>)
     [(1, None), (2, Some \<lparr>lv_reason = Mistake, lv_authorized_by = 9\<rparr>), (3, None)]"

lemma by_lines_exact_witness:
  "\<exists>parts. by_lines sample_split_lines [taka 700, taka 800, taka 999] [[3], [1]] = Inr parts
     \<and> map sp_line_ids parts = [[3], [1]] \<and> (\<Sum>p\<leftarrow>parts. minor (sp_amount p)) = 1699"
proof -
  have "is_ok (by_lines sample_split_lines [taka 700, taka 800, taka 999] [[3], [1]])" by code_simp
  then obtain parts where p: "by_lines sample_split_lines [taka 700, taka 800, taka 999] [[3], [1]] = Inr parts"
    by (auto simp: is_ok_iff)
  have "distinct (map l_id sample_split_lines)" by code_simp
  moreover have "(\<Sum>(_, t)\<leftarrow>active_totals sample_split_lines [taka 700, taka 800, taka 999]. minor t) = 1699"
    by code_simp
  ultimately show ?thesis using by_lines_exact [OF p] p by simp
qed

text \<open>An even split has one numbered part per person, the parts sum to exactly the bill, and
  no two differ by more than one minor unit, the larger shares coming first.\<close>

theorem evenly_fair:
  assumes "evenly m n = Inr parts" and "wf_money m" and "int n < 2 ^ 32"
  shows "length parts = n \<and> (\<Sum>p\<leftarrow>parts. minor (sp_amount p)) = minor m
     \<and> (\<forall>j < n. sp_number (parts ! j) = int j + 1
          \<and> (\<forall>i \<le> j. \<bar>minor (sp_amount (parts ! j))\<bar> \<le> \<bar>minor (sp_amount (parts ! i))\<bar>
               \<and> \<bar>minor (sp_amount (parts ! i))\<bar> \<le> \<bar>minor (sp_amount (parts ! j))\<bar> + 1))"
proof -
  obtain amounts where n: "n \<noteq> 0" and ok: "split m n = Inr amounts"
    and parts: "parts = map (\<lambda>(i, amount). \<lparr>sp_number = part_number i, sp_amount = amount, sp_line_ids = []\<rparr>)
      (enumerate 0 amounts)"
    using assms(1) by (auto simp: evenly_def split_def res_simps split: if_splits)
  have fair: "length amounts = n \<and> sum_list (map minor amounts) = minor m
     \<and> \<bar>minor (amounts ! j)\<bar> \<le> \<bar>minor (amounts ! i)\<bar>
     \<and> \<bar>minor (amounts ! i)\<bar> \<le> \<bar>minor (amounts ! j)\<bar> + 1" if "i \<le> j" "j < n" for i j
    using split_even [OF assms(2) ok that] .
  have len: "length amounts = n" "sum_list (map minor amounts) = minor m"
    using fair [of 0 0] n by simp_all
  have nth: "parts ! j = \<lparr>sp_number = part_number j, sp_amount = amounts ! j, sp_line_ids = []\<rparr>" if "j < n" for j
    using that len by (simp add: parts nth_enumerate_eq)
  have num: "part_number j = int j + 1" if "j < n" for j
    using that assms(3) by (simp add: part_number_def in_u32_def)
  have "map (minor \<circ> sp_amount) parts = map minor amounts"
    using len nth by (intro nth_equalityI) (simp_all add: parts)
  then have "(\<Sum>p\<leftarrow>parts. minor (sp_amount p)) = minor m" using len(2) by (simp add: comp_def)
  moreover have "length parts = n" using len by (simp add: parts)
  ultimately show ?thesis using fair nth num by auto
qed

lemma evenly_fair_witness:
  "\<exists>parts. evenly (taka (- 1000)) 3 = Inr parts \<and> (\<Sum>p\<leftarrow>parts. minor (sp_amount p)) = - 1000"
proof -
  have "is_ok (evenly (taka (- 1000)) 3)" by code_simp
  then obtain parts where p: "evenly (taka (- 1000)) 3 = Inr parts" by (auto simp: is_ok_iff)
  have "wf_money (taka (- 1000))" by (simp add: wf_money_def range_defs taka_def)
  from evenly_fair [OF p this] p show ?thesis by (simp add: taka_def)
qed

end
