(* ===== verification/BTree.thy ===== *)
theory BTree
  imports Prelude
begin

text \<open>
  \<open>BTreeMap\<close>: entries in strictly increasing key order, so that iterating one is a function of
  its contents.  \<open>keyed_book\<close> is the contract of a book that keeps one aggregate per key and
  sends each event to the aggregate of its key.
\<close>

type_synonym ('k, 'v) btree = "('k \<times> 'v) list"

abbreviation bt_get :: "('k, 'v) btree \<Rightarrow> 'k \<Rightarrow> 'v option" where
  "bt_get m k \<equiv> map_of m k"

fun bt_insert :: "'k::linorder \<Rightarrow> 'v \<Rightarrow> ('k, 'v) btree \<Rightarrow> ('k, 'v) btree" where
  "bt_insert k v [] = [(k, v)]"
| "bt_insert k v ((j, w) # m) =
     (if k < j then (k, v) # (j, w) # m
      else if k = j then (k, v) # m
      else (j, w) # bt_insert k v m)"

definition bt_remove :: "'k \<Rightarrow> ('k, 'v) btree \<Rightarrow> ('k, 'v) btree" where
  "bt_remove k m = filter (\<lambda>(j, _). j \<noteq> k) m"

definition bt_values :: "('k, 'v) btree \<Rightarrow> 'v list" where
  "bt_values m = map snd m"

definition bt_ok :: "('k::linorder, 'v) btree \<Rightarrow> bool" where
  "bt_ok m \<longleftrightarrow> sorted_wrt (<) (map fst m)"

text \<open>\<open>collect::<BTreeMap<_, _>>\<close>: a later entry of one key replaces an earlier one.\<close>

definition bt_collect :: "('k::linorder \<times> 'v) list \<Rightarrow> ('k, 'v) btree" where
  "bt_collect kvs = foldl (\<lambda>m (k, v). bt_insert k v m) [] kvs"

lemma bt_get_insert [simp]: "bt_get (bt_insert k v m) j = (if j = k then Some v else bt_get m j)"
  by (induction m) auto

lemma bt_insert_keys: "fst ` set (bt_insert k v m) = insert k (fst ` set m)"
  by (induction k v m rule: bt_insert.induct) (simp_all add: insert_commute)

lemma bt_ok_empty [simp]: "bt_ok []"
  by (simp add: bt_ok_def)

lemma bt_ok_insert [simp]: "bt_ok m \<Longrightarrow> bt_ok (bt_insert k v m)"
proof (induction m)
  case (Cons p m)
  obtain j w where p: "p = (j, w)" by (cases p)
  have "fst ` set (bt_insert k v m) = insert k (fst ` set m)" by (rule bt_insert_keys)
  then have above: "\<forall>x \<in> set (bt_insert k v m). j < fst x" if "\<not> k < j" "k \<noteq> j"
    using Cons.prems that by (auto simp: bt_ok_def p set_eq_iff image_iff) (metis fst_conv neqE)
  from Cons show ?case by (auto simp: bt_ok_def p above)
qed (simp add: bt_ok_def)

lemma bt_ok_distinct: "bt_ok m \<Longrightarrow> distinct (map fst m)"
  by (auto simp: bt_ok_def strict_sorted_iff)

lemma bt_entry_iff: "bt_ok m \<Longrightarrow> (k, v) \<in> set m \<longleftrightarrow> bt_get m k = Some v"
  by (simp add: bt_ok_distinct)

lemma bt_value_iff: "bt_ok m \<Longrightarrow> v \<in> set (bt_values m) \<longleftrightarrow> (\<exists>k. bt_get m k = Some v)"
  using bt_entry_iff [of m] by (force simp: bt_values_def)

lemma bt_insert_values: "v' \<in> set (bt_values (bt_insert k v m)) \<Longrightarrow> v' = v \<or> v' \<in> set (bt_values m)"
  unfolding bt_values_def by (induction k v m rule: bt_insert.induct) (force split: if_splits)+

lemma bt_collect_snoc: "bt_collect (kvs @ [(k, v)]) = bt_insert k v (bt_collect kvs)"
  by (simp add: bt_collect_def)

lemma bt_ok_collect [simp]: "bt_ok (bt_collect kvs)"
  by (induction kvs rule: rev_induct) (auto simp: bt_collect_snoc, simp add: bt_collect_def)

lemma bt_get_collect: "bt_get (bt_collect kvs) k = map_of (rev kvs) k"
  by (induction kvs rule: rev_induct) (auto simp: bt_collect_snoc, simp add: bt_collect_def)

lemma collected_line:
  assumes "bt_get (bt_collect (map (\<lambda>l. (f l, g l)) ls)) k = Some p"
  shows "\<exists>l \<in> set ls. f l = k \<and> p = g l"
  using map_of_SomeD [OF assms [unfolded bt_get_collect]] by auto

text \<open>Replacing a value in a sum over the map.\<close>

lemma bt_sum_replace:
  assumes "bt_ok m" and "bt_get m k = Some v"
  shows "(\<Sum>x\<leftarrow>bt_values (bt_insert k w m). f x) = (\<Sum>x\<leftarrow>bt_values m. f x) - f v + (f w :: int)"
  using assms
proof (induction m)
  case (Cons p m)
  obtain j x where p: "p = (j, x)" by (cases p)
  have "j < k" if "j \<noteq> k"
    using Cons.prems that map_of_SomeD [of m k v] by (force simp: p bt_ok_def)
  with Cons show ?case by (auto simp: p bt_ok_def bt_values_def)
qed simp

text \<open>Two maps with the same lookups are the same map, so a fold over one is determined.\<close>

lemma bt_ext:
  assumes "bt_ok m" and "bt_ok n" and "\<And>k. bt_get m k = bt_get n k"
  shows "m = n"
proof -
  have "set m = set n"
    using bt_entry_iff [OF assms(1)] bt_entry_iff [OF assms(2)] assms(3) by (auto simp: set_eq_iff)
  then have "map fst m = map fst n"
    using assms(1,2) by (intro strict_sorted_equal) (auto simp: bt_ok_def)
  moreover have "m = map (\<lambda>k. (k, the (bt_get m k))) (map fst m)"
    using bt_entry_iff [OF assms(1)] by (intro nth_equalityI) (auto, metis nth_mem option.sel prod.collapse)
  moreover have "n = map (\<lambda>k. (k, the (bt_get n k))) (map fst n)"
    using bt_entry_iff [OF assms(2)] by (intro nth_equalityI) (auto, metis nth_mem option.sel prod.collapse)
  ultimately show ?thesis using assms(3) by simp
qed

section \<open>Books of aggregates\<close>

locale keyed_book =
  fixes apply_to :: "'b \<Rightarrow> 'ev \<Rightarrow> 'err + 'b"
    and lookup :: "'b \<Rightarrow> 'k \<Rightarrow> 's option"
    and key :: "'ev \<Rightarrow> 'k"
    and birth :: "'ev \<Rightarrow> 'err + 's"
    and step :: "'s \<Rightarrow> 'ev \<Rightarrow> 'err + 's"
  assumes own: "apply_to b e = Inr b' \<Longrightarrow>
      \<exists>s. (case lookup b (key e) of None \<Rightarrow> birth e | Some s \<Rightarrow> step s e) = Inr s \<and> lookup b' (key e) = Some s"
    and frame: "apply_to b e = Inr b' \<Longrightarrow> k \<noteq> key e \<Longrightarrow> lookup b' k = lookup b k"
    and accepts: "(case lookup b (key e) of None \<Rightarrow> birth e | Some s \<Rightarrow> step s e) = Inr s \<Longrightarrow>
      \<exists>b'. apply_to b e = Inr b'"
begin

fun live :: "'s option \<Rightarrow> 'ev list \<Rightarrow> 'err + 's option" where
  "live s [] = Inr s"
| "live s (e # es) =
     and_then (case s of None \<Rightarrow> birth e | Some s \<Rightarrow> step s e) (\<lambda>s'. live (Some s') es)"

lemma live_Some: "live (Some s) es = map_ok Some (try_fold step s es)"
  by (induction es arbitrary: s) (auto simp: and_then_def map_ok_def split: sum.splits)

lemma live_None:
  "live None es = (case es of [] \<Rightarrow> Inr None
     | e # es' \<Rightarrow> map_ok Some (and_then (birth e) (\<lambda>s. try_fold step s es')))"
  by (cases es) (auto simp: live_Some and_then_def map_ok_def split: sum.splits)

lemma run_at: "try_fold apply_to b es = Inr b' \<Longrightarrow> live (lookup b k) (filter (\<lambda>e. key e = k) es) = Inr (lookup b' k)"
proof (induction es arbitrary: b)
  case (Cons e es)
  from Cons.prems obtain m where m: "apply_to b e = Inr m" "try_fold apply_to m es = Inr b'"
    by (auto simp: res_simps)
  note ih = Cons.IH [OF m(2)]
  show ?case
  proof (cases "key e = k")
    case True
    with own [OF m(1)] ih show ?thesis by auto
  next
    case False
    with frame [OF m(1)] ih show ?thesis by simp
  qed
qed simp

lemma run_accepts:
  "(\<And>k. k \<in> key ` set es \<Longrightarrow> is_ok (live (lookup b k) (filter (\<lambda>e. key e = k) es))) \<Longrightarrow>
     \<exists>b'. try_fold apply_to b es = Inr b'"
proof (induction es arbitrary: b)
  case (Cons e es)
  have "is_ok (live (lookup b (key e)) (e # filter (\<lambda>x. key x = key e) es))"
    using Cons.prems [of "key e"] by simp
  then obtain s where s: "(case lookup b (key e) of None \<Rightarrow> birth e | Some s \<Rightarrow> step s e) = Inr s"
    and rest: "is_ok (live (Some s) (filter (\<lambda>x. key x = key e) es))"
    by (auto simp: is_ok_iff res_simps)
  obtain m where m: "apply_to b e = Inr m" using accepts [OF s] by blast
  have "\<exists>b'. try_fold apply_to m es = Inr b'"
  proof (rule Cons.IH)
    fix k assume k: "k \<in> key ` set es"
    show "is_ok (live (lookup m k) (filter (\<lambda>e. key e = k) es))"
    proof (cases "k = key e")
      case True
      with own [OF m] s rest show ?thesis by auto
    next
      case False
      with frame [OF m] Cons.prems [of k] k show ?thesis by auto
    qed
  qed
  with m show ?case by auto
qed simp

end

end
