(* ===== verification/Book.thy ===== *)
theory Book
  imports Sale BTree
begin

text \<open>
  Every sale a device knows (\<open>crates/sahl-core/src/projection/book.rs\<close>), and the cash and takings
  derived from them.
\<close>

type_synonym sale_book = "(uuid, sale) btree"

definition book_new :: sale_book where
  "book_new = []"

text \<open>
  \<open>SaleBook::apply\<close> works on the sale in place, so an event a known sale refuses leaves what
  \<open>Sale::apply\<close> left; an event that would open a sale and fails leaves the book alone.
\<close>

definition book_apply :: "sale_book \<Rightarrow> sale_event \<Rightarrow> sale_book \<times> (sale_error + unit)" where
  "book_apply b ev =
     (case bt_get b (event_sale_id ev) of
        Some s \<Rightarrow> (let (s', r) = sale_apply s ev in (bt_insert (event_sale_id ev) s' b, r))
      | None \<Rightarrow>
          (case sale_replay [ev] of
             Inl e \<Rightarrow> (b, Inl e)
           | Inr s \<Rightarrow> (bt_insert (event_sale_id ev) s b, Inr ())))"

definition book_step :: "sale_book \<Rightarrow> sale_event \<Rightarrow> sale_error + sale_book" where
  "book_step b ev = (let (b', r) = book_apply b ev in map_ok (\<lambda>_. b') r)"

definition book_replay :: "sale_event list \<Rightarrow> sale_error + sale_book" where
  "book_replay events = try_fold book_step book_new events"

definition book_get :: "sale_book \<Rightarrow> uuid \<Rightarrow> sale option" where
  "book_get b sale_id = bt_get b sale_id"

definition book_len :: "sale_book \<Rightarrow> nat" where
  "book_len b = length b"

definition book_iter :: "sale_book \<Rightarrow> sale list" where
  "book_iter b = bt_values b"

definition book_open :: "sale_book \<Rightarrow> sale list" where
  "book_open b = filter (\<lambda>s. s_status s = StatusOpen) (book_iter b)"

definition book_completed :: "sale_book \<Rightarrow> sale list" where
  "book_completed b = filter (\<lambda>s. s_status s = StatusCompleted) (book_iter b)"

definition takings :: "sale_book \<Rightarrow> currency \<Rightarrow> sale_error + money" where
  "takings b c = map_err SaleMoney (try_sum (List.map_filter s_settled_total (book_completed b)) c)"

definition expected_cash :: "sale_book \<Rightarrow> currency \<Rightarrow> sale_error + money" where
  "expected_cash b c =
     try_fold (\<lambda>t s. and_then (net_cash s) (\<lambda>cash. map_err SaleMoney (checked_add t cash)))
       (money_zero c) (book_completed b)"

definition book_void_count :: "sale_book \<Rightarrow> nat" where
  "book_void_count b = sum_list (map void_count (book_iter b))"

section \<open>Each sale on its own\<close>

lemma book_step_cases:
  "book_step b ev = (case bt_get b (event_sale_id ev) of
      Some s \<Rightarrow> map_ok (\<lambda>s'. bt_insert (event_sale_id ev) s' b) (sale_step s ev)
    | None \<Rightarrow> map_ok (\<lambda>s'. bt_insert (event_sale_id ev) s' b) (sale_replay [ev]))"
  by (auto simp: book_step_def book_apply_def sale_step_def Let_def split: option.splits prod.splits sum.splits)

lemma sale_replay_one: "sale_replay [ev] = sale_opened ev"
  by (simp add: sale_replay_def and_then_def split: sum.splits)

interpretation sale_books: keyed_book book_step bt_get event_sale_id sale_opened sale_step
proof
  fix b b' :: sale_book and e :: sale_event and k s
  show "\<exists>s. (case bt_get b (event_sale_id e) of None \<Rightarrow> sale_opened e | Some s \<Rightarrow> sale_step s e) = Inr s
      \<and> bt_get b' (event_sale_id e) = Some s" if "book_step b e = Inr b'"
    using that by (auto simp: book_step_cases sale_replay_one res_simps split: option.splits)
  show "bt_get b' k = bt_get b k" if "book_step b e = Inr b'" "k \<noteq> event_sale_id e"
    using that by (auto simp: book_step_cases res_simps split: option.splits)
  show "\<exists>b'. book_step b e = Inr b'"
    if "(case bt_get b (event_sale_id e) of None \<Rightarrow> sale_opened e | Some s \<Rightarrow> sale_step s e) = Inr s"
    using that by (auto simp: book_step_cases sale_replay_one split: option.splits)
qed

lemma sale_replay_live:
  "sale_books.live None es = (case es of [] \<Rightarrow> Inr None | _ \<Rightarrow> map_ok Some (sale_replay es))"
  by (auto simp: sale_books.live_None sale_replay_def split: list.splits)

text \<open>A book is well formed when its keys are in order and every sale is one a replay made,
  filed under its own id.\<close>

definition good_book :: "sale_book \<Rightarrow> bool" where
  "good_book b \<longleftrightarrow> bt_ok b \<and> list_all (\<lambda>(k, s). s_id s = k \<and> good_sale s) b"

lemma opened_id: "sale_opened ev = Inr s \<Longrightarrow> s_id s = event_sale_id ev"
  by (auto simp: sale_opened_def event_sale_id_def split: sale_event.splits)

lemma sale_step_id: "sale_step s ev = Inr s' \<Longrightarrow> s_id s' = s_id s"
  using step_then_moves moves_keeps by (fastforce simp: sale_keeps_def)

lemma good_book_insert:
  "good_book b \<Longrightarrow> s_id s = k \<Longrightarrow> good_sale s \<Longrightarrow> good_book (bt_insert k s b)"
  unfolding good_book_def list_all_iff
  by (metis (mono_tags, lifting) bt_entry_iff bt_get_insert bt_ok_insert case_prodI2 case_prod_conv option.inject)

lemma book_step_good:
  assumes "good_book b" and "book_step b ev = Inr b'"
  shows "good_book b'"
proof (cases "bt_get b (event_sale_id ev)")
  case None
  with assms(2) obtain s where s: "sale_opened ev = Inr s" "b' = bt_insert (event_sale_id ev) s b"
    by (auto simp: book_step_cases sale_replay_one res_simps)
  from good_book_insert [OF assms(1) opened_id [OF s(1)] opened_good [OF s(1)]] s(2) show ?thesis by simp
next
  case (Some s)
  with assms(2) obtain s' where s': "sale_step s ev = Inr s'" "b' = bt_insert (event_sale_id ev) s' b"
    by (auto simp: book_step_cases res_simps)
  have "s_id s = event_sale_id ev" "good_sale s"
    using assms(1) map_of_SomeD [OF Some] by (auto simp: good_book_def list_all_iff)
  with s' sale_step_id sale_log.step_good have "s_id s' = event_sale_id ev" "good_sale s'"
    by fastforce+
  from good_book_insert [OF assms(1) this] s'(2) show ?thesis by simp
qed

interpretation book_log: event_sourced book_step good_book
  by unfold_locales (rule book_step_good)

lemma book_replay_good: "book_replay es = Inr b \<Longrightarrow> good_book b"
  unfolding book_replay_def by (erule book_log.run_good) (simp add: book_new_def good_book_def)

section \<open>Properties\<close>

definition events_of :: "sale_event list \<Rightarrow> uuid \<Rightarrow> sale_event list" where
  "events_of es k = filter (\<lambda>e. event_sale_id e = k) es"

lemma book_get_replay:
  assumes "book_replay es = Inr b"
  shows "if events_of es k = [] then book_get b k = None
    else \<exists>s. sale_replay (events_of es k) = Inr s \<and> book_get b k = Some s"
  using sale_books.run_at [OF assms [unfolded book_replay_def], of k]
  by (auto simp: book_new_def events_of_def book_get_def sale_replay_live res_simps split: list.splits)

lemma book_replay_ok_iff:
  "is_ok (book_replay es) \<longleftrightarrow> (\<forall>k \<in> event_sale_id ` set es. is_ok (sale_replay (events_of es k)))"
proof
  assume "is_ok (book_replay es)"
  then obtain b where b: "book_replay es = Inr b" by (auto simp: is_ok_iff)
  show "\<forall>k \<in> event_sale_id ` set es. is_ok (sale_replay (events_of es k))"
  proof
    fix k assume "k \<in> event_sale_id ` set es"
    then have "events_of es k \<noteq> []" by (auto simp: events_of_def filter_empty_conv)
    with book_get_replay [OF b, of k] show "is_ok (sale_replay (events_of es k))" by (auto simp: is_ok_iff)
  qed
next
  assume ok: "\<forall>k \<in> event_sale_id ` set es. is_ok (sale_replay (events_of es k))"
  have "\<exists>b. try_fold book_step [] es = Inr b"
  proof (rule sale_books.run_accepts)
    fix k assume "k \<in> event_sale_id ` set es"
    with ok obtain s where "sale_replay (events_of es k) = Inr s" by (auto simp: is_ok_iff)
    then show "is_ok (sale_books.live (bt_get [] k) (filter (\<lambda>e. event_sale_id e = k) es))"
      by (auto simp: sale_replay_live events_of_def split: list.splits)
  qed
  then show "is_ok (book_replay es)" by (simp add: book_replay_def book_new_def is_ok_iff)
qed

definition two_tickets :: "sale_event list" where
  "two_tickets =
     [Opened 1 900 Bdt TaxInclusive HalfUp, Opened 2 900 Bdt TaxInclusive HalfUp,
      LineAdded 2 31 531 (lit ''Tea'') (taka 3000) \<lparr>milli = 1000\<rparr> Exempt [],
      LineAdded 1 11 511 (lit ''Item'') (taka 10000) \<lparr>milli = 1000\<rparr> Exempt [],
      TenderRecorded 2 41 Card (taka 1000) None, TenderRecorded 2 42 Cash (taka 5000) None,
      Completed 2 (taka 3000) (taka 3000) \<lparr>millis = 9\<rparr>,
      TenderRecorded 1 21 Cash (taka 10000) None, Completed 1 (taka 10000) (taka 0) \<lparr>millis = 8\<rparr>]"

lemma two_tickets_ok:
  "\<exists>b. book_replay two_tickets = Inr b \<and> takings b Bdt = Inr (taka 13000) \<and> expected_cash b Bdt = Inr (taka 12000)"
proof -
  have "map_ok (\<lambda>b. (takings b Bdt, expected_cash b Bdt)) (book_replay two_tickets)
    = Inr (Inr (taka 13000), Inr (taka 12000))" by code_simp
  then show ?thesis by (auto simp: res_simps)
qed

text \<open>C11: a book replays each sale on its own, however the events of different sales interleave: it
  accepts a stream exactly when the events of every sale replay by themselves, and then holds
  for each sale what that replay gives and nothing else.\<close>

theorem book_replays_each_sale:
  "is_ok (book_replay es) = (\<forall>k \<in> event_sale_id ` set es. is_ok (sale_replay (events_of es k)))
   \<and> (\<forall>b k. book_replay es = Inr b \<longrightarrow> (if events_of es k = [] then book_get b k = None
        else \<exists>s. sale_replay (events_of es k) = Inr s \<and> book_get b k = Some s))"
  using book_replay_ok_iff book_get_replay by blast

lemma book_replays_each_sale_witness:
  "\<exists>b s. book_replay two_tickets = Inr b \<and> sale_replay (events_of two_tickets 2) = Inr s \<and> book_get b 2 = Some s"
proof -
  obtain b where b: "book_replay two_tickets = Inr b" using two_tickets_ok by blast
  have "events_of two_tickets 2 \<noteq> []" by code_simp
  with book_replays_each_sale [of two_tickets] b show ?thesis by (metis (full_types))
qed

text \<open>Two streams with the same events in the same order for every sale build the very same
  book, so devices and server may merge tickets in any order.\<close>

theorem book_interleaving:
  assumes "book_replay es = Inr b" and "\<forall>k. events_of es' k = events_of es k"
  shows "book_replay es' = Inr b"
proof -
  have keys: "k \<in> event_sale_id ` set xs \<longleftrightarrow> events_of xs k \<noteq> []" for k xs
    by (auto simp: events_of_def filter_empty_conv)
  have "is_ok (book_replay es)" using assms(1) by simp
  then have "is_ok (book_replay es')"
    unfolding book_replay_ok_iff Ball_def keys assms(2) [rule_format] .
  then obtain b' where b': "book_replay es' = Inr b'" by (auto simp: is_ok_iff)
  have "book_get b' k = book_get b k" for k
    using book_get_replay [OF assms(1), of k] book_get_replay [OF b', of k] assms(2) by (auto split: if_splits)
  then have "b' = b"
    using book_replay_good [OF assms(1)] book_replay_good [OF b']
    by (intro bt_ext) (auto simp: good_book_def book_get_def)
  with b' show ?thesis by simp
qed

lemma book_interleaving_witness:
  "\<exists>b. book_replay two_tickets = Inr b
     \<and> book_replay (events_of two_tickets 2 @ events_of two_tickets 1) = Inr b"
proof -
  obtain b where b: "book_replay two_tickets = Inr b" using two_tickets_ok by blast
  have "events_of (events_of two_tickets 2 @ events_of two_tickets 1) k = events_of two_tickets k" for k
    by (simp add: two_tickets_def events_of_def event_sale_id_def)
  with book_interleaving [OF b] b show ?thesis by blast
qed

lemma settled_sum:
  assumes "list_all2 (\<lambda>s m. net_cash s = Inr m) ss cs"
    and "\<forall>s \<in> set ss. good_sale s \<and> s_status s = StatusCompleted"
  shows "sum_list (map minor (List.map_filter s_settled_total ss))
    = sum_list (map minor cs) + (\<Sum>s\<leftarrow>ss. sum_list (map minor (non_cash_tenders s)))"
  using assms
proof (induction ss cs rule: list_all2_induct)
  case (Cons s ss m cs)
  from Cons.prems obtain t where "s_settled_total s = Some t"
    "minor m + sum_list (map minor (non_cash_tenders s)) = minor t"
    using good_sale_reconciles [of s] Cons.hyps(1) by auto
  with Cons show ?case by (simp add: List.map_filter_simps)
qed (simp add: List.map_filter_simps)

text \<open>Over all completed sales of a book, the takings are exactly the cash expected in the
  drawer plus the non-cash tenders.\<close>

theorem takings_reconcile:
  assumes "book_replay es = Inr b" and "takings b c = Inr t" and "expected_cash b c = Inr cash"
  shows "minor t = minor cash + (\<Sum>s\<leftarrow>book_completed b. sum_list (map minor (non_cash_tenders s)))"
proof -
  obtain cs where cs: "list_all2 (\<lambda>s m. net_cash s = Inr m) (book_completed b) cs"
    "minor cash = sum_list (map minor cs)"
    using try_fold_add_sum [OF assms(3) [unfolded expected_cash_def]] by auto
  have "\<forall>s \<in> set (book_completed b). good_sale s \<and> s_status s = StatusCompleted"
    using book_replay_good [OF assms(1)]
    by (auto simp: book_completed_def book_iter_def bt_values_def good_book_def list_all_iff)
  from settled_sum [OF cs(1) this] cs(2) show ?thesis
    using assms(2) by (auto simp: takings_def res_simps dest: try_sum_Inr(1))
qed

lemma takings_reconcile_witness:
  "\<exists>b. book_replay two_tickets = Inr b
     \<and> 13000 = 12000 + (\<Sum>s\<leftarrow>book_completed b. sum_list (map minor (non_cash_tenders s)))"
proof -
  obtain b where b: "book_replay two_tickets = Inr b" "takings b Bdt = Inr (taka 13000)"
    "expected_cash b Bdt = Inr (taka 12000)"
    using two_tickets_ok by (elim exE conjE) (rule that)
  from takings_reconcile [OF b] b(1) show ?thesis by (intro exI [of _ b]) (simp add: taka_def)
qed

end
