(* ===== verification/Shift.thy ===== *)
theory Shift
  imports Book
begin

text \<open>
  A till session (\<open>crates/sahl-core/src/shift\<close>): its events and state, which sales belong to it,
  and the X and Z reports with the drawer's variance.
\<close>

datatype cash_movement_reason = FloatTopUp | Skim | PettyCash | MovedRefund | Correction

datatype shift_event =
    ShiftOpened (she_shift_id: uuid) uuid currency money (she_at: timestamp)
  | CashMoved (she_shift_id: uuid) uuid money cash_movement_reason "string option" uuid (she_at: timestamp)
  | DrawerCounted (she_shift_id: uuid) money uuid (she_at: timestamp)
  | ShiftClosed (she_shift_id: uuid) uuid money (she_at: timestamp)

definition event_shift_id :: "shift_event \<Rightarrow> uuid" where
  "event_shift_id ev = she_shift_id ev"

definition shift_event_at :: "shift_event \<Rightarrow> timestamp" where
  "shift_event_at ev = she_at ev"

fun shift_event_kind :: "shift_event \<Rightarrow> string" where
  "shift_event_kind (ShiftOpened _ _ _ _ _) = ''shift.opened''"
| "shift_event_kind (CashMoved _ _ _ _ _ _ _) = ''shift.cash_moved''"
| "shift_event_kind (DrawerCounted _ _ _ _) = ''shift.counted''"
| "shift_event_kind (ShiftClosed _ _ _ _) = ''shift.closed''"

datatype shift_error =
    ShiftMoney money_error
  | ShiftSale sale_error
  | ShiftNotOpenedFirst string
  | ShiftAlreadyOpened
  | WrongShift uuid uuid
  | ShiftIsClosed
  | NegativeDrawer money
  | NotCounted

datatype shift_status = ShiftIsOpen | ShiftHasClosed

record cash_movement =
  cm_id :: uuid
  cm_amount :: money
  cm_reason :: cash_movement_reason
  cm_note :: "string option"
  cm_authorized_by :: uuid
  cm_at :: timestamp

record drawer_count =
  dc_counted :: money
  dc_counted_by :: uuid
  dc_at :: timestamp

record shift =
  sh_id :: uuid
  sh_status :: shift_status
  sh_opened_by :: uuid
  sh_currency :: currency
  sh_opening_float :: money
  sh_opened_at :: timestamp
  sh_closed_at :: "timestamp option"
  sh_movements :: "cash_movement list"
  sh_counts :: "drawer_count list"
  sh_closing_cash :: "money option"

definition shift_opened :: "shift_event \<Rightarrow> shift_error + shift" where
  "shift_opened ev =
     (case ev of
        ShiftOpened shift_id opened_by c opening_float at \<Rightarrow>
          Inr \<lparr>sh_id = shift_id, sh_status = ShiftIsOpen, sh_opened_by = opened_by, sh_currency = c,
               sh_opening_float = opening_float, sh_opened_at = at, sh_closed_at = None,
               sh_movements = [], sh_counts = [], sh_closing_cash = None\<rparr>
      | _ \<Rightarrow> Inl (ShiftNotOpenedFirst (shift_event_kind ev)))"

definition shift_apply :: "shift \<Rightarrow> shift_event \<Rightarrow> shift_error + shift" where
  "shift_apply s ev =
     (if event_shift_id ev \<noteq> sh_id s then Inl (WrongShift (sh_id s) (event_shift_id ev))
      else if sh_status s = ShiftHasClosed then Inl ShiftIsClosed
      else case ev of
        ShiftOpened _ _ _ _ _ \<Rightarrow> Inl ShiftAlreadyOpened
      | CashMoved _ movement_id amount reason note authorized_by at \<Rightarrow>
          Inr (s\<lparr>sh_movements := sh_movements s @
            [\<lparr>cm_id = movement_id, cm_amount = amount, cm_reason = reason, cm_note = note,
              cm_authorized_by = authorized_by, cm_at = at\<rparr>]\<rparr>)
      | DrawerCounted _ counted counted_by at \<Rightarrow>
          (if is_negative counted then Inl (NegativeDrawer counted)
           else Inr (s\<lparr>sh_counts := sh_counts s @
             [\<lparr>dc_counted = counted, dc_counted_by = counted_by, dc_at = at\<rparr>]\<rparr>))
      | ShiftClosed _ _ closing_cash at \<Rightarrow>
          (if sh_counts s = [] then Inl NotCounted
           else Inr (s\<lparr>sh_closing_cash := Some closing_cash, sh_closed_at := Some at,
                       sh_status := ShiftHasClosed\<rparr>)))"

definition shift_replay :: "shift_event list \<Rightarrow> shift_error + shift" where
  "shift_replay events =
     (case events of
        [] \<Rightarrow> Inl (ShiftNotOpenedFirst ''nothing'')
      | first # rest \<Rightarrow> and_then (shift_opened first) (\<lambda>s. try_fold shift_apply s rest))"

definition shift_net_movements :: "shift \<Rightarrow> shift_error + money" where
  "shift_net_movements s = map_err ShiftMoney (try_sum (map cm_amount (sh_movements s)) (sh_currency s))"

definition covers :: "shift \<Rightarrow> timestamp \<Rightarrow> bool" where
  "covers s at =
     (if millis at < millis (sh_opened_at s) then False
      else case sh_closed_at s of None \<Rightarrow> True | Some closed \<Rightarrow> millis at \<le> millis closed)"

definition final_count :: "shift \<Rightarrow> drawer_count option" where
  "final_count s = (if sh_counts s = [] then None else Some (last (sh_counts s)))"

text \<open>The sales a shift covers, and their net cash.\<close>

definition covered_sale :: "shift \<Rightarrow> sale \<Rightarrow> bool" where
  "covered_sale s sl = (case s_settled_at sl of None \<Rightarrow> False | Some at \<Rightarrow> covers s at)"

definition cash_from :: "currency \<Rightarrow> sale list \<Rightarrow> shift_error + money" where
  "cash_from c sales =
     try_fold (\<lambda>t sl. and_then (map_err ShiftSale (net_cash sl)) (\<lambda>cash.
       map_err ShiftMoney (checked_add t cash))) (money_zero c) sales"

definition shift_expected_cash :: "shift \<Rightarrow> sale list \<Rightarrow> shift_error + money" where
  "shift_expected_cash s sales =
     and_then (cash_from (sh_currency s) (filter (covered_sale s) sales)) (\<lambda>from_sales.
     and_then (map_err ShiftMoney (checked_add (sh_opening_float s) from_sales)) (\<lambda>held.
     and_then (shift_net_movements s) (\<lambda>moved.
     map_err ShiftMoney (checked_add held moved))))"

section \<open>Reports\<close>

datatype variance = Balanced | Short money | Over money

definition variance_between :: "money \<Rightarrow> money \<Rightarrow> shift_error + variance" where
  "variance_between counted expected =
     and_then (map_err ShiftMoney (checked_sub counted expected)) (\<lambda>delta.
     if is_zero delta then Inr Balanced
     else if is_negative delta then map_ok Short (map_err ShiftMoney (checked_neg delta))
     else Inr (Over delta))"

fun magnitude :: "variance \<Rightarrow> money" where
  "magnitude Balanced = money_zero Bdt"
| "magnitude (Short by_amount) = by_amount"
| "magnitude (Over by_amount) = by_amount"

fun is_balanced :: "variance \<Rightarrow> bool" where
  "is_balanced Balanced = True"
| "is_balanced (Short _) = False"
| "is_balanced (Over _) = False"

record shift_report =
  sr_shift_id :: uuid
  sr_cashier :: uuid
  sr_is_final :: bool
  sr_opening_float :: money
  sr_takings :: money
  sr_cash_from_sales :: money
  sr_net_movements :: money
  sr_expected_cash :: money
  sr_counted_cash :: "money option"
  sr_variance :: "variance option"
  sr_sale_count :: nat
  sr_void_count :: nat
  sr_count_attempts :: nat

definition transpose :: "('e + 'a) option \<Rightarrow> 'e + 'a option" where
  "transpose v = (case v of None \<Rightarrow> Inr None | Some r \<Rightarrow> map_ok Some r)"

definition report :: "shift \<Rightarrow> sale list \<Rightarrow> shift_error + shift_report" where
  "report s sales =
     (let mine = filter (covered_sale s) sales in
      and_then (map_err ShiftMoney (try_sum (List.map_filter s_settled_total mine) (sh_currency s))) (\<lambda>takings.
      and_then (cash_from (sh_currency s) mine) (\<lambda>cash_from_sales.
      and_then (shift_net_movements s) (\<lambda>net_movements.
      and_then (map_err ShiftMoney (checked_add (sh_opening_float s) cash_from_sales)) (\<lambda>held.
      and_then (map_err ShiftMoney (checked_add held net_movements)) (\<lambda>expected.
      let counted = map_option dc_counted (final_count s) in
      and_then (transpose (map_option (\<lambda>c. variance_between c expected) counted)) (\<lambda>var.
      Inr \<lparr>sr_shift_id = sh_id s, sr_cashier = sh_opened_by s, sr_is_final = (sh_status s = ShiftHasClosed),
           sr_opening_float = sh_opening_float s, sr_takings = takings, sr_cash_from_sales = cash_from_sales,
           sr_net_movements = net_movements, sr_expected_cash = expected, sr_counted_cash = counted,
           sr_variance = var, sr_sale_count = length mine, sr_void_count = sum_list (map void_count mine),
           sr_count_attempts = length (sh_counts s)\<rparr>)))))))"

section \<open>What a session keeps\<close>

definition good_shift :: "shift \<Rightarrow> bool" where
  "good_shift s \<longleftrightarrow>
     list_all (\<lambda>c. 0 \<le> minor (dc_counted c)) (sh_counts s)
     \<and> (sh_status s = ShiftHasClosed \<longleftrightarrow> sh_closed_at s \<noteq> None)
     \<and> (sh_status s = ShiftHasClosed \<longleftrightarrow> sh_closing_cash s \<noteq> None)
     \<and> (sh_status s = ShiftHasClosed \<longrightarrow> sh_counts s \<noteq> [])"

definition shift_keeps :: "shift \<Rightarrow> shift \<Rightarrow> bool" where
  "shift_keeps s s' \<longleftrightarrow>
     sh_id s' = sh_id s \<and> sh_opened_by s' = sh_opened_by s \<and> sh_currency s' = sh_currency s
     \<and> sh_opening_float s' = sh_opening_float s \<and> sh_opened_at s' = sh_opened_at s
     \<and> prefix (sh_movements s) (sh_movements s') \<and> prefix (sh_counts s) (sh_counts s')
     \<and> (sh_status s = ShiftHasClosed \<longrightarrow> s' = s)"

lemma shift_apply_good: "shift_apply s e = Inr s' \<Longrightarrow> good_shift s \<Longrightarrow> good_shift s'"
  by (cases e) (auto simp: shift_apply_def good_shift_def is_negative_def split: if_splits)

lemma shift_apply_keeps: "shift_apply s e = Inr s' \<Longrightarrow> shift_keeps s s'"
  by (cases e) (auto simp: shift_apply_def shift_keeps_def split: if_splits)

interpretation shift_log: evidence_log shift_apply good_shift shift_keeps
proof unfold_locales
  show "shift_keeps a c" if "shift_keeps a b" "shift_keeps b c" for a b c
    using that by (auto simp: shift_keeps_def intro: prefix_order.trans)
qed (auto simp: shift_keeps_def intro: shift_apply_good shift_apply_keeps dest: shift_apply_keeps)

lemma shift_opened_good: "shift_opened e = Inr s \<Longrightarrow> good_shift s"
  by (auto simp: shift_opened_def good_shift_def split: shift_event.splits)

lemma shift_replay_good: "shift_replay es = Inr s \<Longrightarrow> good_shift s"
  using shift_opened_good shift_log.run_good
  by (fastforce simp: shift_replay_def res_simps split: list.splits)

lemma cash_from_sum:
  assumes "cash_from c ss = Inr t"
  shows "\<exists>cs. list_all2 (\<lambda>s m. net_cash s = Inr m) ss cs \<and> minor t = sum_list (map minor cs)"
  using try_fold_add_sum [OF assms [unfolded cash_from_def]] by (auto simp: res_simps)

section \<open>Properties\<close>

definition signed_variance :: "variance \<Rightarrow> int" where
  "signed_variance v = (case v of Balanced \<Rightarrow> 0 | Short m \<Rightarrow> - minor m | Over m \<Rightarrow> minor m)"

lemma variance_between_Inr:
  "variance_between counted expected = Inr v \<Longrightarrow>
     signed_variance v = minor counted - minor expected
     \<and> (v \<noteq> Balanced \<longrightarrow> 0 < minor (magnitude v)) \<and> (is_balanced v \<longleftrightarrow> minor counted = minor expected)"
  by (auto simp: variance_between_def res_simps is_zero_def is_negative_def signed_variance_def split: if_splits)

lemma covered_completed: "good_sale sl \<Longrightarrow> covered_sale s sl \<Longrightarrow> s_status sl = StatusCompleted"
  by (cases "s_status sl") (auto simp: covered_sale_def good_sale_def open_settled_ok settled_ok_def
      split: option.splits)

lemma report_Inr:
  assumes "report s sales = Inr r"
  shows "try_sum (List.map_filter s_settled_total (filter (covered_sale s) sales)) (sh_currency s) = Inr (sr_takings r)"
    and "cash_from (sh_currency s) (filter (covered_sale s) sales) = Inr (sr_cash_from_sales r)"
    and "shift_net_movements s = Inr (sr_net_movements r)"
    and "shift_expected_cash s sales = Inr (sr_expected_cash r)"
    and "minor (sr_expected_cash r) = minor (sh_opening_float s) + minor (sr_cash_from_sales r) + minor (sr_net_movements r)"
    and "final_count s = Some c \<Longrightarrow> \<exists>v. sr_variance r = Some v \<and> variance_between (dc_counted c) (sr_expected_cash r) = Inr v"
    and "sr_sale_count r = length (filter (covered_sale s) sales)"
  using assms by (auto simp: report_def Let_def res_simps shift_expected_cash_def transpose_def)

text \<open>A morning: float, a card and a cash sale of the two tickets, a skim, a recount, the close.\<close>

definition sample_session :: "shift_event list" where
  "sample_session =
     [ShiftOpened 70 900 Bdt (taka 20000) \<lparr>millis = 1\<rparr>,
      CashMoved 70 71 (taka (- 5000)) Skim None 901 \<lparr>millis = 5\<rparr>,
      DrawerCounted 70 (taka 26000) 900 \<lparr>millis = 9\<rparr>,
      DrawerCounted 70 (taka 26500) 900 \<lparr>millis = 10\<rparr>,
      ShiftClosed 70 901 (taka 26500) \<lparr>millis = 11\<rparr>]"

lemma sample_session_ok:
  "\<exists>b s r. book_replay two_tickets = Inr b \<and> shift_replay sample_session = Inr s
     \<and> report s (book_iter b) = Inr r \<and> sh_status s = ShiftHasClosed \<and> sr_takings r = taka 13000
     \<and> final_count s = Some \<lparr>dc_counted = taka 26500, dc_counted_by = 900, dc_at = \<lparr>millis = 10\<rparr>\<rparr>"
proof -
  have "and_then (map_err ShiftSale (book_replay two_tickets)) (\<lambda>b. and_then (shift_replay sample_session) (\<lambda>s.
      map_ok (\<lambda>r. (sh_status s, sr_takings r, final_count s)) (report s (book_iter b))))
    = Inr (ShiftHasClosed, taka 13000,
        Some \<lparr>dc_counted = taka 26500, dc_counted_by = 900, dc_at = \<lparr>millis = 10\<rparr>\<rparr>)" by code_simp
  then show ?thesis
    by (simp only: and_then_Inr_iff map_err_Inr_iff map_ok_Inr_iff prod.inject)
      (elim exE conjE, intro exI conjI, (assumption | erule sym)+)
qed

text \<open>C17: a shift report is exact: the drawer should hold the opening float plus the net cash of
  the completed sales it covers plus the cash movements, which is also what the shift itself
  computes; the takings are that cash plus the non-cash tenders; and the variance is the last
  count less the expected cash, short or over by a positive amount.\<close>

theorem shift_report_exact:
  assumes "book_replay es = Inr b" and "report s (book_iter b) = Inr r"
    and "final_count s = Some c"
  shows "minor (sr_expected_cash r) = minor (sh_opening_float s) + minor (sr_cash_from_sales r)
        + (\<Sum>m\<leftarrow>sh_movements s. minor (cm_amount m))
    \<and> shift_expected_cash s (book_iter b) = Inr (sr_expected_cash r)
    \<and> minor (sr_takings r) = minor (sr_cash_from_sales r)
        + (\<Sum>sl\<leftarrow>filter (covered_sale s) (book_iter b). sum_list (map minor (non_cash_tenders sl)))
    \<and> (\<exists>v. sr_variance r = Some v
        \<and> signed_variance v = minor (dc_counted c) - minor (sr_expected_cash r)
        \<and> (v \<noteq> Balanced \<longrightarrow> 0 < minor (magnitude v)))"
proof -
  note rep = report_Inr [OF assms(2)]
  let ?mine = "filter (covered_sale s) (book_iter b)"
  obtain cs where cs: "list_all2 (\<lambda>s m. net_cash s = Inr m) ?mine cs"
    "minor (sr_cash_from_sales r) = sum_list (map minor cs)"
    using cash_from_sum [OF rep(2)] by blast
  have "\<forall>sl \<in> set (book_iter b). good_sale sl"
    using book_replay_good [OF assms(1)] by (auto simp: book_iter_def bt_values_def good_book_def list_all_iff)
  then have "\<forall>sl \<in> set ?mine. good_sale sl \<and> s_status sl = StatusCompleted"
    using covered_completed by auto
  from settled_sum [OF cs(1) this] have "minor (sr_takings r) = minor (sr_cash_from_sales r)
      + (\<Sum>sl\<leftarrow>?mine. sum_list (map minor (non_cash_tenders sl)))"
    using try_sum_Inr(1) [OF rep(1)] cs(2) by simp
  moreover have "minor (sr_net_movements r) = (\<Sum>m\<leftarrow>sh_movements s. minor (cm_amount m))"
    using rep(3) by (auto simp: shift_net_movements_def res_simps comp_def dest: try_sum_Inr(1))
  moreover obtain v where v: "sr_variance r = Some v" "variance_between (dc_counted c) (sr_expected_cash r) = Inr v"
    using rep(6) [OF assms(3)] by blast
  ultimately show ?thesis
    using rep(4,5) variance_between_Inr [OF v(2)] v(1) by (intro conjI exI [of _ v]) simp_all
qed

lemma shift_report_exact_witness:
  "\<exists>b s r v. book_replay two_tickets = Inr b \<and> shift_replay sample_session = Inr s
     \<and> report s (book_iter b) = Inr r \<and> sr_variance r = Some v
     \<and> signed_variance v = 26500 - minor (sr_expected_cash r)"
proof -
  obtain b s r where b: "book_replay two_tickets = Inr b" and s: "shift_replay sample_session = Inr s"
    and r: "report s (book_iter b) = Inr r"
    and c: "final_count s = Some \<lparr>dc_counted = taka 26500, dc_counted_by = 900, dc_at = \<lparr>millis = 10\<rparr>\<rparr>"
    using sample_session_ok by (elim exE conjE) (rule that)
  from shift_report_exact [OF b r c] obtain v where "sr_variance r = Some v"
    "signed_variance v = 26500 - minor (sr_expected_cash r)"
    by (auto simp: taka_def)
  with b s r show ?thesis by (intro exI conjI)
qed

text \<open>A session's record only grows: replaying more events keeps who opened it, its float,
  every movement and every count in order, and a closed session, which has been counted, never
  changes again.\<close>

theorem shift_evidence_kept:
  assumes "shift_replay (es @ fs) = Inr s" and "es \<noteq> []"
  shows "\<exists>m. shift_replay es = Inr m \<and> shift_keeps m s \<and> (sh_status s = ShiftHasClosed \<longrightarrow> sh_counts s \<noteq> [])"
proof -
  obtain e es' where es: "es = e # es'" using assms(2) by (cases es) auto
  with assms(1) obtain s0 m where m: "shift_opened e = Inr s0" "try_fold shift_apply s0 es' = Inr m"
    "try_fold shift_apply m fs = Inr s"
    by (auto simp: shift_replay_def try_fold_append res_simps)
  then have "good_shift m" using shift_opened_good shift_log.run_good by blast
  with m(3) have "shift_keeps m s" by (intro shift_log.run_keeps)
  with m es shift_replay_good [OF assms(1)] show ?thesis
    by (auto simp: shift_replay_def good_shift_def)
qed

lemma shift_evidence_kept_witness:
  "\<exists>m s. shift_replay (take 3 sample_session) = Inr m \<and> shift_replay sample_session = Inr s
     \<and> shift_keeps m s \<and> sh_counts s \<noteq> []"
proof -
  obtain s where s: "shift_replay sample_session = Inr s" "sh_status s = ShiftHasClosed"
    using sample_session_ok by (elim exE conjE) (rule that)
  then have "shift_replay (take 3 sample_session @ drop 3 sample_session) = Inr s" by simp
  from shift_evidence_kept [OF this] s show ?thesis by (auto simp: sample_session_def)
qed

text \<open>Two sessions of a till, the second opened no earlier than the first closed, both claim a
  sale only when it settled in the very millisecond in which the first closed and the second
  opened; in that millisecond both do.\<close>

theorem sessions_overlap_iff:
  assumes "sh_closed_at s1 = Some closed" and "millis closed \<le> millis (sh_opened_at s2)"
    and "millis (sh_opened_at s1) \<le> millis closed" and "sh_closed_at s2 = None"
  shows "covers s1 at \<and> covers s2 at
    \<longleftrightarrow> millis at = millis closed \<and> millis at = millis (sh_opened_at s2)"
  using assms by (auto simp: covers_def)

lemma sessions_overlap_iff_witness:
  "\<exists>s1 s2. shift_replay sample_session = Inr s1
     \<and> shift_replay [ShiftOpened 80 900 Bdt (taka 0) \<lparr>millis = 11\<rparr>] = Inr s2
     \<and> covers s1 \<lparr>millis = 11\<rparr> \<and> covers s2 \<lparr>millis = 11\<rparr>"
proof -
  have "map_ok (\<lambda>s. (sh_closed_at s, sh_opened_at s)) (shift_replay sample_session)
      = Inr (Some \<lparr>millis = 11\<rparr>, \<lparr>millis = 1\<rparr>)"
    and "map_ok (\<lambda>s. (sh_closed_at s, sh_opened_at s))
        (shift_replay [ShiftOpened 80 900 Bdt (taka 0) \<lparr>millis = 11\<rparr>]) = Inr (None, \<lparr>millis = 11\<rparr>)"
    by code_simp+
  then obtain s1 s2 where s1: "shift_replay sample_session = Inr s1" "sh_closed_at s1 = Some \<lparr>millis = 11\<rparr>"
      "sh_opened_at s1 = \<lparr>millis = 1\<rparr>"
    and s2: "shift_replay [ShiftOpened 80 900 Bdt (taka 0) \<lparr>millis = 11\<rparr>] = Inr s2"
      "sh_closed_at s2 = None" "sh_opened_at s2 = \<lparr>millis = 11\<rparr>"
    by (auto simp: res_simps)
  from sessions_overlap_iff [OF s1(2) _ _ s2(2), of "\<lparr>millis = 11\<rparr>"] s1 s2 show ?thesis by auto
qed

end
