(* ===== verification/HashChain.thy ===== *)
theory HashChain
  imports Prelude
begin

text \<open>
  The two hash chains of \<open>sahl-core\<close> (the device event log and the fiscal invoice chain) rest
  on one contract, stated here as a locale.  A checker walks a list of sealed items from a tip,
  and an accepted item advances the counter by one, links to the digest of the tip, and leaves
  as the new tip the digest of its own contents, which include the link.  From that alone:
  two accepted runs that end in one tip are the same run, or they exhibit two different
  contents with one digest.  No assumption about the digest is needed to say so.
\<close>

locale hash_chain =
  fixes check :: "'d \<Rightarrow> 'tip \<Rightarrow> 'ev \<Rightarrow> 'err + 'tip"
    and seq :: "'tip \<Rightarrow> int"
    and head :: "'tip \<Rightarrow> 'h"
    and content :: "'ev \<Rightarrow> 'c"
    and prev :: "'c \<Rightarrow> 'h"
    and dig :: "'c \<Rightarrow> 'h option"
  assumes check_seq: "check d t e = Inr t' \<Longrightarrow> seq t' = seq t + 1"
    and check_prev: "check d t e = Inr t' \<Longrightarrow> prev (content e) = head t"
    and check_dig: "check d t e = Inr t' \<Longrightarrow> dig (content e) = Some (head t')"
    and check_fields: "check d t e = Inr u \<Longrightarrow> check d' t' e' = Inr u' \<Longrightarrow> head u = head u'
      \<Longrightarrow> content e = content e' \<Longrightarrow> e = e'"
begin

lemma run_seq: "try_fold (check d) t es = Inr t' \<Longrightarrow> seq t' = seq t + int (length es)"
proof (induction es arbitrary: t)
  case (Cons e es)
  then obtain u where "check d t e = Inr u" and r: "try_fold (check d) u es = Inr t'"
    by (auto simp: res_simps)
  with Cons.IH [OF r] check_seq show ?case by fastforce
qed simp

lemma run_last:
  "try_fold (check d) t (es @ [e]) = Inr t' \<longleftrightarrow> (\<exists>u. try_fold (check d) t es = Inr u \<and> check d u e = Inr t')"
  by (auto simp: try_fold_append res_simps)

lemma run_unique:
  assumes "try_fold (check d) t es = Inr u" and "try_fold (check d') t' es' = Inr u'"
    and "head u = head u'" and "length es = length es'"
    and "\<And>e e'. e \<in> set es \<Longrightarrow> e' \<in> set es' \<Longrightarrow> dig (content e) = dig (content e') \<Longrightarrow> content e = content e'"
  shows "es = es'"
  using assms
proof (induction es arbitrary: es' u u' rule: rev_induct)
  case (snoc e es)
  from snoc.prems(4) obtain fs f where fs: "es' = fs @ [f]" "length es = length fs"
    by (cases es' rule: rev_cases) auto
  from snoc.prems(1) obtain v where v: "try_fold (check d) t es = Inr v" "check d v e = Inr u"
    by (auto simp: run_last)
  from snoc.prems(2) obtain w where w: "try_fold (check d') t' fs = Inr w" "check d' w f = Inr u'"
    by (auto simp: run_last fs)
  have "dig (content e) = dig (content f)"
    using check_dig [OF v(2)] check_dig [OF w(2)] snoc.prems(3) by simp
  then have c: "content e = content f" using snoc.prems(5) by (simp add: fs)
  then have "head v = head w" using check_prev [OF v(2)] check_prev [OF w(2)] by simp
  then have "es = fs" by (rule snoc.IH [OF v(1) w(1)]) (use fs snoc.prems(5) in auto)
  moreover have "e = f" using check_fields [OF v(2) w(2) snoc.prems(3) c] .
  ultimately show ?case using fs by simp
qed simp

lemma run_unique_or_collision:
  assumes "try_fold (check d) t es = Inr u" and "try_fold (check d') t es' = Inr u'"
    and "seq u = seq u'" and "head u = head u'"
  shows "es = es' \<or> (\<exists>e \<in> set es. \<exists>e' \<in> set es'.
    content e \<noteq> content e' \<and> dig (content e) = dig (content e') \<and> dig (content e) \<noteq> None)"
proof (rule ccontr)
  assume neg: "\<not> ?thesis"
  have "length es = length es'"
    using run_seq [OF assms(1)] run_seq [OF assms(2)] assms(3) by simp
  moreover have some: "dig (content e) \<noteq> None" if "try_fold (check dd) t xs = Inr v" "e \<in> set xs" for dd xs v e
  proof -
    from that(2) obtain as bs where "xs = as @ e # bs" by (auto simp: in_set_conv_decomp)
    with that(1) show ?thesis by (auto simp: try_fold_append res_simps dest: check_dig)
  qed
  ultimately have "es = es'"
    using neg some [OF assms(1)] by (intro run_unique [OF assms(1,2,4)]) blast+
  with neg show False by simp
qed

end

end
