(* ===== verification/EventLog.thy ===== *)
theory EventLog
  imports HashChain Units
begin

text \<open>
  The sealed event log of a device (\<open>crates/sahl-core/src/event\<close>): canonical serialisation,
  the envelope an event is sealed in, and the chain with its verification.  The JSON writer,
  SHA-256, hexadecimal and the text of a UUID come from crates the repository only calls; they
  are the fields of \<open>codec\<close>, a parameter of every definition that uses them.
\<close>

section \<open>Canonical form\<close>

text \<open>A \<open>serde_json::Value\<close>; an object is a sorted map, here its entries in key order, and a
  float stands by its bits.\<close>

datatype json =
    JNull
  | JBool bool
  | JInt int
  | JFloat int
  | JString string
  | JArray "json list"
  | JObject "(string \<times> json) list"

type_synonym event_hash = "nat list"

record codec =
  cd_to_vec :: "json \<Rightarrow> string + nat list"
  cd_sha256 :: "nat list \<Rightarrow> event_hash"
  cd_hex :: "event_hash \<Rightarrow> string"
  cd_uuid :: "uuid \<Rightarrow> string"

datatype canon_reason = FloatFound int | SerdeFailed string

datatype event_error =
    NotCanonical canon_reason
  | MalformedHash string
  | HashMismatch uuid event_hash event_hash
  | BrokenLink uuid event_hash event_hash
  | SequenceBreak int int int
  | DeviceMismatch uuid uuid
  | NotGenesis int event_hash
  | TimeWentBackwards uuid int int

definition genesis :: event_hash where
  "genesis = replicate 32 0"

definition is_genesis :: "event_hash \<Rightarrow> bool" where
  "is_genesis h \<longleftrightarrow> h = genesis"

fun reject_floats :: "json \<Rightarrow> event_error + unit"
  and reject_items :: "json list \<Rightarrow> event_error + unit"
  and reject_entries :: "(string \<times> json) list \<Rightarrow> event_error + unit" where
  "reject_floats (JFloat x) = Inl (NotCanonical (FloatFound x))"
| "reject_floats (JArray items) = reject_items items"
| "reject_floats (JObject entries) = reject_entries entries"
| "reject_floats JNull = Inr ()"
| "reject_floats (JBool b) = Inr ()"
| "reject_floats (JInt i) = Inr ()"
| "reject_floats (JString s) = Inr ()"
| "reject_items [] = Inr ()"
| "reject_items (v # vs) = and_then (reject_floats v) (\<lambda>_. reject_items vs)"
| "reject_entries [] = Inr ()"
| "reject_entries ((k, v) # kvs) = and_then (reject_floats v) (\<lambda>_. reject_entries kvs)"

definition canonical_bytes :: "codec \<Rightarrow> json \<Rightarrow> event_error + nat list" where
  "canonical_bytes cd v =
     and_then (reject_floats v) (\<lambda>_. map_err (NotCanonical \<circ> SerdeFailed) (cd_to_vec cd v))"

section \<open>Envelopes\<close>

record event_header =
  eh_event_id :: uuid
  eh_tenant_id :: uuid
  eh_outlet_id :: uuid
  eh_device_id :: uuid
  eh_occurred_at :: timestamp

record event_envelope =
  en_event_id :: uuid
  en_tenant_id :: uuid
  en_outlet_id :: uuid
  en_device_id :: uuid
  en_device_seq :: int
  en_occurred_at :: timestamp
  en_kind :: string
  en_payload :: json
  en_prev_hash :: event_hash
  en_hash :: event_hash

record hash_input =
  hi_event_id :: uuid
  hi_tenant_id :: uuid
  hi_outlet_id :: uuid
  hi_device_id :: uuid
  hi_device_seq :: int
  hi_occurred_at :: timestamp
  hi_kind :: string
  hi_payload :: json
  hi_prev_hash :: event_hash

text \<open>What serialising the derived structure gives, with its keys in order.\<close>

definition hash_input_json :: "codec \<Rightarrow> hash_input \<Rightarrow> json" where
  "hash_input_json cd i = JObject
     [(''device_id'', JString (cd_uuid cd (hi_device_id i))),
      (''device_seq'', JInt (hi_device_seq i)),
      (''event_id'', JString (cd_uuid cd (hi_event_id i))),
      (''kind'', JString (hi_kind i)),
      (''occurred_at'', JInt (millis (hi_occurred_at i))),
      (''outlet_id'', JString (cd_uuid cd (hi_outlet_id i))),
      (''payload'', hi_payload i),
      (''prev_hash'', JString (cd_hex cd (hi_prev_hash i))),
      (''tenant_id'', JString (cd_uuid cd (hi_tenant_id i)))]"

definition hash_of_input :: "codec \<Rightarrow> hash_input \<Rightarrow> event_error + event_hash" where
  "hash_of_input cd i = map_ok (cd_sha256 cd) (canonical_bytes cd (hash_input_json cd i))"

definition compute_hash ::
    "codec \<Rightarrow> event_header \<Rightarrow> int \<Rightarrow> string \<Rightarrow> json \<Rightarrow> event_hash \<Rightarrow> event_error + event_hash" where
  "compute_hash cd h device_seq kind payload prev_hash = hash_of_input cd
     \<lparr>hi_event_id = eh_event_id h, hi_tenant_id = eh_tenant_id h, hi_outlet_id = eh_outlet_id h,
      hi_device_id = eh_device_id h, hi_device_seq = device_seq, hi_occurred_at = eh_occurred_at h,
      hi_kind = kind, hi_payload = payload, hi_prev_hash = prev_hash\<rparr>"

text \<open>\<open>payload\<close> is what \<open>serde_json::to_value\<close> makes of the event.\<close>

definition seal_event ::
    "codec \<Rightarrow> event_header \<Rightarrow> int \<Rightarrow> string \<Rightarrow> string + json \<Rightarrow> event_hash
      \<Rightarrow> event_error + event_envelope" where
  "seal_event cd h device_seq kind payload prev_hash =
     and_then (map_err (NotCanonical \<circ> SerdeFailed) payload) (\<lambda>payload_value.
     and_then (compute_hash cd h device_seq kind payload_value prev_hash) (\<lambda>hash.
     Inr \<lparr>en_event_id = eh_event_id h, en_tenant_id = eh_tenant_id h, en_outlet_id = eh_outlet_id h,
          en_device_id = eh_device_id h, en_device_seq = device_seq, en_occurred_at = eh_occurred_at h,
          en_kind = kind, en_payload = payload_value, en_prev_hash = prev_hash, en_hash = hash\<rparr>))"

definition recompute_hash :: "codec \<Rightarrow> event_envelope \<Rightarrow> event_error + event_hash" where
  "recompute_hash cd e =
     compute_hash cd
       \<lparr>eh_event_id = en_event_id e, eh_tenant_id = en_tenant_id e, eh_outlet_id = en_outlet_id e,
        eh_device_id = en_device_id e, eh_occurred_at = en_occurred_at e\<rparr>
       (en_device_seq e) (en_kind e) (en_payload e) (en_prev_hash e)"

definition verify_event :: "codec \<Rightarrow> event_envelope \<Rightarrow> event_error + unit" where
  "verify_event cd e =
     and_then (recompute_hash cd e) (\<lambda>computed.
     if computed = en_hash e then Inr ()
     else Inl (HashMismatch (en_event_id e) (en_hash e) computed))"

section \<open>The chain of a device\<close>

record chain_tip =
  ct_device_seq :: int
  ct_hash :: event_hash

definition tip_genesis :: chain_tip where
  "tip_genesis = \<lparr>ct_device_seq = 0, ct_hash = genesis\<rparr>"

record event_chain =
  ec_device_id :: uuid
  ec_tip :: chain_tip

definition chain_new :: "uuid \<Rightarrow> event_chain" where
  "chain_new device_id = \<lparr>ec_device_id = device_id, ec_tip = tip_genesis\<rparr>"

definition chain_resume :: "uuid \<Rightarrow> chain_tip \<Rightarrow> event_chain" where
  "chain_resume device_id tip = \<lparr>ec_device_id = device_id, ec_tip = tip\<rparr>"

definition append_event ::
    "codec \<Rightarrow> event_chain \<Rightarrow> event_header \<Rightarrow> string \<Rightarrow> string + json
      \<Rightarrow> event_error + event_chain \<times> event_envelope" where
  "append_event cd c h kind payload =
     (if eh_device_id h \<noteq> ec_device_id c
      then Inl (DeviceMismatch (ec_device_id c) (eh_device_id h))
      else
        let previous = ct_device_seq (ec_tip c) in
        and_then (ok_or (SequenceBreak previous previous previous) (fit in_u64 (previous + 1)))
          (\<lambda>device_seq.
        and_then (seal_event cd h device_seq kind payload (ct_hash (ec_tip c))) (\<lambda>e.
        Inr (c\<lparr>ec_tip := \<lparr>ct_device_seq = device_seq, ct_hash = en_hash e\<rparr>\<rparr>, e))))"

definition verify_step :: "codec \<Rightarrow> uuid \<Rightarrow> chain_tip \<Rightarrow> event_envelope \<Rightarrow> event_error + chain_tip" where
  "verify_step cd device_id tip e =
     (if en_device_id e \<noteq> device_id then Inl (DeviceMismatch device_id (en_device_id e))
      else
        and_then (ok_or (SequenceBreak (ct_device_seq tip) (ct_device_seq tip) (en_device_seq e))
                   (fit in_u64 (ct_device_seq tip + 1))) (\<lambda>expected_seq.
        if en_device_seq e \<noteq> expected_seq
        then Inl (SequenceBreak (ct_device_seq tip) expected_seq (en_device_seq e))
        else if en_prev_hash e \<noteq> ct_hash tip
        then Inl (BrokenLink (en_event_id e) (en_prev_hash e) (ct_hash tip))
        else
          and_then (verify_event cd e) (\<lambda>_.
          Inr \<lparr>ct_device_seq = en_device_seq e, ct_hash = en_hash e\<rparr>)))"

definition verify_chain :: "codec \<Rightarrow> event_envelope list \<Rightarrow> chain_tip \<Rightarrow> event_error + chain_tip" where
  "verify_chain cd events start =
     (case events of
        [] \<Rightarrow> Inr start
      | first # _ \<Rightarrow> try_fold (verify_step cd (en_device_id first)) start events)"

definition verify_chain_from_genesis :: "codec \<Rightarrow> event_envelope list \<Rightarrow> event_error + chain_tip" where
  "verify_chain_from_genesis cd events =
     (case events of
        first # _ \<Rightarrow>
          (if en_device_seq first \<noteq> 1 \<or> \<not> is_genesis (en_prev_hash first)
           then Inl (NotGenesis (en_device_seq first) (en_prev_hash first))
           else verify_chain cd events tip_genesis)
      | [] \<Rightarrow> verify_chain cd events tip_genesis)"

section \<open>What sealing and checking establish\<close>

definition input_of :: "event_envelope \<Rightarrow> hash_input" where
  "input_of e =
     \<lparr>hi_event_id = en_event_id e, hi_tenant_id = en_tenant_id e, hi_outlet_id = en_outlet_id e,
      hi_device_id = en_device_id e, hi_device_seq = en_device_seq e, hi_occurred_at = en_occurred_at e,
      hi_kind = en_kind e, hi_payload = en_payload e, hi_prev_hash = en_prev_hash e\<rparr>"

definition digest_of :: "codec \<Rightarrow> hash_input \<Rightarrow> event_hash option" where
  "digest_of cd i = (case hash_of_input cd i of Inl _ \<Rightarrow> None | Inr h \<Rightarrow> Some h)"

lemma recompute_hash_input: "recompute_hash cd e = hash_of_input cd (input_of e)"
  by (simp add: recompute_hash_def compute_hash_def input_of_def)

lemma verify_event_Inr: "verify_event cd e = Inr u \<longleftrightarrow> hash_of_input cd (input_of e) = Inr (en_hash e)"
  by (auto simp: verify_event_def recompute_hash_input res_simps)

lemma verify_step_Inr:
  "verify_step cd d tip e = Inr tip' \<longleftrightarrow>
     en_device_id e = d \<and> in_u64 (ct_device_seq tip + 1) \<and> en_device_seq e = ct_device_seq tip + 1
     \<and> en_prev_hash e = ct_hash tip \<and> hash_of_input cd (input_of e) = Inr (en_hash e)
     \<and> tip' = \<lparr>ct_device_seq = en_device_seq e, ct_hash = en_hash e\<rparr>"
  by (auto simp: verify_step_def res_simps verify_event_Inr)

lemma input_of_inject: "input_of e = input_of f \<Longrightarrow> en_hash e = en_hash f \<Longrightarrow> e = f"
  by (cases e; cases f) (simp add: input_of_def)

interpretation event_log: hash_chain "verify_step cd" ct_device_seq ct_hash input_of hi_prev_hash "digest_of cd"
  for cd
proof unfold_locales
  fix d d' t t' e e' u u'
  show "verify_step cd d t e = Inr t' \<Longrightarrow> ct_device_seq t' = ct_device_seq t + 1"
    by (simp add: verify_step_Inr)
  show "verify_step cd d t e = Inr t' \<Longrightarrow> hi_prev_hash (input_of e) = ct_hash t"
    by (simp add: verify_step_Inr input_of_def)
  show "verify_step cd d t e = Inr t' \<Longrightarrow> digest_of cd (input_of e) = Some (ct_hash t')"
    by (simp add: verify_step_Inr digest_of_def)
  show "verify_step cd d t e = Inr u \<Longrightarrow> verify_step cd d' t' e' = Inr u' \<Longrightarrow> ct_hash u = ct_hash u'
      \<Longrightarrow> input_of e = input_of e' \<Longrightarrow> e = e'"
    by (auto simp: verify_step_Inr intro: input_of_inject)
qed

lemma verify_run_device:
  "try_fold (verify_step cd d) t es = Inr tip \<Longrightarrow> e \<in> set es \<Longrightarrow> en_device_id e = d"
proof (induction es arbitrary: t)
  case (Cons x xs)
  from Cons.prems(1) obtain u where "verify_step cd d t x = Inr u" "try_fold (verify_step cd d) u xs = Inr tip"
    by (auto simp: res_simps)
  with Cons.IH Cons.prems(2) show ?case by (auto simp: verify_step_Inr)
qed simp

lemma verify_chain_run:
  "verify_chain cd es start = Inr tip \<longleftrightarrow> (\<exists>d. try_fold (verify_step cd d) start es = Inr tip)"
proof (cases es)
  case (Cons e es')
  have "en_device_id e = d" if "try_fold (verify_step cd d) start es = Inr tip" for d
    using verify_run_device [OF that] Cons by simp
  then show ?thesis by (auto simp: verify_chain_def Cons simp del: try_fold.simps)
qed (simp add: verify_chain_def)

lemma append_event_Inr:
  "append_event cd c h kind payload = Inr (c', e) \<Longrightarrow>
     verify_step cd (ec_device_id c) (ec_tip c) e = Inr (ec_tip c') \<and> ec_device_id c' = ec_device_id c"
  by (auto simp: append_event_def Let_def res_simps seal_event_def compute_hash_def verify_step_Inr
      input_of_def split: if_splits)

text \<open>A device writing one event after another.\<close>

fun append_all ::
    "codec \<Rightarrow> event_chain \<Rightarrow> (event_header \<times> string \<times> (string + json)) list
      \<Rightarrow> event_error + event_chain \<times> event_envelope list" where
  "append_all cd c [] = Inr (c, [])"
| "append_all cd c ((h, kind, payload) # rest) =
     and_then (append_event cd c h kind payload) (\<lambda>(c', e).
     and_then (append_all cd c' rest) (\<lambda>(c'', es). Inr (c'', e # es)))"

lemma append_all_run:
  "append_all cd c items = Inr (c', es) \<Longrightarrow>
     try_fold (verify_step cd (ec_device_id c)) (ec_tip c) es = Inr (ec_tip c')
     \<and> ec_device_id c' = ec_device_id c \<and> length es = length items"
proof (induction items arbitrary: c es)
  case (Cons item items)
  obtain h kind payload where item: "item = (h, kind, payload)" by (cases item)
  from Cons.prems obtain m e fs where m: "append_event cd c h kind payload = Inr (m, e)"
    and fs: "append_all cd m items = Inr (c', fs)" "es = e # fs"
    by (auto simp: item res_simps)
  from append_event_Inr [OF m] Cons.IH [OF fs(1)] fs(2) item show ?case by simp
qed simp

section \<open>Properties\<close>

text \<open>A codec for the examples: the writer flattens a value into numbers, the digest is the
  bytes themselves.\<close>

fun flat :: "json \<Rightarrow> nat list" and flat_items :: "json list \<Rightarrow> nat list"
  and flat_entries :: "(string \<times> json) list \<Rightarrow> nat list" where
  "flat JNull = [0]"
| "flat (JBool b) = [if b then 1 else 2]"
| "flat (JInt i) = [3, nat i]"
| "flat (JFloat x) = [4]"
| "flat (JString s) = 5 # map of_char s"
| "flat (JArray vs) = 6 # flat_items vs"
| "flat (JObject kvs) = 7 # flat_entries kvs"
| "flat_items [] = [8]"
| "flat_items (v # vs) = flat v @ flat_items vs"
| "flat_entries [] = [9]"
| "flat_entries ((k, v) # kvs) = flat v @ flat_entries kvs"

definition sample_codec :: codec where
  "sample_codec = \<lparr>cd_to_vec = (\<lambda>v. Inr (flat v)), cd_sha256 = (\<lambda>b. take 5 (rev b)),
     cd_hex = map char_of, cd_uuid = (\<lambda>u. [char_of u])\<rparr>"

definition sample_header :: "uuid \<Rightarrow> event_header" where
  "sample_header n = \<lparr>eh_event_id = n, eh_tenant_id = 1, eh_outlet_id = 2, eh_device_id = 3,
     eh_occurred_at = \<lparr>millis = int n\<rparr>\<rparr>"

definition sample_log :: "event_error + event_chain \<times> event_envelope list" where
  "sample_log = append_all sample_codec (chain_new 3)
     (map (\<lambda>n. (sample_header n, ''test.tick'', Inr (JObject [(''n'', JInt (int n))]))) [10, 11, 12])"

lemma sample_log_ok:
  "\<exists>c e1 e2 e3. sample_log = Inr (c, [e1, e2, e3]) \<and> ct_device_seq (ec_tip c) = 3"
proof -
  have "map_ok (\<lambda>(c, es). (length es, ct_device_seq (ec_tip c))) sample_log = Inr (3, 3)" by code_simp
  then obtain c es where s: "sample_log = Inr (c, es)" "length es = 3" "ct_device_seq (ec_tip c) = 3"
    by (auto simp: res_simps)
  from s(2) obtain e1 e2 e3 where "es = [e1, e2, e3]"
    by (auto simp: numeral_3_eq_3 length_Suc_conv)
  with s show ?thesis by blast
qed

text \<open>Whatever a device seals onto its chain verifies: a run of appends from any tip yields
  one envelope per event, and checking those envelopes from that tip succeeds and ends at the
  chain's own tip, its sequence advanced by the number of events.\<close>

theorem appended_events_verify:
  assumes "append_all cd c items = Inr (c', es)"
  shows "verify_chain cd es (ec_tip c) = Inr (ec_tip c') \<and> length es = length items
    \<and> ct_device_seq (ec_tip c') = ct_device_seq (ec_tip c) + int (length items)"
proof -
  note run = append_all_run [OF assms]
  then have "verify_chain cd es (ec_tip c) = Inr (ec_tip c')" by (auto simp: verify_chain_run)
  with run event_log.run_seq show ?thesis by fastforce
qed

lemma appended_events_verify_witness:
  "\<exists>c es. sample_log = Inr (c, es) \<and> verify_chain sample_codec es tip_genesis = Inr (ec_tip c)
     \<and> ct_device_seq (ec_tip c) = 3"
proof -
  obtain c es where s: "sample_log = Inr (c, es)" using sample_log_ok by blast
  from appended_events_verify [OF s [unfolded sample_log_def]] s show ?thesis
    by (auto simp: chain_new_def tip_genesis_def)
qed

text \<open>C13: two logs that verify from one tip to one tip are the same log, event for event and
  field for field, unless they contain two events with different contents and one digest.\<close>

theorem verified_log_unique:
  assumes "verify_chain cd es start = Inr tip" and "verify_chain cd es' start = Inr tip"
  shows "es = es' \<or> (\<exists>e \<in> set es. \<exists>e' \<in> set es'. input_of e \<noteq> input_of e'
    \<and> (\<exists>h. hash_of_input cd (input_of e) = Inr h \<and> hash_of_input cd (input_of e') = Inr h))"
proof -
  obtain d d' where "try_fold (verify_step cd d) start es = Inr tip"
    "try_fold (verify_step cd d') start es' = Inr tip"
    using assms by (auto simp: verify_chain_run)
  from event_log.run_unique_or_collision [OF this refl refl] show ?thesis
    by (fastforce simp: digest_of_def split: sum.splits)
qed

lemma verified_log_unique_witness:
  "\<exists>c es. sample_log = Inr (c, es) \<and> (\<forall>es'. verify_chain sample_codec es' tip_genesis = Inr (ec_tip c)
     \<longrightarrow> es = es' \<or> (\<exists>e \<in> set es. \<exists>e' \<in> set es'. input_of e \<noteq> input_of e'
       \<and> (\<exists>h. hash_of_input sample_codec (input_of e) = Inr h \<and> hash_of_input sample_codec (input_of e') = Inr h)))"
proof -
  obtain c es where s: "sample_log = Inr (c, es)" using sample_log_ok by blast
  then have "verify_chain sample_codec es tip_genesis = Inr (ec_tip c)"
    using append_all_run [OF s [unfolded sample_log_def]]
    by (auto simp: verify_chain_run chain_new_def)
  with verified_log_unique s show ?thesis by blast
qed

text \<open>An event taken out of a log, anywhere but at its end, is always noticed, whatever the
  digest function: the shortened log is refused.\<close>

theorem removed_event_detected:
  assumes "verify_chain cd (es @ e # f # fs) start = Inr tip"
  shows "\<exists>err. verify_chain cd (es @ f # fs) start = Inl err"
proof (cases "verify_chain cd (es @ f # fs) start")
  case (Inr tip')
  have seq: "en_device_seq y = ct_device_seq start + int (length xs) + 1"
    if run: "verify_chain cd (xs @ y # ys) start = Inr t" for xs y ys t
  proof -
    obtain d u v where "try_fold (verify_step cd d) start xs = Inr u" "verify_step cd d u y = Inr v"
      using run by (auto simp: verify_chain_run try_fold_append res_simps)
    then show ?thesis using event_log.run_seq by (fastforce simp: verify_step_Inr)
  qed
  have "en_device_seq f = ct_device_seq start + int (length (es @ [e])) + 1"
    by (rule seq [of "es @ [e]"]) (use assms in simp)
  moreover have "en_device_seq f = ct_device_seq start + int (length es) + 1"
    using seq [OF Inr] .
  ultimately show ?thesis by simp
qed auto

lemma removed_event_detected_witness:
  "\<exists>c e1 e2 e3 err. sample_log = Inr (c, [e1, e2, e3])
     \<and> verify_chain sample_codec [e1, e3] tip_genesis = Inl err"
proof -
  obtain c e1 e2 e3 where s: "sample_log = Inr (c, [e1, e2, e3])" using sample_log_ok by blast
  then have "verify_chain sample_codec ([e1] @ e2 # e3 # []) tip_genesis = Inr (ec_tip c)"
    using append_all_run [OF s [unfolded sample_log_def]]
    by (auto simp: verify_chain_run chain_new_def)
  from removed_event_detected [OF this] s show ?thesis by fastforce
qed

end
