(* ===== verification/Fiscal.thy ===== *)
theory Fiscal
  imports EventLog Tax
begin

text \<open>
  The fiscal sequence of a device (\<open>crates/sahl-core/src/ledger\<close>): the invoice counter, the
  chain that seals each invoice to its predecessor, and its verification.  \<open>fiscal_seal\<close> takes
  the chain by mutable reference in the code, so it returns the chain as the call leaves it.
  The content of an invoice is its JSON value.
\<close>

datatype fiscal_error =
    FiscalMoney money_error
  | FiscalCanonical event_error
  | CounterExhausted
  | FiscalSequenceBreak int int
  | ChainBroken int
  | Tampered int

record invoice_counter =
  ic_device_id :: uuid
  ic_issued :: int

definition counter_new :: "uuid \<Rightarrow> invoice_counter" where
  "counter_new device_id = \<lparr>ic_device_id = device_id, ic_issued = 0\<rparr>"

definition counter_resume :: "uuid \<Rightarrow> int \<Rightarrow> invoice_counter" where
  "counter_resume device_id issued = \<lparr>ic_device_id = device_id, ic_issued = issued\<rparr>"

definition counter_next :: "invoice_counter \<Rightarrow> fiscal_error + invoice_counter \<times> int" where
  "counter_next c =
     and_then (ok_or CounterExhausted (fit in_u64 (ic_issued c + 1))) (\<lambda>n.
     Inr (c\<lparr>ic_issued := n\<rparr>, n))"

record fiscal_tip =
  ft_counter :: int
  ft_hash :: event_hash

definition fiscal_genesis :: fiscal_tip where
  "fiscal_genesis = \<lparr>ft_counter = 0, ft_hash = genesis\<rparr>"

record invoice_seal =
  is_device_id :: uuid
  is_counter :: int
  is_sale_id :: uuid
  is_issued_at :: timestamp
  is_previous_hash :: event_hash
  is_hash :: event_hash

record fiscal_chain =
  fc_counter :: invoice_counter
  fc_tip :: event_hash

definition fiscal_new :: "uuid \<Rightarrow> fiscal_chain" where
  "fiscal_new device_id = \<lparr>fc_counter = counter_new device_id, fc_tip = genesis\<rparr>"

definition fiscal_resume :: "uuid \<Rightarrow> fiscal_tip \<Rightarrow> fiscal_chain" where
  "fiscal_resume device_id tip =
     \<lparr>fc_counter = counter_resume device_id (ft_counter tip), fc_tip = ft_hash tip\<rparr>"

definition fiscal_tip_of :: "fiscal_chain \<Rightarrow> fiscal_tip" where
  "fiscal_tip_of c = \<lparr>ft_counter = ic_issued (fc_counter c), ft_hash = fc_tip c\<rparr>"

record sealed_input =
  si_device_id :: uuid
  si_counter :: int
  si_sale_id :: uuid
  si_issued_at :: timestamp
  si_previous_hash :: event_hash
  si_content :: json

definition sealed_json :: "codec \<Rightarrow> sealed_input \<Rightarrow> json" where
  "sealed_json cd i = JObject
     [(''content'', si_content i),
      (''counter'', JInt (si_counter i)),
      (''device_id'', JString (cd_uuid cd (si_device_id i))),
      (''issued_at'', JInt (millis (si_issued_at i))),
      (''previous_hash'', JString (cd_hex cd (si_previous_hash i))),
      (''sale_id'', JString (cd_uuid cd (si_sale_id i)))]"

definition digest_sealed :: "codec \<Rightarrow> sealed_input \<Rightarrow> fiscal_error + event_hash" where
  "digest_sealed cd i =
     map_err FiscalCanonical (map_ok (cd_sha256 cd) (canonical_bytes cd (sealed_json cd i)))"

definition digest ::
    "codec \<Rightarrow> uuid \<Rightarrow> int \<Rightarrow> uuid \<Rightarrow> timestamp \<Rightarrow> event_hash \<Rightarrow> json \<Rightarrow> fiscal_error + event_hash" where
  "digest cd device_id counter sale_id issued_at previous_hash content = digest_sealed cd
     \<lparr>si_device_id = device_id, si_counter = counter, si_sale_id = sale_id, si_issued_at = issued_at,
      si_previous_hash = previous_hash, si_content = content\<rparr>"

definition fiscal_seal ::
    "codec \<Rightarrow> fiscal_chain \<Rightarrow> uuid \<Rightarrow> timestamp \<Rightarrow> json
      \<Rightarrow> fiscal_chain \<times> (fiscal_error + invoice_seal)" where
  "fiscal_seal cd c sale_id issued_at content =
     (case counter_next (fc_counter c) of
        Inl e \<Rightarrow> (c, Inl e)
      | Inr (counted, counter) \<Rightarrow>
          let c = c\<lparr>fc_counter := counted\<rparr>; device_id = ic_device_id counted in
          (case digest cd device_id counter sale_id issued_at (fc_tip c) content of
             Inl e \<Rightarrow> (c, Inl e)
           | Inr hash \<Rightarrow>
               (c\<lparr>fc_tip := hash\<rparr>,
                Inr \<lparr>is_device_id = device_id, is_counter = counter, is_sale_id = sale_id,
                     is_issued_at = issued_at, is_previous_hash = fc_tip c, is_hash = hash\<rparr>)))"

definition verify_seal ::
    "codec \<Rightarrow> fiscal_tip \<Rightarrow> invoice_seal \<times> json \<Rightarrow> fiscal_error + fiscal_tip" where
  "verify_seal cd tip item =
     (let (s, content) = item in
      and_then (ok_or CounterExhausted (fit in_u64 (ft_counter tip + 1))) (\<lambda>expected_counter.
      if is_counter s \<noteq> expected_counter then Inl (FiscalSequenceBreak expected_counter (is_counter s))
      else if is_previous_hash s \<noteq> ft_hash tip then Inl (ChainBroken (is_counter s))
      else
        and_then (digest cd (is_device_id s) (is_counter s) (is_sale_id s) (is_issued_at s)
                    (is_previous_hash s) content) (\<lambda>recomputed.
        if recomputed \<noteq> is_hash s then Inl (Tampered (is_counter s))
        else Inr \<lparr>ft_counter = expected_counter, ft_hash = is_hash s\<rparr>)))"

definition verify_invoice_chain ::
    "codec \<Rightarrow> (invoice_seal \<times> json) list \<Rightarrow> fiscal_tip \<Rightarrow> fiscal_error + fiscal_tip" where
  "verify_invoice_chain cd seals start = try_fold (verify_seal cd) start seals"

section \<open>Events\<close>

record invoice_content =
  iv_totals :: order_totals
  iv_regime :: string

datatype fiscal_event = InvoiceIssued invoice_seal invoice_content timestamp uuid

fun fiscal_event_sale_id :: "fiscal_event \<Rightarrow> uuid" where
  "fiscal_event_sale_id (InvoiceIssued s _ _ _) = is_sale_id s"

fun fiscal_event_at :: "fiscal_event \<Rightarrow> timestamp" where
  "fiscal_event_at (InvoiceIssued _ _ at _) = at"

fun fiscal_event_kind :: "fiscal_event \<Rightarrow> string" where
  "fiscal_event_kind (InvoiceIssued _ _ _ _) = ''fiscal.invoice_issued''"

section \<open>What sealing and checking establish\<close>

definition sealed_of :: "invoice_seal \<times> json \<Rightarrow> sealed_input" where
  "sealed_of item =
     (let (s, content) = item in
      \<lparr>si_device_id = is_device_id s, si_counter = is_counter s, si_sale_id = is_sale_id s,
       si_issued_at = is_issued_at s, si_previous_hash = is_previous_hash s, si_content = content\<rparr>)"

definition sealed_digest :: "codec \<Rightarrow> sealed_input \<Rightarrow> event_hash option" where
  "sealed_digest cd i = (case digest_sealed cd i of Inl _ \<Rightarrow> None | Inr h \<Rightarrow> Some h)"

lemma verify_seal_Inr:
  "verify_seal cd tip (s, content) = Inr tip' \<longleftrightarrow>
     in_u64 (ft_counter tip + 1) \<and> is_counter s = ft_counter tip + 1 \<and> is_previous_hash s = ft_hash tip
     \<and> digest_sealed cd (sealed_of (s, content)) = Inr (is_hash s)
     \<and> tip' = \<lparr>ft_counter = is_counter s, ft_hash = is_hash s\<rparr>"
  by (auto simp: verify_seal_def res_simps sealed_of_def digest_def)

lemma sealed_of_inject:
  "sealed_of (s, x) = sealed_of (t, y) \<Longrightarrow> is_hash s = is_hash t \<Longrightarrow> s = t \<and> x = y"
  by (cases s; cases t) (simp add: sealed_of_def)

interpretation invoice_log:
  hash_chain "\<lambda>_::unit. verify_seal cd" ft_counter ft_hash sealed_of si_previous_hash "sealed_digest cd"
  for cd
proof unfold_locales
  fix t t' u u' e e'
  show "verify_seal cd t e = Inr t' \<Longrightarrow> ft_counter t' = ft_counter t + 1"
    by (cases e) (simp add: verify_seal_Inr)
  show "verify_seal cd t e = Inr t' \<Longrightarrow> si_previous_hash (sealed_of e) = ft_hash t"
    by (cases e) (simp add: verify_seal_Inr, simp add: sealed_of_def)
  show "verify_seal cd t e = Inr t' \<Longrightarrow> sealed_digest cd (sealed_of e) = Some (ft_hash t')"
    by (cases e) (simp add: verify_seal_Inr sealed_digest_def)
  show "verify_seal cd t e = Inr u \<Longrightarrow> verify_seal cd t' e' = Inr u' \<Longrightarrow> ft_hash u = ft_hash u'
      \<Longrightarrow> sealed_of e = sealed_of e' \<Longrightarrow> e = e'"
    by (cases e; cases e') (auto simp: verify_seal_Inr dest: sealed_of_inject)
qed

lemma fiscal_seal_ok:
  "fiscal_seal cd c sale at content = (c', Inr s) \<Longrightarrow>
     verify_seal cd (fiscal_tip_of c) (s, content) = Inr (fiscal_tip_of c')"
  by (auto simp: fiscal_seal_def counter_next_def verify_seal_Inr fiscal_tip_of_def sealed_of_def digest_def
      Let_def res_simps split: sum.splits)

text \<open>A device issuing one invoice after another, keeping its chain whatever the outcome.\<close>

fun issue_all ::
    "codec \<Rightarrow> fiscal_chain \<Rightarrow> (uuid \<times> timestamp \<times> json) list
      \<Rightarrow> fiscal_chain \<times> (invoice_seal \<times> json) list" where
  "issue_all cd c [] = (c, [])"
| "issue_all cd c ((sale, at, content) # rest) =
     (let (c', r) = fiscal_seal cd c sale at content; (c'', issued) = issue_all cd c' rest in
      case r of Inl _ \<Rightarrow> (c'', issued) | Inr s \<Rightarrow> (c'', (s, content) # issued))"

lemma fiscal_seal_refused:
  "fiscal_seal cd c sale at content = (c', Inl (FiscalCanonical e)) \<Longrightarrow>
     ft_counter (fiscal_tip_of c') = ft_counter (fiscal_tip_of c) + 1
     \<and> ft_hash (fiscal_tip_of c') = ft_hash (fiscal_tip_of c)"
  by (auto simp: fiscal_seal_def counter_next_def fiscal_tip_of_def Let_def res_simps and_then_Inl_iff split: sum.splits)

lemma issue_all_length: "length (snd (issue_all cd c items)) \<le> length items"
proof (induction cd c items rule: issue_all.induct)
  case (2 cd c sale at content rest)
  obtain c' r where "fiscal_seal cd c sale at content = (c', r)" by fastforce
  with 2 show ?case by (auto simp: Let_def le_SucI split: prod.splits sum.splits)
qed simp

lemma issue_all_run:
  "issue_all cd c items = (c', issued) \<Longrightarrow> length issued = length items \<Longrightarrow>
     try_fold (verify_seal cd) (fiscal_tip_of c) issued = Inr (fiscal_tip_of c') \<and> map snd issued = map (snd \<circ> snd) items"
proof (induction items arbitrary: c issued)
  case Nil
  then show ?case by simp
next
  case (Cons item items)
  obtain sale at content where item: "item = (sale, at, content)" by (cases item)
  obtain m r where m: "fiscal_seal cd c sale at content = (m, r)" by fastforce
  obtain k more where more: "issue_all cd m items = (k, more)" by fastforce
  have "length more \<le> length items" using issue_all_length [of cd m items] more by simp
  with Cons.prems m more obtain s where r: "r = Inr s" and issued: "issued = (s, content) # more" "c' = k"
    by (auto simp: item split: sum.splits)
  with Cons.IH [of m more] more Cons.prems(2) fiscal_seal_ok [OF m [unfolded r]] show ?case
    by (simp add: item)
qed

section \<open>Properties\<close>

definition sample_invoices :: "(uuid \<times> timestamp \<times> json) list" where
  "sample_invoices = map (\<lambda>n. (n, \<lparr>millis = int n\<rparr>, JInt (int n * 100))) [4, 5, 6]"

lemma sample_invoices_ok:
  "\<exists>c issued. issue_all sample_codec (fiscal_new 3) sample_invoices = (c, issued) \<and> length issued = 3"
proof -
  have "length (snd (issue_all sample_codec (fiscal_new 3) sample_invoices)) = 3" by code_simp
  then show ?thesis by (metis prod.collapse)
qed

text \<open>C14: when no invoice is refused, the seals a device issues verify against the invoices they
  were made for, from the chain's old tip to its new one, with one counter value for each.\<close>

theorem issued_invoices_verify:
  assumes "issue_all cd c items = (c', issued)" and "length issued = length items"
  shows "verify_invoice_chain cd issued (fiscal_tip_of c) = Inr (fiscal_tip_of c')
    \<and> map snd issued = map (snd \<circ> snd) items
    \<and> ft_counter (fiscal_tip_of c') = ft_counter (fiscal_tip_of c) + int (length items)"
  using issue_all_run [OF assms] invoice_log.run_seq assms(2)
  by (fastforce simp: verify_invoice_chain_def)

lemma issued_invoices_verify_witness:
  "\<exists>c issued. issue_all sample_codec (fiscal_new 3) sample_invoices = (c, issued)
     \<and> verify_invoice_chain sample_codec issued fiscal_genesis = Inr (fiscal_tip_of c)"
proof -
  obtain c issued where s: "issue_all sample_codec (fiscal_new 3) sample_invoices = (c, issued)"
    "length issued = 3"
    using sample_invoices_ok by blast
  then have "length issued = length sample_invoices" by (simp add: sample_invoices_def)
  from issued_invoices_verify [OF s(1) this] s(1) show ?thesis
    by (auto simp: fiscal_new_def fiscal_tip_of_def fiscal_genesis_def counter_new_def)
qed

text \<open>Two runs of sealed invoices that verify from one tip to one tip are the same seals over
  the same contents, unless two different invoices in them have one digest.\<close>

theorem verified_invoices_unique:
  assumes "verify_invoice_chain cd xs start = Inr tip" and "verify_invoice_chain cd ys start = Inr tip"
  shows "xs = ys \<or> (\<exists>x \<in> set xs. \<exists>y \<in> set ys. sealed_of x \<noteq> sealed_of y
    \<and> (\<exists>h. digest_sealed cd (sealed_of x) = Inr h \<and> digest_sealed cd (sealed_of y) = Inr h))"
  using invoice_log.run_unique_or_collision [OF assms [unfolded verify_invoice_chain_def] refl refl]
  by (fastforce simp: sealed_digest_def split: sum.splits)

lemma verified_invoices_unique_witness:
  "\<exists>tip xs. verify_invoice_chain sample_codec xs fiscal_genesis = Inr tip \<and> length xs = 3
     \<and> (\<forall>ys. verify_invoice_chain sample_codec ys fiscal_genesis = Inr tip \<longrightarrow> xs = ys
       \<or> (\<exists>x \<in> set xs. \<exists>y \<in> set ys. sealed_of x \<noteq> sealed_of y
         \<and> (\<exists>h. digest_sealed sample_codec (sealed_of x) = Inr h \<and> digest_sealed sample_codec (sealed_of y) = Inr h)))"
proof -
  obtain c issued where s: "issue_all sample_codec (fiscal_new 3) sample_invoices = (c, issued)"
    "length issued = 3"
    using sample_invoices_ok by blast
  then have "length issued = length sample_invoices" by (simp add: sample_invoices_def)
  with issue_all_run [OF s(1)] have "verify_invoice_chain sample_codec issued fiscal_genesis = Inr (fiscal_tip_of c)"
    by (auto simp: verify_invoice_chain_def fiscal_new_def fiscal_tip_of_def fiscal_genesis_def counter_new_def)
  with verified_invoices_unique s(2) show ?thesis by blast
qed

text \<open>An invoice whose content cannot be canonicalised is refused after the counter has moved
  on, so its number is never issued and the next invoice sealed on that chain does not verify
  against the last one.\<close>

theorem refused_invoice_burns_number:
  assumes "fiscal_seal cd c sale at bad = (c', Inl (FiscalCanonical e))"
    and "fiscal_seal cd c' sale' at' content = (c'', Inr s)"
  shows "verify_invoice_chain cd [(s, content)] (fiscal_tip_of c)
    = Inl (FiscalSequenceBreak (ft_counter (fiscal_tip_of c) + 1) (ft_counter (fiscal_tip_of c) + 2))"
proof -
  note burnt = fiscal_seal_refused [OF assms(1)]
  from fiscal_seal_ok [OF assms(2)] have "is_counter s = ft_counter (fiscal_tip_of c') + 1"
    by (simp add: verify_seal_Inr)
  with burnt have s: "is_counter s = ft_counter (fiscal_tip_of c) + 2" by simp
  have "in_u64 (ft_counter (fiscal_tip_of c) + 1)"
    using assms(1) by (auto simp: fiscal_seal_def counter_next_def fiscal_tip_of_def and_then_Inl_iff
        res_simps split: sum.splits)
  with s show ?thesis by (simp add: verify_invoice_chain_def verify_seal_def fit_def)
qed

lemma refused_invoice_burns_number_witness:
  "\<exists>s. verify_invoice_chain sample_codec [(s, JInt 7)] fiscal_genesis = Inl (FiscalSequenceBreak 1 2)"
proof -
  let ?c = "fiscal_new 3" and ?at = "\<lparr>millis = 1\<rparr>"
  let ?first = "fiscal_seal sample_codec ?c 4 ?at (JFloat 1)"
  let ?second = "fiscal_seal sample_codec (fst ?first) 5 ?at (JInt 7)"
  have "snd ?first = Inl (FiscalCanonical (NotCanonical (FloatFound 1)))" by code_simp
  then have f: "?first = (fst ?first, Inl (FiscalCanonical (NotCanonical (FloatFound 1))))"
    by (metis prod.collapse)
  have "is_ok (snd ?second)" by code_simp
  then obtain s where g: "?second = (fst ?second, Inr s)" by (metis is_ok_iff prod.collapse)
  from refused_invoice_burns_number [OF f g] show ?thesis
    by (intro exI [of _ s]) (simp add: fiscal_new_def fiscal_tip_of_def fiscal_genesis_def counter_new_def)
qed

end
