(* ===== verification/Inventory.thy ===== *)
theory Inventory
  imports Units Money BTree Projection "HOL-Library.Sublist"
begin

text \<open>
  Stock by batch (\<open>crates/sahl-core/src/inventory\<close>): what a batch is and when it expires,
  picking first-expired-first-out, and the book of levels replayed from stock movements.
\<close>

section \<open>Batches\<close>

record batch =
  ba_id :: uuid
  ba_product_id :: uuid
  ba_lot :: "string option"
  ba_expires_at :: "timestamp option"
  ba_received_at :: timestamp

definition is_expired :: "batch \<Rightarrow> timestamp \<Rightarrow> bool" where
  "is_expired b now = (case ba_expires_at b of None \<Rightarrow> False | Some expiry \<Rightarrow> millis expiry \<le> millis now)"

definition expires_within :: "batch \<Rightarrow> timestamp \<Rightarrow> int \<Rightarrow> bool" where
  "expires_within b now window_millis =
     (case ba_expires_at b of
        None \<Rightarrow> False
      | Some expiry \<Rightarrow>
          let remaining = saturate (millis expiry - millis now)
          in 0 < remaining \<and> remaining \<le> window_millis)"

definition fefo_key :: "batch \<Rightarrow> int \<times> int \<times> uuid" where
  "fefo_key b =
     (case ba_expires_at b of None \<Rightarrow> 2 ^ 63 - 1 | Some t \<Rightarrow> millis t, millis (ba_received_at b), ba_id b)"

section \<open>Levels and picking\<close>

record batch_level =
  bl_batch :: batch
  bl_on_hand :: quantity

record batch_pick =
  bp_batch_id :: uuid
  bp_taken :: quantity

record pick =
  pk_allocations :: "batch_pick list"
  pk_shortfall :: quantity

definition pick_is_complete :: "pick \<Rightarrow> bool" where
  "pick_is_complete p = quantity_is_zero (pk_shortfall p)"

definition pick_taken :: "pick \<Rightarrow> money_error + quantity" where
  "pick_taken p = try_fold (\<lambda>t a. quantity_checked_add t (bp_taken a)) quantity_zero (pk_allocations p)"

fun fill :: "int \<Rightarrow> batch_level list \<Rightarrow> batch_pick list \<times> int" where
  "fill remaining [] = ([], remaining)"
| "fill remaining (level # levels) =
     (if remaining \<le> 0 then ([], remaining)
      else
        let take_now = min remaining (milli (bl_on_hand level));
            (more, remaining') = fill (saturate (remaining - take_now)) levels
        in (\<lparr>bp_batch_id = ba_id (bl_batch level), bp_taken = from_milli take_now\<rparr> # more, remaining'))"

definition usable :: "timestamp \<Rightarrow> batch_level \<Rightarrow> bool" where
  "usable now level \<longleftrightarrow> \<not> is_expired (bl_batch level) now \<and> 0 < milli (bl_on_hand level)"

definition pick_fefo :: "batch_level list \<Rightarrow> quantity \<Rightarrow> timestamp \<Rightarrow> money_error + pick" where
  "pick_fefo levels wanted now =
     (if \<not> 0 < milli wanted then Inr \<lparr>pk_allocations = [], pk_shortfall = quantity_zero\<rparr>
      else
        let (allocations, remaining) =
              fill (milli wanted) (sort_key (fefo_key \<circ> bl_batch) (filter (usable now) levels))
        in Inr \<lparr>pk_allocations = allocations, pk_shortfall = from_milli (max remaining 0)\<rparr>)"

definition total_on_hand :: "batch_level list \<Rightarrow> money_error + quantity" where
  "total_on_hand levels = try_fold (\<lambda>t l. quantity_checked_add t (bl_on_hand l)) quantity_zero levels"

definition sellable_on_hand :: "batch_level list \<Rightarrow> timestamp \<Rightarrow> money_error + quantity" where
  "sellable_on_hand levels now =
     try_fold (\<lambda>t l. quantity_checked_add t (bl_on_hand l)) quantity_zero
       (filter (\<lambda>l. \<not> is_expired (bl_batch l) now) levels)"

definition expired_levels :: "batch_level list \<Rightarrow> timestamp \<Rightarrow> batch_level list" where
  "expired_levels levels now =
     sort_key (fefo_key \<circ> bl_batch)
       (filter (\<lambda>l. is_expired (bl_batch l) now \<and> 0 < milli (bl_on_hand l)) levels)"

definition expiring_soon :: "batch_level list \<Rightarrow> timestamp \<Rightarrow> int \<Rightarrow> batch_level list" where
  "expiring_soon levels now window_millis =
     sort_key (fefo_key \<circ> bl_batch)
       (filter (\<lambda>l. expires_within (bl_batch l) now window_millis \<and> 0 < milli (bl_on_hand l)) levels)"

definition by_product :: "batch_level list \<Rightarrow> (uuid, batch_level list) btree" where
  "by_product levels =
     map (\<lambda>(k, ls). (k, sort_key (fefo_key \<circ> bl_batch) ls))
       (foldl (\<lambda>grouped l.
          let k = ba_product_id (bl_batch l) in
          bt_insert k ((case bt_get grouped k of None \<Rightarrow> [] | Some ls \<Rightarrow> ls) @ [l]) grouped) [] levels)"

section \<open>Movements\<close>

datatype issue_reason = IssueSale | Wastage | TransferOut | ReturnToSupplier | Internal

datatype return_reason = CustomerRefund | TransferIn

datatype inventory_event =
    BatchReceived (iv_batch_id: uuid) uuid "string option" "timestamp option" quantity money
      "string option" (iv_at: timestamp) uuid
  | StockIssued (iv_batch_id: uuid) quantity issue_reason "uuid option" (iv_at: timestamp) uuid
  | StockReturned (iv_batch_id: uuid) quantity return_reason "uuid option" (iv_at: timestamp) uuid
  | BatchCounted (iv_batch_id: uuid) quantity (iv_at: timestamp) uuid

definition inventory_batch_id :: "inventory_event \<Rightarrow> uuid" where
  "inventory_batch_id ev = iv_batch_id ev"

definition inventory_at :: "inventory_event \<Rightarrow> timestamp" where
  "inventory_at ev = iv_at ev"

fun inventory_kind :: "inventory_event \<Rightarrow> string" where
  "inventory_kind (BatchReceived _ _ _ _ _ _ _ _ _) = ''inventory.batch_received''"
| "inventory_kind (StockIssued _ _ _ _ _ _) = ''inventory.stock_issued''"
| "inventory_kind (StockReturned _ _ _ _ _ _) = ''inventory.stock_returned''"
| "inventory_kind (BatchCounted _ _ _ _) = ''inventory.batch_counted''"

datatype inventory_error =
    InventoryMoney money_error
  | UnknownBatch uuid
  | DuplicateBatch uuid
  | NonPositiveMovement quantity
  | NegativeCount quantity

record count_variance =
  cv_batch_id :: uuid
  cv_expected :: quantity
  cv_counted :: quantity
  cv_delta :: quantity
  cv_at :: timestamp
  cv_counted_by :: uuid

record inventory_book =
  ib_levels :: "(uuid, batch_level) btree"
  ib_costs :: "(uuid, money) btree"
  ib_variances :: "count_variance list"

definition inventory_new :: inventory_book where
  "inventory_new = \<lparr>ib_levels = [], ib_costs = [], ib_variances = []\<rparr>"

definition assert_positive :: "quantity \<Rightarrow> inventory_error + unit" where
  "assert_positive q = (if 0 < milli q then Inr () else Inl (NonPositiveMovement q))"

definition level_of :: "inventory_book \<Rightarrow> uuid \<Rightarrow> inventory_error + batch_level" where
  "level_of b batch_id = ok_or (UnknownBatch batch_id) (bt_get (ib_levels b) batch_id)"

definition put_level :: "inventory_book \<Rightarrow> uuid \<Rightarrow> batch_level \<Rightarrow> inventory_book" where
  "put_level b batch_id l = b\<lparr>ib_levels := bt_insert batch_id l (ib_levels b)\<rparr>"

definition note_variance :: "inventory_book \<Rightarrow> count_variance \<Rightarrow> inventory_book" where
  "note_variance b v =
     (if quantity_is_zero (cv_delta v) then b else b\<lparr>ib_variances := ib_variances b @ [v]\<rparr>)"

fun inventory_apply :: "inventory_book \<Rightarrow> inventory_event \<Rightarrow> inventory_error + inventory_book" where
  "inventory_apply b (BatchReceived batch_id product_id lot expires_at quantity unit_cost _ at _) =
     (if bt_get (ib_levels b) batch_id \<noteq> None then Inl (DuplicateBatch batch_id)
      else if \<not> 0 < milli quantity then Inl (NonPositiveMovement quantity)
      else Inr (b
        \<lparr>ib_levels := bt_insert batch_id
           \<lparr>bl_batch = \<lparr>ba_id = batch_id, ba_product_id = product_id, ba_lot = lot,
                        ba_expires_at = expires_at, ba_received_at = at\<rparr>,
            bl_on_hand = quantity\<rparr> (ib_levels b),
         ib_costs := bt_insert batch_id unit_cost (ib_costs b)\<rparr>))"
| "inventory_apply b (StockIssued batch_id quantity _ _ _ _) =
     and_then (assert_positive quantity) (\<lambda>_.
     and_then (level_of b batch_id) (\<lambda>level.
     and_then (map_err InventoryMoney
       (and_then (quantity_checked_neg quantity) (quantity_checked_add (bl_on_hand level)))) (\<lambda>on_hand.
     Inr (put_level b batch_id (level\<lparr>bl_on_hand := on_hand\<rparr>)))))"
| "inventory_apply b (StockReturned batch_id quantity _ _ _ _) =
     and_then (assert_positive quantity) (\<lambda>_.
     and_then (level_of b batch_id) (\<lambda>level.
     and_then (map_err InventoryMoney (quantity_checked_add (bl_on_hand level) quantity)) (\<lambda>on_hand.
     Inr (put_level b batch_id (level\<lparr>bl_on_hand := on_hand\<rparr>)))))"
| "inventory_apply b (BatchCounted batch_id counted at counted_by) =
     (if quantity_is_negative counted then Inl (NegativeCount counted)
      else
        and_then (level_of b batch_id) (\<lambda>level.
        let expected = bl_on_hand level in
        and_then (map_err InventoryMoney
          (and_then (quantity_checked_neg expected) (quantity_checked_add counted))) (\<lambda>delta.
        Inr (note_variance (put_level b batch_id (level\<lparr>bl_on_hand := counted\<rparr>))
          \<lparr>cv_batch_id = batch_id, cv_expected = expected, cv_counted = counted,
           cv_delta = delta, cv_at = at, cv_counted_by = counted_by\<rparr>))))"

definition inventory_replay :: "inventory_event list \<Rightarrow> inventory_error + inventory_book" where
  "inventory_replay events = try_fold inventory_apply inventory_new events"

definition levels :: "inventory_book \<Rightarrow> batch_level list" where
  "levels b = bt_values (ib_levels b)"

definition unit_cost :: "inventory_book \<Rightarrow> uuid \<Rightarrow> money option" where
  "unit_cost b batch_id = bt_get (ib_costs b) batch_id"

definition negative_batches :: "inventory_book \<Rightarrow> batch_level list" where
  "negative_batches b = filter (\<lambda>l. quantity_is_negative (bl_on_hand l)) (levels b)"

definition for_product :: "inventory_book \<Rightarrow> uuid \<Rightarrow> batch_level list" where
  "for_product b product_id =
     sort_key (fefo_key \<circ> bl_batch) (filter (\<lambda>l. ba_product_id (bl_batch l) = product_id) (levels b))"

section \<open>What a replay keeps\<close>

lemma assert_positive_Inr [res_simps]: "assert_positive q = Inr u \<longleftrightarrow> 0 < milli q"
  by (simp add: assert_positive_def)

lemma level_of_Inr [res_simps]: "level_of b k = Inr l \<longleftrightarrow> bt_get (ib_levels b) k = Some l"
  by (simp add: level_of_def res_simps)

definition good_inventory :: "inventory_book \<Rightarrow> bool" where
  "good_inventory b \<longleftrightarrow>
     bt_ok (ib_levels b) \<and> (\<forall>k l. bt_get (ib_levels b) k = Some l \<longrightarrow>
        ba_id (bl_batch l) = k \<and> bt_get (ib_costs b) k \<noteq> None)
     \<and> (\<forall>v \<in> set (ib_variances b). bt_get (ib_levels b) (cv_batch_id v) \<noteq> None
        \<and> milli (cv_delta v) = milli (cv_counted v) - milli (cv_expected v) \<and> milli (cv_delta v) \<noteq> 0
        \<and> 0 \<le> milli (cv_counted v))"

definition inventory_keeps :: "inventory_book \<Rightarrow> inventory_book \<Rightarrow> bool" where
  "inventory_keeps b b' \<longleftrightarrow>
     prefix (ib_variances b) (ib_variances b')
     \<and> (\<forall>k l. bt_get (ib_levels b) k = Some l \<longrightarrow>
         (\<exists>l'. bt_get (ib_levels b') k = Some l' \<and> bl_batch l' = bl_batch l)
         \<and> bt_get (ib_costs b') k = bt_get (ib_costs b) k)"

lemma inventory_apply_good:
  "inventory_apply b e = Inr b' \<Longrightarrow> good_inventory b \<Longrightarrow> good_inventory b'"
  by (cases e) (auto simp: good_inventory_def put_level_def note_variance_def res_simps Let_def quantity_is_zero_def
      quantity_is_negative_def split: if_splits)

lemma inventory_apply_keeps:
  "inventory_apply b e = Inr b' \<Longrightarrow> inventory_keeps b b'"
  by (cases e) (auto simp: inventory_keeps_def put_level_def note_variance_def res_simps Let_def split: if_splits)

interpretation inventory_log: evidence_log inventory_apply good_inventory inventory_keeps
proof unfold_locales
  show "inventory_keeps a c" if "inventory_keeps a b" "inventory_keeps b c" for a b c
    using that unfolding inventory_keeps_def by (metis prefix_order.trans)
qed (auto simp: inventory_keeps_def intro: inventory_apply_good inventory_apply_keeps
    dest: inventory_apply_keeps)

lemma inventory_new_good: "good_inventory inventory_new"
  by (simp add: good_inventory_def inventory_new_def)

text \<open>The accounting view: what each event moves in or out of a batch, the level the book holds,
  and the sum of the variances its counts recorded.\<close>

fun stock_change :: "uuid \<Rightarrow> inventory_event \<Rightarrow> int" where
  "stock_change k (BatchReceived j _ _ _ q _ _ _ _) = (if j = k then milli q else 0)"
| "stock_change k (StockIssued j q _ _ _ _) = (if j = k then - milli q else 0)"
| "stock_change k (StockReturned j q _ _ _ _) = (if j = k then milli q else 0)"
| "stock_change k (BatchCounted _ _ _ _) = 0"

definition on_hand :: "inventory_book \<Rightarrow> uuid \<Rightarrow> int" where
  "on_hand b k = (case bt_get (ib_levels b) k of None \<Rightarrow> 0 | Some l \<Rightarrow> milli (bl_on_hand l))"

definition variance_of :: "inventory_book \<Rightarrow> uuid \<Rightarrow> int" where
  "variance_of b k = (\<Sum>v\<leftarrow>filter (\<lambda>v. cv_batch_id v = k) (ib_variances b). milli (cv_delta v))"

lemma note_variance_account:
  "on_hand (note_variance b v) k = on_hand b k"
  "variance_of (note_variance b v) k = variance_of b k + (if cv_batch_id v = k then milli (cv_delta v) else 0)"
  by (simp_all add: note_variance_def on_hand_def variance_of_def quantity_is_zero_def)

lemma put_level_account:
  "on_hand (put_level b j l) k = (if k = j then milli (bl_on_hand l) else on_hand b k)"
  "variance_of (put_level b j l) k = variance_of b k"
  by (simp_all add: put_level_def on_hand_def variance_of_def)

lemma on_hand_Some: "bt_get (ib_levels b) k = Some l \<Longrightarrow> on_hand b k = milli (bl_on_hand l)"
  by (simp add: on_hand_def)

lemma inventory_apply_account:
  assumes "inventory_apply b e = Inr b'"
  shows "on_hand b' k - variance_of b' k = on_hand b k - variance_of b k + stock_change k e"
proof (cases e)
  case BatchReceived
  with assms show ?thesis by (auto simp: on_hand_def variance_of_def split: if_splits)
qed (use assms in \<open>auto simp: note_variance_account put_level_account res_simps Let_def on_hand_Some
      split: if_split_asm\<close>)

interpretation inventory_account:
  accounted inventory_apply good_inventory "\<lambda>b k. on_hand b k - variance_of b k" stock_change
  by unfold_locales (rule inventory_apply_account)

section \<open>Filling from sorted levels\<close>

lemma fill_props:
  assumes "fill r ls = (as, r')" and "\<forall>l \<in> set ls. 0 < milli (bl_on_hand l)" and "0 \<le> r" and "r < 2 ^ 63"
  shows "0 \<le> r' \<and> sum_list (map (milli \<circ> bp_taken) as) = r - r'
    \<and> length as \<le> length ls
    \<and> (\<forall>i < length as. bp_batch_id (as ! i) = ba_id (bl_batch (ls ! i))
         \<and> 0 < milli (bp_taken (as ! i)) \<and> milli (bp_taken (as ! i)) \<le> milli (bl_on_hand (ls ! i))
         \<and> (i + 1 < length as \<or> 0 < r' \<longrightarrow> milli (bp_taken (as ! i)) = milli (bl_on_hand (ls ! i))))
    \<and> (0 < r' \<longrightarrow> length as = length ls)"
  using assms
proof (induction ls arbitrary: r as)
  case (Cons l ls)
  show ?case
  proof (cases "r \<le> 0")
    case True
    with Cons.prems show ?thesis by simp
  next
    case False
    let ?t = "min r (milli (bl_on_hand l))"
    have range: "saturate (r - ?t) = r - ?t"
      using Cons.prems(2,4) False by (intro saturate_id) (auto simp: in_i64_def)
    obtain more where more: "fill (r - ?t) ls = (more, r')"
      and as: "as = \<lparr>bp_batch_id = ba_id (bl_batch l), bp_taken = from_milli ?t\<rparr> # more"
      using Cons.prems(1) False range by (auto simp: Let_def split: prod.splits)
    have "0 \<le> r - ?t" "r - ?t < 2 ^ 63" using Cons.prems False by auto
    note ih = Cons.IH [OF more _ this]
    have stop: "more = [] \<and> r' = 0" if "?t = r"
      using more that by (cases ls) auto
    show ?thesis
      using ih Cons.prems(2) False stop
      by (auto simp: as from_milli_def nth_Cons min_def split: nat.splits if_splits)
  qed
qed simp

section \<open>Properties\<close>

definition taken_fully :: "pick \<Rightarrow> batch_level \<Rightarrow> bool" where
  "taken_fully p l \<longleftrightarrow>
     \<lparr>bp_batch_id = ba_id (bl_batch l), bp_taken = bl_on_hand l\<rparr> \<in> set (pk_allocations p)"

text \<open>C15: a pick never invents or loses stock: what it takes and what it reports short add up to
  what was wanted; it takes only from batches that are not expired and never more than they
  hold; it opens a batch only after emptying every sellable batch that expires before it; and
  it reports a shortfall only when every sellable batch is emptied.\<close>

theorem pick_fefo_correct:
  assumes "pick_fefo ls wanted now = Inr p" and "in_i64 (milli wanted)"
  shows "(\<Sum>a\<leftarrow>pk_allocations p. milli (bp_taken a)) + milli (pk_shortfall p) = max 0 (milli wanted)
    \<and> (\<forall>a \<in> set (pk_allocations p). \<exists>l \<in> set ls. usable now l \<and> bp_batch_id a = ba_id (bl_batch l)
        \<and> 0 < milli (bp_taken a) \<and> milli (bp_taken a) \<le> milli (bl_on_hand l)
        \<and> (\<forall>l' \<in> set ls. usable now l' \<and> fefo_key (bl_batch l') < fefo_key (bl_batch l) \<longrightarrow> taken_fully p l'))
    \<and> (0 < milli (pk_shortfall p) \<longrightarrow> (\<forall>l \<in> set ls. usable now l \<longrightarrow> taken_fully p l))"
proof (cases "0 < milli wanted")
  case False
  with assms(1) show ?thesis by (auto simp: pick_fefo_def quantity_zero_def)
next
  case True
  let ?s = "sort_key (fefo_key \<circ> bl_batch) (filter (usable now) ls)"
  obtain as r where fill: "fill (milli wanted) ?s = (as, r)" by fastforce
  with assms(1) True have p: "pk_allocations p = as" "pk_shortfall p = from_milli (max r 0)"
    by (auto simp: pick_fefo_def)
  have pos: "\<forall>l \<in> set ?s. 0 < milli (bl_on_hand l)" by (simp add: usable_def)
  have "0 \<le> milli wanted" "milli wanted < 2 ^ 63" using True assms(2) by (auto simp: in_i64_def)
  note f = fill_props [OF fill pos this]
  from f have r: "0 \<le> r" and sum: "(\<Sum>a\<leftarrow>as. milli (bp_taken a)) = milli wanted - r"
    and len: "length as \<le> length ?s" and all: "0 < r \<longrightarrow> length as = length ?s"
    by (simp_all add: comp_def)
  have at: "bp_batch_id (as ! i) = ba_id (bl_batch (?s ! i))" "0 < milli (bp_taken (as ! i))"
    "milli (bp_taken (as ! i)) \<le> milli (bl_on_hand (?s ! i))" if "i < length as" for i
    using f that by simp_all
  have full: "taken_fully p (?s ! j)" if "j < length as" "j + 1 < length as \<or> 0 < r" for j
  proof -
    have "milli (bp_taken (as ! j)) = milli (bl_on_hand (?s ! j))" using f that by blast
    with at(1) [OF that(1)] have "as ! j = \<lparr>bp_batch_id = ba_id (bl_batch (?s ! j)), bp_taken = bl_on_hand (?s ! j)\<rparr>"
      by (cases "as ! j") (simp add: quantity.equality)
    with that(1) show ?thesis unfolding taken_fully_def p(1) by (metis nth_mem)
  qed
  have index: "\<exists>j < length ?s. l = ?s ! j" if "l \<in> set ls" "usable now l" for l
  proof -
    have "l \<in> set ?s" using that by simp
    then show ?thesis by (auto simp: in_set_conv_nth simp del: set_sort set_filter)
  qed
  have before: "taken_fully p l'" if i: "i < length as" and l': "l' \<in> set ls" "usable now l'"
    and lt: "fefo_key (bl_batch l') < fefo_key (bl_batch (?s ! i))" for i l'
  proof -
    obtain j where j: "j < length ?s" "l' = ?s ! j" using index [OF l'] by blast
    have "j < i"
    proof (rule ccontr)
      assume "\<not> j < i"
      then have "(fefo_key \<circ> bl_batch) (?s ! i) \<le> (fefo_key \<circ> bl_batch) (?s ! j)"
        using sorted_nth_mono [OF sorted_sort_key, of i j "fefo_key \<circ> bl_batch" "filter (usable now) ls"] j(1) by simp
      with lt j(2) show False by simp
    qed
    with full [of j] i j(2) show ?thesis by simp
  qed
  have mem: "?s ! i \<in> set ls \<and> usable now (?s ! i)" if "i < length as" for i
  proof -
    have "?s ! i \<in> set ?s" using that len by (intro nth_mem) simp
    then show ?thesis by simp
  qed
  have "\<exists>l \<in> set ls. usable now l \<and> bp_batch_id a = ba_id (bl_batch l)
        \<and> 0 < milli (bp_taken a) \<and> milli (bp_taken a) \<le> milli (bl_on_hand l)
        \<and> (\<forall>l' \<in> set ls. usable now l' \<and> fefo_key (bl_batch l') < fefo_key (bl_batch l) \<longrightarrow> taken_fully p l')"
    if "a \<in> set as" for a
  proof -
    obtain i where i: "i < length as" "a = as ! i" using \<open>a \<in> set as\<close> by (auto simp: in_set_conv_nth)
    show ?thesis using mem [OF i(1)] at [OF i(1)] before [OF i(1)] i(2) by blast
  qed
  moreover have "taken_fully p l" if "0 < r" "l \<in> set ls" "usable now l" for l
    using index [OF that(2,3)] full all that(1) by auto
  ultimately show ?thesis using r sum True by (simp add: p from_milli_def)
qed

definition sample_level :: "uuid \<Rightarrow> int option \<Rightarrow> int \<Rightarrow> batch_level" where
  "sample_level n expiry held =
     \<lparr>bl_batch = \<lparr>ba_id = n, ba_product_id = 99, ba_lot = None,
        ba_expires_at = map_option from_millis expiry, ba_received_at = \<lparr>millis = int n\<rparr>\<rparr>,
      bl_on_hand = \<lparr>milli = held\<rparr>\<rparr>"

definition sample_levels :: "batch_level list" where
  "sample_levels = [sample_level 1 (Some 30) 5000, sample_level 2 (Some 5) 9000, sample_level 3 (Some 20) 2000,
     sample_level 4 None 1000]"

lemma pick_fefo_correct_witness:
  "\<exists>p. pick_fefo sample_levels \<lparr>milli = 6000\<rparr> \<lparr>millis = 10\<rparr> = Inr p
     \<and> pk_allocations p = [\<lparr>bp_batch_id = 3, bp_taken = \<lparr>milli = 2000\<rparr>\<rparr>,
         \<lparr>bp_batch_id = 1, bp_taken = \<lparr>milli = 4000\<rparr>\<rparr>]
     \<and> (\<Sum>a\<leftarrow>pk_allocations p. milli (bp_taken a)) + milli (pk_shortfall p) = 6000"
proof -
  have "map_ok pk_allocations (pick_fefo sample_levels \<lparr>milli = 6000\<rparr> \<lparr>millis = 10\<rparr>)
    = Inr [\<lparr>bp_batch_id = 3, bp_taken = \<lparr>milli = 2000\<rparr>\<rparr>, \<lparr>bp_batch_id = 1, bp_taken = \<lparr>milli = 4000\<rparr>\<rparr>]"
    by code_simp
  then obtain p where p: "pick_fefo sample_levels \<lparr>milli = 6000\<rparr> \<lparr>millis = 10\<rparr> = Inr p"
    "pk_allocations p = [\<lparr>bp_batch_id = 3, bp_taken = \<lparr>milli = 2000\<rparr>\<rparr>,
      \<lparr>bp_batch_id = 1, bp_taken = \<lparr>milli = 4000\<rparr>\<rparr>]"
    by (auto simp: res_simps)
  have "in_i64 (milli \<lparr>milli = 6000\<rparr>)" by (simp add: in_i64_def)
  from pick_fefo_correct [OF p(1) this] p show ?thesis by simp
qed

text \<open>C16: every unit of stock is accounted for: the level a book holds for a batch is exactly what
  was received and returned less what was issued, plus the variances its counts recorded, so a
  count that overwrites the book never hides the difference.\<close>

theorem stock_accounted:
  assumes "inventory_replay es = Inr b" and "bt_get (ib_levels b) k = Some l"
  shows "milli (bl_on_hand l) = (\<Sum>e\<leftarrow>es. stock_change k e)
    + (\<Sum>v\<leftarrow>filter (\<lambda>v. cv_batch_id v = k) (ib_variances b). milli (cv_delta v))"
  using inventory_account.run_level [OF assms(1) [unfolded inventory_replay_def] inventory_new_good, of k] on_hand_Some [OF assms(2)]
  by (simp add: variance_of_def inventory_new_def on_hand_def)

definition sample_stock :: "inventory_event list" where
  "sample_stock =
     [BatchReceived 1 99 None (Some \<lparr>millis = 50\<rparr>) \<lparr>milli = 10000\<rparr> \<lparr>minor = 250, currency = Bdt\<rparr> None \<lparr>millis = 1\<rparr> 7,
      StockIssued 1 \<lparr>milli = 3000\<rparr> IssueSale (Some 5) \<lparr>millis = 2\<rparr> 7,
      StockReturned 1 \<lparr>milli = 1000\<rparr> CustomerRefund None \<lparr>millis = 3\<rparr> 7,
      BatchCounted 1 \<lparr>milli = 7500\<rparr> \<lparr>millis = 4\<rparr> 8,
      StockIssued 1 \<lparr>milli = 9000\<rparr> Wastage None \<lparr>millis = 5\<rparr> 7]"

lemma sample_stock_ok:
  "\<exists>b l. inventory_replay sample_stock = Inr b \<and> bt_get (ib_levels b) 1 = Some l
     \<and> milli (bl_on_hand l) = - 1500 \<and> map (milli \<circ> cv_delta) (ib_variances b) = [- 500]"
proof -
  have "map_ok (\<lambda>b. (map_option (milli \<circ> bl_on_hand) (bt_get (ib_levels b) 1), map (milli \<circ> cv_delta) (ib_variances b)))
      (inventory_replay sample_stock) = Inr (Some (- 1500), [- 500])" by code_simp
  then show ?thesis by (auto simp: res_simps dest!: sym [of "Some (- 1500)"])
qed

lemma stock_accounted_witness:
  "\<exists>b. inventory_replay sample_stock = Inr b \<and> - 1500 = (\<Sum>e\<leftarrow>sample_stock. stock_change 1 e)
     + (\<Sum>v\<leftarrow>filter (\<lambda>v. cv_batch_id v = 1) (ib_variances b). milli (cv_delta v))"
proof -
  obtain b l where b: "inventory_replay sample_stock = Inr b" "bt_get (ib_levels b) 1 = Some l"
    "milli (bl_on_hand l) = - 1500"
    using sample_stock_ok by (elim exE conjE) (rule that)
  from stock_accounted [OF b(1,2)] b show ?thesis by (intro exI [of _ b]) simp
qed

text \<open>Later movements never erase what a book recorded: its variances stay in order, and every
  batch keeps its identity, expiry and cost.\<close>

theorem stock_evidence_kept:
  assumes "inventory_replay (es @ fs) = Inr b"
  shows "\<exists>m. inventory_replay es = Inr m \<and> prefix (ib_variances m) (ib_variances b)
    \<and> (\<forall>k l. bt_get (ib_levels m) k = Some l \<longrightarrow>
         (\<exists>l'. bt_get (ib_levels b) k = Some l' \<and> bl_batch l' = bl_batch l)
         \<and> unit_cost b k = unit_cost m k)"
proof -
  obtain m where m: "try_fold inventory_apply inventory_new es = Inr m" "good_inventory m"
    "try_fold inventory_apply m fs = Inr b"
    using inventory_log.run_prefix [OF assms [unfolded inventory_replay_def] inventory_new_good] by blast
  from inventory_log.run_keeps [OF m(3,2)] m(1) show ?thesis
    by (auto simp: inventory_keeps_def inventory_replay_def unit_cost_def)
qed

lemma stock_evidence_kept_witness:
  "\<exists>m b. inventory_replay (take 4 sample_stock) = Inr m \<and> inventory_replay sample_stock = Inr b
     \<and> prefix (ib_variances m) (ib_variances b) \<and> ib_variances b \<noteq> []"
proof -
  obtain b where b: "inventory_replay sample_stock = Inr b" "map (milli \<circ> cv_delta) (ib_variances b) = [- 500]"
    using sample_stock_ok by (elim exE conjE) (rule that)
  then have "inventory_replay (take 4 sample_stock @ drop 4 sample_stock) = Inr b" by simp
  from stock_evidence_kept [OF this] b show ?thesis by auto
qed

end
