(* ===== verification/Staff.thy ===== *)
theory Staff
  imports Units BTree Projection
begin

text \<open>
  Who works here and who may do what (\<open>crates/sahl-core/src/staff\<close>): roles, permissions and
  approval thresholds, the till session, PIN rules, staff events and the directory they replay
  to.  Argon2 is a crate the code calls: its operations are the fields of \<open>argon\<close>.  A PIN is the
  list of its characters' code points.
\<close>

section \<open>Roles and authority\<close>

datatype role = Cashier | Manager | Owner

fun role_rank :: "role \<Rightarrow> nat" where
  "role_rank Cashier = 0"
| "role_rank Manager = 1"
| "role_rank Owner = 2"

lemma role_rank_inj: "role_rank a = role_rank b \<Longrightarrow> a = b"
  by (cases a; cases b) auto

instantiation role :: linorder
begin

definition less_eq_role :: "role \<Rightarrow> role \<Rightarrow> bool" where
  "a \<le> b \<longleftrightarrow> role_rank a \<le> role_rank b"

definition less_role :: "role \<Rightarrow> role \<Rightarrow> bool" where
  "a < b \<longleftrightarrow> role_rank a < role_rank b"

instance
  by standard (auto simp: less_eq_role_def less_role_def role_rank_inj)

end

datatype permission =
    RingSale | VoidLine | RefundSale | ApplyDiscount | OverridePrice | NoSaleDrawer | OpenShift
  | CloseShift | MoveCash | ReceiveStock | CountStock | EditCatalogue | ManageStaff | EnrolDevice
  | ViewReports

fun can :: "role \<Rightarrow> permission \<Rightarrow> bool" where
  "can Owner p = True"
| "can Manager p = (p \<notin> {ManageStaff, EnrolDevice})"
| "can Cashier p = (p \<in> {RingSale, OpenShift, CountStock, ReceiveStock})"

fun role_label :: "role \<Rightarrow> string" where
  "role_label Cashier = ''cashier''"
| "role_label Manager = ''manager''"
| "role_label Owner = ''owner''"

record approval_policy =
  ap_discount_limit :: money
  ap_discount_rate_limit :: rate
  ap_void_limit :: money

definition strictest :: "currency \<Rightarrow> approval_policy" where
  "strictest c = \<lparr>ap_discount_limit = money_zero c, ap_discount_rate_limit = rate_zero, ap_void_limit = money_zero c\<rparr>"

datatype authorization = Allowed | NeedsApproval role | Denied

fun is_allowed :: "authorization \<Rightarrow> bool" where
  "is_allowed Allowed = True"
| "is_allowed (NeedsApproval _) = False"
| "is_allowed Denied = False"

fun is_denied :: "authorization \<Rightarrow> bool" where
  "is_denied Denied = True"
| "is_denied (NeedsApproval _) = False"
| "is_denied Allowed = False"

definition authorize :: "role \<Rightarrow> permission \<Rightarrow> authorization" where
  "authorize actor p =
     (if can actor p then Allowed
      else if p \<in> {ManageStaff, EnrolDevice}
      then (if actor = Owner then Allowed else NeedsApproval Owner)
      else NeedsApproval Manager)"

definition authorize_discount :: "role \<Rightarrow> money \<Rightarrow> approval_policy \<Rightarrow> authorization" where
  "authorize_discount actor amount policy =
     (if can actor ApplyDiscount \<or> minor amount \<le> minor (ap_discount_limit policy) then Allowed
      else NeedsApproval Manager)"

definition authorize_discount_rate :: "role \<Rightarrow> rate \<Rightarrow> approval_policy \<Rightarrow> authorization" where
  "authorize_discount_rate actor r policy =
     (if can actor ApplyDiscount \<or> basis_points r \<le> basis_points (ap_discount_rate_limit policy) then Allowed
      else NeedsApproval Manager)"

definition authorize_void :: "role \<Rightarrow> money \<Rightarrow> approval_policy \<Rightarrow> authorization" where
  "authorize_void actor line_worth policy =
     (if \<not> can actor VoidLine
      then (if minor line_worth \<le> minor (ap_void_limit policy) then Allowed else NeedsApproval Manager)
      else Allowed)"

section \<open>The till session\<close>

definition session_idle_timeout_millis :: int where
  "session_idle_timeout_millis = 5 * 60 * 1000"

record session =
  ss_staff_id :: uuid
  ss_role :: role
  ss_signed_in_at :: timestamp
  ss_touched_at :: timestamp

definition session_new :: "uuid \<Rightarrow> role \<Rightarrow> timestamp \<Rightarrow> session" where
  "session_new staff_id r at =
     \<lparr>ss_staff_id = staff_id, ss_role = r, ss_signed_in_at = at, ss_touched_at = at\<rparr>"

definition session_expired :: "session \<Rightarrow> timestamp \<Rightarrow> int \<Rightarrow> bool" where
  "session_expired s now timeout \<longleftrightarrow>
     0 < saturate (saturate (millis now - millis (ss_touched_at s)) - timeout)"

datatype presence = SignedOut | SignedIn session

definition presence_sign_in :: "uuid \<Rightarrow> role \<Rightarrow> timestamp \<Rightarrow> presence" where
  "presence_sign_in staff_id r at = SignedIn (session_new staff_id r at)"

fun current :: "presence \<Rightarrow> timestamp \<Rightarrow> int \<Rightarrow> session option" where
  "current SignedOut now timeout = None"
| "current (SignedIn s) now timeout = (if session_expired s now timeout then None else Some s)"

fun touch :: "presence \<Rightarrow> timestamp \<Rightarrow> int \<Rightarrow> presence" where
  "touch SignedOut now timeout = SignedOut"
| "touch (SignedIn s) now timeout =
     (if session_expired s now timeout then SignedOut else SignedIn (s\<lparr>ss_touched_at := now\<rparr>))"

definition presence_sign_out :: "presence \<Rightarrow> presence" where
  "presence_sign_out p = SignedOut"

section \<open>PINs\<close>

datatype pin_error = PinLength nat | NotNumeric | Guessable | CorruptHash | HashFailed

definition min_length :: nat where
  "min_length = 4"

definition max_length :: nat where
  "max_length = 8"

definition memory_kib :: int where
  "memory_kib = 19 * 1024"

definition iterations :: int where
  "iterations = 2"

text \<open>Reading a PHC string, checking a password against it, hashing one with a salt, and the memory
  and time cost a PHC string records.\<close>

record 'phc argon =
  ar_read :: "string \<Rightarrow> 'phc option"
  ar_check :: "nat list \<Rightarrow> 'phc \<Rightarrow> bool"
  ar_hash :: "nat list \<Rightarrow> string \<Rightarrow> string option"
  ar_costs :: "'phc \<Rightarrow> (int \<times> int) option"

definition is_digit :: "nat \<Rightarrow> bool" where
  "is_digit c \<longleftrightarrow> 48 \<le> c \<and> c \<le> 57"

text \<open>\<open>u8::checked_sub\<close> gives one exactly when the minuend is the successor.\<close>

definition is_guessable :: "nat list \<Rightarrow> bool" where
  "is_guessable pin =
     (case pin of
        [] \<Rightarrow> True
      | first # rest \<Rightarrow>
          if list_all (\<lambda>d. d = first) rest then True
          else list_all (\<lambda>(n, p). n = p + 1) (zip rest pin) \<or> list_all (\<lambda>(n, p). p = n + 1) (zip rest pin))"

definition validate_pin :: "nat list \<Rightarrow> pin_error + unit" where
  "validate_pin pin =
     (if \<not> (min_length \<le> length pin \<and> length pin \<le> max_length) then Inl (PinLength (length pin))
      else if \<not> list_all is_digit pin then Inl NotNumeric
      else if is_guessable pin then Inl Guessable
      else Inr ())"

definition hash_pin :: "'phc argon \<Rightarrow> nat list \<Rightarrow> string \<Rightarrow> pin_error + string" where
  "hash_pin ar pin salt = and_then (validate_pin pin) (\<lambda>_. ok_or HashFailed (ar_hash ar pin salt))"

definition verify_pin :: "'phc argon \<Rightarrow> nat list \<Rightarrow> string \<Rightarrow> pin_error + bool" where
  "verify_pin ar pin stored =
     and_then (ok_or CorruptHash (ar_read ar stored)) (\<lambda>parsed. Inr (ar_check ar pin parsed))"

definition needs_rehash :: "'phc argon \<Rightarrow> string \<Rightarrow> bool" where
  "needs_rehash ar stored =
     (case ar_read ar stored of
        None \<Rightarrow> True
      | Some parsed \<Rightarrow>
          (case ar_costs ar parsed of
             None \<Rightarrow> True
           | Some (m_cost, t_cost) \<Rightarrow> m_cost < memory_kib \<or> t_cost < iterations))"

section \<open>Staff events and the directory\<close>

datatype staff_event =
    Enrolled (ste_staff_id: uuid) string role string (ste_at: timestamp) uuid
  | RoleChanged (ste_staff_id: uuid) role (ste_at: timestamp) uuid
  | PinChanged (ste_staff_id: uuid) string (ste_at: timestamp) uuid
  | Deactivated (ste_staff_id: uuid) (ste_at: timestamp) uuid
  | Reactivated (ste_staff_id: uuid) (ste_at: timestamp) uuid

definition event_staff_id :: "staff_event \<Rightarrow> uuid" where
  "event_staff_id ev = ste_staff_id ev"

definition staff_event_at :: "staff_event \<Rightarrow> timestamp" where
  "staff_event_at ev = ste_at ev"

fun staff_event_kind :: "staff_event \<Rightarrow> string" where
  "staff_event_kind (Enrolled _ _ _ _ _ _) = ''staff.enrolled''"
| "staff_event_kind (RoleChanged _ _ _ _) = ''staff.role_changed''"
| "staff_event_kind (PinChanged _ _ _ _) = ''staff.pin_changed''"
| "staff_event_kind (Deactivated _ _ _) = ''staff.deactivated''"
| "staff_event_kind (Reactivated _ _ _) = ''staff.reactivated''"

datatype directory_error = UnknownStaff uuid | DuplicateStaff uuid | DirectoryPin pin_error

record staff_member =
  sm_id :: uuid
  sm_name :: string
  sm_role :: role
  sm_active :: bool
  sm_pin_hash :: string
  sm_enrolled_at :: timestamp

definition member_can :: "staff_member \<Rightarrow> permission \<Rightarrow> bool" where
  "member_can m p \<longleftrightarrow> sm_active m \<and> can (sm_role m) p"

type_synonym directory = "(uuid, staff_member) btree"

datatype sign_in_result = SignInOk uuid role | WrongPin | SignInUnknown | Inactive

definition directory_new :: directory where
  "directory_new = []"

definition on_member ::
    "directory \<Rightarrow> uuid \<Rightarrow> (staff_member \<Rightarrow> staff_member) \<Rightarrow> directory_error + directory" where
  "on_member d staff_id f =
     (case bt_get d staff_id of
        None \<Rightarrow> Inl (UnknownStaff staff_id)
      | Some m \<Rightarrow> Inr (bt_insert staff_id (f m) d))"

fun directory_apply :: "directory \<Rightarrow> staff_event \<Rightarrow> directory_error + directory" where
  "directory_apply d (Enrolled staff_id name r pin_hash at _) =
     (if bt_get d staff_id \<noteq> None then Inl (DuplicateStaff staff_id)
      else Inr (bt_insert staff_id
        \<lparr>sm_id = staff_id, sm_name = name, sm_role = r, sm_active = True, sm_pin_hash = pin_hash,
         sm_enrolled_at = at\<rparr> d))"
| "directory_apply d (RoleChanged staff_id r _ _) = on_member d staff_id (\<lambda>m. m\<lparr>sm_role := r\<rparr>)"
| "directory_apply d (PinChanged staff_id pin_hash _ _) = on_member d staff_id (\<lambda>m. m\<lparr>sm_pin_hash := pin_hash\<rparr>)"
| "directory_apply d (Deactivated staff_id _ _) = on_member d staff_id (\<lambda>m. m\<lparr>sm_active := False\<rparr>)"
| "directory_apply d (Reactivated staff_id _ _) = on_member d staff_id (\<lambda>m. m\<lparr>sm_active := True\<rparr>)"

definition directory_replay :: "staff_event list \<Rightarrow> directory_error + directory" where
  "directory_replay events = try_fold directory_apply directory_new events"

definition sign_in :: "'phc argon \<Rightarrow> directory \<Rightarrow> uuid \<Rightarrow> nat list \<Rightarrow> directory_error + sign_in_result" where
  "sign_in ar d staff_id entered =
     (case bt_get d staff_id of
        None \<Rightarrow> Inr SignInUnknown
      | Some m \<Rightarrow>
          (if \<not> sm_active m then Inr Inactive
           else
             and_then (map_err DirectoryPin (verify_pin ar entered (sm_pin_hash m))) (\<lambda>matches.
             Inr (if matches then SignInOk staff_id (sm_role m) else WrongPin))))"

fun approve_among ::
    "'phc argon \<Rightarrow> nat list \<Rightarrow> bool \<Rightarrow> staff_member list \<Rightarrow> directory_error + sign_in_result" where
  "approve_among ar entered seen [] = Inr (if seen then WrongPin else SignInUnknown)"
| "approve_among ar entered seen (m # ms) =
     and_then (map_err DirectoryPin (verify_pin ar entered (sm_pin_hash m))) (\<lambda>matches.
     if matches then Inr (SignInOk (sm_id m) (sm_role m)) else approve_among ar entered True ms)"

definition approve :: "'phc argon \<Rightarrow> directory \<Rightarrow> permission \<Rightarrow> nat list \<Rightarrow> directory_error + sign_in_result" where
  "approve ar d p entered = approve_among ar entered False (filter (\<lambda>m. member_can m p) (bt_values d))"

definition role_of :: "directory \<Rightarrow> uuid \<Rightarrow> role option" where
  "role_of d staff_id = map_option sm_role (bt_get d staff_id)"

definition active_members :: "directory \<Rightarrow> staff_member list" where
  "active_members d = filter sm_active (bt_values d)"

section \<open>What a directory keeps\<close>

definition good_directory :: "directory \<Rightarrow> bool" where
  "good_directory d \<longleftrightarrow> bt_ok d \<and> (\<forall>k m. bt_get d k = Some m \<longrightarrow> sm_id m = k)"

definition directory_keeps :: "directory \<Rightarrow> directory \<Rightarrow> bool" where
  "directory_keeps d d' \<longleftrightarrow> (\<forall>k m. bt_get d k = Some m \<longrightarrow>
     (\<exists>m'. bt_get d' k = Some m' \<and> sm_id m' = sm_id m \<and> sm_name m' = sm_name m
       \<and> sm_enrolled_at m' = sm_enrolled_at m))"

lemma on_member_Inr [res_simps]:
  "on_member d k f = Inr d' \<longleftrightarrow> (\<exists>m. bt_get d k = Some m \<and> d' = bt_insert k (f m) d)"
  by (auto simp: on_member_def split: option.splits)

lemma directory_apply_good: "directory_apply d e = Inr d' \<Longrightarrow> good_directory d \<Longrightarrow> good_directory d'"
  by (cases e) (auto simp: good_directory_def res_simps split: if_splits)

lemma directory_apply_keeps: "directory_apply d e = Inr d' \<Longrightarrow> directory_keeps d d'"
  by (cases e) (auto simp: directory_keeps_def res_simps split: if_splits)

interpretation directory_log: evidence_log directory_apply good_directory directory_keeps
proof unfold_locales
  show "directory_keeps a c" if "directory_keeps a b" "directory_keeps b c" for a b c
    using that unfolding directory_keeps_def by metis
qed (auto simp: directory_keeps_def intro: directory_apply_good dest: directory_apply_keeps)

lemma directory_replay_good: "directory_replay es = Inr d \<Longrightarrow> good_directory d"
  unfolding directory_replay_def
  by (erule directory_log.run_good) (simp add: good_directory_def directory_new_def)

lemma approve_among_ok:
  "approve_among ar entered seen ms = Inr (SignInOk i r) \<Longrightarrow>
     \<exists>m \<in> set ms. sm_id m = i \<and> sm_role m = r \<and> verify_pin ar entered (sm_pin_hash m) = Inr True"
  by (induction ms arbitrary: seen) (auto simp: res_simps split: if_splits)

section \<open>PIN shapes\<close>

lemma ascending_shape:
  "list_all (\<lambda>(n, p). n = p + 1) (zip xs (x # xs)) \<longleftrightarrow> x # xs = [x..<x + Suc (length xs)]"
proof (induction xs arbitrary: x)
  case (Cons y ys)
  have "list_all (\<lambda>(n, p). n = p + 1) (zip (y # ys) (x # y # ys))
      \<longleftrightarrow> y = Suc x \<and> list_all (\<lambda>(n, p). n = p + 1) (zip ys (y # ys))" by simp
  also have "\<dots> \<longleftrightarrow> y = Suc x \<and> y # ys = [y..<y + Suc (length ys)]" using Cons.IH by blast
  also have "\<dots> \<longleftrightarrow> y # ys = [Suc x..<x + Suc (length (y # ys))]"
  proof -
    have "[Suc x..<x + Suc (length (y # ys))] = Suc x # [Suc (Suc x)..<x + Suc (Suc (length ys))]"
      and "[y..<y + Suc (length ys)] = y # [Suc y..<y + Suc (length ys)]"
      by (simp_all add: upt_conv_Cons del: upt_Suc)
    then show ?thesis by (auto simp del: upt_Suc)
  qed
  also have "\<dots> \<longleftrightarrow> x # y # ys = [x..<x + Suc (length (y # ys))]"
    by (simp add: upt_conv_Cons [of x] del: upt_Suc)
  finally show ?case .
qed simp

lemma descending_shape:
  "list_all (\<lambda>(n, p). p = n + 1) (zip xs (x # xs)) \<longleftrightarrow>
     (\<exists>s. x # xs = rev [s..<s + Suc (length xs)])"
proof (induction xs arbitrary: x)
  case Nil
  show ?case by (auto intro: exI [of _ x])
next
  case (Cons y ys)
  have "list_all (\<lambda>(n, p). p = n + 1) (zip (y # ys) (x # y # ys))
      \<longleftrightarrow> x = Suc y \<and> list_all (\<lambda>(n, p). p = n + 1) (zip ys (y # ys))" by simp
  also have "\<dots> \<longleftrightarrow> x = Suc y \<and> (\<exists>s. y # ys = rev [s..<s + Suc (length ys)])" using Cons.IH by blast
  also have "\<dots> \<longleftrightarrow> (\<exists>s. x # y # ys = rev [s..<s + Suc (length (y # ys))])"
    by auto
  finally show ?case .
qed

lemma constant_shape: "list_all (\<lambda>d. d = x) xs \<longleftrightarrow> (\<exists>d. x # xs = replicate (Suc (length xs)) d)"
proof -
  have "(\<forall>d \<in> set xs. d = x) \<longleftrightarrow> xs = replicate (length xs) x"
    by (metis in_set_replicate replicate_length_same)
  then show ?thesis by (auto simp: list_all_iff)
qed

lemma guessable_shape:
  "is_guessable pin \<longleftrightarrow> (\<exists>c. pin = replicate (length pin) c)
     \<or> (\<exists>c. pin = [c..<c + length pin]) \<or> (\<exists>c. pin = rev [c..<c + length pin])"
proof (cases pin)
  case (Cons x xs)
  have "hd [c..<c + Suc n] = c" for c n by (simp add: upt_conv_Cons del: upt_Suc)
  then have up: "(\<exists>c. x # xs = [c..<c + length (x # xs)]) \<longleftrightarrow> x # xs = [x..<x + Suc (length xs)]"
    by (metis list.sel(1) list.size(4) add.right_neutral add_Suc_right)
  have "is_guessable (x # xs) \<longleftrightarrow> list_all (\<lambda>d. d = x) xs
      \<or> list_all (\<lambda>(n, p). n = p + 1) (zip xs (x # xs)) \<or> list_all (\<lambda>(n, p). p = n + 1) (zip xs (x # xs))"
    by (simp add: is_guessable_def)
  then show ?thesis
    unfolding Cons up ascending_shape descending_shape constant_shape by (simp del: upt_Suc replicate_Suc)
qed (simp add: is_guessable_def)

lemma all_roles: "(\<forall>r. P r) \<longleftrightarrow> P Cashier \<and> P Manager \<and> P Owner"
  by (metis role.exhaust)

section \<open>Properties\<close>

text \<open>Authority is a ladder: nothing a role may do is denied to a role above it, an action is
  allowed exactly to the roles that carry it, nothing is refused outright, and when approval is
  asked for, the role named is the least one that can give it and is above the actor.\<close>

theorem authorize_least:
  "(authorize actor p = Allowed \<longleftrightarrow> can actor p) \<and> authorize actor p \<noteq> Denied
   \<and> (\<forall>m. authorize actor p = NeedsApproval m \<longrightarrow> can m p \<and> actor < m \<and> (\<forall>r. can r p \<longrightarrow> m \<le> r))
   \<and> (\<forall>r. can actor p \<and> actor \<le> r \<longrightarrow> can r p)"
  unfolding all_roles
  by (cases p; cases actor) (simp_all add: authorize_def less_role_def less_eq_role_def)

lemma authorize_least_witness:
  "authorize Cashier VoidLine = NeedsApproval Manager \<and> can Manager VoidLine \<and> Cashier < Manager"
proof -
  have a: "authorize Cashier VoidLine = NeedsApproval Manager" by code_simp
  with authorize_least [of Cashier VoidLine] show ?thesis by blast
qed

text \<open>C18: an approval names a person enrolled at the outlet, still active, whose role carries the
  permission and whose stored PIN is the one typed; nobody else can be named.\<close>

theorem approval_is_authorised:
  assumes "directory_replay es = Inr d" and "approve ar d p entered = Inr (SignInOk i r)"
  shows "\<exists>m. bt_get d i = Some m \<and> sm_active m \<and> sm_role m = r \<and> can r p
    \<and> verify_pin ar entered (sm_pin_hash m) = Inr True"
proof -
  obtain m where m: "m \<in> set (bt_values d)" "member_can m p" "sm_id m = i" "sm_role m = r"
    "verify_pin ar entered (sm_pin_hash m) = Inr True"
    using approve_among_ok [OF assms(2) [unfolded approve_def]] by auto
  have good: "good_directory d" using assms(1) by (rule directory_replay_good)
  then have "bt_ok d" by (simp add: good_directory_def)
  then obtain k where "bt_get d k = Some m" using m(1) bt_value_iff by metis
  with good m show ?thesis by (auto simp: good_directory_def member_can_def)
qed

definition sample_argon :: "nat list argon" where
  "sample_argon = \<lparr>ar_read = (\<lambda>s. if s = [] then None else Some (map of_char s)), ar_check = (\<lambda>pin h. h = pin),
     ar_hash = (\<lambda>pin _. Some (map char_of pin)), ar_costs = (\<lambda>_. Some (memory_kib, iterations))\<rparr>"

definition sample_staff :: "staff_event list" where
  "sample_staff =
     [Enrolled 1 ''Ana'' Cashier ''2580'' \<lparr>millis = 1\<rparr> 9, Enrolled 2 ''Bo'' Manager ''1470'' \<lparr>millis = 2\<rparr> 9,
      Enrolled 3 ''Cy'' Manager ''3690'' \<lparr>millis = 3\<rparr> 9, Deactivated 2 \<lparr>millis = 4\<rparr> 9]"

lemma approval_is_authorised_witness:
  "\<exists>d m. directory_replay sample_staff = Inr d
     \<and> approve sample_argon d VoidLine [51, 54, 57, 48] = Inr (SignInOk 3 Manager)
     \<and> approve sample_argon d VoidLine [49, 52, 55, 48] = Inr WrongPin
     \<and> bt_get d 3 = Some m \<and> sm_active m"
proof -
  have "map_ok (\<lambda>d. (approve sample_argon d VoidLine [51, 54, 57, 48], approve sample_argon d VoidLine [49, 52, 55, 48]))
      (directory_replay sample_staff) = Inr (Inr (SignInOk 3 Manager), Inr WrongPin)" by code_simp
  then obtain d where d: "directory_replay sample_staff = Inr d"
    "approve sample_argon d VoidLine [51, 54, 57, 48] = Inr (SignInOk 3 Manager)"
    "approve sample_argon d VoidLine [49, 52, 55, 48] = Inr WrongPin"
    by (auto simp: res_simps)
  from approval_is_authorised [OF d(1,2)] d show ?thesis by blast
qed

text \<open>The PINs accepted are exactly those of four to eight digits that are not one digit
  repeated and not a run up or down.\<close>

theorem validate_pin_iff:
  "validate_pin pin = Inr () \<longleftrightarrow>
     4 \<le> length pin \<and> length pin \<le> 8 \<and> (\<forall>c \<in> set pin. 48 \<le> c \<and> c \<le> 57)
     \<and> \<not> (\<exists>c. pin = replicate (length pin) c)
     \<and> \<not> (\<exists>c. pin = [c..<c + length pin]) \<and> \<not> (\<exists>c. pin = rev [c..<c + length pin])"
  by (auto simp: validate_pin_def guessable_shape min_length_def max_length_def is_digit_def list_all_iff)

end
