(* ===== verification/Exceptions.thy ===== *)
theory Exceptions
  imports Staff Shift "HOL-Library.List_Lexorder" "HOL-Library.Char_ord"
begin

text \<open>
  The audit feed (\<open>crates/sahl-core/src/staff/audit.rs\<close>): the lines an owner reads, taken from the
  sale and shift events, ranked, and judged against the role of whoever approved them.
\<close>

datatype severity = Routine | Notable | Alert

fun severity_rank :: "severity \<Rightarrow> int" where
  "severity_rank Routine = 0"
| "severity_rank Notable = 1"
| "severity_rank Alert = 2"

record audit_entry =
  ae_at :: timestamp
  ae_severity :: severity
  ae_kind :: string
  ae_actor :: uuid
  ae_approved_by :: "uuid option"
  ae_amount :: "money option"
  ae_summary :: string

definition is_self_approved :: "audit_entry \<Rightarrow> bool" where
  "is_self_approved e \<longleftrightarrow> ae_approved_by e = Some (ae_actor e)"

fun cash_severity :: "cash_movement_reason \<Rightarrow> severity" where
  "cash_severity Correction = Alert"
| "cash_severity Skim = Notable"
| "cash_severity PettyCash = Notable"
| "cash_severity MovedRefund = Notable"
| "cash_severity FloatTopUp = Routine"

fun cash_label :: "cash_movement_reason \<Rightarrow> string" where
  "cash_label FloatTopUp = ''added to the float''"
| "cash_label Skim = ''lifted to the safe''"
| "cash_label PettyCash = ''paid out as petty cash''"
| "cash_label MovedRefund = ''refunded outside a sale''"
| "cash_label Correction = ''corrected''"

fun void_label :: "void_reason \<Rightarrow> string" where
  "void_label Mistake = ''rung in error''"
| "void_label CustomerChanged = ''customer changed their mind''"
| "void_label Damaged = ''damaged''"
| "void_label Unavailable = ''unavailable''"

fun discount_amount :: "discount \<Rightarrow> money option" where
  "discount_amount (Amount amount) = Some amount"
| "discount_amount (Percentage _) = None"
| "discount_amount DiscountNone = None"

type_synonym attributed = "sale_event \<times> timestamp \<times> uuid"

definition note_line_value :: "(uuid, money) btree \<Rightarrow> attributed \<Rightarrow> (uuid, money) btree" where
  "note_line_value line_values item =
     (case fst item of
        LineAdded _ line_id _ _ unit_price quantity _ modifiers \<Rightarrow>
          let price = foldl (\<lambda>price m.
                case checked_add price (mo_price_delta m) of Inr p \<Rightarrow> p | Inl _ \<Rightarrow> price) unit_price modifiers
          in (case mul_ratio price (milli quantity) milli_per_unit HalfUp of
                Inr v \<Rightarrow> bt_insert line_id v line_values
              | Inl _ \<Rightarrow> line_values)
      | _ \<Rightarrow> line_values)"

definition sale_entry :: "(uuid, money) btree \<Rightarrow> attributed \<Rightarrow> audit_entry option" where
  "sale_entry line_values item =
     (let (ev, at, actor) = item in
      case ev of
        LineVoided _ line_id reason authorized_by \<Rightarrow>
          Some \<lparr>ae_at = at, ae_severity = Notable, ae_kind = ''sale.line_voided'', ae_actor = actor,
                ae_approved_by = Some authorized_by, ae_amount = bt_get line_values line_id,
                ae_summary = ''Line voided ('' @ void_label reason @ '')''\<rparr>
      | OrderDiscounted _ d authorized_by \<Rightarrow>
          Some \<lparr>ae_at = at, ae_severity = Notable, ae_kind = ''sale.order_discounted'', ae_actor = actor,
                ae_approved_by = Some authorized_by, ae_amount = discount_amount d,
                ae_summary = ''Discount applied to a whole sale''\<rparr>
      | Abandoned _ _ \<Rightarrow>
          Some \<lparr>ae_at = at, ae_severity = Routine, ae_kind = ''sale.abandoned'', ae_actor = actor,
                ae_approved_by = None, ae_amount = None,
                ae_summary = ''Ticket abandoned without payment''\<rparr>
      | _ \<Rightarrow> None)"

definition from_sales :: "attributed list \<Rightarrow> audit_entry list" where
  "from_sales events =
     (let line_values = foldl note_line_value [] events
      in List.map_filter (sale_entry line_values) events)"

definition shift_entry :: "shift_event \<times> uuid \<Rightarrow> audit_entry option" where
  "shift_entry item =
     (let (ev, actor) = item in
      case ev of
        CashMoved _ _ amount reason _ authorized_by at \<Rightarrow>
          Some \<lparr>ae_at = at, ae_severity = cash_severity reason, ae_kind = ''shift.cash_moved'',
                ae_actor = actor, ae_approved_by = Some authorized_by, ae_amount = Some amount,
                ae_summary = ''Cash '' @ cash_label reason\<rparr>
      | DrawerCounted _ counted counted_by at \<Rightarrow>
          Some \<lparr>ae_at = at, ae_severity = Routine, ae_kind = ''shift.counted'', ae_actor = counted_by,
                ae_approved_by = None, ae_amount = Some counted, ae_summary = ''Drawer counted''\<rparr>
      | _ \<Rightarrow> None)"

definition from_shifts :: "(shift_event \<times> uuid) list \<Rightarrow> audit_entry list" where
  "from_shifts events = List.map_filter shift_entry events"

definition ranked :: "audit_entry list \<Rightarrow> audit_entry list" where
  "ranked entries =
     sort_key (\<lambda>e. (- severity_rank (ae_severity e), - millis (ae_at e), ae_kind e)) entries"

definition self_approved :: "audit_entry list \<Rightarrow> audit_entry list" where
  "self_approved entries = filter is_self_approved entries"

definition permits :: "role \<Rightarrow> string \<Rightarrow> money option \<Rightarrow> approval_policy \<Rightarrow> bool" where
  "permits r kind amount policy =
     (if kind = ''sale.line_voided'' then
        (case amount of
           None \<Rightarrow> can r VoidLine
         | Some v \<Rightarrow> is_allowed (authorize_void r v policy))
      else if kind = ''sale.order_discounted'' then
        (case amount of
           None \<Rightarrow> can r ApplyDiscount
         | Some v \<Rightarrow> is_allowed (authorize_discount r v policy))
      else if kind = ''shift.cash_moved'' then can r MoveCash
      else True)"

definition unapproved ::
    "audit_entry list \<Rightarrow> (uuid \<Rightarrow> role option) \<Rightarrow> approval_policy \<Rightarrow> audit_entry list" where
  "unapproved entries role_lookup policy =
     filter (\<lambda>e. case role_lookup (ae_actor e) of
         None \<Rightarrow> True
       | Some r \<Rightarrow> \<not> permits r (ae_kind e) (ae_amount e) policy)
       (filter is_self_approved entries)"

section \<open>What the feed says\<close>

definition is_quantity_change :: "attributed \<Rightarrow> bool" where
  "is_quantity_change item = (case fst item of LineQuantityChanged _ _ _ \<Rightarrow> True | _ \<Rightarrow> False)"

lemma quantity_change_unseen:
  assumes "is_quantity_change item"
  shows "note_line_value m item = m" "sale_entry m item = None"
  using assms
  by (cases item; auto simp: is_quantity_change_def note_line_value_def sale_entry_def
      split: sale_event.splits)+

lemma foldl_note_filter:
  "foldl note_line_value m (filter (\<lambda>i. \<not> is_quantity_change i) es) = foldl note_line_value m es"
  by (induction es arbitrary: m) (auto simp: quantity_change_unseen)

lemma map_filter_note_filter:
  "List.map_filter (sale_entry m) (filter (\<lambda>i. \<not> is_quantity_change i) es) = List.map_filter (sale_entry m) es"
  by (induction es) (auto simp: List.map_filter_simps quantity_change_unseen split: option.splits)

section \<open>Properties\<close>

text \<open>One item rung up, its quantity raised to a hundred, then the line voided by the cashier on
  her own authority; voids above 500 need approval.\<close>

definition raised_void :: "attributed list" where
  "raised_void =
     [(Opened 1 7 Bdt TaxInclusive HalfUp, \<lparr>millis = 1\<rparr>, 7),
      (LineAdded 1 11 511 (lit ''Item'') (taka 400) \<lparr>milli = 1000\<rparr> Exempt [], \<lparr>millis = 2\<rparr>, 7),
      (LineQuantityChanged 1 11 \<lparr>milli = 100000\<rparr>, \<lparr>millis = 3\<rparr>, 7),
      (LineVoided 1 11 Mistake 7, \<lparr>millis = 4\<rparr>, 7)]"

definition limit_500 :: approval_policy where
  "limit_500 = \<lparr>ap_discount_limit = taka 0, ap_discount_rate_limit = rate_zero, ap_void_limit = taka 500\<rparr>"

text \<open>The feed values a voided line at the quantity it was first rung up with: changing a
  quantity never changes the feed.  So a cashier who raises a line to a hundred items and voids
  it herself is not reported, although the line was worth far more than she may void.\<close>

theorem audit_ignores_quantity:
  "from_sales (filter (\<lambda>i. \<not> is_quantity_change i) events) = from_sales events
   \<and> (\<exists>s l. sale_replay (map fst (butlast raised_void)) = Inr s \<and> find_line s 11 = Some l
        \<and> line_value l = Inr (taka 40000) \<and> authorize_void Cashier (taka 40000) limit_500 = NeedsApproval Manager
        \<and> map ae_amount (from_sales raised_void) = [Some (taka 400)]
        \<and> unapproved (from_sales raised_void) (\<lambda>_. Some Cashier) limit_500 = [])"
proof -
  have "map_ok (\<lambda>s. map_option line_value (find_line s 11)) (sale_replay (map fst (butlast raised_void)))
      = Inr (Some (Inr (taka 40000)))"
    and a: "authorize_void Cashier (taka 40000) limit_500 = NeedsApproval Manager"
      "map ae_amount (from_sales raised_void) = [Some (taka 400)]"
      "unapproved (from_sales raised_void) (\<lambda>_. Some Cashier) limit_500 = []"
    by code_simp+
  then obtain s l where "sale_replay (map fst (butlast raised_void)) = Inr s" "find_line s 11 = Some l"
    "line_value l = Inr (taka 40000)"
    by (auto simp: res_simps eq_commute [of "Some _"])
  with a show ?thesis by (simp add: from_sales_def foldl_note_filter map_filter_note_filter)
qed

end
