(* ===== verification/Purchasing.thy ===== *)
theory Purchasing
  imports BTree Projection Units
begin

text \<open>
  Purchase orders and stock transfers (\<open>crates/sahl-core/src/purchasing\<close>): documents opened by one
  event, received against in parts, and closed once.
\<close>

section \<open>Events\<close>

record order_line =
  ol_line_id :: uuid
  ol_product_id :: uuid
  ol_quantity :: quantity
  ol_unit_cost :: money

datatype close_reason = Complete | ShortShipped | Cancelled

datatype purchase_event =
    Placed (pu_order_id: uuid) string "string option" "order_line list" "timestamp option" (pu_at: timestamp) uuid
  | LineReceived (pu_order_id: uuid) uuid uuid quantity money (pu_at: timestamp) uuid
  | OrderClosed (pu_order_id: uuid) close_reason (pu_at: timestamp) uuid

record dispatch_line =
  dl_line_id :: uuid
  dl_product_id :: uuid
  dl_batch_id :: uuid
  dl_quantity :: quantity

datatype transfer_event =
    Dispatched (tr_transfer_id: uuid) uuid uuid "dispatch_line list" (tr_at: timestamp) uuid
  | Received (tr_transfer_id: uuid) uuid uuid quantity (tr_at: timestamp) uuid
  | Settled (tr_transfer_id: uuid) (tr_at: timestamp) uuid

definition purchase_order_id :: "purchase_event \<Rightarrow> uuid" where
  "purchase_order_id ev = pu_order_id ev"

definition purchase_at :: "purchase_event \<Rightarrow> timestamp" where
  "purchase_at ev = pu_at ev"

definition transfer_id :: "transfer_event \<Rightarrow> uuid" where
  "transfer_id ev = tr_transfer_id ev"

definition transfer_at :: "transfer_event \<Rightarrow> timestamp" where
  "transfer_at ev = tr_at ev"

fun purchase_kind :: "purchase_event \<Rightarrow> string" where
  "purchase_kind (Placed _ _ _ _ _ _ _) = ''purchase.placed''"
| "purchase_kind (LineReceived _ _ _ _ _ _ _) = ''purchase.line_received''"
| "purchase_kind (OrderClosed _ _ _ _) = ''purchase.closed''"

fun transfer_kind :: "transfer_event \<Rightarrow> string" where
  "transfer_kind (Dispatched _ _ _ _ _ _) = ''transfer.dispatched''"
| "transfer_kind (Received _ _ _ _ _ _) = ''transfer.received''"
| "transfer_kind (Settled _ _ _) = ''transfer.settled''"

section \<open>Purchase orders\<close>

definition extend_cost :: "money \<Rightarrow> quantity \<Rightarrow> money_error + money" where
  "extend_cost unit_cost q = mul_ratio unit_cost (milli q) milli_per_unit HalfUp"

datatype purchase_error =
    PurchaseMoney money_error
  | NotPlaced uuid
  | AlreadyPlaced uuid
  | UnknownOrderLine uuid uuid
  | OrderIsClosed uuid
  | NonPositiveReceipt quantity
  | EmptyOrder

record line_progress =
  lp_line :: order_line
  lp_received :: quantity
  lp_received_value :: money

definition lp_outstanding :: "line_progress \<Rightarrow> money_error + quantity" where
  "lp_outstanding p =
     and_then (quantity_checked_neg (lp_received p)) (\<lambda>n. quantity_checked_add (ol_quantity (lp_line p)) n)"

definition is_fulfilled :: "line_progress \<Rightarrow> money_error + bool" where
  "is_fulfilled p = map_ok (\<lambda>q. \<not> 0 < milli q) (lp_outstanding p)"

datatype order_status = Awaiting | PartlyReceived | FullyReceived | StatusClosed close_reason

record purchase_order =
  po_order_id :: uuid
  po_supplier :: string
  po_reference :: "string option"
  po_expected_at :: "timestamp option"
  po_placed_at :: timestamp
  po_placed_by :: uuid
  po_lines :: "(uuid, line_progress) btree"
  po_closed :: "close_reason option"

definition new_progress :: "order_line \<Rightarrow> line_progress" where
  "new_progress l =
     \<lparr>lp_line = l, lp_received = \<lparr>milli = 0\<rparr>, lp_received_value = from_minor 0 (currency (ol_unit_cost l))\<rparr>"

definition order_placed :: "purchase_event \<Rightarrow> purchase_error + purchase_order" where
  "order_placed ev =
     (case ev of
        Placed order_id supplier refno ls expected_at at placed_by \<Rightarrow>
          (if ls = [] then Inl EmptyOrder
           else Inr \<lparr>po_order_id = order_id, po_supplier = supplier, po_reference = refno,
                     po_expected_at = expected_at, po_placed_at = at, po_placed_by = placed_by,
                     po_lines = bt_collect (map (\<lambda>l. (ol_line_id l, new_progress l)) ls),
                     po_closed = None\<rparr>)
      | _ \<Rightarrow> Inl (NotPlaced (purchase_order_id ev)))"

text \<open>\<open>apply\<close> works on the order in place, so it returns the order as it leaves it: a receipt whose
  value overflows has already counted its quantity.\<close>

definition receive_line ::
    "purchase_order \<Rightarrow> uuid \<Rightarrow> quantity \<Rightarrow> money \<Rightarrow> purchase_order \<times> (purchase_error + unit)" where
  "receive_line o' line_id q unit_cost =
     (if \<not> 0 < milli q then (o', Inl (NonPositiveReceipt q))
      else case bt_get (po_lines o') line_id of
        None \<Rightarrow> (o', Inl (UnknownOrderLine (po_order_id o') line_id))
      | Some p \<Rightarrow>
          (case quantity_checked_add (lp_received p) q of
             Inl e \<Rightarrow> (o', Inl (PurchaseMoney e))
           | Inr received \<Rightarrow>
               let p = p\<lparr>lp_received := received\<rparr>;
                   put = (\<lambda>p. o'\<lparr>po_lines := bt_insert line_id p (po_lines o')\<rparr>)
               in (case and_then (extend_cost unit_cost q) (checked_add (lp_received_value p)) of
                     Inl e \<Rightarrow> (put p, Inl (PurchaseMoney e))
                   | Inr v \<Rightarrow> (put (p\<lparr>lp_received_value := v\<rparr>), Inr ()))))"

definition purchase_apply ::
    "purchase_order \<Rightarrow> purchase_event \<Rightarrow> purchase_order \<times> (purchase_error + unit)" where
  "purchase_apply o' ev =
     (if po_closed o' \<noteq> None then (o', Inl (OrderIsClosed (po_order_id o')))
      else case ev of
        Placed order_id _ _ _ _ _ _ \<Rightarrow> (o', Inl (AlreadyPlaced order_id))
      | LineReceived _ line_id _ q unit_cost _ _ \<Rightarrow> receive_line o' line_id q unit_cost
      | OrderClosed _ reason _ _ \<Rightarrow> (o'\<lparr>po_closed := Some reason\<rparr>, Inr ()))"

definition purchase_step :: "purchase_order \<Rightarrow> purchase_event \<Rightarrow> purchase_error + purchase_order" where
  "purchase_step o' ev = (let (s, r) = purchase_apply o' ev in map_ok (\<lambda>_. s) r)"

definition purchase_replay :: "purchase_event list \<Rightarrow> purchase_error + purchase_order" where
  "purchase_replay events =
     (case events of
        [] \<Rightarrow> Inl EmptyOrder
      | first # rest \<Rightarrow> and_then (order_placed first) (\<lambda>o'. try_fold purchase_step o' rest))"

definition order_lines :: "purchase_order \<Rightarrow> line_progress list" where
  "order_lines o' = bt_values (po_lines o')"

definition status_of_order :: "purchase_order \<Rightarrow> money_error + order_status" where
  "status_of_order o' =
     (case po_closed o' of
        Some reason \<Rightarrow> Inr (StatusClosed reason)
      | None \<Rightarrow>
          and_then (try_map is_fulfilled (order_lines o')) (\<lambda>fulfilled.
          Inr (if list_all (\<lambda>b. b) fulfilled then FullyReceived
               else if list_ex (\<lambda>p. \<not> quantity_is_zero (lp_received p)) (order_lines o') then PartlyReceived
               else Awaiting)))"

definition order_outstanding :: "purchase_order \<Rightarrow> money_error + line_progress list" where
  "order_outstanding o' =
     try_fold (\<lambda>waiting p. map_ok (\<lambda>f. if f then waiting else waiting @ [p]) (is_fulfilled p)) [] (order_lines o')"

definition order_currency :: "purchase_order \<Rightarrow> currency" where
  "order_currency o' =
     (case order_lines o' of [] \<Rightarrow> Bdt | p # _ \<Rightarrow> currency (ol_unit_cost (lp_line p)))"

definition ordered_value :: "purchase_order \<Rightarrow> money_error + money" where
  "ordered_value o' =
     try_fold (\<lambda>total p. and_then (extend_cost (ol_unit_cost (lp_line p)) (ol_quantity (lp_line p))) (checked_add total))
       (from_minor 0 (order_currency o')) (order_lines o')"

definition received_value :: "purchase_order \<Rightarrow> money_error + money" where
  "received_value o' =
     try_fold (\<lambda>total p. checked_add total (lp_received_value p))
       (from_minor 0 (order_currency o')) (order_lines o')"

definition price_discrepancies :: "purchase_order \<Rightarrow> money_error + line_progress list" where
  "price_discrepancies o' =
     try_fold (\<lambda>found p.
        if quantity_is_zero (lp_received p) then Inr found
        else map_ok (\<lambda>expected. if expected \<noteq> lp_received_value p then found @ [p] else found)
               (extend_cost (ol_unit_cost (lp_line p)) (lp_received p))) [] (order_lines o')"

definition order_line_of :: "purchase_order \<Rightarrow> uuid \<Rightarrow> line_progress option" where
  "order_line_of o' line_id = bt_get (po_lines o') line_id"

section \<open>Transfers\<close>

datatype transfer_error =
    TransferMoney money_error
  | NotDispatched uuid
  | AlreadyDispatched uuid
  | UnknownTransferLine uuid uuid
  | TransferSettled uuid
  | NonPositiveArrival quantity
  | EmptyTransfer
  | SameOutlet

record line_transit =
  lr_line :: dispatch_line
  lr_received :: quantity

definition shortfall :: "line_transit \<Rightarrow> money_error + quantity" where
  "shortfall t =
     and_then (quantity_checked_neg (lr_received t)) (\<lambda>n. quantity_checked_add (dl_quantity (lr_line t)) n)"

definition is_arrived :: "line_transit \<Rightarrow> money_error + bool" where
  "is_arrived t = map_ok (\<lambda>q. \<not> 0 < milli q) (shortfall t)"

datatype transfer_status = InTransit | PartlyArrived | Arrived | SettledAt bool

record transfer =
  tf_id :: uuid
  tf_from :: uuid
  tf_to :: uuid
  tf_dispatched_at :: timestamp
  tf_dispatched_by :: uuid
  tf_lines :: "(uuid, line_transit) btree"
  tf_settled :: bool

definition transfer_dispatched :: "transfer_event \<Rightarrow> transfer_error + transfer" where
  "transfer_dispatched ev =
     (case ev of
        Dispatched tid from_outlet to_outlet ls at dispatched_by \<Rightarrow>
          (if ls = [] then Inl EmptyTransfer
           else if from_outlet = to_outlet then Inl SameOutlet
           else Inr \<lparr>tf_id = tid, tf_from = from_outlet, tf_to = to_outlet, tf_dispatched_at = at,
                     tf_dispatched_by = dispatched_by,
                     tf_lines = bt_collect (map (\<lambda>l. (dl_line_id l, \<lparr>lr_line = l, lr_received = \<lparr>milli = 0\<rparr>\<rparr>)) ls),
                     tf_settled = False\<rparr>)
      | _ \<Rightarrow> Inl (NotDispatched (transfer_id ev)))"

definition transfer_apply :: "transfer \<Rightarrow> transfer_event \<Rightarrow> transfer_error + transfer" where
  "transfer_apply t ev =
     (if tf_settled t then Inl (TransferSettled (tf_id t))
      else case ev of
        Dispatched tid _ _ _ _ _ \<Rightarrow> Inl (AlreadyDispatched tid)
      | Received _ line_id _ q _ _ \<Rightarrow>
          (if \<not> 0 < milli q then Inl (NonPositiveArrival q)
           else
             and_then (ok_or (UnknownTransferLine (tf_id t) line_id) (bt_get (tf_lines t) line_id)) (\<lambda>l.
             and_then (map_err TransferMoney (quantity_checked_add (lr_received l) q)) (\<lambda>received.
             Inr (t\<lparr>tf_lines := bt_insert line_id (l\<lparr>lr_received := received\<rparr>) (tf_lines t)\<rparr>))))
      | Settled _ _ _ \<Rightarrow> Inr (t\<lparr>tf_settled := True\<rparr>))"

definition transfer_replay :: "transfer_event list \<Rightarrow> transfer_error + transfer" where
  "transfer_replay events =
     (case events of
        [] \<Rightarrow> Inl EmptyTransfer
      | first # rest \<Rightarrow> and_then (transfer_dispatched first) (\<lambda>t. try_fold transfer_apply t rest))"

definition transfer_lines :: "transfer \<Rightarrow> line_transit list" where
  "transfer_lines t = bt_values (tf_lines t)"

definition status_of_transfer :: "transfer \<Rightarrow> money_error + transfer_status" where
  "status_of_transfer t =
     and_then (try_map is_arrived (transfer_lines t)) (\<lambda>arrived.
     let all_arrived = list_all (\<lambda>b. b) arrived;
         any_received = list_ex (\<lambda>l. \<not> quantity_is_zero (lr_received l)) (transfer_lines t)
     in Inr (if tf_settled t then SettledAt (\<not> all_arrived)
             else if all_arrived then Arrived
             else if any_received then PartlyArrived
             else InTransit))"

definition in_transit :: "transfer \<Rightarrow> money_error + (line_transit \<times> quantity) list" where
  "in_transit t =
     try_fold (\<lambda>outstanding l.
        map_ok (\<lambda>short. if 0 < milli short then outstanding @ [(l, short)] else outstanding) (shortfall l))
       [] (transfer_lines t)"

fun over_received :: "line_transit list \<Rightarrow> money_error + bool" where
  "over_received [] = Inr False"
| "over_received (l # ls) =
     and_then (shortfall l) (\<lambda>short. if quantity_is_negative short then Inr True else over_received ls)"

definition has_over_receipt :: "transfer \<Rightarrow> money_error + bool" where
  "has_over_receipt t = over_received (transfer_lines t)"

definition transfer_line_of :: "transfer \<Rightarrow> uuid \<Rightarrow> line_transit option" where
  "transfer_line_of t line_id = bt_get (tf_lines t) line_id"

section \<open>What a document keeps\<close>

lemma purchase_step_cases:
  "purchase_step o' ev = Inr o'' \<longleftrightarrow> po_closed o' = None \<and>
     (case ev of
        Placed _ _ _ _ _ _ _ \<Rightarrow> False
      | LineReceived _ k _ q u _ _ \<Rightarrow>
          \<exists>p r v w. 0 < milli q \<and> bt_get (po_lines o') k = Some p \<and> quantity_checked_add (lp_received p) q = Inr r
            \<and> extend_cost u q = Inr v \<and> checked_add (lp_received_value p) v = Inr w
            \<and> o'' = o'\<lparr>po_lines := bt_insert k (p\<lparr>lp_received := r, lp_received_value := w\<rparr>) (po_lines o')\<rparr>
      | OrderClosed _ reason _ _ \<Rightarrow> o'' = o'\<lparr>po_closed := Some reason\<rparr>)"
  by (cases ev)
    (auto simp: purchase_step_def purchase_apply_def receive_line_def Let_def and_then_def
      split: option.splits sum.splits)

definition good_progress :: "uuid \<Rightarrow> line_progress \<Rightarrow> bool" where
  "good_progress k p \<longleftrightarrow> ol_line_id (lp_line p) = k \<and> 0 \<le> milli (lp_received p) \<and> in_i64 (milli (lp_received p))
     \<and> currency (lp_received_value p) = currency (ol_unit_cost (lp_line p))"

definition good_order :: "purchase_order \<Rightarrow> bool" where
  "good_order o' \<longleftrightarrow> bt_ok (po_lines o') \<and> (\<forall>k p. bt_get (po_lines o') k = Some p \<longrightarrow> good_progress k p)"

definition order_keeps :: "purchase_order \<Rightarrow> purchase_order \<Rightarrow> bool" where
  "order_keeps o' o'' \<longleftrightarrow>
     po_order_id o'' = po_order_id o' \<and> po_supplier o'' = po_supplier o' \<and> po_placed_at o'' = po_placed_at o'
     \<and> po_placed_by o'' = po_placed_by o' \<and> (po_closed o' \<noteq> None \<longrightarrow> o'' = o')
     \<and> (\<forall>k p. bt_get (po_lines o') k = Some p \<longrightarrow> (\<exists>p'. bt_get (po_lines o'') k = Some p'
          \<and> lp_line p' = lp_line p \<and> milli (lp_received p) \<le> milli (lp_received p')))"

lemma purchase_step_good:
  assumes "good_order o'" and "purchase_step o' ev = Inr o''"
  shows "good_order o''"
  using assms
  by (cases ev) (auto simp: purchase_step_cases good_order_def good_progress_def res_simps split: if_split_asm)

lemma purchase_step_keeps: "purchase_step o' ev = Inr o'' \<Longrightarrow> order_keeps o' o''"
  by (cases ev) (auto simp: purchase_step_cases order_keeps_def res_simps)

lemma order_keeps_refl: "order_keeps o' o'"
  by (simp add: order_keeps_def)

lemma order_keeps_trans:
  assumes "order_keeps a b" and "order_keeps b c"
  shows "order_keeps a c"
proof -
  have "\<exists>p''. bt_get (po_lines c) k = Some p'' \<and> lp_line p'' = lp_line p
      \<and> milli (lp_received p) \<le> milli (lp_received p'')" if k: "bt_get (po_lines a) k = Some p" for k p
  proof -
    obtain p' where p': "bt_get (po_lines b) k = Some p'" "lp_line p' = lp_line p"
      "milli (lp_received p) \<le> milli (lp_received p')"
      using assms(1) k unfolding order_keeps_def by blast
    obtain p'' where "bt_get (po_lines c) k = Some p''" "lp_line p'' = lp_line p'"
      "milli (lp_received p') \<le> milli (lp_received p'')"
      using assms(2) p'(1) unfolding order_keeps_def by blast
    with p' show ?thesis by auto
  qed
  with assms show ?thesis by (simp add: order_keeps_def)
qed

interpretation order_log: evidence_log purchase_step good_order order_keeps
  by unfold_locales
    (blast intro: purchase_step_good order_keeps_refl order_keeps_trans purchase_step_keeps)+

definition received_at :: "purchase_order \<Rightarrow> uuid \<Rightarrow> int" where
  "received_at o' k = (case bt_get (po_lines o') k of None \<Rightarrow> 0 | Some p \<Rightarrow> milli (lp_received p))"

definition charged_at :: "purchase_order \<Rightarrow> uuid \<Rightarrow> int" where
  "charged_at o' k = (case bt_get (po_lines o') k of None \<Rightarrow> 0 | Some p \<Rightarrow> minor (lp_received_value p))"

fun receipt_quantity :: "uuid \<Rightarrow> purchase_event \<Rightarrow> int" where
  "receipt_quantity k (LineReceived _ j _ q _ _ _) = (if j = k then milli q else 0)"
| "receipt_quantity k _ = 0"

fun receipt_cost :: "uuid \<Rightarrow> purchase_event \<Rightarrow> int" where
  "receipt_cost k (LineReceived _ j _ q u _ _) =
     (if j = k then (case extend_cost u q of Inr v \<Rightarrow> minor v | Inl _ \<Rightarrow> 0) else 0)"
| "receipt_cost k _ = 0"

interpretation order_quantity: accounted purchase_step good_order received_at receipt_quantity
proof
  fix o' e o'' k
  show "received_at o'' k = received_at o' k + receipt_quantity k e" if "purchase_step o' e = Inr o''"
    using that by (cases e) (auto simp: purchase_step_cases received_at_def res_simps)
qed

interpretation order_cost: accounted purchase_step good_order charged_at receipt_cost
proof
  fix o' e o'' k
  show "charged_at o'' k = charged_at o' k + receipt_cost k e" if "purchase_step o' e = Inr o''"
    using that by (cases e) (auto simp: purchase_step_cases charged_at_def res_simps)
qed

lemma order_placed_good: "order_placed e = Inr o' \<Longrightarrow> good_order o'"
  by (auto simp: order_placed_def good_order_def good_progress_def new_progress_def from_minor_def
      split: purchase_event.splits if_splits dest!: collected_line)

lemma order_placed_levels:
  "order_placed e = Inr o' \<Longrightarrow> received_at o' k = 0 \<and> charged_at o' k = 0"
  by (auto simp: order_placed_def received_at_def charged_at_def new_progress_def from_minor_def
      split: purchase_event.splits if_splits option.splits dest!: collected_line)

fun receipt_charge :: "purchase_event \<Rightarrow> int" where
  "receipt_charge (LineReceived _ _ _ q u _ _) = (case extend_cost u q of Inr v \<Rightarrow> minor v | Inl _ \<Rightarrow> 0)"
| "receipt_charge _ = 0"

definition charged_in_all :: "purchase_order \<Rightarrow> unit \<Rightarrow> int" where
  "charged_in_all o' _ = (\<Sum>p\<leftarrow>order_lines o'. minor (lp_received_value p))"

interpretation order_total: accounted purchase_step good_order charged_in_all "\<lambda>_. receipt_charge"
proof
  fix o' e o'' k
  show "charged_in_all o'' k = charged_in_all o' k + receipt_charge e"
    if "good_order o'" "purchase_step o' e = Inr o''"
    using that
    by (cases e) (auto simp: purchase_step_cases charged_in_all_def order_lines_def good_order_def bt_sum_replace res_simps)
qed

lemma order_placed_total:
  assumes "order_placed e = Inr o'"
  shows "charged_in_all o' u = 0"
proof -
  have "minor (lp_received_value p) = 0" if p: "p \<in> set (order_lines o')" for p
  proof -
    obtain k where "bt_get (po_lines o') k = Some p"
      using order_placed_good [OF assms] p bt_value_iff [of "po_lines o'" p]
      by (auto simp: good_order_def order_lines_def)
    then show ?thesis using order_placed_levels [OF assms, of k] by (simp add: charged_at_def)
  qed
  then have "map (\<lambda>p. minor (lp_received_value p)) (order_lines o') = map (\<lambda>_. 0) (order_lines o')" by simp
  then show ?thesis by (simp add: charged_in_all_def del: map_eq_conv)
qed

lemma purchase_replay_Cons:
  "purchase_replay (e # es) = Inr o' \<longleftrightarrow> (\<exists>s. order_placed e = Inr s \<and> try_fold purchase_step s es = Inr o')"
  by (simp add: purchase_replay_def res_simps)

lemma purchase_replay_good: "purchase_replay es = Inr o' \<Longrightarrow> good_order o'"
  by (cases es) (auto simp: purchase_replay_Cons intro: order_placed_good order_log.run_good,
      simp add: purchase_replay_def)

lemma extend_exact:
  assumes "extend_cost u q = Inr v" and "milli q = n * 1000"
  shows "minor v = minor u * n" and "currency v = currency u"
proof -
  have r: "rounds_to HalfUp (minor u * milli q) 1000 (minor v)" "currency v = currency u"
    using mul_ratio_Inr [OF assms(1) [unfolded extend_cost_def milli_per_unit_def]] by simp_all
  then show "minor v = minor u * n" "currency v = currency u"
    using rounds_to_between [OF r(1), of "minor u * n"] assms(2) by (auto intro: antisym)
qed

lemma flagged_line:
  assumes "try_fold (\<lambda>found p. if quantity_is_zero (lp_received p) then Inr found
      else map_ok (\<lambda>expected. if expected \<noteq> lp_received_value p then found @ [p] else found)
             (extend_cost (ol_unit_cost (lp_line p)) (lp_received p))) acc ps = Inr ds" and "p \<in> set ds"
  shows "p \<in> set acc \<or> (\<exists>v. extend_cost (ol_unit_cost (lp_line p)) (lp_received p) = Inr v \<and> v \<noteq> lp_received_value p)"
  using assms by (induction ps arbitrary: acc) (fastforce simp: res_simps split: if_splits)+

lemma whole_receipt_sums:
  assumes "try_fold purchase_step s es = Inr o'"
    and "\<forall>x \<in> set es. \<forall>i b q u' a r. x = LineReceived i k b q u' a r \<longrightarrow> u' = u \<and> 1000 dvd milli q"
  shows "(\<Sum>x\<leftarrow>es. receipt_cost k x) = minor u * ((\<Sum>x\<leftarrow>es. receipt_quantity k x) div 1000)
    \<and> 1000 dvd (\<Sum>x\<leftarrow>es. receipt_quantity k x)"
  using assms
proof (induction es arbitrary: s)
  case (Cons x es)
  then obtain m where m: "purchase_step s x = Inr m" "try_fold purchase_step m es = Inr o'"
    by (auto simp: res_simps)
  have ih: "(\<Sum>x\<leftarrow>es. receipt_cost k x) = minor u * ((\<Sum>x\<leftarrow>es. receipt_quantity k x) div 1000)
    \<and> 1000 dvd (\<Sum>x\<leftarrow>es. receipt_quantity k x)"
    using Cons.IH [OF m(2)] Cons.prems(2) by simp
  have "receipt_cost k x = minor u * (receipt_quantity k x div 1000) \<and> 1000 dvd receipt_quantity k x"
  proof (cases "receipt_quantity k x = 0 \<and> receipt_cost k x = 0")
    case False
    then obtain i b q u' a r where x: "x = LineReceived i k b q u' a r"
      by (cases x) (auto split: if_splits)
    with Cons.prems(2) have u: "u' = u" "1000 dvd milli q" by auto
    then obtain n where n: "milli q = n * 1000" by (auto elim: dvdE simp: mult.commute)
    obtain v where v: "extend_cost u q = Inr v" using m(1) x u(1) by (auto simp: purchase_step_cases)
    from extend_exact [OF v n] n v u(1) x show ?thesis by simp
  qed simp
  with ih show ?case by (auto simp: algebra_simps elim!: dvdE)
qed simp

lemma order_line_sums:
  assumes "purchase_replay (e # es) = Inr o'" and "bt_get (po_lines o') k = Some p"
  shows "milli (lp_received p) = (\<Sum>x\<leftarrow>es. receipt_quantity k x)"
    and "minor (lp_received_value p) = (\<Sum>x\<leftarrow>es. receipt_cost k x)"
proof -
  obtain s where s: "order_placed e = Inr s" and run: "try_fold purchase_step s es = Inr o'"
    using assms(1) by (auto simp: purchase_replay_Cons)
  note good = order_placed_good [OF s]
  show "milli (lp_received p) = (\<Sum>x\<leftarrow>es. receipt_quantity k x)"
    using order_quantity.run_level [OF run good, of k] order_placed_levels [OF s, of k] assms(2)
    by (simp add: received_at_def)
  show "minor (lp_received_value p) = (\<Sum>x\<leftarrow>es. receipt_cost k x)"
    using order_cost.run_level [OF run good, of k] order_placed_levels [OF s, of k] assms(2)
    by (simp add: charged_at_def)
qed

section \<open>Properties\<close>

text \<open>C19: an order's book is exact: what a line has received and been charged is the sum of its
  receipts, each charged at its own rounded price; its outstanding quantity is what was ordered
  less that; and the order's received value is the sum over all its receipts.\<close>

theorem purchase_accounted:
  assumes "purchase_replay (e # es) = Inr o'"
  shows "(\<forall>k p. bt_get (po_lines o') k = Some p \<longrightarrow>
        milli (lp_received p) = (\<Sum>x\<leftarrow>es. receipt_quantity k x)
        \<and> minor (lp_received_value p) = (\<Sum>x\<leftarrow>es. receipt_cost k x)
        \<and> (\<forall>q. lp_outstanding p = Inr q \<longrightarrow>
             milli q = milli (ol_quantity (lp_line p)) - (\<Sum>x\<leftarrow>es. receipt_quantity k x)))
    \<and> (\<forall>v. received_value o' = Inr v \<longrightarrow> minor v = (\<Sum>x\<leftarrow>es. receipt_charge x))"
proof -
  obtain s where s: "order_placed e = Inr s" and run: "try_fold purchase_step s es = Inr o'"
    using assms by (auto simp: purchase_replay_Cons)
  note good = order_placed_good [OF s]
  have "minor v = charged_in_all o' ()" if "received_value o' = Inr v" for v
    using try_sum_fold [of "from_minor 0 (order_currency o')" "map lp_received_value (order_lines o')" v] that
    by (simp add: received_value_def charged_in_all_def from_minor_def try_fold_map comp_def)
  with order_total.run_level [OF run good, of "()"] order_placed_total [OF s, of "()"]
  have "minor v = (\<Sum>x\<leftarrow>es. receipt_charge x)" if "received_value o' = Inr v" for v
    using that by simp
  with order_line_sums [OF assms] show ?thesis by (auto simp: lp_outstanding_def res_simps)
qed

definition sample_order_line :: "uuid \<Rightarrow> int \<Rightarrow> int \<Rightarrow> order_line" where
  "sample_order_line n q cost =
     \<lparr>ol_line_id = n, ol_product_id = n + 100, ol_quantity = \<lparr>milli = q\<rparr>, ol_unit_cost = taka cost\<rparr>"

definition sample_receipt :: "uuid \<Rightarrow> int \<Rightarrow> int \<Rightarrow> purchase_event" where
  "sample_receipt n q cost = LineReceived 1 n (n + 900) \<lparr>milli = q\<rparr> (taka cost) \<lparr>millis = 3\<rparr> 7"

definition sample_placed :: purchase_event where
  "sample_placed = Placed 1 ''Karim Traders'' None [sample_order_line 11 10000 4000, sample_order_line 12 1000 333]
     None \<lparr>millis = 0\<rparr> 7"

definition sample_receipts :: "purchase_event list" where
  "sample_receipts = [sample_receipt 11 6000 4000, sample_receipt 12 500 333, sample_receipt 11 5000 4100,
     sample_receipt 12 500 333]"

lemma sample_purchase_ok:
  "\<exists>o' p p'. purchase_replay (sample_placed # sample_receipts) = Inr o'
     \<and> bt_get (po_lines o') 11 = Some p \<and> milli (lp_received p) = 11000
     \<and> bt_get (po_lines o') 12 = Some p' \<and> lp_line p' = sample_order_line 12 1000 333
     \<and> lp_received p' = \<lparr>milli = 1000\<rparr> \<and> lp_received_value p' = taka 334
     \<and> price_discrepancies o' = Inr [p, p'] \<and> received_value o' = Inr (taka 44834)"
proof -
  have "map_ok (\<lambda>o'. (map_option (milli \<circ> lp_received) (bt_get (po_lines o') 11),
        map_option (\<lambda>p. (lp_line p, lp_received p, lp_received_value p)) (bt_get (po_lines o') 12),
        price_discrepancies o' = Inr (map the [bt_get (po_lines o') 11, bt_get (po_lines o') 12]),
        received_value o')) (purchase_replay (sample_placed # sample_receipts))
    = Inr (Some 11000, Some (sample_order_line 12 1000 333, \<lparr>milli = 1000\<rparr>, taka 334), True, Inr (taka 44834))"
    by code_simp
  then obtain o' where o': "purchase_replay (sample_placed # sample_receipts) = Inr o'"
    "map_option (milli \<circ> lp_received) (bt_get (po_lines o') 11) = Some 11000"
    "map_option (\<lambda>p. (lp_line p, lp_received p, lp_received_value p)) (bt_get (po_lines o') 12)
      = Some (sample_order_line 12 1000 333, \<lparr>milli = 1000\<rparr>, taka 334)"
    "price_discrepancies o' = Inr (map the [bt_get (po_lines o') 11, bt_get (po_lines o') 12])"
    "received_value o' = Inr (taka 44834)"
    by (auto simp only: map_ok_Inr_iff prod.inject)
  then show ?thesis by (auto simp: map_option_eq_Some)
qed

lemma purchase_accounted_witness:
  "\<exists>o' p v. purchase_replay (sample_placed # sample_receipts) = Inr o' \<and> bt_get (po_lines o') 11 = Some p
     \<and> received_value o' = Inr v \<and> milli (lp_received p) = (\<Sum>x\<leftarrow>sample_receipts. receipt_quantity 11 x)
     \<and> minor v = (\<Sum>x\<leftarrow>sample_receipts. receipt_charge x)"
proof -
  obtain o' p where o': "purchase_replay (sample_placed # sample_receipts) = Inr o'"
    "bt_get (po_lines o') 11 = Some p" "received_value o' = Inr (taka 44834)"
    using sample_purchase_ok by (elim exE conjE) (rule that)
  from purchase_accounted [OF o'(1)] o' show ?thesis
    by (intro exI [of _ o'] exI [of _ p] exI [of _ "taka 44834"]) simp
qed

text \<open>While an order is open and no line was ordered in a negative quantity, its status is always
  known: fully received exactly when every line has at least what was ordered, awaiting exactly
  when nothing at all has come and something is due; and the lines reported outstanding are
  exactly those still short, in key order.\<close>

theorem order_status_correct:
  assumes "purchase_replay es = Inr o'" and "po_closed o' = None"
    and "\<And>p. p \<in> set (order_lines o') \<Longrightarrow> 0 \<le> milli (ol_quantity (lp_line p)) \<and> in_i64 (milli (ol_quantity (lp_line p)))"
  shows "\<exists>st. status_of_order o' = Inr st
    \<and> (st = FullyReceived \<longleftrightarrow> (\<forall>p \<in> set (order_lines o'). milli (ol_quantity (lp_line p)) \<le> milli (lp_received p)))
    \<and> (st = Awaiting \<longleftrightarrow> (\<forall>p \<in> set (order_lines o'). milli (lp_received p) = 0)
         \<and> (\<exists>p \<in> set (order_lines o'). 0 < milli (ol_quantity (lp_line p))))
    \<and> order_outstanding o' =
        Inr (filter (\<lambda>p. milli (lp_received p) < milli (ol_quantity (lp_line p))) (order_lines o'))"
proof -
  let ?P = "\<lambda>p. milli (ol_quantity (lp_line p)) \<le> milli (lp_received p)"
  note good = purchase_replay_good [OF assms(1)]
  have ok: "is_fulfilled p = Inr (?P p)" and pos: "0 \<le> milli (lp_received p)" if "p \<in> set (order_lines o')" for p
  proof -
    have p: "0 \<le> milli (lp_received p)" "in_i64 (milli (lp_received p))"
      using good that bt_value_iff [of "po_lines o'" p]
      by (auto simp: good_order_def order_lines_def good_progress_def)
    with assms(3) [OF that] have "in_i64 (- milli (lp_received p))"
      "in_i64 (milli (ol_quantity (lp_line p)) - milli (lp_received p))" by (auto simp: in_i64_def)
    then show "is_fulfilled p = Inr (?P p)" "0 \<le> milli (lp_received p)" using p
      by (auto simp: is_fulfilled_def lp_outstanding_def quantity_checked_neg_def quantity_checked_add_def fit_def)
  qed
  have "status_of_order o' = Inr (if list_all ?P (order_lines o') then FullyReceived
      else if list_ex (\<lambda>p. \<not> quantity_is_zero (lp_received p)) (order_lines o') then PartlyReceived else Awaiting)"
    using try_map_all_ok [of "order_lines o'" is_fulfilled ?P] ok assms(2)
    by (simp add: status_of_order_def list.pred_map comp_def)
  moreover have "order_outstanding o' = Inr (filter (\<lambda>p. \<not> ?P p) (order_lines o'))"
    using try_fold_filter [of "order_lines o'" is_fulfilled ?P "[]"] ok by (simp add: order_outstanding_def)
  moreover have "(\<exists>p \<in> set (order_lines o'). 0 < milli (ol_quantity (lp_line p))) \<longleftrightarrow> \<not> list_all ?P (order_lines o')"
    if "\<forall>p \<in> set (order_lines o'). milli (lp_received p) = 0"
    using that by (auto simp: list_all_iff not_le)
  ultimately show ?thesis
    by (auto simp: list_all_iff list_ex_iff quantity_is_zero_def not_le)
qed

lemma order_status_correct_witness:
  "\<exists>o' st. purchase_replay [sample_placed, sample_receipt 11 6000 4000] = Inr o' \<and> status_of_order o' = Inr st
     \<and> st \<noteq> FullyReceived \<and> st \<noteq> Awaiting"
proof -
  have "map_ok (\<lambda>o'. (po_closed o', map (\<lambda>p. (milli (ol_quantity (lp_line p)), milli (lp_received p))) (order_lines o')))
      (purchase_replay [sample_placed, sample_receipt 11 6000 4000]) = Inr (None, [(10000, 6000), (1000, 0)])"
    by code_simp
  then obtain o' where o': "purchase_replay [sample_placed, sample_receipt 11 6000 4000] = Inr o'" "po_closed o' = None"
    "map (\<lambda>p. (milli (ol_quantity (lp_line p)), milli (lp_received p))) (order_lines o') = [(10000, 6000), (1000, 0)]"
    by (simp only: map_ok_Inr_iff prod.inject) (elim exE conjE, rule that, (assumption | erule sym)+)
  then obtain p p' where l: "order_lines o' = [p, p']" "milli (ol_quantity (lp_line p)) = 10000"
    "milli (lp_received p) = 6000" "milli (ol_quantity (lp_line p')) = 1000"
    by (auto simp: map_eq_Cons_conv)
  have "0 \<le> milli (ol_quantity (lp_line x)) \<and> in_i64 (milli (ol_quantity (lp_line x)))"
    if "x \<in> set (order_lines o')" for x
    using that l by (auto simp: in_i64_def)
  from order_status_correct [OF o'(1,2) this] o'(1) l show ?thesis by auto
qed

text \<open>A line that is delivered in whole units at the price it was ordered at is never flagged; but
  one delivered in fractions is flagged without any change of price, because each part delivery
  is rounded on its own: two halves of a unit at 333 cost 334.\<close>

theorem price_flag_fractions:
  assumes run: "purchase_replay (e # es) = Inr o'" and p: "bt_get (po_lines o') k = Some p"
    and whole: "\<forall>x \<in> set es. \<forall>i b q u a r. x = LineReceived i k b q u a r
      \<longrightarrow> u = ol_unit_cost (lp_line p) \<and> 1000 dvd milli q"
    and ds: "price_discrepancies o' = Inr ds"
  shows "p \<notin> set ds
   \<and> (\<exists>o' p ds. purchase_replay (sample_placed # sample_receipts) = Inr o' \<and> bt_get (po_lines o') 12 = Some p
        \<and> filter (\<lambda>x. receipt_quantity 12 x \<noteq> 0) sample_receipts = [sample_receipt 12 500 333, sample_receipt 12 500 333]
        \<and> ol_unit_cost (lp_line p) = taka 333 \<and> price_discrepancies o' = Inr ds \<and> p \<in> set ds)"
proof (rule conjI; (rule notI)?)
  assume flag: "p \<in> set ds"
  obtain v where v: "extend_cost (ol_unit_cost (lp_line p)) (lp_received p) = Inr v" "v \<noteq> lp_received_value p"
    using flagged_line [OF ds [unfolded price_discrepancies_def] flag] by auto
  obtain s where run': "try_fold purchase_step s es = Inr o'" using run by (auto simp: purchase_replay_Cons)
  have sums: "milli (lp_received p) = (\<Sum>x\<leftarrow>es. receipt_quantity k x)"
    "minor (lp_received_value p) = (\<Sum>x\<leftarrow>es. receipt_cost k x)"
    using order_line_sums [OF run p] by simp_all
  have "(\<Sum>x\<leftarrow>es. receipt_cost k x) = minor (ol_unit_cost (lp_line p)) * ((\<Sum>x\<leftarrow>es. receipt_quantity k x) div 1000)
      \<and> 1000 dvd (\<Sum>x\<leftarrow>es. receipt_quantity k x)"
    by (rule whole_receipt_sums [OF run' whole])
  then obtain n where n: "milli (lp_received p) = n * 1000" "minor (lp_received_value p) = minor (ol_unit_cost (lp_line p)) * n"
    using sums by (auto elim!: dvdE simp: mult.commute)
  have "good_progress k p" using purchase_replay_good [OF run] p by (simp add: good_order_def)
  with extend_exact [OF v(1) n(1)] n(2) v(2) show False by (simp add: good_progress_def money_eq_iff)
next
  show "\<exists>o' p ds. purchase_replay (sample_placed # sample_receipts) = Inr o' \<and> bt_get (po_lines o') 12 = Some p
        \<and> filter (\<lambda>x. receipt_quantity 12 x \<noteq> 0) sample_receipts = [sample_receipt 12 500 333, sample_receipt 12 500 333]
        \<and> ol_unit_cost (lp_line p) = taka 333 \<and> price_discrepancies o' = Inr ds \<and> p \<in> set ds"
    using sample_purchase_ok by (fastforce simp: sample_receipts_def sample_receipt_def sample_order_line_def)
qed

lemma price_flag_fractions_witness:
  "\<exists>o' p. purchase_replay [sample_placed, sample_receipt 11 6000 4000, sample_receipt 11 2000 4000] = Inr o'
     \<and> bt_get (po_lines o') 11 = Some p \<and> price_discrepancies o' = Inr [] \<and> p \<notin> set []"
proof -
  let ?es = "[sample_receipt 11 6000 4000, sample_receipt 11 2000 4000]"
  have "map_ok (\<lambda>o'. (map_option lp_line (bt_get (po_lines o') 11), price_discrepancies o'))
      (purchase_replay (sample_placed # ?es)) = Inr (Some (sample_order_line 11 10000 4000), Inr [])"
    by code_simp
  then obtain o' where o': "purchase_replay (sample_placed # ?es) = Inr o'"
    "map_option lp_line (bt_get (po_lines o') 11) = Some (sample_order_line 11 10000 4000)"
    "price_discrepancies o' = Inr []"
    by (simp only: map_ok_Inr_iff prod.inject) (elim exE conjE, rule that, (assumption | erule sym)+)
  then obtain p where p: "bt_get (po_lines o') 11 = Some p" "lp_line p = sample_order_line 11 10000 4000"
    by auto
  have "\<forall>x \<in> set ?es. \<forall>i b q u a r. x = LineReceived i 11 b q u a r
      \<longrightarrow> u = ol_unit_cost (lp_line p) \<and> 1000 dvd milli q"
    using p(2) by (auto simp: sample_receipt_def sample_order_line_def)
  from price_flag_fractions [OF o'(1) p(1) this o'(3)] o' p show ?thesis by blast
qed

section \<open>Transfers keep their stock in sight\<close>

definition good_transfer :: "transfer \<Rightarrow> bool" where
  "good_transfer t \<longleftrightarrow> bt_ok (tf_lines t) \<and> tf_from t \<noteq> tf_to t \<and> (\<forall>k l. bt_get (tf_lines t) k = Some l \<longrightarrow>
     dl_line_id (lr_line l) = k \<and> 0 \<le> milli (lr_received l) \<and> in_i64 (milli (lr_received l)))"

lemma transfer_apply_good:
  assumes "good_transfer t" and "transfer_apply t e = Inr t'"
  shows "good_transfer t'"
  using assms by (cases e) (auto simp: transfer_apply_def good_transfer_def res_simps split: if_split_asm)

definition arrived_at :: "transfer \<Rightarrow> uuid \<Rightarrow> int" where
  "arrived_at t k = (case bt_get (tf_lines t) k of None \<Rightarrow> 0 | Some l \<Rightarrow> milli (lr_received l))"

fun arrival_quantity :: "uuid \<Rightarrow> transfer_event \<Rightarrow> int" where
  "arrival_quantity k (Received _ j _ q _ _) = (if j = k then milli q else 0)"
| "arrival_quantity k _ = 0"

interpretation transfer_account: accounted transfer_apply good_transfer arrived_at arrival_quantity
proof
  fix t e t' k
  show "good_transfer t \<Longrightarrow> transfer_apply t e = Inr t' \<Longrightarrow> good_transfer t'" by (rule transfer_apply_good)
  show "arrived_at t' k = arrived_at t k + arrival_quantity k e" if "transfer_apply t e = Inr t'"
    using that by (cases e) (auto simp: transfer_apply_def arrived_at_def res_simps split: if_split_asm)
qed

lemma transfer_dispatched_good: "transfer_dispatched e = Inr t \<Longrightarrow> good_transfer t"
  by (auto simp: transfer_dispatched_def good_transfer_def split: transfer_event.splits if_splits dest!: collected_line)

lemma transfer_dispatched_empty: "transfer_dispatched e = Inr t \<Longrightarrow> arrived_at t k = 0"
  by (auto simp: transfer_dispatched_def arrived_at_def split: transfer_event.splits if_splits option.splits
      dest!: collected_line)

lemma transfer_replay_Cons:
  "transfer_replay (e # es) = Inr t \<longleftrightarrow> (\<exists>s. transfer_dispatched e = Inr s \<and> try_fold transfer_apply s es = Inr t)"
  by (simp add: transfer_replay_def res_simps)

text \<open>Stock between two outlets is never lost from sight: whatever was sent on a line is what the
  arrivals add up to plus the shortfall that is reported; the report lists exactly the lines
  still short; and a settled transfer says it was short exactly when that report is not empty.\<close>

theorem transfer_conserves:
  assumes run: "transfer_replay (e # es) = Inr t"
    and sent: "\<And>l. l \<in> set (transfer_lines t) \<Longrightarrow>
      0 \<le> milli (dl_quantity (lr_line l)) \<and> in_i64 (milli (dl_quantity (lr_line l)))"
  shows "\<exists>out st. in_transit t = Inr out \<and> status_of_transfer t = Inr st
    \<and> (\<forall>l q. (l, q) \<in> set out \<longleftrightarrow> l \<in> set (transfer_lines t) \<and> 0 < milli q
         \<and> milli (dl_quantity (lr_line l)) = (\<Sum>x\<leftarrow>es. arrival_quantity (dl_line_id (lr_line l)) x) + milli q)
    \<and> (tf_settled t \<longrightarrow> st = SettledAt (out \<noteq> []))
    \<and> (\<not> tf_settled t \<longrightarrow> (st = Arrived \<longleftrightarrow> out = []))"
proof -
  obtain s where s: "transfer_dispatched e = Inr s" and run': "try_fold transfer_apply s es = Inr t"
    using run by (auto simp: transfer_replay_Cons)
  note good0 = transfer_dispatched_good [OF s]
  note good = transfer_account.run_good [OF run' good0]
  let ?h = "\<lambda>l. \<lparr>milli = milli (dl_quantity (lr_line l)) - milli (lr_received l)\<rparr>"
  have line: "shortfall l = Inr (?h l) \<and> milli (lr_received l) = (\<Sum>x\<leftarrow>es. arrival_quantity (dl_line_id (lr_line l)) x)"
    if l: "l \<in> set (transfer_lines t)" for l
  proof -
    obtain k where k: "bt_get (tf_lines t) k = Some l"
      using good l bt_value_iff [of "tf_lines t" l] by (auto simp: good_transfer_def transfer_lines_def)
    with good have g: "dl_line_id (lr_line l) = k" "0 \<le> milli (lr_received l)" "in_i64 (milli (lr_received l))"
      by (simp_all add: good_transfer_def)
    have "milli (lr_received l) = (\<Sum>x\<leftarrow>es. arrival_quantity k x)"
      using transfer_account.run_level [OF run' good0, of k] transfer_dispatched_empty [OF s, of k] k
      by (simp add: arrived_at_def)
    moreover have "in_i64 (- milli (lr_received l))" "in_i64 (milli (dl_quantity (lr_line l)) - milli (lr_received l))"
      using g(2,3) sent [OF l] by (auto simp: in_i64_def)
    ultimately show ?thesis using g(1)
      by (simp add: shortfall_def quantity_checked_neg_def quantity_checked_add_def fit_def)
  qed
  let ?out = "map (\<lambda>l. (l, ?h l)) (filter (\<lambda>l. 0 < milli (?h l)) (transfer_lines t))"
  have out: "in_transit t = Inr ?out"
    using try_fold_collect [of "transfer_lines t" shortfall ?h "\<lambda>q. 0 < milli q" "[]"] line
    by (simp add: in_transit_def)
  have "try_map is_arrived (transfer_lines t) = Inr (map (\<lambda>l. \<not> 0 < milli (?h l)) (transfer_lines t))"
    by (rule try_map_all_ok) (simp add: is_arrived_def line)
  then have st: "\<exists>st. status_of_transfer t = Inr st
      \<and> (tf_settled t \<longrightarrow> st = SettledAt (?out \<noteq> [])) \<and> (\<not> tf_settled t \<longrightarrow> (st = Arrived \<longleftrightarrow> ?out = []))"
    by (auto simp: status_of_transfer_def Let_def list.pred_map list_all_iff filter_empty_conv)
  have "(l, q) \<in> set ?out \<longleftrightarrow> l \<in> set (transfer_lines t) \<and> 0 < milli q
      \<and> milli (dl_quantity (lr_line l)) = (\<Sum>x\<leftarrow>es. arrival_quantity (dl_line_id (lr_line l)) x) + milli q" for l q
    using line [of l] by (cases q) auto
  with out st show ?thesis by blast
qed

definition sample_dispatch :: transfer_event where
  "sample_dispatch = Dispatched 1 50 60
     [\<lparr>dl_line_id = 11, dl_product_id = 111, dl_batch_id = 211, dl_quantity = \<lparr>milli = 10000\<rparr>\<rparr>] \<lparr>millis = 0\<rparr> 7"

definition sample_arrivals :: "transfer_event list" where
  "sample_arrivals = [Received 1 11 311 \<lparr>milli = 4000\<rparr> \<lparr>millis = 5\<rparr> 8, Settled 1 \<lparr>millis = 9\<rparr> 8]"

lemma transfer_conserves_witness:
  "\<exists>t out. transfer_replay (sample_dispatch # sample_arrivals) = Inr t \<and> in_transit t = Inr out \<and> out \<noteq> []
     \<and> status_of_transfer t = Inr (SettledAt True)"
proof -
  have "map_ok (\<lambda>t. (tf_settled t, map (milli \<circ> dl_quantity \<circ> lr_line) (transfer_lines t), status_of_transfer t))
      (transfer_replay (sample_dispatch # sample_arrivals)) = Inr (True, [10000], Inr (SettledAt True))"
    by code_simp
  then obtain t where t: "transfer_replay (sample_dispatch # sample_arrivals) = Inr t"
    "tf_settled t = True" "map (milli \<circ> dl_quantity \<circ> lr_line) (transfer_lines t) = [10000]"
    "status_of_transfer t = Inr (SettledAt True)"
    by (simp only: map_ok_Inr_iff prod.inject) (elim exE conjE, rule that, (assumption | erule sym)+)
  have "0 \<le> milli (dl_quantity (lr_line l)) \<and> in_i64 (milli (dl_quantity (lr_line l)))"
    if "l \<in> set (transfer_lines t)" for l
    using t(3) that by (auto simp: in_i64_def map_eq_Cons_conv)
  from transfer_conserves [OF t(1) this] t show ?thesis by auto
qed

end
