(* ===== verification/Catalogue.thy ===== *)
theory Catalogue
  imports BTree Projection Tax Text
begin

text \<open>
  What a shop sells (\<open>crates/sahl-core/src/catalogue\<close>): units, option groups, products, and the
  catalogue rebuilt from its events; with the station a product is made at
  (\<open>kitchen/station.rs\<close>).
\<close>

section \<open>Stations and units\<close>

datatype station = Kitchen | Bar | Counter | Pass

fun station_label :: "station \<Rightarrow> utext" where
  "station_label Kitchen = lit ''kitchen''"
| "station_label Bar = lit ''bar''"
| "station_label Counter = lit ''counter''"
| "station_label Pass = lit ''pass''"

fun station_heading :: "station \<Rightarrow> utext" where
  "station_heading Kitchen = lit ''KITCHEN''"
| "station_heading Bar = lit ''BAR''"
| "station_heading Counter = lit ''COUNTER''"
| "station_heading Pass = lit ''PASS''"

definition station_from_label :: "utext \<Rightarrow> utext + station" where
  "station_from_label l =
     (if l = lit ''kitchen'' then Inr Kitchen
      else if l = lit ''bar'' then Inr Bar
      else if l = lit ''counter'' then Inr Counter
      else if l = lit ''pass'' then Inr Pass
      else Inl l)"

definition station_all :: "station list" where
  "station_all = [Kitchen, Bar, Counter, Pass]"

datatype supply_unit = Piece | Kilogram | Gram | Litre | Millilitre | Metre | Pack

datatype catalogue_error =
    UnknownProduct uuid
  | DuplicateProduct uuid
  | Blank string
  | NegativePrice money
  | DuplicateBarcode utext uuid
  | BadGroupBounds utext nat nat
  | ChoiceCount utext nat nat nat

fun unit_label :: "supply_unit \<Rightarrow> utext" where
  "unit_label Piece = lit ''pcs''"
| "unit_label Kilogram = lit ''kg''"
| "unit_label Gram = lit ''g''"
| "unit_label Litre = lit ''L''"
| "unit_label Millilitre = lit ''ml''"
| "unit_label Metre = lit ''m''"
| "unit_label Pack = lit ''pack''"

definition is_divisible :: "supply_unit \<Rightarrow> bool" where
  "is_divisible u \<longleftrightarrow> \<not> (u = Piece \<or> u = Pack)"

definition unit_from_label :: "utext \<Rightarrow> catalogue_error + supply_unit" where
  "unit_from_label l =
     (if l = lit ''pcs'' then Inr Piece
      else if l = lit ''kg'' then Inr Kilogram
      else if l = lit ''g'' then Inr Gram
      else if l = lit ''L'' then Inr Litre
      else if l = lit ''ml'' then Inr Millilitre
      else if l = lit ''m'' then Inr Metre
      else if l = lit ''pack'' then Inr Pack
      else Inl (Blank ''unit''))"

definition unit_all :: "supply_unit list" where
  "unit_all = [Piece, Kilogram, Gram, Litre, Millilitre, Metre, Pack]"

section \<open>Options\<close>

record modifier_option =
  mp_id :: uuid
  mp_name :: utext
  mp_price_delta :: money

text \<open>\<open>min\<close> and \<open>max\<close> are bytes; they are only compared.\<close>

record modifier_group =
  mg_id :: uuid
  mg_name :: utext
  mg_min :: nat
  mg_max :: nat
  mg_options :: "modifier_option list"

definition is_required :: "modifier_group \<Rightarrow> bool" where
  "is_required g \<longleftrightarrow> mg_min g > 0"

definition is_single_choice :: "modifier_group \<Rightarrow> bool" where
  "is_single_choice g \<longleftrightarrow> mg_max g = 1"

definition group_validate :: "modifier_group \<Rightarrow> catalogue_error + unit" where
  "group_validate g =
     (if trim (mg_name g) = [] then Inl (Blank ''group name'')
      else if mg_options g = [] then Inl (Blank ''group options'')
      else if list_ex (\<lambda>op. trim (mp_name op) = []) (mg_options g) then Inl (Blank ''option name'')
      else if mg_max g = 0 \<or> mg_min g > mg_max g then Inl (BadGroupBounds (mg_name g) (mg_min g) (mg_max g))
      else if mg_min g > length (mg_options g) then Inl (BadGroupBounds (mg_name g) (mg_min g) (mg_max g))
      else Inr ())"

definition group_check :: "modifier_group \<Rightarrow> uuid list \<Rightarrow> catalogue_error + unit" where
  "group_check g chosen =
     (let count = length (filter (\<lambda>i. list_ex (\<lambda>op. mp_id op = i) (mg_options g)) chosen) in
      if count < mg_min g \<or> count > mg_max g
      then Inl (ChoiceCount (mg_name g) (mg_min g) (mg_max g) count)
      else Inr ())"

definition group_option :: "modifier_group \<Rightarrow> uuid \<Rightarrow> modifier_option option" where
  "group_option g option_id = List.find (\<lambda>op. mp_id op = option_id) (mg_options g)"

text \<open>What the till asks of a choice before a line takes it (\<open>resolve_modifiers\<close>): every group of the product
  checks the one list of chosen options.\<close>

fun check_groups :: "modifier_group list \<Rightarrow> uuid list \<Rightarrow> catalogue_error + unit" where
  "check_groups [] chosen = Inr ()"
| "check_groups (g # gs) chosen = and_then (group_check g chosen) (\<lambda>_. check_groups gs chosen)"

section \<open>Products and events\<close>

record product =
  pr_id :: uuid
  pr_name :: utext
  pr_sku :: "utext option"
  pr_barcodes :: "utext list"
  pr_price :: money
  pr_unit :: supply_unit
  pr_tax_class :: tax_class
  pr_category :: "utext option"
  pr_station :: "station option"
  pr_option_groups :: "modifier_group list"
  pr_active :: bool

fun validate_groups :: "modifier_group list \<Rightarrow> catalogue_error + unit" where
  "validate_groups [] = Inr ()"
| "validate_groups (g # gs) = and_then (group_validate g) (\<lambda>_. validate_groups gs)"

definition product_validate :: "product \<Rightarrow> catalogue_error + unit" where
  "product_validate p =
     (if trim (pr_name p) = [] then Inl (Blank ''name'')
      else if minor (pr_price p) < 0 then Inl (NegativePrice (pr_price p))
      else if list_ex (\<lambda>code. trim code = []) (pr_barcodes p) then Inl (Blank ''barcode'')
      else validate_groups (pr_option_groups p))"

record product_details =
  pd_name :: utext
  pd_sku :: "utext option"
  pd_barcodes :: "utext list"
  pd_price :: money
  pd_unit :: supply_unit
  pd_tax_class :: tax_class
  pd_category :: "utext option"
  pd_station :: "station option"
  pd_option_groups :: "modifier_group list"

datatype catalogue_event =
    ProductAdded (ce_product_id: uuid) product_details (ce_at: timestamp) uuid
  | ProductUpdated (ce_product_id: uuid) product_details (ce_at: timestamp) uuid
  | ProductWithdrawn (ce_product_id: uuid) (ce_at: timestamp) uuid
  | ProductRestored (ce_product_id: uuid) (ce_at: timestamp) uuid

definition catalogue_product_id :: "catalogue_event \<Rightarrow> uuid" where
  "catalogue_product_id ev = ce_product_id ev"

definition catalogue_at :: "catalogue_event \<Rightarrow> timestamp" where
  "catalogue_at ev = ce_at ev"

fun catalogue_kind :: "catalogue_event \<Rightarrow> string" where
  "catalogue_kind (ProductAdded _ _ _ _) = ''catalogue.product_added''"
| "catalogue_kind (ProductUpdated _ _ _ _) = ''catalogue.product_updated''"
| "catalogue_kind (ProductWithdrawn _ _ _) = ''catalogue.product_withdrawn''"
| "catalogue_kind (ProductRestored _ _ _) = ''catalogue.product_restored''"

definition product_of :: "uuid \<Rightarrow> product_details \<Rightarrow> bool \<Rightarrow> product" where
  "product_of product_id d active =
     \<lparr>pr_id = product_id, pr_name = pd_name d, pr_sku = pd_sku d, pr_barcodes = pd_barcodes d,
      pr_price = pd_price d, pr_unit = pd_unit d, pr_tax_class = pd_tax_class d,
      pr_category = pd_category d, pr_station = pd_station d, pr_option_groups = pd_option_groups d,
      pr_active = active\<rparr>"

definition to_product :: "catalogue_event \<Rightarrow> bool \<Rightarrow> catalogue_error + product" where
  "to_product ev active =
     (case ev of
        ProductAdded i d _ _ \<Rightarrow> map_ok (\<lambda>_. product_of i d active) (product_validate (product_of i d active))
      | ProductUpdated i d _ _ \<Rightarrow> map_ok (\<lambda>_. product_of i d active) (product_validate (product_of i d active))
      | ProductWithdrawn i _ _ \<Rightarrow> Inl (UnknownProduct i)
      | ProductRestored i _ _ \<Rightarrow> Inl (UnknownProduct i))"

section \<open>The catalogue\<close>

type_synonym catalogue = "(uuid, product) btree"

definition catalogue_new :: catalogue where
  "catalogue_new = []"

fun barcodes_free :: "catalogue \<Rightarrow> uuid \<Rightarrow> utext list \<Rightarrow> catalogue_error + unit" where
  "barcodes_free c i [] = Inr ()"
| "barcodes_free c i (bc # bcs) =
     (case List.find (\<lambda>other. pr_id other \<noteq> i \<and> bc \<in> set (pr_barcodes other)) (bt_values c) of
        Some existing \<Rightarrow> Inl (DuplicateBarcode bc (pr_id existing))
      | None \<Rightarrow> barcodes_free c i bcs)"

definition assert_barcodes_free :: "catalogue \<Rightarrow> product \<Rightarrow> catalogue_error + unit" where
  "assert_barcodes_free c p = barcodes_free c (pr_id p) (pr_barcodes p)"

definition set_active :: "catalogue \<Rightarrow> uuid \<Rightarrow> bool \<Rightarrow> catalogue_error + catalogue" where
  "set_active c i active =
     (case bt_get c i of
        None \<Rightarrow> Inl (UnknownProduct i)
      | Some p \<Rightarrow> Inr (bt_insert i (p\<lparr>pr_active := active\<rparr>) c))"

definition catalogue_apply :: "catalogue \<Rightarrow> catalogue_event \<Rightarrow> catalogue_error + catalogue" where
  "catalogue_apply c ev =
     (case ev of
        ProductAdded i _ _ _ \<Rightarrow>
          (if bt_get c i \<noteq> None then Inl (DuplicateProduct i)
           else
             and_then (to_product ev True) (\<lambda>p.
             and_then (assert_barcodes_free c p) (\<lambda>_.
             Inr (bt_insert i p c))))
      | ProductUpdated i _ _ _ \<Rightarrow>
          and_then (ok_or (UnknownProduct i) (map_option pr_active (bt_get c i))) (\<lambda>active.
          and_then (to_product ev active) (\<lambda>p.
          and_then (assert_barcodes_free c p) (\<lambda>_.
          Inr (bt_insert i p c))))
      | ProductWithdrawn i _ _ \<Rightarrow> set_active c i False
      | ProductRestored i _ _ \<Rightarrow> set_active c i True)"

definition catalogue_replay :: "catalogue_event list \<Rightarrow> catalogue_error + catalogue" where
  "catalogue_replay events = try_fold catalogue_apply catalogue_new events"

definition by_barcode :: "catalogue \<Rightarrow> utext \<Rightarrow> product option" where
  "by_barcode c barcode =
     List.find (\<lambda>p. list_ex (\<lambda>code. code = barcode) (pr_barcodes p)) (bt_values c)"

definition sellable :: "catalogue \<Rightarrow> product list" where
  "sellable c = sort_key (\<lambda>p. (pr_name p, pr_id p)) (filter pr_active (bt_values c))"

definition all_products :: "catalogue \<Rightarrow> product list" where
  "all_products c = sort_key (\<lambda>p. (pr_name p, pr_id p)) (bt_values c)"

definition categories :: "catalogue \<Rightarrow> utext list" where
  "categories c = remdups_adj (sort (List.map_filter pr_category (filter pr_active (bt_values c))))"

section \<open>What a catalogue keeps\<close>

lemma to_product_Inr:
  "to_product ev active = Inr p \<Longrightarrow> pr_id p = ce_product_id ev \<and> pr_active p = active \<and> product_validate p = Inr ()"
  by (auto simp: to_product_def product_of_def res_simps split: catalogue_event.splits)

lemma assert_barcodes_free_Inr:
  "assert_barcodes_free c p = Inr () \<longleftrightarrow>
     (\<forall>q \<in> set (bt_values c). pr_id q \<noteq> pr_id p \<longrightarrow> set (pr_barcodes q) \<inter> set (pr_barcodes p) = {})"
proof -
  have "barcodes_free c i codes = Inr () \<longleftrightarrow>
      (\<forall>q \<in> set (bt_values c). pr_id q \<noteq> i \<longrightarrow> set (pr_barcodes q) \<inter> set codes = {})" for i codes
  proof (induction codes)
    case (Cons bc bcs)
    show ?case
    proof (cases "List.find (\<lambda>other. pr_id other \<noteq> i \<and> bc \<in> set (pr_barcodes other)) (bt_values c)")
      case None
      then have "\<forall>q \<in> set (bt_values c). pr_id q \<noteq> i \<longrightarrow> bc \<notin> set (pr_barcodes q)"
        by (auto simp: find_None_iff)
      with Cons None show ?thesis by auto
    next
      case (Some q)
      then have "q \<in> set (bt_values c)" "pr_id q \<noteq> i" "bc \<in> set (pr_barcodes q)"
        by (auto simp: find_Some_iff)
      with Some show ?thesis by auto
    qed
  qed simp
  then show ?thesis by (simp add: assert_barcodes_free_def)
qed

definition good_catalogue :: "catalogue \<Rightarrow> bool" where
  "good_catalogue c \<longleftrightarrow> bt_ok c
     \<and> (\<forall>k p. bt_get c k = Some p \<longrightarrow> pr_id p = k \<and> product_validate p = Inr ())
     \<and> (\<forall>j k p q. bt_get c j = Some p \<longrightarrow> bt_get c k = Some q \<longrightarrow> j \<noteq> k
          \<longrightarrow> set (pr_barcodes p) \<inter> set (pr_barcodes q) = {})"

definition catalogue_keeps :: "catalogue \<Rightarrow> catalogue \<Rightarrow> bool" where
  "catalogue_keeps c d \<longleftrightarrow> (\<forall>k. bt_get c k \<noteq> None \<longrightarrow> bt_get d k \<noteq> None)"

lemma good_catalogue_apart:
  assumes "good_catalogue c" and "bt_get c j = Some p" and "bt_get c k = Some q" and "j \<noteq> k"
  shows "set (pr_barcodes p) \<inter> set (pr_barcodes q) = {}"
  using assms by (simp add: good_catalogue_def)

text \<open>Filing a valid product whose codes are free keeps the catalogue well formed.\<close>

lemma good_catalogue_insert:
  assumes good: "good_catalogue c" and p: "pr_id p = i" "product_validate p = Inr ()"
    and free: "assert_barcodes_free c p = Inr ()"
  shows "good_catalogue (bt_insert i p c)"
proof -
  have ok: "bt_ok c" using good by (simp add: good_catalogue_def)
  have apart: "set (pr_barcodes p) \<inter> set (pr_barcodes q) = {}" if "bt_get c k = Some q" "k \<noteq> i" for k q
  proof -
    have "q \<in> set (bt_values c)" unfolding bt_value_iff [OF ok] using that(1) by (rule exI)
    moreover have "pr_id q \<noteq> pr_id p" using good that p(1) by (auto simp: good_catalogue_def)
    ultimately show ?thesis using free by (auto simp: assert_barcodes_free_Inr)
  qed
  have apart': "set (pr_barcodes q) \<inter> set (pr_barcodes p) = {}" if "bt_get c k = Some q" "k \<noteq> i" for k q
    using apart [OF that] by blast
  have old: "set (pr_barcodes q) \<inter> set (pr_barcodes r) = {}"
    if "bt_get c j = Some q" "bt_get c k = Some r" "j \<noteq> k" for j k q r
    using good that by (simp add: good_catalogue_def)
  show ?thesis
    unfolding good_catalogue_def bt_get_insert
  proof (intro conjI allI impI)
    fix j k q r
    assume "(if j = i then Some p else bt_get c j) = Some q" "(if k = i then Some p else bt_get c k) = Some r" "j \<noteq> k"
    then show "set (pr_barcodes q) \<inter> set (pr_barcodes r) = {}"
      using apart [of k r] apart' [of j q] old [of j q k r] by (simp split: if_split_asm)
  next
    fix k q assume "(if k = i then Some p else bt_get c k) = Some q"
    then show "pr_id q = k" "product_validate q = Inr ()"
      using good p by (auto simp: good_catalogue_def split: if_split_asm)
  qed (simp add: ok)
qed

lemma set_active_good:
  assumes "good_catalogue c" and "set_active c i active = Inr d"
  shows "good_catalogue d"
proof -
  obtain p where p: "bt_get c i = Some p" "d = bt_insert i (p\<lparr>pr_active := active\<rparr>) c"
    using assms(2) by (auto simp: set_active_def split: option.splits)
  have "product_validate (p\<lparr>pr_active := active\<rparr>) = product_validate p" by (simp add: product_validate_def)
  then have "product_validate (p\<lparr>pr_active := active\<rparr>) = Inr ()" "pr_id (p\<lparr>pr_active := active\<rparr>) = i"
    using assms(1) p(1) by (auto simp: good_catalogue_def)
  moreover have "assert_barcodes_free c (p\<lparr>pr_active := active\<rparr>) = Inr ()"
    unfolding assert_barcodes_free_Inr
  proof (intro ballI impI)
    fix q assume q: "q \<in> set (bt_values c)" "pr_id q \<noteq> pr_id (p\<lparr>pr_active := active\<rparr>)"
    then obtain k where k: "bt_get c k = Some q" using assms(1) bt_value_iff [of c q] by (auto simp: good_catalogue_def)
    have "k \<noteq> i" using k p(1) q(2) by auto
    with assms(1) k p(1) show "set (pr_barcodes q) \<inter> set (pr_barcodes (p\<lparr>pr_active := active\<rparr>)) = {}"
      by (simp add: good_catalogue_def)
  qed
  ultimately show ?thesis using good_catalogue_insert [OF assms(1), of "p\<lparr>pr_active := active\<rparr>" i] p(2) by simp
qed

lemma catalogue_apply_good:
  assumes "good_catalogue c" and "catalogue_apply c ev = Inr d"
  shows "good_catalogue d"
  using assms
  by (cases ev) (auto simp: catalogue_apply_def res_simps split: if_split_asm
      dest!: to_product_Inr intro: good_catalogue_insert set_active_good)

lemma catalogue_apply_keeps: "catalogue_apply c ev = Inr d \<Longrightarrow> catalogue_keeps c d"
  by (cases ev) (auto simp: catalogue_apply_def catalogue_keeps_def set_active_def res_simps
      split: if_split_asm option.splits)

interpretation catalogue_log: evidence_log catalogue_apply good_catalogue catalogue_keeps
  by unfold_locales (blast intro: catalogue_apply_good catalogue_apply_keeps | simp add: catalogue_keeps_def)+

lemma catalogue_new_good: "good_catalogue catalogue_new"
  by (simp add: catalogue_new_def good_catalogue_def)

lemma catalogue_replay_good: "catalogue_replay es = Inr c \<Longrightarrow> good_catalogue c"
  unfolding catalogue_replay_def by (rule catalogue_log.run_good [OF _ catalogue_new_good])

lemma validate_groups_Inr: "validate_groups gs = Inr () \<longleftrightarrow> (\<forall>g \<in> set gs. group_validate g = Inr ())"
  by (induction gs) (auto simp: res_simps and_then_def split: sum.splits)

text \<open>The options of all groups, and the least that the groups ask for.\<close>

definition option_ids :: "modifier_group list \<Rightarrow> uuid list" where
  "option_ids gs = concat (map (\<lambda>g. map mp_id (mg_options g)) gs)"

definition least_choice :: "modifier_group list \<Rightarrow> uuid list" where
  "least_choice gs = concat (map (\<lambda>g. map mp_id (take (mg_min g) (mg_options g))) gs)"

lemma check_groups_Inr: "check_groups gs chosen = Inr () \<longleftrightarrow> (\<forall>g \<in> set gs. group_check g chosen = Inr ())"
  by (induction gs) (auto simp: res_simps and_then_def split: sum.splits)

lemma least_choice_ids: "set (least_choice gs) \<subseteq> set (option_ids gs)"
  by (auto simp: least_choice_def option_ids_def dest: in_set_takeD)

lemma least_choice_distinct: "distinct (option_ids gs) \<Longrightarrow> distinct (least_choice gs)"
proof (induction gs)
  case (Cons g gs)
  have "distinct (map mp_id (mg_options g))" and apart: "set (map mp_id (mg_options g)) \<inter> set (option_ids gs) = {}"
    and rest: "distinct (least_choice gs)"
    using Cons by (simp_all add: option_ids_def)
  then have "distinct (map mp_id (take (mg_min g) (mg_options g)))" by (metis distinct_take take_map)
  moreover have "set (map mp_id (take (mg_min g) (mg_options g))) \<subseteq> set (map mp_id (mg_options g))"
    by (auto dest: in_set_takeD)
  ultimately show ?case using rest apart least_choice_ids [of gs] by (simp add: least_choice_def) blast
qed (simp add: least_choice_def)

text \<open>Of a choice for all the groups, each group counts its own part.\<close>

lemma least_choice_of:
  assumes "distinct (option_ids gs)" and "g \<in> set gs"
  shows "filter (\<lambda>i. list_ex (\<lambda>op. mp_id op = i) (mg_options g)) (least_choice gs)
    = map mp_id (take (mg_min g) (mg_options g))"
proof -
  let ?own = "\<lambda>i. list_ex (\<lambda>op. mp_id op = i) (mg_options g)"
  have own: "?own i \<longleftrightarrow> i \<in> set (option_ids [g])" for i by (auto simp: option_ids_def list_ex_iff)
  have other: "filter ?own (least_choice hs) = []" if "set (option_ids hs) \<inter> set (option_ids [g]) = {}" for hs
    using least_choice_ids [of hs] that by (auto simp: filter_empty_conv own)
  obtain before after where gs: "gs = before @ g # after" using split_list [OF assms(2)] by blast
  then have ids: "option_ids gs = option_ids before @ option_ids [g] @ option_ids after" by (simp add: option_ids_def)
  have "set (option_ids before) \<inter> set (option_ids [g]) = {}" "set (option_ids after) \<inter> set (option_ids [g]) = {}"
    using assms(1) by (simp_all only: ids distinct_append set_append) blast+
  from this [THEN other] have "filter ?own (least_choice gs) = filter ?own (least_choice [g])"
    by (simp add: gs least_choice_def)
  then show ?thesis by (auto simp: least_choice_def filter_id_conv list_ex_iff dest: in_set_takeD)
qed

lemma least_choice_length:
  assumes "validate_groups gs = Inr ()"
  shows "length (least_choice gs) = (\<Sum>g\<leftarrow>gs. mg_min g)"
proof -
  have "mg_min g \<le> length (mg_options g)" if "g \<in> set gs" for g
    using assms that by (auto simp: validate_groups_Inr group_validate_def split: if_splits)
  then have "map (\<lambda>g. min (length (mg_options g)) (mg_min g)) gs = map mg_min gs"
    by (intro map_cong) (auto simp: min_absorb2)
  moreover have "length (least_choice gs) = sum_list (map (\<lambda>g. min (length (mg_options g)) (mg_min g)) gs)"
    by (simp add: least_choice_def length_concat comp_def)
  ultimately show ?thesis by (simp only:)
qed

lemma groups_orderable:
  assumes "validate_groups gs = Inr ()" and "distinct (option_ids gs)"
  shows "check_groups gs (least_choice gs) = Inr ()"
  unfolding check_groups_Inr
proof
  fix g assume g: "g \<in> set gs"
  then have "group_validate g = Inr ()" using assms(1) by (simp add: validate_groups_Inr)
  then show "group_check g (least_choice gs) = Inr ()"
    by (auto simp: group_check_def least_choice_of [OF assms(2) g] group_validate_def Let_def split: if_splits)
qed

section \<open>Properties\<close>

text \<open>C20: in every catalogue that events built, a scan is unambiguous: a code finds a product exactly when
  that product carries it, so no code is on two products; every product can be ordered: its price is not
  negative, and there is one list of its options, none twice, that all of its option groups accept together
  and that holds no more than the groups require; and no later event takes a product out of the catalogue.
  The list needs the options of a product to have ids of their own, which the till mints and
  \<open>validate\<close> does not check.\<close>

theorem catalogue_unambiguous:
  assumes "catalogue_replay es = Inr c"
  shows "(\<forall>code p. by_barcode c code = Some p \<longleftrightarrow> (\<exists>k. bt_get c k = Some p \<and> code \<in> set (pr_barcodes p)))
    \<and> (\<forall>k p. bt_get c k = Some p \<longrightarrow> 0 \<le> minor (pr_price p)
          \<and> (distinct (option_ids (pr_option_groups p)) \<longrightarrow>
                (\<exists>chosen. distinct chosen \<and> set chosen \<subseteq> set (option_ids (pr_option_groups p))
                   \<and> length chosen = (\<Sum>g\<leftarrow>pr_option_groups p. mg_min g)
                   \<and> check_groups (pr_option_groups p) chosen = Inr ())))
    \<and> (\<forall>fs d. catalogue_replay (es @ fs) = Inr d \<longrightarrow> catalogue_keeps c d)"
proof -
  note good = catalogue_replay_good [OF assms]
  then have ok: "bt_ok c" by (simp add: good_catalogue_def)
  have "by_barcode c code = Some p \<longleftrightarrow> (\<exists>k. bt_get c k = Some p \<and> code \<in> set (pr_barcodes p))" for code p
  proof
    assume "by_barcode c code = Some p"
    then have "p \<in> set (bt_values c)" "code \<in> set (pr_barcodes p)"
      by (auto simp: by_barcode_def find_Some_iff list_ex_iff)
    then show "\<exists>k. bt_get c k = Some p \<and> code \<in> set (pr_barcodes p)" by (simp add: bt_value_iff [OF ok])
  next
    assume "\<exists>k. bt_get c k = Some p \<and> code \<in> set (pr_barcodes p)"
    then obtain k where k: "bt_get c k = Some p" "code \<in> set (pr_barcodes p)" by blast
    show "by_barcode c code = Some p"
    proof (cases "by_barcode c code")
      case None
      have "p \<in> set (bt_values c)" unfolding bt_value_iff [OF ok] using k(1) by (rule exI)
      with None k(2) show ?thesis by (auto simp: by_barcode_def find_None_iff list_ex_iff)
    next
      case (Some q)
      then have q: "q \<in> set (bt_values c)" "code \<in> set (pr_barcodes q)"
        by (auto simp: by_barcode_def find_Some_iff list_ex_iff)
      then obtain j where "bt_get c j = Some q" using bt_value_iff [OF ok] by auto
      with good_catalogue_apart [OF good k(1), of j q] k(2) q(2) have "j = k" by blast
      with \<open>bt_get c j = Some q\<close> k(1) Some show ?thesis by simp
    qed
  qed
  moreover have "0 \<le> minor (pr_price p) \<and> (distinct (option_ids (pr_option_groups p)) \<longrightarrow>
      (\<exists>chosen. distinct chosen \<and> set chosen \<subseteq> set (option_ids (pr_option_groups p))
         \<and> length chosen = (\<Sum>g\<leftarrow>pr_option_groups p. mg_min g)
         \<and> check_groups (pr_option_groups p) chosen = Inr ()))"
    if "bt_get c k = Some p" for k p
  proof -
    have "product_validate p = Inr ()" using good that by (simp add: good_catalogue_def)
    then have "0 \<le> minor (pr_price p)" "validate_groups (pr_option_groups p) = Inr ()"
      by (auto simp: product_validate_def split: if_splits)
    with groups_orderable least_choice_distinct least_choice_ids least_choice_length show ?thesis by blast
  qed
  moreover have "catalogue_keeps c d" if "catalogue_replay (es @ fs) = Inr d" for fs d
  proof -
    have "try_fold catalogue_apply c fs = Inr d"
      using that assms by (simp add: catalogue_replay_def try_fold_append)
    then show ?thesis using good by (rule catalogue_log.run_keeps)
  qed
  ultimately show ?thesis by (intro conjI allI impI; (elim conjE)?) (blast | assumption)+
qed

definition sample_details :: "string \<Rightarrow> int \<Rightarrow> string list \<Rightarrow> product_details" where
  "sample_details name price codes =
     \<lparr>pd_name = lit name, pd_sku = None, pd_barcodes = map lit codes, pd_price = taka price, pd_unit = Piece,
      pd_tax_class = standard 1500, pd_category = Some (lit ''Staples''), pd_station = None,
      pd_option_groups = [\<lparr>mg_id = 5, mg_name = lit ''Size'', mg_min = 1, mg_max = 1,
        mg_options = [\<lparr>mp_id = 6, mp_name = lit ''Large'', mp_price_delta = taka 100\<rparr>]\<rparr>,
       \<lparr>mg_id = 8, mg_name = lit ''Extras'', mg_min = 1, mg_max = 2,
        mg_options = [\<lparr>mp_id = 9, mp_name = lit ''Bag'', mp_price_delta = taka 0\<rparr>,
                      \<lparr>mp_id = 10, mp_name = lit ''Box'', mp_price_delta = taka 500\<rparr>]\<rparr>]\<rparr>"

definition sample_catalogue :: "catalogue_event list" where
  "sample_catalogue =
     [ProductAdded 2 (sample_details ''Oil'' 34000 [''8902'']) \<lparr>millis = 0\<rparr> 7,
      ProductAdded 1 (sample_details ''Rice'' 48000 [''8901'', ''8911'']) \<lparr>millis = 0\<rparr> 7,
      ProductWithdrawn 2 \<lparr>millis = 1\<rparr> 7,
      ProductUpdated 2 (sample_details ''Oil'' 35000 [''8902'']) \<lparr>millis = 2\<rparr> 7]"

lemma catalogue_unambiguous_witness:
  "\<exists>c p chosen. catalogue_replay sample_catalogue = Inr c \<and> by_barcode c (lit ''8902'') = Some p
     \<and> \<not> pr_active p \<and> bt_get c 2 = Some p
     \<and> distinct chosen \<and> length chosen = 2 \<and> check_groups (pr_option_groups p) chosen = Inr ()"
proof -
  have "map_ok (\<lambda>c. map_option (\<lambda>p. (pr_active p, lit ''8902'' \<in> set (pr_barcodes p),
        distinct (option_ids (pr_option_groups p)), map mg_min (pr_option_groups p))) (bt_get c 2))
      (catalogue_replay sample_catalogue) = Inr (Some (False, True, True, [1, 1]))"
    by code_simp
  then obtain c where c: "catalogue_replay sample_catalogue = Inr c"
    "map_option (\<lambda>p. (pr_active p, lit ''8902'' \<in> set (pr_barcodes p),
        distinct (option_ids (pr_option_groups p)), map mg_min (pr_option_groups p))) (bt_get c 2) = Some (False, True, True, [1, 1])"
    by (simp only: map_ok_Inr_iff) (elim exE conjE, rule that, (assumption | erule sym)+)
  then obtain p where p: "bt_get c 2 = Some p" "\<not> pr_active p" "lit ''8902'' \<in> set (pr_barcodes p)"
    "distinct (option_ids (pr_option_groups p))" "map mg_min (pr_option_groups p) = [1, 1]"
    by (auto simp: map_option_eq_Some)
  note u = catalogue_unambiguous [OF c(1)]
  from u p have "by_barcode c (lit ''8902'') = Some p" by blast
  moreover from u p obtain chosen where "distinct chosen" "check_groups (pr_option_groups p) chosen = Inr ()"
    "length chosen = (\<Sum>g\<leftarrow>pr_option_groups p. mg_min g)" by blast
  ultimately show ?thesis using c(1) p by (intro exI [of _ c] exI [of _ p] exI [of _ chosen]) simp
qed

text \<open>What the sell screen shows is a function of the catalogue alone: the active products, each once,
  ordered by name and then by identifier; editing a withdrawn product never puts it back.\<close>

theorem sellable_correct:
  assumes "catalogue_replay es = Inr c"
  shows "set (sellable c) = {p. \<exists>k. bt_get c k = Some p \<and> pr_active p}
    \<and> distinct (map pr_id (sellable c))
    \<and> sorted (map (\<lambda>p. (pr_name p, pr_id p)) (sellable c))
    \<and> (\<forall>i d at whom c'. catalogue_apply c (ProductUpdated i d at whom) = Inr c' \<longrightarrow>
         map_option pr_active (bt_get c' i) = map_option pr_active (bt_get c i))"
proof -
  note good = catalogue_replay_good [OF assms]
  then have ok: "bt_ok c" by (simp add: good_catalogue_def)
  have ids: "map pr_id (bt_values c) = map fst c"
    using good bt_entry_iff [OF ok] by (auto simp: bt_values_def good_catalogue_def)
  then have "inj_on pr_id (set (bt_values c))" and "distinct (bt_values c)"
    using bt_ok_distinct [OF ok] by (metis distinct_map)+
  then have "distinct (map pr_id (sellable c))"
    by (auto simp: sellable_def distinct_map distinct_sort intro: inj_on_subset)
  moreover have "set (sellable c) = {p. \<exists>k. bt_get c k = Some p \<and> pr_active p}"
    using bt_value_iff [OF ok] by (auto simp: sellable_def)
  moreover have "sorted (map (\<lambda>p. (pr_name p, pr_id p)) (sellable c))"
    unfolding sellable_def by (rule sorted_sort_key)
  moreover have "map_option pr_active (bt_get c' i) = map_option pr_active (bt_get c i)"
    if "catalogue_apply c (ProductUpdated i d at by_whom) = Inr c'" for i d at by_whom c'
    using that by (auto simp: catalogue_apply_def res_simps dest!: to_product_Inr)
  ultimately show ?thesis by simp
qed

lemma sellable_correct_witness:
  "\<exists>c. catalogue_replay sample_catalogue = Inr c \<and> map pr_id (sellable c) = [1]
     \<and> distinct (map pr_id (sellable c))"
proof -
  have "map_ok (\<lambda>c. map pr_id (sellable c)) (catalogue_replay sample_catalogue) = Inr [1]"
    by code_simp
  then obtain c where c: "catalogue_replay sample_catalogue = Inr c" "map pr_id (sellable c) = [1]"
    by (simp only: map_ok_Inr_iff) (elim exE conjE, rule that, (assumption | erule sym)+)
  have "distinct (map pr_id (sellable c))"
    by (rule sellable_correct [OF c(1), THEN conjunct2, THEN conjunct1])
  with c show ?thesis by (intro exI [of _ c]) simp
qed

end
