(* ===== verification/Display.thy ===== *)
theory Display
  imports Text Units
begin

text \<open>
  The \<open>Display\<close> forms of money, quantities and rates (\<open>money/amount.rs\<close>, \<open>quantity.rs\<close>,
  \<open>money/rate.rs\<close>, \<open>time.rs\<close>): decimal digits, with the padding Rust's formatter does.
\<close>

section \<open>Decimal digits\<close>

function show_digits :: "int \<Rightarrow> utext" where
  "show_digits n = (if n < 10 then [48 + n] else show_digits (n div 10) @ [48 + n mod 10])"
  by auto
termination by (relation "measure nat") auto

declare show_digits.simps [simp del]

definition show_int :: "int \<Rightarrow> utext" where
  "show_int n = (if n < 0 then lit ''-'' @ show_digits (- n) else show_digits n)"

text \<open>\<open>{:0width$}\<close> of an unsigned number, and \<open>{:0<width$}\<close> of a string.\<close>

definition pad_zero :: "nat \<Rightarrow> utext \<Rightarrow> utext" where
  "pad_zero width s = replicate (width - length s) 48 @ s"

definition fill_zero :: "nat \<Rightarrow> utext \<Rightarrow> utext" where
  "fill_zero width s = s @ replicate (width - length s) 48"

lemma digit_char: "0 \<le> d \<Longrightarrow> d < 10 \<Longrightarrow> is_ascii_digit (48 + d)"
  by (simp add: is_ascii_digit_def)

lemma show_digits_digits: "0 \<le> n \<Longrightarrow> list_all is_ascii_digit (show_digits n)"
proof (induction n rule: show_digits.induct)
  case (1 n)
  then show ?case by (subst show_digits.simps) (auto intro: digit_char)
qed

lemma show_digits_value: "0 \<le> n \<Longrightarrow> digits_value (show_digits n) = n"
proof (induction n rule: show_digits.induct)
  case (1 n)
  then show ?case
    by (subst show_digits.simps) (auto simp: digits_value_snoc digits_value_def)
qed

lemma show_digits_not_Nil [simp]: "show_digits n \<noteq> []"
  by (subst show_digits.simps) simp

lemma show_digits_length: "0 \<le> n \<Longrightarrow> n < 10 ^ Suc k \<Longrightarrow> length (show_digits n) \<le> Suc k"
proof (induction k arbitrary: n)
  case 0
  then show ?case by (subst show_digits.simps) simp
next
  case (Suc k)
  show ?case
  proof (cases "n < 10")
    case False
    have "n div 10 < 10 ^ Suc k" using Suc.prems(2) by (simp add: div_less_iff_less_mult)
    then have "length (show_digits (n div 10)) \<le> Suc k" using Suc.IH [of "n div 10"] Suc.prems(1) by simp
    with False show ?thesis by (subst show_digits.simps) simp
  qed (subst show_digits.simps, simp)
qed

lemma digits_value_zeros: "digits_value (replicate k 48 @ s) = digits_value s"
  by (induction k) (auto simp: digits_value_def)

lemma digits_value_append: "digits_value (s @ t) = digits_value s * 10 ^ length t + digits_value t"
proof (induction t rule: rev_induct)
  case (snoc c t)
  then show ?case
    using digits_value_snoc [of "s @ t" c] digits_value_snoc [of t c] by (simp add: algebra_simps)
qed (simp add: digits_value_def)

lemma pad_zero_digits:
  "0 \<le> n \<Longrightarrow> list_all is_ascii_digit (pad_zero w (show_digits n)) \<and> digits_value (pad_zero w (show_digits n)) = n"
  by (simp add: pad_zero_def digits_value_zeros show_digits_value list_all_append show_digits_digits
      list_all_iff [of _ "replicate _ _"] is_ascii_digit_def)

lemma pad_zero_length: "0 \<le> n \<Longrightarrow> n < 10 ^ w \<Longrightarrow> 0 < w \<Longrightarrow> length (pad_zero w (show_digits n)) = w"
  using show_digits_length [of n "w - 1"] by (simp add: pad_zero_def)

section \<open>Amounts\<close>

definition show_money :: "money \<Rightarrow> utext" where
  "show_money m =
     (let per_major = minor_per_major (currency m) in
      case (checked_div in_i64 (minor m) per_major, checked_rem in_i64 (minor m) per_major) of
        (Some major, Some remainder) \<Rightarrow>
          (if minor m < 0 \<and> major = 0 then lit ''-'' else []) @ show_int major @ lit ''.''
          @ pad_zero (exponent (currency m)) (show_digits \<bar>remainder\<bar>) @ lit '' '' @ lit (code (currency m))
      | _ \<Rightarrow> lit ''<invalid amount>'')"

definition show_quantity :: "quantity \<Rightarrow> utext" where
  "show_quantity q =
     (case (checked_div in_i64 (milli q) milli_per_unit, checked_rem in_i64 (milli q) milli_per_unit) of
        (Some units, Some remainder) \<Rightarrow>
          (if milli q < 0 \<and> units = 0 then lit ''-'' else []) @ show_int units @ lit ''.''
          @ pad_zero 3 (show_digits \<bar>remainder\<bar>)
      | _ \<Rightarrow> lit ''<invalid quantity>'')"

text \<open>\<open>{:02}\<close> of a number below a hundred.\<close>

definition show_rate :: "rate \<Rightarrow> utext" where
  "show_rate r =
     (let whole = basis_points r sdiv 100; hundredths = \<bar>basis_points r smod 100\<bar> in
      if hundredths = 0 then show_int whole @ lit ''%''
      else if hundredths mod 10 = 0 then show_int whole @ lit ''.'' @ show_int (hundredths div 10) @ lit ''%''
      else show_int whole @ lit ''.'' @ pad_zero 2 (show_digits hundredths) @ lit ''%'')"

definition show_timestamp :: "timestamp \<Rightarrow> utext" where
  "show_timestamp t = show_int (millis t) @ lit ''ms''"

lemma show_money_nonneg:
  assumes "wf_money m" and "0 \<le> minor m"
  shows "show_money m = show_digits (minor m div 100) @ lit ''.'' @ pad_zero 2 (show_digits (minor m mod 100))
    @ lit '' '' @ lit (code (currency m))"
proof -
  have "minor_per_major (currency m) = 100" "exponent (currency m) = 2"
    by (cases "currency m"; simp add: minor_per_major_def)+
  moreover have "minor m sdiv 100 = minor m div 100" "minor m smod 100 = minor m mod 100"
    using assms(2) by (simp_all add: signed_divide_int_def signed_modulo_int_def sgn_if)
  moreover have "in_i64 (minor m div 100)"
    using assms by (auto simp: wf_money_def in_i64_def)
  moreover have "\<not> minor m div 100 < 0" using assms(2) by simp
  ultimately show ?thesis using assms(2)
    by (simp add: show_money_def checked_div_def checked_rem_def fit_def show_int_def)
qed

end
