(* ===== verification/Import.thy ===== *)
theory Import
  imports Catalogue Display
begin

text \<open>
  Turning a delimited file into products (\<open>crates/sahl-core/src/catalogue/import.rs\<close>).  The messages
  of the code are constructors here.  \<open>lower\<close> is \<open>str::to_lowercase\<close> as far as a comparison with
  an ASCII word can tell: besides the ASCII capitals, only the Kelvin sign and the dotted capital
  I have a lower case that contains an ASCII letter.
\<close>

definition lower_char :: "int \<Rightarrow> utext" where
  "lower_char c =
     (if 65 \<le> c \<and> c \<le> 90 then [c + 32]
      else if c = 8490 then [107]
      else if c = 304 then [105, 775]
      else [c])"

definition lower :: "utext \<Rightarrow> utext" where
  "lower s = concat (map lower_char s)"

definition one_of :: "utext \<Rightarrow> string list \<Rightarrow> bool" where
  "one_of s ws \<longleftrightarrow> s \<in> set (map lit ws)"

record imported_product =
  im_name :: utext
  im_sku :: "utext option"
  im_barcodes :: "utext list"
  im_price :: money
  im_unit :: supply_unit
  im_tax_class :: tax_class
  im_category :: "utext option"

datatype price_problem =
    PriceRequired
  | TooManyPlaces utext nat
  | NotANumber utext
  | PriceNegative
  | PriceTooLarge utext

datatype row_reason = NameNeeded | PriceUnread price_problem | UnitUnknown | VatUnread

record import_problem =
  ip_line :: nat
  ip_column :: string
  ip_found :: utext
  ip_because :: row_reason

datatype import_error = ImportEmpty | ImportNoHeader | MissingColumn string | ImportRows nat

record import =
  imp_products :: "imported_product list"
  imp_problems :: "import_problem list"

definition is_clean :: "import \<Rightarrow> bool" where
  "is_clean i \<longleftrightarrow> imp_problems i = []"

section \<open>Cells\<close>

text \<open>The state of the scan is the cells so far, the current cell and whether a quote is open.\<close>

fun split_cells :: "int \<Rightarrow> utext list \<Rightarrow> utext \<Rightarrow> bool \<Rightarrow> utext \<Rightarrow> utext list" where
  "split_cells delimiter cells cur quoted [] = cells @ [trim cur]"
| "split_cells delimiter cells cur quoted (c # s) =
     (if c = 34 then split_cells delimiter cells cur (\<not> quoted) s
      else if c = delimiter \<and> \<not> quoted then split_cells delimiter (cells @ [trim cur]) [] quoted s
      else split_cells delimiter cells (cur @ [c]) quoted s)"

definition split_line :: "utext \<Rightarrow> int \<Rightarrow> utext list" where
  "split_line line delimiter = split_cells delimiter [] [] False line"

definition parse_money :: "utext \<Rightarrow> currency \<Rightarrow> price_problem + money" where
  "parse_money raw c =
     (let cleaned = filter (\<lambda>x. is_ascii_digit x \<or> x = 46 \<or> x = 45) raw in
      if cleaned = [] then Inl PriceRequired
      else
        let expo = exponent c;
            (whole, fraction) = (case split_once 46 cleaned of Some p \<Rightarrow> p | None \<Rightarrow> (cleaned, []))
        in if length fraction > expo then Inl (TooManyPlaces (trim raw) expo)
           else
             and_then (ok_or (NotANumber (trim raw)) (parse_int in_i64 whole)) (\<lambda>major.
             and_then (if fraction = [] then Inr 0
                       else ok_or (NotANumber (trim raw)) (parse_int in_i64 (fill_zero expo fraction))) (\<lambda>minor'.
             if major < 0 \<or> hd cleaned = 45 then Inl PriceNegative
             else
               and_then (ok_or (PriceTooLarge (trim raw))
                 (Option.bind (fit in_i64 (major * 10 ^ expo)) (\<lambda>v. fit in_i64 (v + minor')))) (\<lambda>total.
               Inr (from_minor total c)))))"

definition parse_unit :: "utext \<Rightarrow> supply_unit option" where
  "parse_unit raw =
     (let s = lower (trim raw) in
      if one_of s [''pcs'', ''pc'', ''piece'', ''pieces'', ''each'', ''ea'', ''unit'', ''''] then Some Piece
      else if one_of s [''kg'', ''kilo'', ''kilogram'', ''kgs''] then Some Kilogram
      else if one_of s [''g'', ''gram'', ''grams'', ''gm''] then Some Gram
      else if one_of s [''l'', ''litre'', ''liter'', ''ltr''] then Some Litre
      else if one_of s [''ml'', ''millilitre'', ''milliliter''] then Some Millilitre
      else if one_of s [''m'', ''metre'', ''meter''] then Some Metre
      else if one_of s [''pack'', ''packet'', ''box'', ''carton''] then Some Pack
      else None)"

definition parse_vat :: "utext \<Rightarrow> tax_class option" where
  "parse_vat raw =
     (let cleaned = lower (trim raw) in
      if one_of cleaned [''exempt'', ''exempted'', ''e''] then Some Exempt
      else if one_of cleaned [''zero'', ''zero-rated'', ''zero rated'', ''z''] then Some ZeroRated
      else
        let digits = filter (\<lambda>x. is_ascii_digit x \<or> x = 46) cleaned in
        if digits = [] then None
        else
          let (whole, fraction) = (case split_once 46 digits of Some p \<Rightarrow> p | None \<Rightarrow> (digits, []))
          in Option.bind (parse_int in_i32 whole) (\<lambda>percent.
             Option.bind (if fraction = [] then Some 0 else parse_int in_i32 (take 2 (fill_zero 2 fraction))) (\<lambda>hundredths.
             Option.bind (fit in_i32 (percent * 100)) (\<lambda>v.
             Option.bind (fit in_i32 (v + hundredths)) (\<lambda>bp.
             if \<not> (0 \<le> bp \<and> bp \<le> 10000) then None else Some (standard bp))))))"

section \<open>Rows\<close>

record columns =
  co_name :: "nat option"
  co_price :: "nat option"
  co_sku :: "nat option"
  co_barcode :: "nat option"
  co_unit :: "nat option"
  co_vat :: "nat option"
  co_category :: "nat option"

definition no_columns :: columns where
  "no_columns = \<lparr>co_name = None, co_price = None, co_sku = None, co_barcode = None, co_unit = None,
     co_vat = None, co_category = None\<rparr>"

definition first_wins :: "nat \<Rightarrow> nat option \<Rightarrow> nat option" where
  "first_wins index slot = (case slot of None \<Rightarrow> Some index | Some _ \<Rightarrow> slot)"

definition read_column :: "columns \<Rightarrow> nat \<times> utext \<Rightarrow> columns" where
  "read_column co item =
     (let (index, raw) = item; name = lower (trim raw) in
      if one_of name [''name'', ''product'', ''product name'', ''description'', ''item'']
      then co\<lparr>co_name := first_wins index (co_name co)\<rparr>
      else if one_of name [''price'', ''unit price'', ''selling price'', ''mrp'', ''rate'']
      then co\<lparr>co_price := first_wins index (co_price co)\<rparr>
      else if one_of name [''sku'', ''code'', ''item code'', ''product code'']
      then co\<lparr>co_sku := first_wins index (co_sku co)\<rparr>
      else if one_of name [''barcode'', ''barcodes'', ''ean'', ''upc'']
      then co\<lparr>co_barcode := first_wins index (co_barcode co)\<rparr>
      else if one_of name [''unit'', ''uom'', ''unit of supply'']
      then co\<lparr>co_unit := first_wins index (co_unit co)\<rparr>
      else if one_of name [''vat'', ''vat %'', ''vat rate'', ''tax'', ''tax rate'']
      then co\<lparr>co_vat := first_wins index (co_vat co)\<rparr>
      else if one_of name [''category'', ''group'', ''department'']
      then co\<lparr>co_category := first_wins index (co_category co)\<rparr>
      else co)"

definition read_columns :: "utext list \<Rightarrow> columns" where
  "read_columns header = foldl read_column no_columns (enumerate 0 header)"

definition cell_at :: "utext list \<Rightarrow> nat option \<Rightarrow> utext option" where
  "cell_at cells at =
     Option.bind (Option.bind at (get cells)) (\<lambda>v. if trim v = [] then None else Some (trim v))"

definition problem :: "nat \<Rightarrow> string \<Rightarrow> utext \<Rightarrow> row_reason \<Rightarrow> import_problem" where
  "problem line column found because =
     \<lparr>ip_line = line, ip_column = column, ip_found = found, ip_because = because\<rparr>"

definition split_barcodes :: "utext \<Rightarrow> utext list" where
  "split_barcodes value = filter (\<lambda>p. p \<noteq> []) (map trim (split_any [59, 32, 124] [] value))"

definition row_unit :: "nat \<Rightarrow> utext option \<Rightarrow> import_problem + supply_unit" where
  "row_unit line cell =
     (case cell of
        None \<Rightarrow> Inr Piece
      | Some raw \<Rightarrow> ok_or (problem line ''unit'' raw UnitUnknown) (parse_unit raw))"

definition row_vat :: "nat \<Rightarrow> int \<Rightarrow> utext option \<Rightarrow> import_problem + tax_class" where
  "row_vat line default_bp cell =
     (case cell of
        None \<Rightarrow> Inr (standard default_bp)
      | Some raw \<Rightarrow> ok_or (problem line ''vat'' raw VatUnread) (parse_vat raw))"

definition read_row ::
    "columns \<Rightarrow> nat \<Rightarrow> nat \<Rightarrow> currency \<Rightarrow> int \<Rightarrow> nat \<Rightarrow> utext list \<Rightarrow> import_problem + imported_product" where
  "read_row co name_at price_at c default_bp line cells =
     and_then (ok_or (problem line ''name'' [] NameNeeded) (cell_at cells (Some name_at))) (\<lambda>name.
     let raw_price = (case cell_at cells (Some price_at) of None \<Rightarrow> [] | Some v \<Rightarrow> v) in
     and_then (map_err (\<lambda>e. problem line ''price'' raw_price (PriceUnread e)) (parse_money raw_price c)) (\<lambda>price.
     and_then (row_unit line (cell_at cells (co_unit co))) (\<lambda>u.
     and_then (row_vat line default_bp (cell_at cells (co_vat co))) (\<lambda>tc.
     Inr \<lparr>im_name = name, im_sku = cell_at cells (co_sku co),
          im_barcodes = (case cell_at cells (co_barcode co) of None \<Rightarrow> [] | Some v \<Rightarrow> split_barcodes v),
          im_price = price, im_unit = u, im_tax_class = tc, im_category = cell_at cells (co_category co)\<rparr>))))"

definition add_row :: "import \<Rightarrow> import_problem + imported_product \<Rightarrow> import" where
  "add_row i r =
     (case r of
        Inl p \<Rightarrow> i\<lparr>imp_problems := imp_problems i @ [p]\<rparr>
      | Inr p \<Rightarrow> i\<lparr>imp_products := imp_products i @ [p]\<rparr>)"

definition from_delimited :: "utext \<Rightarrow> int \<Rightarrow> currency \<Rightarrow> int \<Rightarrow> import_error + import" where
  "from_delimited text delimiter c default_bp =
     (case filter (\<lambda>line. trim line \<noteq> []) (text_lines text) of
        [] \<Rightarrow> Inl ImportEmpty
      | header_line # rows \<Rightarrow>
          let co = read_columns (split_line header_line delimiter) in
          and_then (ok_or (MissingColumn ''name'') (co_name co)) (\<lambda>name_at.
          and_then (ok_or (MissingColumn ''price'') (co_price co)) (\<lambda>price_at.
          Inr (foldl (\<lambda>i (offset, raw).
                 add_row i (read_row co name_at price_at c default_bp (offset + 2) (split_line raw delimiter)))
               \<lparr>imp_products = [], imp_problems = []\<rparr> (enumerate 0 rows)))))"

section \<open>Writing an import into the catalogue\<close>

text \<open>\<open>commit_import\<close> (\<open>crates/sahl-terminal/src/commands/mod.rs\<close>) and what \<open>record_catalogue\<close> does to the
  catalogue: the file is read again, refused while it has problems, and then recorded one
  product at a time.  The fresh identifiers are given; sealing the events is elsewhere.\<close>

datatype commit_error = BadFile import_error | NotClean nat | CommitCatalogue catalogue_error

definition import_default_rate :: "catalogue \<Rightarrow> int" where
  "import_default_rate cat =
     (case List.map_filter (\<lambda>p. case pr_tax_class p of Standard r \<Rightarrow> Some (basis_points r) | _ \<Rightarrow> None) (sellable cat) of
        [] \<Rightarrow> 1500
      | bp # _ \<Rightarrow> bp)"

definition import_details :: "imported_product \<Rightarrow> product_details" where
  "import_details row =
     \<lparr>pd_name = im_name row, pd_sku = im_sku row, pd_barcodes = im_barcodes row, pd_price = im_price row,
      pd_unit = im_unit row, pd_tax_class = im_tax_class row, pd_category = im_category row,
      pd_station = None, pd_option_groups = []\<rparr>"

fun commit_rows ::
    "catalogue \<Rightarrow> (uuid \<times> imported_product) list \<Rightarrow> timestamp \<Rightarrow> uuid \<Rightarrow> nat \<Rightarrow> catalogue \<times> (commit_error + nat)" where
  "commit_rows cat [] at added_by written = (cat, Inr written)"
| "commit_rows cat ((i, row) # rows) at added_by written =
     (case catalogue_apply cat (ProductAdded i (import_details row) at added_by) of
        Inl e \<Rightarrow> (cat, Inl (CommitCatalogue e))
      | Inr cat' \<Rightarrow> commit_rows cat' rows at added_by (written + 1))"

definition commit_import ::
    "catalogue \<Rightarrow> utext \<Rightarrow> bool \<Rightarrow> currency \<Rightarrow> uuid list \<Rightarrow> timestamp \<Rightarrow> uuid \<Rightarrow> catalogue \<times> (commit_error + nat)" where
  "commit_import cat text tab_separated c ids at added_by =
     (case from_delimited text (if tab_separated then 9 else 44) c (import_default_rate cat) of
        Inl e \<Rightarrow> (cat, Inl (BadFile e))
      | Inr imp \<Rightarrow>
          (if imp_problems imp \<noteq> [] then (cat, Inl (NotClean (length (imp_problems imp))))
           else commit_rows cat (zip ids (imp_products imp)) at added_by 0))"

section \<open>What reading a file establishes\<close>

definition the_products :: "(import_problem + imported_product) list \<Rightarrow> imported_product list" where
  "the_products rs = List.map_filter (\<lambda>r. case r of Inl _ \<Rightarrow> None | Inr p \<Rightarrow> Some p) rs"

definition the_problems :: "(import_problem + imported_product) list \<Rightarrow> import_problem list" where
  "the_problems rs = List.map_filter (\<lambda>r. case r of Inl p \<Rightarrow> Some p | Inr _ \<Rightarrow> None) rs"

lemma add_rows:
  "foldl (\<lambda>i x. add_row i (f x)) i xs =
     \<lparr>imp_products = imp_products i @ the_products (map f xs), imp_problems = imp_problems i @ the_problems (map f xs)\<rparr>"
  by (induction xs arbitrary: i)
    (auto simp: add_row_def the_products_def the_problems_def List.map_filter_simps split: sum.splits)

lemma row_counts: "length (the_products rs) + length (the_problems rs) = length rs"
  by (induction rs) (auto simp: the_products_def the_problems_def List.map_filter_simps split: sum.splits)

lemma the_products_iff: "p \<in> set (the_products rs) \<longleftrightarrow> Inr p \<in> set rs"
  by (induction rs) (auto simp: the_products_def List.map_filter_simps split: sum.splits)

lemma the_problems_iff: "p \<in> set (the_problems rs) \<longleftrightarrow> Inl p \<in> set rs"
  by (induction rs) (auto simp: the_problems_def List.map_filter_simps split: sum.splits)

lemma read_row_line:
  "read_row co n p c bp line cells = Inl e \<Longrightarrow> ip_line e = line"
  by (auto simp: read_row_def problem_def and_then_Inl_iff row_unit_def row_vat_def Let_def map_err_def
      split: option.splits sum.splits)

lemma cell_at_Some: "cell_at cells at = Some v \<Longrightarrow> trim v \<noteq> []"
  by (auto simp: cell_at_def bind_eq_Some_conv split: if_splits)

lemma parse_money_currency: "parse_money raw c = Inr m \<Longrightarrow> currency m = c \<and> wf_money m"
  by (auto simp: parse_money_def Let_def res_simps from_minor_def wf_money_def split: if_splits prod.splits option.splits)

lemma read_row_valid:
  assumes "read_row co n p c bp line cells = Inr row"
  shows "trim (im_name row) \<noteq> [] \<and> currency (im_price row) = c \<and> (\<forall>b \<in> set (im_barcodes row). trim b \<noteq> [])"
  using assms
  by (auto simp: read_row_def res_simps Let_def split_barcodes_def dest!: cell_at_Some parse_money_currency
      split: option.splits)

lemma import_valid:
  assumes "trim (im_name row) \<noteq> []" and "\<forall>b \<in> set (im_barcodes row). trim b \<noteq> []" and "0 \<le> minor (im_price row)"
  shows "product_validate (product_of i (import_details row) True) = Inr ()"
  using assms by (simp add: product_validate_def product_of_def import_details_def list_ex_iff not_less)

lemma from_delimited_rows:
  assumes "from_delimited text delimiter c bp = Inr imp"
  shows "\<exists>header rows rs. filter (\<lambda>line. trim line \<noteq> []) (text_lines text) = header # rows
    \<and> length rs = length rows \<and> imp_products imp = the_products rs \<and> imp_problems imp = the_problems rs
    \<and> (\<forall>i < length rows. \<exists>co n p. rs ! i = read_row co n p c bp (i + 2) (split_line (rows ! i) delimiter))"
proof -
  from assms obtain header rows where h: "filter (\<lambda>line. trim line \<noteq> []) (text_lines text) = header # rows"
    by (auto simp: from_delimited_def split: list.splits)
  let ?co = "read_columns (split_line header delimiter)"
  from assms h obtain n p where np: "imp = foldl (\<lambda>i x. add_row i ((\<lambda>(offset, raw).
      read_row ?co n p c bp (offset + 2) (split_line raw delimiter)) x))
      \<lparr>imp_products = [], imp_problems = []\<rparr> (enumerate 0 rows)"
    by (auto simp: from_delimited_def Let_def res_simps case_prod_unfold)
  let ?rs = "map (\<lambda>(offset, raw). read_row ?co n p c bp (offset + 2) (split_line raw delimiter)) (enumerate 0 rows)"
  have "imp_products imp = the_products ?rs" "imp_problems imp = the_problems ?rs" "length ?rs = length rows"
    by (simp_all add: np add_rows)
  moreover have "\<forall>i < length rows. \<exists>co n p. ?rs ! i = read_row co n p c bp (i + 2) (split_line (rows ! i) delimiter)"
    by (auto simp: nth_enumerate_eq)
  ultimately show ?thesis using h by blast
qed

lemma filter_price:
  assumes "list_all is_ascii_digit s"
  shows "filter (\<lambda>x. is_ascii_digit x \<or> x = 46 \<or> x = 45) s = s" and "46 \<notin> set s" and "45 \<notin> set s"
  using assms by (auto simp: filter_id_conv list_all_iff is_ascii_digit_def)

lemma split_once_at: "d \<notin> set s \<Longrightarrow> split_once d (s @ d # t) = Some (s, t)"
proof -
  assume d: "d \<notin> set s"
  then have "takeWhile (\<lambda>c. c \<noteq> d) (s @ d # t) = s" "dropWhile (\<lambda>c. c \<noteq> d) (s @ d # t) = d # t"
    by (induction s) auto
  then show ?thesis by (simp add: split_once_def)
qed

lemma code_filtered: "filter (\<lambda>x. is_ascii_digit x \<or> x = 46 \<or> x = 45) (lit '' '' @ lit (code c)) = []"
  by (cases c; simp add: lit_def is_ascii_digit_def)

lemma good_insert_apart:
  assumes "good_catalogue cat" and "\<And>q. q \<in> set (bt_values cat) \<Longrightarrow> set (pr_barcodes q) \<inter> set (pr_barcodes p) = {}"
  shows "assert_barcodes_free cat p = Inr ()"
  using assms by (auto simp: assert_barcodes_free_Inr)

text \<open>Rows that carry valid products with new identifiers and codes of their own are all recorded.\<close>

lemma commit_rows_ok:
  assumes "good_catalogue cat" and "distinct (map fst rows)" and "\<And>i. i \<in> fst ` set rows \<Longrightarrow> bt_get cat i = None"
    and "\<And>i r. (i, r) \<in> set rows \<Longrightarrow> product_validate (product_of i (import_details r) True) = Inr ()"
    and "\<And>q b. q \<in> set (bt_values cat) \<Longrightarrow> b \<in> set (pr_barcodes q) \<Longrightarrow> b \<notin> (\<Union>r \<in> snd ` set rows. set (im_barcodes r))"
    and "\<And>j k. j < k \<Longrightarrow> k < length rows \<Longrightarrow> set (im_barcodes (snd (rows ! j))) \<inter> set (im_barcodes (snd (rows ! k))) = {}"
  shows "\<exists>cat'. commit_rows cat rows at by n = (cat', Inr (n + length rows)) \<and> good_catalogue cat'
    \<and> (\<forall>i. bt_get cat' i = (case map_of rows i of Some r \<Rightarrow> Some (product_of i (import_details r) True) | None \<Rightarrow> bt_get cat i))"
  using assms
proof (induction rows arbitrary: cat n)
  case (Cons row rows)
  obtain i r where row: "row = (i, r)" by (cases row)
  let ?p = "product_of i (import_details r) True"
  have bc: "pr_barcodes ?p = im_barcodes r" "pr_id ?p = i" by (simp_all add: product_of_def import_details_def)
  have free: "assert_barcodes_free cat ?p = Inr ()"
    using Cons.prems(5) by (intro good_insert_apart [OF Cons.prems(1)]) (auto simp: bc row)
  have valid: "product_validate ?p = Inr ()" using Cons.prems(4) [of i r] by (simp add: row)
  let ?cat = "bt_insert i ?p cat"
  have ok: "bt_ok cat" using Cons.prems(1) by (simp add: good_catalogue_def)
  have step: "catalogue_apply cat (ProductAdded i (import_details r) at by) = Inr ?cat"
    using Cons.prems(3) [of i] valid free by (simp add: row catalogue_apply_def to_product_def)
  have good: "good_catalogue ?cat" by (rule good_catalogue_insert [OF Cons.prems(1) bc(2) valid free])
  have "\<exists>cat'. commit_rows ?cat rows at by (n + 1) = (cat', Inr (n + 1 + length rows)) \<and> good_catalogue cat'
    \<and> (\<forall>j. bt_get cat' j = (case map_of rows j of Some r \<Rightarrow> Some (product_of j (import_details r) True) | None \<Rightarrow> bt_get ?cat j))"
  proof (rule Cons.IH [OF good])
    show "distinct (map fst rows)" using Cons.prems(2) by simp
    show "bt_get ?cat j = None" if "j \<in> fst ` set rows" for j
      using that Cons.prems(2,3) by (auto simp: row)
    show "product_validate (product_of j (import_details q) True) = Inr ()" if "(j, q) \<in> set rows" for j q
      using that Cons.prems(4) by simp
    show "b \<notin> (\<Union>r \<in> snd ` set rows. set (im_barcodes r))" if q: "q \<in> set (bt_values ?cat)" "b \<in> set (pr_barcodes q)" for q b
      using bt_insert_values [OF q(1)]
    proof
      assume "q \<in> set (bt_values cat)"
      with Cons.prems(5) [of q b] q(2) show ?thesis by (auto simp: row)
    next
      assume "q = ?p"
      then have b: "b \<in> set (im_barcodes r)" using q(2) bc by simp
      have "b \<notin> set (im_barcodes (snd x))" if x: "x \<in> set rows" for x
      proof -
        obtain k where "k < length rows" "x = rows ! k" using x by (auto simp: in_set_conv_nth)
        with Cons.prems(6) [of 0 "Suc k"] b show ?thesis by (auto simp: row)
      qed
      then show ?thesis by auto
    qed
    show "set (im_barcodes (snd (rows ! j))) \<inter> set (im_barcodes (snd (rows ! k))) = {}" if "j < k" "k < length rows" for j k
      using Cons.prems(6) [of "Suc j" "Suc k"] that by simp
  qed
  then obtain cat' where cat': "commit_rows ?cat rows at by (n + 1) = (cat', Inr (n + 1 + length rows))" "good_catalogue cat'"
    "\<And>j. bt_get cat' j = (case map_of rows j of Some r \<Rightarrow> Some (product_of j (import_details r) True) | None \<Rightarrow> bt_get ?cat j)"
    by blast
  have "map_of rows i = None" using Cons.prems(2) by (simp add: row map_of_eq_None_iff)
  with cat' step show ?case by (auto simp: row split: option.splits)
qed simp

section \<open>Properties\<close>

text \<open>A price written by the program reads back as itself: the importer's reader inverts the display
  form of every amount that is not negative.\<close>

theorem price_roundtrip:
  assumes "wf_money m" and "0 \<le> minor m"
  shows "parse_money (show_money m) (currency m) = Inr m"
proof -
  let ?w = "show_digits (minor m div 100)" and ?f = "pad_zero 2 (show_digits (minor m mod 100))"
  have w: "list_all is_ascii_digit ?w" "digits_value ?w = minor m div 100"
    using assms(2) by (simp_all add: show_digits_digits show_digits_value)
  have f: "list_all is_ascii_digit ?f" "digits_value ?f = minor m mod 100" "length ?f = 2"
    using pad_zero_digits [of "minor m mod 100" 2] pad_zero_length [of "minor m mod 100" 2] by simp_all
  have expo: "exponent (currency m) = 2" by (cases "currency m") simp_all
  have dot: "lit ''.'' = [46]" by (simp add: lit_def)
  let ?P = "\<lambda>x. is_ascii_digit x \<or> x = 46 \<or> x = 45"
  have "filter ?P (show_money m) = filter ?P ?w @ filter ?P [46] @ filter ?P ?f @ filter ?P (lit '' '' @ lit (code (currency m)))"
    unfolding show_money_nonneg [OF assms] dot filter_append ..
  then have cleaned: "filter ?P (show_money m) = ?w @ 46 # ?f"
    unfolding filter_price(1) [OF w(1)] filter_price(1) [OF f(1)] code_filtered by simp
  have "hd (?w @ 46 # ?f) \<noteq> 45" using filter_price(3) [OF w(1)] by (cases ?w) auto
  moreover have "split_once 46 (?w @ 46 # ?f) = Some (?w, ?f)"
    by (rule split_once_at [OF filter_price(2) [OF w(1)]])
  moreover have "parse_int in_i64 ?w = Some (minor m div 100)"
    using parse_int_digits [OF w(1), of in_i64] w(2) assms by (auto simp: fit_def wf_money_def in_i64_def)
  moreover have nonempty: "?f \<noteq> []" using f(3) by auto
  moreover have "in_i64 (minor m mod 100)"
  proof -
    have "0 \<le> minor m mod 100" "minor m mod 100 < 100" "- (2 ^ 63) \<le> (0 :: int)" "(100 :: int) \<le> 2 ^ 63" by simp_all
    then show ?thesis unfolding in_i64_def by (blast intro: order_trans less_le_trans)
  qed
  then have "parse_int in_i64 (fill_zero 2 ?f) = Some (minor m mod 100)"
    using parse_int_digits [OF f(1) nonempty, of in_i64] f(2,3) by (simp add: fit_def fill_zero_def)
  moreover have "in_i64 (minor m div 100 * 100)" "in_i64 (minor m)"
    using assms by (auto simp: wf_money_def in_i64_def)
  moreover have "minor m div 100 * 100 + minor m mod 100 = minor m" by simp
  ultimately show ?thesis
    unfolding parse_money_def Let_def cleaned expo
    using f(3) assms(2) by (simp add: fit_def from_minor_def)
qed

lemma price_roundtrip_witness: "parse_money (show_money (taka 123405)) Bdt = Inr (taka 123405)"
  using price_roundtrip [of "taka 123405"] by (simp add: taka_def wf_money_def in_i64_def)

text \<open>C22: no row of a file is lost or read twice: products and problems together are the rows that are
  not blank, less the header; a problem names its row by its place among those rows; and a
  product whose price is not negative is one the catalogue accepts, in the outlet's currency.
  Blank lines are not counted, so after one a problem names an earlier line of the file than its
  own; and the price column of a clean import can hold a negative amount.\<close>

definition blank_row_file :: utext where
  "blank_row_file = lit ''name,price'' @ [10] @ [10] @ lit ''Tea,x'' @ [10]"

definition minus_file :: utext where
  "minus_file = lit ''name,price'' @ [10] @ lit ''Rice,480'' @ [10] @ lit ''Tea,0.-5'' @ [10]"

theorem import_rows_accounted:
  assumes "from_delimited text delimiter c bp = Inr imp"
  shows "length (imp_products imp) + length (imp_problems imp) + 1 = length (filter (\<lambda>l. trim l \<noteq> []) (text_lines text))
    \<and> (\<forall>e \<in> set (imp_problems imp). 2 \<le> ip_line e
         \<and> ip_line e \<le> length (filter (\<lambda>l. trim l \<noteq> []) (text_lines text)))
    \<and> (\<forall>p \<in> set (imp_products imp). currency (im_price p) = c
         \<and> (0 \<le> minor (im_price p) \<longrightarrow> (\<forall>i. product_validate (product_of i (import_details p) True) = Inr ())))
    \<and> map_ok (map ip_line \<circ> imp_problems) (from_delimited blank_row_file 44 Bdt 1500) = Inr [2]
    \<and> text_lines blank_row_file ! 2 = lit ''Tea,x''
    \<and> map_ok (\<lambda>i. (is_clean i, map (minor \<circ> im_price) (imp_products i))) (from_delimited minus_file 44 Bdt 1500)
        = Inr (True, [48000, - 5])"
proof -
  from from_delimited_rows [OF assms] obtain header rows rs where
    h: "filter (\<lambda>line. trim line \<noteq> []) (text_lines text) = header # rows" "length rs = length rows"
    and imp: "imp_products imp = the_products rs" "imp_problems imp = the_problems rs"
    and rs: "\<And>i. i < length rows \<Longrightarrow> \<exists>co n p. rs ! i = read_row co n p c bp (i + 2) (split_line (rows ! i) delimiter)"
    by blast
  have row: "\<exists>i < length rows. \<exists>co n p. r = read_row co n p c bp (i + 2) (split_line (rows ! i) delimiter)"
    if "r \<in> set rs" for r
    using that rs h(2) by (metis in_set_conv_nth)
  have "length (imp_products imp) + length (imp_problems imp) + 1 = length (header # rows)"
    using row_counts [of rs] h(2) imp by simp
  moreover have "2 \<le> ip_line e \<and> ip_line e \<le> length (header # rows)" if "e \<in> set (imp_problems imp)" for e
    using row [of "Inl e"] that imp(2) read_row_line by (fastforce simp: the_problems_iff)
  moreover have "currency (im_price p) = c
      \<and> (0 \<le> minor (im_price p) \<longrightarrow> (\<forall>i. product_validate (product_of i (import_details p) True) = Inr ()))"
    if p: "p \<in> set (imp_products imp)" for p
  proof -
    have "Inr p \<in> set rs" using p imp(1) by (simp add: the_products_iff)
    from row [OF this] obtain i co n q where "read_row co n q c bp (i + 2) (split_line (rows ! i) delimiter) = Inr p"
      by (metis (no_types))
    from read_row_valid [OF this] import_valid [of p] show ?thesis by blast
  qed
  moreover have "map_ok (map ip_line \<circ> imp_problems) (from_delimited blank_row_file 44 Bdt 1500) = Inr [2]"
    "text_lines blank_row_file ! 2 = lit ''Tea,x''"
    "map_ok (\<lambda>i. (is_clean i, map (minor \<circ> im_price) (imp_products i))) (from_delimited minus_file 44 Bdt 1500)
      = Inr (True, [48000, - 5])"
    by code_simp+
  ultimately show ?thesis unfolding h(1) by blast
qed

lemma import_rows_accounted_witness:
  "\<exists>imp. from_delimited minus_file 44 Bdt 1500 = Inr imp \<and> length (imp_products imp) + length (imp_problems imp) = 2"
proof -
  have "length (filter (\<lambda>l. trim l \<noteq> []) (text_lines minus_file)) = 3" by code_simp
  moreover have "is_ok (from_delimited minus_file 44 Bdt 1500)" by code_simp
  then obtain imp where imp: "from_delimited minus_file 44 Bdt 1500 = Inr imp" by (auto simp: is_ok_iff)
  ultimately show ?thesis using import_rows_accounted [OF imp] by auto
qed

text \<open>A clean import whose prices are not negative and whose codes are new and on one row each is
  written whole: every row becomes a product and nothing else in the catalogue changes.  Without
  those conditions, which the preview does not check, it can stop halfway: the clean file above
  leaves its first row in the catalogue and reports an error.\<close>

theorem commit_import_whole:
  assumes "good_catalogue cat"
    and "from_delimited text (if tab then 9 else 44) c (import_default_rate cat) = Inr imp" and "is_clean imp"
    and "length ids = length (imp_products imp)" and "distinct ids" and "\<And>i. i \<in> set ids \<Longrightarrow> bt_get cat i = None"
    and "\<And>p. p \<in> set (imp_products imp) \<Longrightarrow> 0 \<le> minor (im_price p)"
    and "\<And>q p. q \<in> set (bt_values cat) \<Longrightarrow> p \<in> set (imp_products imp) \<Longrightarrow> set (pr_barcodes q) \<inter> set (im_barcodes p) = {}"
    and "\<And>j k. j < k \<Longrightarrow> k < length (imp_products imp) \<Longrightarrow>
      set (im_barcodes (imp_products imp ! j)) \<inter> set (im_barcodes (imp_products imp ! k)) = {}"
  shows "(\<exists>cat'. commit_import cat text tab c ids at by_whom = (cat', Inr (length ids)) \<and> good_catalogue cat'
      \<and> (\<forall>i. bt_get cat' i = (case map_of (zip ids (imp_products imp)) i of
           Some r \<Rightarrow> Some (product_of i (import_details r) True) | None \<Rightarrow> bt_get cat i)))
    \<and> (case commit_import [] minus_file False Bdt [1, 2] \<lparr>millis = 0\<rparr> 7 of (cat', r) \<Rightarrow>
         r = Inl (CommitCatalogue (NegativePrice (taka (- 5)))) \<and> map (minor \<circ> pr_price) (bt_values cat') = [48000])"
proof (rule conjI)
  let ?rows = "zip ids (imp_products imp)"
  have fst: "map fst ?rows = ids" and snd: "map snd ?rows = imp_products imp" using assms(4) by simp_all
  have valid: "product_validate (product_of i (import_details r) True) = Inr ()" if "(i, r) \<in> set ?rows" for i r
  proof -
    have r: "r \<in> set (imp_products imp)" using that by (rule set_zip_rightD)
    from from_delimited_rows [OF assms(2)] obtain rows rs where imp: "imp_products imp = the_products rs"
      "length rs = length rows"
      and rs: "\<And>i. i < length rows \<Longrightarrow> \<exists>co n p. rs ! i = read_row co n p c (import_default_rate cat) (i + 2)
        (split_line (rows ! i) (if tab then 9 else 44))" by blast
    have "Inr r \<in> set rs" using r imp(1) by (simp add: the_products_iff)
    then obtain k where "k < length rs" "rs ! k = Inr r" by (auto simp: in_set_conv_nth)
    with rs [of k] imp(2) read_row_valid have "trim (im_name r) \<noteq> [] \<and> (\<forall>b \<in> set (im_barcodes r). trim b \<noteq> [])"
      by fastforce
    with import_valid assms(7) [OF r] show ?thesis by blast
  qed
  have "\<exists>cat'. commit_rows cat ?rows at by_whom 0 = (cat', Inr (0 + length ?rows)) \<and> good_catalogue cat'
      \<and> (\<forall>i. bt_get cat' i = (case map_of ?rows i of Some r \<Rightarrow> Some (product_of i (import_details r) True) | None \<Rightarrow> bt_get cat i))"
  proof (rule commit_rows_ok [OF assms(1)])
    show "distinct (map fst ?rows)" using fst assms(5) by simp
    show "bt_get cat i = None" if "i \<in> fst ` set ?rows" for i
      using that assms(6) by (metis fst list.set_map)
    show "product_validate (product_of i (import_details r) True) = Inr ()" if "(i, r) \<in> set ?rows" for i r
      using that by (rule valid)
    show "b \<notin> (\<Union>r \<in> snd ` set ?rows. set (im_barcodes r))" if "q \<in> set (bt_values cat)" "b \<in> set (pr_barcodes q)" for q b
      using that assms(8) by (fastforce dest: set_zip_rightD)
    show "set (im_barcodes (snd (?rows ! j))) \<inter> set (im_barcodes (snd (?rows ! k))) = {}" if "j < k" "k < length ?rows" for j k
      using that assms(4) assms(9) [of j k] by simp
  qed
  then show "\<exists>cat'. commit_import cat text tab c ids at by_whom = (cat', Inr (length ids)) \<and> good_catalogue cat'
      \<and> (\<forall>i. bt_get cat' i = (case map_of ?rows i of
           Some r \<Rightarrow> Some (product_of i (import_details r) True) | None \<Rightarrow> bt_get cat i))"
    using assms(2-4) by (simp add: commit_import_def is_clean_def)
  show "case commit_import [] minus_file False Bdt [1, 2] \<lparr>millis = 0\<rparr> 7 of (cat', r) \<Rightarrow>
         r = Inl (CommitCatalogue (NegativePrice (taka (- 5)))) \<and> map (minor \<circ> pr_price) (bt_values cat') = [48000]"
    by code_simp
qed

definition two_row_file :: utext where
  "two_row_file = lit ''name,price,barcode'' @ [10] @ lit ''Rice,480,8901'' @ [10] @ lit ''Tea,12.5,8902;8903'' @ [10]"

lemma commit_import_whole_witness:
  "\<exists>imp cat'. from_delimited two_row_file 44 Bdt 1500 = Inr imp \<and> length (imp_products imp) = 2
     \<and> commit_import [] two_row_file False Bdt [1, 2] \<lparr>millis = 0\<rparr> 7 = (cat', Inr 2) \<and> good_catalogue cat'"
proof -
  have "map_ok (\<lambda>i. (imp_problems i = [], map (\<lambda>p. (minor (im_price p), im_barcodes p)) (imp_products i)))
      (from_delimited two_row_file 44 Bdt 1500)
    = Inr (True, [(48000, [lit ''8901'']), (1250, [lit ''8902'', lit ''8903''])])"
    by code_simp
  then obtain imp where imp: "from_delimited two_row_file 44 Bdt 1500 = Inr imp" "imp_problems imp = []"
    "map (\<lambda>p. (minor (im_price p), im_barcodes p)) (imp_products imp)
      = [(48000, [lit ''8901'']), (1250, [lit ''8902'', lit ''8903''])]"
    by (simp only: map_ok_Inr_iff prod.inject) (elim exE conjE, rule that, assumption, blast, erule sym)
  then obtain p q where pq: "imp_products imp = [p, q]" "minor (im_price p) = 48000" "minor (im_price q) = 1250"
    "im_barcodes p = [lit ''8901'']" "im_barcodes q = [lit ''8902'', lit ''8903'']"
    by (auto simp: map_eq_Cons_conv)
  have rate: "import_default_rate [] = 1500" by (simp add: import_default_rate_def sellable_def bt_values_def)
  have read: "from_delimited two_row_file (if False then 9 else 44) Bdt (import_default_rate []) = Inr imp"
    using imp(1) rate by simp
  have apart: "set (im_barcodes (imp_products imp ! j)) \<inter> set (im_barcodes (imp_products imp ! k)) = {}"
    if "j < k" "k < length (imp_products imp)" for j k
    using that pq by (cases j; cases k) (auto simp: lit_def)
  have base: "is_clean imp" "good_catalogue []" "length [1 :: uuid, 2] = length (imp_products imp)" "distinct [1 :: uuid, 2]"
    "\<And>i. i \<in> set [1, 2] \<Longrightarrow> bt_get ([] :: catalogue) i = None"
    "\<And>p. p \<in> set (imp_products imp) \<Longrightarrow> 0 \<le> minor (im_price p)"
    "\<And>q p. q \<in> set (bt_values ([] :: catalogue)) \<Longrightarrow> p \<in> set (imp_products imp)
      \<Longrightarrow> set (pr_barcodes q) \<inter> set (im_barcodes p) = {}"
    using imp(2) pq catalogue_new_good by (auto simp: is_clean_def catalogue_new_def bt_values_def)
  have "\<exists>cat'. commit_import [] two_row_file False Bdt [1, 2] \<lparr>millis = 0\<rparr> 7 = (cat', Inr (length [1 :: uuid, 2]))
      \<and> good_catalogue cat' \<and> (\<forall>i. bt_get cat' i = (case map_of (zip [1, 2] (imp_products imp)) i of
           Some r \<Rightarrow> Some (product_of i (import_details r) True) | None \<Rightarrow> bt_get [] i))"
    by (rule commit_import_whole [THEN conjunct1, OF base(2) read base(1,3,4)]) (use base(5-7) apart in blast)+
  then obtain cat' where "commit_import [] two_row_file False Bdt [1, 2] \<lparr>millis = 0\<rparr> 7 = (cat', Inr (length [1 :: uuid, 2]))"
    "good_catalogue cat'" by blast
  with imp(1) pq(1) show ?thesis by auto
qed

end
