(* ===== verification/Scale.thy ===== *)
theory Scale
  imports Catalogue Display
begin

text \<open>
  Selling things that are weighed (\<open>crates/sahl-core/src/scale\<close>): the layout of a scale's labels, the
  reading of one, and whether a weight may become a sale line.  A digit is a code point, so the
  length of a text in bytes is that of its UTF-8 form.
\<close>

definition utf8_length :: "utext \<Rightarrow> nat" where
  "utf8_length s = sum_list (map (\<lambda>c. if c < 128 then 1 else if c < 2048 then 2 else if c < 65536 then 3 else 4) s)"

datatype scale_error =
    WrongLength nat
  | NotADigit int
  | NotAScaleLabel utext utext
  | BadCheckDigit int int
  | BadFormat nat nat nat nat nat
  | BadPrefix nat
  | TooPrecise nat string
  | ScaleMoney money_error

datatype embedded = EmbeddedWeight | EmbeddedPrice

record scale_format =
  sf_prefix :: utext
  sf_item_digits :: nat
  sf_embedded :: embedded
  sf_value_digits :: nat
  sf_value_decimals :: nat
  sf_filler_digits :: nat

definition label_length :: nat where
  "label_length = 13"

definition format_new :: "utext \<Rightarrow> nat \<Rightarrow> embedded \<Rightarrow> nat \<Rightarrow> nat \<Rightarrow> nat \<Rightarrow> scale_error + scale_format" where
  "format_new prefix item_digits e value_digits value_decimals filler_digits =
     (if prefix = [] \<or> utf8_length prefix > 3 \<or> \<not> list_all is_ascii_digit prefix
      then Inl (BadPrefix (utf8_length prefix))
      else
        let total = utf8_length prefix + item_digits + value_digits + filler_digits + 1 in
        if total \<noteq> label_length \<or> item_digits = 0 \<or> value_digits = 0
        then Inl (BadFormat (utf8_length prefix) item_digits value_digits filler_digits total)
        else Inr \<lparr>sf_prefix = prefix, sf_item_digits = item_digits, sf_embedded = e, sf_value_digits = value_digits,
                  sf_value_decimals = value_decimals, sf_filler_digits = filler_digits\<rparr>)"

definition starts_with :: "utext \<Rightarrow> utext \<Rightarrow> bool" where
  "starts_with s p \<longleftrightarrow> take (length p) s = p"

definition label_matches :: "scale_format \<Rightarrow> utext \<Rightarrow> bool" where
  "label_matches f barcode \<longleftrightarrow>
     utf8_length barcode = label_length \<and> starts_with barcode (sf_prefix f) \<and> list_all is_ascii_digit barcode"

text \<open>The fold of \<open>check_digit\<close>: the weights alternate 1 and 3 from the left.\<close>

fun weighted_sum :: "nat \<Rightarrow> utext \<Rightarrow> scale_error + int" where
  "weighted_sum index [] = Inr 0"
| "weighted_sum index (c # s) =
     and_then (if is_ascii_digit c then Inr (c - 48) else Inl (NotADigit c)) (\<lambda>digit.
     map_ok (\<lambda>rest. digit * (if index mod 2 = 0 then 1 else 3) + rest) (weighted_sum (index + 1) s))"

definition check_digit :: "utext \<Rightarrow> scale_error + int" where
  "check_digit twelve = map_ok (\<lambda>sum. (10 - sum mod 10) mod 10) (weighted_sum 0 twelve)"

definition digit_at :: "utext \<Rightarrow> nat \<Rightarrow> scale_error + int" where
  "digit_at barcode index =
     ok_or (WrongLength (utf8_length barcode))
       (Option.bind (get barcode index) (\<lambda>c. if is_ascii_digit c then Some (c - 48) else None))"

datatype scanned_value = ScannedWeight quantity | ScannedPrice money

record scale_scan =
  sc_item_code :: utext
  sc_value :: scanned_value

definition to_quantity :: "scale_format \<Rightarrow> int \<Rightarrow> scale_error + quantity" where
  "to_quantity f raw =
     (if sf_value_decimals f > 3 then Inl (TooPrecise (sf_value_decimals f) ''thousandths'')
      else map_ok from_milli (ok_or (ScaleMoney Overflow) (fit in_i64 (raw * 10 ^ (3 - sf_value_decimals f)))))"

definition to_money :: "scale_format \<Rightarrow> int \<Rightarrow> currency \<Rightarrow> scale_error + money" where
  "to_money f raw c =
     (if sf_value_decimals f > exponent c then Inl (TooPrecise (sf_value_decimals f) ''minor units'')
      else map_ok (\<lambda>n. from_minor n c)
             (ok_or (ScaleMoney Overflow) (fit in_i64 (raw * 10 ^ (exponent c - sf_value_decimals f)))))"

definition slice :: "nat \<Rightarrow> nat \<Rightarrow> utext \<Rightarrow> utext" where
  "slice from until s = take (until - from) (drop from s)"

definition read_value :: "scale_format \<Rightarrow> int \<Rightarrow> currency \<Rightarrow> scale_error + scanned_value" where
  "read_value f raw c =
     (case sf_embedded f of
        EmbeddedWeight \<Rightarrow> map_ok ScannedWeight (to_quantity f raw)
      | EmbeddedPrice \<Rightarrow> map_ok ScannedPrice (to_money f raw c))"

definition label_parse :: "scale_format \<Rightarrow> utext \<Rightarrow> currency \<Rightarrow> scale_error + scale_scan" where
  "label_parse f barcode c =
     (if utf8_length barcode \<noteq> label_length then Inl (WrongLength (utf8_length barcode))
      else case List.find (\<lambda>x. \<not> is_ascii_digit x) barcode of
        Some found \<Rightarrow> Inl (NotADigit found)
      | None \<Rightarrow>
        (if \<not> starts_with barcode (sf_prefix f) then Inl (NotAScaleLabel barcode (sf_prefix f))
         else
           and_then (check_digit (take 12 barcode)) (\<lambda>expected.
           and_then (digit_at barcode 12) (\<lambda>found.
           if found \<noteq> expected then Inl (BadCheckDigit found expected)
           else
             let item_start = utf8_length (sf_prefix f);
                 item_end = item_start + sf_item_digits f;
                 value_end = item_end + sf_value_digits f
             in and_then (ok_or (WrongLength label_length) (parse_int in_i64 (slice item_end value_end barcode))) (\<lambda>raw.
                and_then (read_value f raw c) (\<lambda>value.
                Inr \<lparr>sc_item_code = slice item_start item_end barcode, sc_value = value\<rparr>))))))"

section \<open>Weighing\<close>

datatype weigh_error = WeighedNothing | WeighedNegative quantity | NotDivisible supply_unit quantity

definition weigh :: "supply_unit \<Rightarrow> quantity \<Rightarrow> weigh_error + quantity" where
  "weigh u q =
     (if quantity_is_negative q then Inl (WeighedNegative q)
      else if quantity_is_zero q then Inl WeighedNothing
      else if \<not> is_divisible u \<and> milli q smod milli_per_unit \<noteq> 0 then Inl (NotDivisible u q)
      else Inr q)"

section \<open>Check digits\<close>

lemma ascii_length: "list_all is_ascii_digit s \<Longrightarrow> utf8_length s = length s"
proof (induction s)
  case (Cons c s)
  then have "c < 128" by (simp add: is_ascii_digit_def)
  with Cons show ?case by (simp add: utf8_length_def)
qed (simp add: utf8_length_def)

definition weight_at :: "nat \<Rightarrow> int" where
  "weight_at i = (if i mod 2 = 0 then 1 else 3)"

fun digit_sum :: "nat \<Rightarrow> utext \<Rightarrow> int" where
  "digit_sum k [] = 0"
| "digit_sum k (c # s) = (c - 48) * weight_at k + digit_sum (k + 1) s"

lemma weighted_sum_digits:
  "list_all is_ascii_digit s \<Longrightarrow> weighted_sum k s = Inr (digit_sum k s)"
  by (induction s arbitrary: k) (simp_all add: weight_at_def)

lemma digit_sum_append: "digit_sum k (s @ t) = digit_sum k s + digit_sum (k + length s) t"
  by (induction s arbitrary: k) simp_all

lemma digit_sum_update:
  "i < length s \<Longrightarrow> digit_sum k (s[i := x]) = digit_sum k s + (x - s ! i) * weight_at (k + i)"
proof (induction s arbitrary: k i)
  case (Cons c s)
  show ?case
  proof (cases i)
    case (Suc j)
    with Cons.IH [of j "Suc k"] Cons.prems show ?thesis by simp
  qed (simp add: algebra_simps)
qed simp

lemma check_digit_step:
  fixes t d :: int
  assumes "0 \<le> d" and "d \<le> 9"
  shows "d = (10 - t mod 10) mod 10 \<longleftrightarrow> (t + d) mod 10 = 0"
  using assms by presburger

text \<open>A text of thirteen digits passes the check exactly when its weighted sum is a multiple of ten.\<close>

lemma label_check:
  assumes "list_all is_ascii_digit b" and "length b = 13"
  shows "\<exists>expected found. check_digit (take 12 b) = Inr expected \<and> digit_at b 12 = Inr found
    \<and> (found = expected \<longleftrightarrow> digit_sum 0 b mod 10 = 0)"
proof -
  have b: "b = take 12 b @ [b ! 12]" using assms(2) take_Suc_conv_app_nth [of 12 b] by simp
  have digits: "list_all is_ascii_digit (take 12 b)" "is_ascii_digit (b ! 12)"
    using assms by (auto simp: list_all_iff dest: in_set_takeD)
  have sum: "digit_sum 0 b = digit_sum 0 (take 12 b) + (b ! 12 - 48)"
    using digit_sum_append [of 0 "take 12 b" "[b ! 12]"] b assms(2) by (simp add: weight_at_def)
  have "digit_at b 12 = Inr (b ! 12 - 48)" using assms(2) digits(2) by (simp add: digit_at_def get_def)
  moreover have "check_digit (take 12 b) = Inr ((10 - digit_sum 0 (take 12 b) mod 10) mod 10)"
    by (simp add: check_digit_def weighted_sum_digits [OF digits(1)])
  moreover have "b ! 12 - 48 = (10 - digit_sum 0 (take 12 b) mod 10) mod 10 \<longleftrightarrow> digit_sum 0 b mod 10 = 0"
    using check_digit_step [of "b ! 12 - 48" "digit_sum 0 (take 12 b)"] digits(2) sum
    by (simp add: is_ascii_digit_def)
  ultimately show ?thesis by (intro exI conjI)
qed

lemma label_parse_shape:
  assumes "label_parse f b c = Inr r"
  shows "list_all is_ascii_digit b \<and> length b = 13 \<and> starts_with b (sf_prefix f) \<and> digit_sum 0 b mod 10 = 0"
proof -
  have "list_all is_ascii_digit b" and len: "utf8_length b = 13" and start: "starts_with b (sf_prefix f)"
    using assms by (auto simp: label_parse_def label_length_def find_None_iff list_all_iff split: if_splits option.splits)
  then have b: "list_all is_ascii_digit b" "length b = 13" using ascii_length by simp_all
  obtain expected found where e: "check_digit (take 12 b) = Inr expected" "digit_at b 12 = Inr found"
    "found = expected \<longleftrightarrow> digit_sum 0 b mod 10 = 0" using label_check [OF b] by (elim exE conjE) (rule that)
  have "List.find (\<lambda>x. \<not> is_ascii_digit x) b = None" using b(1) by (auto simp: find_None_iff list_all_iff)
  with assms e len start have "found = expected"
    by (auto simp: label_parse_def label_length_def split: if_splits)
  with e b start show ?thesis by simp
qed

lemma label_parse_digits:
  assumes "list_all is_ascii_digit b" and "length b = 13" and "starts_with b (sf_prefix f)"
  shows "digit_sum 0 b mod 10 \<noteq> 0 \<Longrightarrow> \<exists>found expected. label_parse f b c = Inl (BadCheckDigit found expected)"
    and "digit_sum 0 b mod 10 = 0 \<Longrightarrow> label_parse f b c =
      (let item_start = utf8_length (sf_prefix f); item_end = item_start + sf_item_digits f;
           value_end = item_end + sf_value_digits f
       in and_then (ok_or (WrongLength label_length) (parse_int in_i64 (slice item_end value_end b))) (\<lambda>raw.
          map_ok (\<lambda>v. \<lparr>sc_item_code = slice item_start item_end b, sc_value = v\<rparr>) (read_value f raw c)))"
proof -
  obtain expected found where e: "check_digit (take 12 b) = Inr expected" "digit_at b 12 = Inr found"
    "found = expected \<longleftrightarrow> digit_sum 0 b mod 10 = 0" using label_check [OF assms(1,2)] by (elim exE conjE) (rule that)
  have f: "List.find (\<lambda>x. \<not> is_ascii_digit x) b = None" using assms(1) by (auto simp: find_None_iff list_all_iff)
  have len: "utf8_length b = label_length" using assms ascii_length by (simp add: label_length_def)
  show "\<exists>found expected. label_parse f b c = Inl (BadCheckDigit found expected)" if "digit_sum 0 b mod 10 \<noteq> 0"
    using that e f len assms(3) by (simp add: label_parse_def)
  show "label_parse f b c =
      (let item_start = utf8_length (sf_prefix f); item_end = item_start + sf_item_digits f;
           value_end = item_end + sf_value_digits f
       in and_then (ok_or (WrongLength label_length) (parse_int in_i64 (slice item_end value_end b))) (\<lambda>raw.
          map_ok (\<lambda>v. \<lparr>sc_item_code = slice item_start item_end b, sc_value = v\<rparr>) (read_value f raw c)))"
    if "digit_sum 0 b mod 10 = 0"
    using that e f len assms(3)
    by (simp add: label_parse_def Let_def) (auto simp: and_then_def map_ok_def split: sum.splits)
qed

section \<open>What a scale prints\<close>

text \<open>What a scale of that format prints: prefix, item code, the value padded to its width, the vendor's
  digits, and the check digit that makes the weighted sum a multiple of ten.\<close>

definition print_label :: "scale_format \<Rightarrow> utext \<Rightarrow> int \<Rightarrow> utext \<Rightarrow> utext" where
  "print_label f item n filler =
     (let body = sf_prefix f @ item @ pad_zero (sf_value_digits f) (show_digits n) @ filler
      in body @ [48 + (10 - digit_sum 0 body mod 10) mod 10])"

lemma label_reads:
  assumes "format_new prefix item_digits e value_digits decimals filler_digits = Inr f"
    and "list_all is_ascii_digit item" and "length item = item_digits"
    and "0 \<le> n" and "n < 10 ^ value_digits"
    and "list_all is_ascii_digit filler" and "length filler = filler_digits"
  shows "label_parse f (print_label f item n filler) c
    = map_ok (\<lambda>v. \<lparr>sc_item_code = item, sc_value = v\<rparr>) (read_value f n c)"
proof -
  have f: "sf_prefix f = prefix" "sf_item_digits f = item_digits" "sf_value_digits f = value_digits"
    and prefix: "list_all is_ascii_digit prefix" "utf8_length prefix = length prefix"
    and total: "length prefix + item_digits + value_digits + filler_digits = 12" and pos: "0 < value_digits"
    using assms(1) ascii_length [of prefix]
    by (auto simp: format_new_def label_length_def Let_def split: if_splits)
  let ?v = "pad_zero value_digits (show_digits n)"
  let ?body = "prefix @ item @ ?v @ filler"
  let ?check = "48 + (10 - digit_sum 0 ?body mod 10) mod 10"
  let ?b = "?body @ [?check]"
  have v: "list_all is_ascii_digit ?v" "digits_value ?v = n" "length ?v = value_digits"
    using pad_zero_digits [OF assms(4), of value_digits] pad_zero_length [OF assms(4,5) pos] by simp_all
  have b: "print_label f item n filler = ?b" by (simp add: print_label_def f)
  have len: "length ?b = 13" using v(3) assms(3,7) total by simp
  have check: "is_ascii_digit ?check"
    using pos_mod_bound [of 10 "10 - digit_sum 0 ?body mod 10"] by (intro digit_char) simp_all
  then have digits: "list_all is_ascii_digit ?b" using prefix(1) assms(2,6) v(1) by simp
  have start: "starts_with ?b (sf_prefix f)" by (simp add: starts_with_def f)
  have "length ?body = 12" using len by simp
  then have "digit_sum 0 ?b = digit_sum 0 ?body + (?check - 48)"
    by (simp only: digit_sum_append digit_sum.simps) (simp add: weight_at_def)
  then have sum: "digit_sum 0 ?b mod 10 = 0"
    using check_digit_step [of "(10 - digit_sum 0 ?body mod 10) mod 10" "digit_sum 0 ?body"]
      pos_mod_bound [of 10 "10 - digit_sum 0 ?body mod 10"] by simp
  have item: "slice (length prefix) (length prefix + item_digits) ?b = item"
    using assms(3) by (simp add: slice_def)
  have val: "slice (length prefix + item_digits) (length prefix + item_digits + value_digits) ?b = ?v"
    using assms(3) v(3) by (simp add: slice_def)
  have "n < 10 ^ 12" using assms(5) total power_increasing [of value_digits 12 "10::int"] by simp
  then have "parse_int in_i64 ?v = Some n"
    using parse_int_digits [OF v(1), of in_i64] v(2,3) pos assms(4) by (cases ?v) (auto simp: fit_def in_i64_def)
  with label_parse_digits(2) [OF digits len start sum, of c] show ?thesis
    unfolding b Let_def f prefix(2) item val by simp
qed

text \<open>A number of at most eleven digits is read exactly.\<close>

lemma shifted_fits:
  fixes n :: int
  assumes "0 \<le> n" and "n < 10 ^ 11" and "e \<le> 3"
  shows "in_i64 (n * 10 ^ e)"
proof -
  have "(10::int) ^ e \<le> 10 ^ 3" using assms(3) by (intro power_increasing) simp_all
  then have "n * 10 ^ e \<le> n * 1000" using assms(1) by (intro mult_left_mono) simp_all
  moreover have "0 \<le> n * 10 ^ e" using assms(1) by simp
  ultimately show ?thesis using assms(2) by (simp add: in_i64_def)
qed

lemma power_split: "d \<le> (k::nat) \<Longrightarrow> (10::int) ^ (k - d) * 10 ^ d = 10 ^ k"
  by (simp flip: power_add)

lemma to_quantity_exact:
  assumes "0 \<le> n" and "n < 10 ^ 11" and "sf_value_decimals f \<le> 3"
  shows "\<exists>q. to_quantity f n = Inr q \<and> milli q * 10 ^ sf_value_decimals f = n * 1000"
  using power_split [OF assms(3)] shifted_fits [OF assms(1,2), of "3 - sf_value_decimals f"] assms(3)
  by (simp add: to_quantity_def from_milli_def fit_def mult.assoc)

lemma to_money_exact:
  assumes "0 \<le> n" and "n < 10 ^ 11" and "sf_value_decimals f \<le> exponent c"
  shows "\<exists>m. to_money f n c = Inr m \<and> currency m = c \<and> minor m * 10 ^ sf_value_decimals f = n * minor_per_major c"
proof -
  have "exponent c \<le> 3" "minor_per_major c = 10 ^ exponent c" by (cases c; simp add: minor_per_major_def)+
  then show ?thesis
    using power_split [OF assms(3)] shifted_fits [OF assms(1,2), of "exponent c - sf_value_decimals f"] assms(3)
    by (simp add: to_money_def from_minor_def fit_def mult.assoc)
qed


section \<open>Properties\<close>

text \<open>C21: a label reads back as it was printed: for every layout the outlet can configure, the item code
  comes out digit for digit; where the layout carries a weight, the value is a weight, and where it carries
  a price, a price in the asked currency; and the printed number at the layout's decimals is exactly the
  weight in thousandths or the price in minor units, without rounding or overflow.  A layout with more decimals
  than these hold can be configured as well, and each of its labels is refused as too precise.\<close>

theorem scale_label_roundtrip:
  assumes "format_new prefix item_digits e value_digits decimals filler_digits = Inr f"
    and "list_all is_ascii_digit item" and "length item = item_digits"
    and "0 \<le> n" and "n < 10 ^ value_digits"
    and "list_all is_ascii_digit filler" and "length filler = filler_digits"
  shows "case e of
      EmbeddedWeight \<Rightarrow>
        if decimals \<le> 3
        then \<exists>q. label_parse f (print_label f item n filler) c = Inr \<lparr>sc_item_code = item, sc_value = ScannedWeight q\<rparr>
               \<and> milli q * 10 ^ decimals = n * 1000
        else label_parse f (print_label f item n filler) c = Inl (TooPrecise decimals ''thousandths'')
    | EmbeddedPrice \<Rightarrow>
        if decimals \<le> exponent c
        then \<exists>m. label_parse f (print_label f item n filler) c = Inr \<lparr>sc_item_code = item, sc_value = ScannedPrice m\<rparr>
               \<and> currency m = c \<and> minor m * 10 ^ decimals = n * minor_per_major c
        else label_parse f (print_label f item n filler) c = Inl (TooPrecise decimals ''minor units'')"
proof -
  have f: "sf_embedded f = e" "sf_value_decimals f = decimals" and "value_digits \<le> 11"
    using assms(1) ascii_length [of prefix]
    by (auto simp: format_new_def label_length_def Let_def neq_Nil_conv split: if_splits)
  then have "n < 10 ^ 11" using assms(5) power_increasing [of value_digits 11 "10::int"] by simp
  note exact = to_quantity_exact [OF assms(4) this, of f] to_money_exact [OF assms(4) this, of f c]
  have read: "label_parse f (print_label f item n filler) c
    = map_ok (\<lambda>v. \<lparr>sc_item_code = item, sc_value = v\<rparr>) (read_value f n c)"
    by (rule label_reads [OF assms])
  show ?thesis
    using exact by (cases e) (auto simp: read read_value_def f to_quantity_def to_money_def)
qed

lemma scale_label_roundtrip_witness:
  "\<exists>f q. format_new (lit ''20'') 5 EmbeddedWeight 5 3 0 = Inr f
     \<and> label_parse f (print_label f (lit ''00042'') 1250 []) Bdt
        = Inr \<lparr>sc_item_code = lit ''00042'', sc_value = ScannedWeight q\<rparr>
     \<and> milli q = 1250"
proof -
  have "is_ok (format_new (lit ''20'') 5 EmbeddedWeight 5 3 0)" by code_simp
  then obtain f where f: "format_new (lit ''20'') 5 EmbeddedWeight 5 3 0 = Inr f" by (auto simp: is_ok_iff)
  have "list_all is_ascii_digit (lit ''00042'')" "length (lit ''00042'') = 5" by code_simp+
  with scale_label_roundtrip [OF f, of "lit ''00042''" 1250 "[]" Bdt] f show ?thesis by auto
qed

text \<open>One misread digit is never accepted: changing any single digit of a label that reads makes it a
  label that is refused, for its check digit when the prefix still matches.\<close>

theorem misread_digit_refused:
  assumes "label_parse f b c = Inr r" and "i < 13" and "is_ascii_digit x" and "x \<noteq> b ! i"
  shows "(\<exists>e. label_parse f (b[i := x]) c = Inl e)
    \<and> (length (sf_prefix f) \<le> i \<longrightarrow>
         (\<exists>found expected. label_parse f (b[i := x]) c = Inl (BadCheckDigit found expected)))"
proof -
  have b: "list_all is_ascii_digit b" "length b = 13" "starts_with b (sf_prefix f)" "digit_sum 0 b mod 10 = 0"
    using label_parse_shape [OF assms(1)] by simp_all
  have bi: "is_ascii_digit (b ! i)" using b(1,2) assms(2) by (simp add: list_all_length)
  have "digit_sum 0 (b[i := x]) = digit_sum 0 b + (x - b ! i) * weight_at i"
    using digit_sum_update [of i b 0 x] assms(2) b(2) by simp
  moreover have "(s + (x - y) * w) mod 10 \<noteq> 0"
    if "s mod 10 = 0" "48 \<le> x" "x \<le> 57" "48 \<le> y" "y \<le> 57" "x \<noteq> y" "w = 1 \<or> w = 3" for s y w :: int
    using that by (elim disjE) (simp; presburger)+
  ultimately have bad: "digit_sum 0 (b[i := x]) mod 10 \<noteq> 0"
    using b(4) bi assms(3,4) by (simp add: is_ascii_digit_def weight_at_def)
  have x: "list_all is_ascii_digit (b[i := x])" "length (b[i := x]) = 13"
    using b(1,2) assms(3) by (auto simp: list_all_iff dest: set_update_subset_insert [THEN subsetD])
  have "starts_with (b[i := x]) (sf_prefix f)" if "length (sf_prefix f) \<le> i"
    using that b(3) by (simp add: starts_with_def)
  with label_parse_digits(1) [OF x _ bad] have
    "\<exists>found expected. label_parse f (b[i := x]) c = Inl (BadCheckDigit found expected)" if "length (sf_prefix f) \<le> i"
    using that by blast
  moreover have "\<exists>e. label_parse f (b[i := x]) c = Inl e"
    using bad label_parse_shape [of f "b[i := x]" c] by (cases "label_parse f (b[i := x]) c") auto
  ultimately show ?thesis by blast
qed

lemma misread_digit_refused_witness:
  "\<exists>f. format_new (lit ''20'') 5 EmbeddedWeight 5 3 0 = Inr f
     \<and> is_ok (label_parse f (lit ''2000042012502'') Bdt)
     \<and> (\<exists>found expected. label_parse f ((lit ''2000042012502'')[8 := 50]) Bdt = Inl (BadCheckDigit found expected))"
proof -
  have "map_ok (\<lambda>f. (length (sf_prefix f), is_ok (label_parse f (lit ''2000042012502'') Bdt)))
      (format_new (lit ''20'') 5 EmbeddedWeight 5 3 0) = Inr (2, True)" by code_simp
  then obtain f where f: "format_new (lit ''20'') 5 EmbeddedWeight 5 3 0 = Inr f" "length (sf_prefix f) = 2"
    "is_ok (label_parse f (lit ''2000042012502'') Bdt)"
    by (simp only: map_ok_Inr_iff prod.inject) (elim exE conjE, rule that, assumption, erule sym, blast)
  then obtain r where r: "label_parse f (lit ''2000042012502'') Bdt = Inr r" by (auto simp: is_ok_iff)
  have "is_ascii_digit 50" "50 \<noteq> lit ''2000042012502'' ! 8" by code_simp+
  from misread_digit_refused [OF r _ this] f show ?thesis by simp
qed

end
