(* ===== verification/Sync.thy ===== *)
theory Sync
  imports EventLog
begin

text \<open>
  The sync protocol (\<open>crates/sahl-sync\<close>): the messages, why a push is refused, and what a server does
  with a pushed batch.
\<close>

section \<open>Messages and refusals\<close>

definition max_batch :: nat where
  "max_batch = 500"

datatype sync_error =
    SyncChain event_error
  | Gap int int
  | Forked int event_hash event_hash
  | WrongDevice uuid uuid
  | BatchTooLarge nat nat

record push_request =
  pq_device_id :: uuid
  pq_events :: "event_envelope list"

definition push_validate :: "push_request \<Rightarrow> sync_error + unit" where
  "push_validate r =
     (if length (pq_events r) > max_batch then Inl (BatchTooLarge (length (pq_events r)) max_batch) else Inr ())"

record push_response =
  ps_accepted :: nat
  ps_skipped :: nat
  ps_tip :: chain_tip
  ps_high_water :: int

record pull_request =
  pl_device_id :: uuid
  pl_cursor :: int
  pl_limit :: nat

record pull_response =
  pp_events :: "event_envelope list"
  pp_cursor :: int
  pp_has_more :: bool

record sync_cursor =
  cu_device_id :: uuid
  cu_server_seq :: int

datatype sync_rejection = NotAuthorised | InvalidPush | ForkedPush | GapPush | Unavailable

fun is_retryable :: "sync_rejection \<Rightarrow> bool" where
  "is_retryable Unavailable = True"
| "is_retryable NotAuthorised = False"
| "is_retryable InvalidPush = False"
| "is_retryable ForkedPush = False"
| "is_retryable GapPush = False"

fun from_sync_error :: "sync_error \<Rightarrow> sync_rejection" where
  "from_sync_error (Gap _ _) = GapPush"
| "from_sync_error (Forked _ _ _) = ForkedPush"
| "from_sync_error (SyncChain _) = InvalidPush"
| "from_sync_error (WrongDevice _ _) = InvalidPush"
| "from_sync_error (BatchTooLarge _ _) = InvalidPush"

section \<open>Planning a batch\<close>

record batch_plan =
  bp_already_stored :: nat
  bp_to_insert :: nat
  bp_resulting_tip :: chain_tip

definition is_noop :: "batch_plan \<Rightarrow> bool" where
  "is_noop p \<longleftrightarrow> bp_to_insert p = 0"

text \<open>\<open>u64::saturating_add\<close> and \<open>saturating_sub\<close>.\<close>

definition u64_add :: "int \<Rightarrow> int \<Rightarrow> int" where
  "u64_add a b = min (a + b) (2 ^ 64 - 1)"

definition u64_sub :: "int \<Rightarrow> int \<Rightarrow> int" where
  "u64_sub a b = max (a - b) 0"

fun check_devices :: "uuid \<Rightarrow> event_envelope list \<Rightarrow> sync_error + unit" where
  "check_devices device_id [] = Inr ()"
| "check_devices device_id (e # es) =
     (if en_device_id e \<noteq> device_id then Inl (WrongDevice device_id (en_device_id e)) else check_devices device_id es)"

text \<open>The last stored event of an overlapping batch must carry the digest of the tip.\<close>

definition check_boundary :: "event_envelope list \<Rightarrow> nat \<Rightarrow> chain_tip \<Rightarrow> int \<Rightarrow> sync_error + unit" where
  "check_boundary events already tip first_seq =
     (if already = 0 then Inr ()
      else
        and_then (ok_or (Gap (ct_device_seq tip) first_seq) (get events (already - 1))) (\<lambda>boundary.
        if en_hash boundary \<noteq> ct_hash tip
        then Inl (Forked (en_device_seq boundary) (ct_hash tip) (en_hash boundary))
        else Inr ()))"

definition plan_batch ::
    "codec \<Rightarrow> event_envelope list \<Rightarrow> chain_tip \<Rightarrow> uuid \<Rightarrow> sync_error + batch_plan" where
  "plan_batch cd events tip device_id =
     (case events of
        [] \<Rightarrow> Inr \<lparr>bp_already_stored = 0, bp_to_insert = 0, bp_resulting_tip = tip\<rparr>
      | first # _ \<Rightarrow>
          and_then (check_devices device_id events) (\<lambda>_.
          if en_device_seq first > u64_add (ct_device_seq tip) 1
          then Inl (Gap (ct_device_seq tip) (en_device_seq first))
          else
            let overlap = u64_sub (u64_add (ct_device_seq tip) 1) (en_device_seq first);
                already = min (nat overlap) (length events);
                fresh = drop already events
            in if fresh = [] then Inr \<lparr>bp_already_stored = already, bp_to_insert = 0, bp_resulting_tip = tip\<rparr>
               else
                 and_then (check_boundary events already tip (en_device_seq first)) (\<lambda>_.
                 and_then (map_err SyncChain (verify_chain cd fresh tip)) (\<lambda>resulting.
                 Inr \<lparr>bp_already_stored = already, bp_to_insert = length fresh, bp_resulting_tip = resulting\<rparr>))))"

section \<open>Walking a verified log\<close>

lemma check_devices_Inr: "check_devices d es = Inr () \<longleftrightarrow> (\<forall>e \<in> set es. en_device_id e = d)"
  by (induction es) auto

text \<open>The tip a device's log reaches after some of its events, when it verifies from a start.\<close>

lemma run_split:
  "try_fold (verify_step cd d) start (es @ fs) = Inr tip \<longleftrightarrow>
     (\<exists>m. try_fold (verify_step cd d) start es = Inr m \<and> try_fold (verify_step cd d) m fs = Inr tip)"
  by (simp add: try_fold_append res_simps)

lemma run_nth_seq:
  assumes "try_fold (verify_step cd d) start es = Inr tip" and "i < length es"
  shows "en_device_seq (es ! i) = ct_device_seq start + int i + 1" and "en_device_id (es ! i) = d"
proof -
  have es: "es = take i es @ es ! i # drop (Suc i) es" using assms(2) by (simp add: id_take_nth_drop)
  obtain m where m: "try_fold (verify_step cd d) start (take i es) = Inr m"
    and r: "try_fold (verify_step cd d) m (es ! i # drop (Suc i) es) = Inr tip"
    using assms(1) by (subst (asm) es) (auto simp: run_split simp del: try_fold.simps)
  from r obtain m' where "verify_step cd d m (es ! i) = Inr m'" by (auto simp: res_simps)
  then show "en_device_seq (es ! i) = ct_device_seq start + int i + 1" "en_device_id (es ! i) = d"
    using event_log.run_seq [OF m] assms(2) by (auto simp: verify_step_Inr)
qed

lemma run_last_tip:
  assumes "try_fold (verify_step cd d) start es = Inr tip" and "es \<noteq> []"
  shows "ct_hash tip = en_hash (last es)" and "ct_device_seq tip = en_device_seq (last es)"
proof -
  obtain fs e where es: "es = fs @ [e]" using assms(2) by (cases es rule: rev_cases) auto
  with assms(1) show "ct_hash tip = en_hash (last es)" "ct_device_seq tip = en_device_seq (last es)"
    by (auto simp: run_split verify_step_Inr res_simps)
qed

text \<open>The tip after the first \<open>k\<close> events of a log that verifies from genesis.\<close>

definition tip_at :: "event_envelope list \<Rightarrow> nat \<Rightarrow> chain_tip" where
  "tip_at es k = (if k = 0 then tip_genesis
     else \<lparr>ct_device_seq = en_device_seq (es ! (k - 1)), ct_hash = en_hash (es ! (k - 1))\<rparr>)"

lemma run_tip_at:
  assumes "try_fold (verify_step cd d) tip_genesis es = Inr tip" and "k \<le> length es"
  shows "try_fold (verify_step cd d) tip_genesis (take k es) = Inr (tip_at es k)"
    and "ct_device_seq (tip_at es k) = int k"
proof -
  obtain m where m: "try_fold (verify_step cd d) tip_genesis (take k es) = Inr m"
    using assms(1) run_split [of cd d tip_genesis "take k es" "drop k es" tip] by auto
  have "m = tip_at es k"
  proof (cases "k = 0")
    case False
    then have ne: "take k es \<noteq> []" using assms(2) by auto
    moreover have "last (take k es) = es ! (k - 1)"
      using last_conv_nth [OF ne] False assms(2) by (simp add: min_absorb2)
    ultimately have "take k es \<noteq> []" "last (take k es) = es ! (k - 1)" by simp_all
    with run_last_tip [OF m] False show ?thesis by (simp add: tip_at_def chain_tip.equality)
  qed (use m in \<open>simp add: tip_at_def\<close>)
  with m show "try_fold (verify_step cd d) tip_genesis (take k es) = Inr (tip_at es k)" by simp
  with event_log.run_seq [of cd d tip_genesis "take k es"] assms(2)
  show "ct_device_seq (tip_at es k) = int k" by (simp add: tip_genesis_def min_def)
qed

lemma run_slice:
  assumes "try_fold (verify_step cd d) tip_genesis es = Inr tip" and "i \<le> j" and "j \<le> length es"
  shows "try_fold (verify_step cd d) (tip_at es i) (drop i (take j es)) = Inr (tip_at es j)"
proof -
  have split: "take j es = take i es @ drop i (take j es)"
    using assms(2) append_take_drop_id [of i "take j es"] by (simp add: min_absorb1)
  have "try_fold (verify_step cd d) tip_genesis (take i es @ drop i (take j es)) = Inr (tip_at es j)"
    using run_tip_at(1) [OF assms(1,3)] split by simp
  with run_tip_at(1) [OF assms(1), of i] assms(2,3) show ?thesis by (simp add: try_fold_append)
qed

text \<open>The plan, by the number of leading events already stored.\<close>

definition overlap_of :: "chain_tip \<Rightarrow> event_envelope list \<Rightarrow> nat" where
  "overlap_of tip events =
     min (nat (u64_sub (u64_add (ct_device_seq tip) 1) (en_device_seq (hd events)))) (length events)"

lemma plan_batch_eq:
  assumes "events \<noteq> []"
  shows "plan_batch cd events tip d =
    and_then (check_devices d events) (\<lambda>_.
    if en_device_seq (hd events) > u64_add (ct_device_seq tip) 1
    then Inl (Gap (ct_device_seq tip) (en_device_seq (hd events)))
    else if overlap_of tip events = length events
    then Inr \<lparr>bp_already_stored = length events, bp_to_insert = 0, bp_resulting_tip = tip\<rparr>
    else
      and_then (check_boundary events (overlap_of tip events) tip (en_device_seq (hd events))) (\<lambda>_.
      and_then (map_err SyncChain (verify_chain cd (drop (overlap_of tip events) events) tip)) (\<lambda>resulting.
      Inr \<lparr>bp_already_stored = overlap_of tip events, bp_to_insert = length events - overlap_of tip events,
           bp_resulting_tip = resulting\<rparr>)))"
proof -
  obtain first rest where ev: "events = first # rest" using assms by (cases events) auto
  have al: "min (nat (u64_sub (u64_add (ct_device_seq tip) 1) (en_device_seq first))) (length (first # rest))
      = overlap_of tip (first # rest)" by (simp add: overlap_of_def)
  have le: "overlap_of tip (first # rest) \<le> length (first # rest)" by (simp add: overlap_of_def)
  show ?thesis
  proof (cases "overlap_of tip (first # rest) = length (first # rest)")
    case True
    then show ?thesis
      unfolding plan_batch_def Let_def ev list.case list.sel al
      by (simp only: drop_all order_refl simp_thms if_True)
  next
    case False
    then have "drop (overlap_of tip (first # rest)) (first # rest) \<noteq> []" using le by simp
    with False show ?thesis
      unfolding plan_batch_def Let_def ev list.case list.sel al by (simp only: if_False simp_thms length_drop)
  qed
qed

lemma plan_batch_noop:
  assumes "events \<noteq> []" and "\<forall>e \<in> set events. en_device_id e = d"
    and "en_device_seq (hd events) + int (length events) \<le> u64_add (ct_device_seq tip) 1"
  shows "plan_batch cd events tip d
    = Inr \<lparr>bp_already_stored = length events, bp_to_insert = 0, bp_resulting_tip = tip\<rparr>"
proof -
  have "overlap_of tip events = length events"
    using assms(3) by (simp add: overlap_of_def u64_sub_def)
  moreover have "check_devices d events = Inr ()" using assms(2) by (simp add: check_devices_Inr)
  moreover have "\<not> en_device_seq (hd events) > u64_add (ct_device_seq tip) 1" using assms(3) by simp
  ultimately show ?thesis by (simp add: plan_batch_eq [OF assms(1)])
qed

text \<open>Three events of device 3, as its terminal seals them.\<close>

definition sample_events :: "event_envelope list" where
  "sample_events = (case sample_log of Inl _ \<Rightarrow> [] | Inr (c, es) \<Rightarrow> es)"

lemma sample_events_facts:
  "length sample_events = 3" "map en_device_seq sample_events = [1, 2, 3]"
  by code_simp+

lemma sample_events_device: "\<forall>e \<in> set sample_events. en_device_id e = 3"
proof -
  have "list_all (\<lambda>e. en_device_id e = 3) sample_events" by code_simp
  then show ?thesis by (simp add: list_all_iff)
qed

lemma sample_events_hd: "en_device_seq (hd sample_events) = 1" "sample_events \<noteq> []"
proof -
  show ne: "sample_events \<noteq> []" using sample_events_facts(1) by (metis list.size(3) zero_neq_numeral)
  show "en_device_seq (hd sample_events) = 1"
    using hd_map [OF ne, of en_device_seq] by (simp only: sample_events_facts(2) list.sel)
qed

lemma sample_events_verify: "\<exists>t. verify_chain_from_genesis sample_codec sample_events = Inr t"
proof -
  have "map_ok ct_device_seq (verify_chain_from_genesis sample_codec sample_events) = Inr 3" by code_simp
  then show ?thesis by (auto simp: map_ok_Inr_iff)
qed

text \<open>An honest log, pushed from a point the server has reached.\<close>

lemma honest_plan:
  assumes run: "try_fold (verify_step cd d) tip_genesis log = Inr t"
    and "i \<le> n" and "n \<le> length log" and "i < j" and "j \<le> length log" and "length log < 2 ^ 64 - 1"
  shows "plan_batch cd (drop i (take j log)) (tip_at log n) d
    = Inr \<lparr>bp_already_stored = min n j - i, bp_to_insert = j - n, bp_resulting_tip = tip_at log (max n j)\<rparr>"
proof -
  let ?ev = "drop i (take j log)"
  have ne: "?ev \<noteq> []" and len: "length ?ev = j - i" using assms(4,5) by auto
  have hd: "hd ?ev = log ! i" using assms(4,5) by (simp add: hd_drop_conv_nth)
  have first: "en_device_seq (hd ?ev) = int i + 1"
    using run_nth_seq(1) [OF run, of i] assms(4,5) hd by (simp add: tip_genesis_def)
  have n: "ct_device_seq (tip_at log n) = int n" by (rule run_tip_at(2) [OF run assms(3)])
  have dev: "check_devices d ?ev = Inr ()"
    unfolding check_devices_Inr using run_nth_seq(2) [OF run]
    by (auto simp: in_set_conv_nth dest!: in_set_dropD in_set_takeD)
  have tip1: "u64_add (ct_device_seq (tip_at log n)) 1 = int n + 1" using n assms(3,6) by (simp add: u64_add_def)
  show ?thesis
  proof (cases "j \<le> n")
    case True
    have "en_device_seq (hd ?ev) + int (length ?ev) \<le> u64_add (ct_device_seq (tip_at log n)) 1"
      using True first len tip1 assms(4) by simp
    from plan_batch_noop [OF ne _ this, of d] dev len True show ?thesis by (simp add: check_devices_Inr min_absorb2 max_absorb1)
  next
    case False
    have al: "overlap_of (tip_at log n) ?ev = n - i"
      using first len tip1 assms(2) False by (simp add: overlap_of_def u64_sub_def)
    have bound: "check_boundary ?ev (n - i) (tip_at log n) (en_device_seq (hd ?ev)) = Inr ()"
    proof (cases "n - i = 0")
      case False
      then have "get ?ev (n - i - 1) = Some (log ! (n - 1))"
        using \<open>\<not> j \<le> n\<close> assms(2,5) by (simp add: get_def)
      with False show ?thesis by (simp add: check_boundary_def tip_at_def)
    qed (simp add: check_boundary_def)
    have "drop (n - i) ?ev = drop n (take j log)" using assms(2) by simp
    then have "verify_chain cd (drop (n - i) ?ev) (tip_at log n) = Inr (tip_at log j)"
      using run_slice [OF run, of n j] False assms(5) by (auto simp: verify_chain_run)
    moreover have "n - i \<noteq> length ?ev" "\<not> en_device_seq (hd ?ev) > u64_add (ct_device_seq (tip_at log n)) 1"
      using len False assms(2,4) first tip1 by auto
    moreover have "j - i - (n - i) = j - n" using assms(2) by simp
    ultimately show ?thesis
      using False assms(5) by (simp add: plan_batch_eq [OF ne] dev al bound len max_absorb2 min_absorb1 min_absorb2)
  qed
qed

section \<open>Properties\<close>

text \<open>C22: a batch the server accepts keeps its log verifiable and can be sent again: the events it
  inserts verify from the stored tip to the reported one, and the same batch sent once more,
  its answer lost, is a no-op that reports that tip.\<close>

theorem plan_batch_sound:
  assumes "plan_batch cd events tip d = Inr p" and "bp_to_insert p \<noteq> 0"
    and "0 \<le> ct_device_seq tip" and "ct_device_seq (bp_resulting_tip p) < 2 ^ 64 - 1"
  shows "bp_already_stored p + bp_to_insert p = length events
    \<and> try_fold (verify_step cd d) tip (drop (bp_already_stored p) events) = Inr (bp_resulting_tip p)
    \<and> plan_batch cd events (bp_resulting_tip p) d =
        Inr \<lparr>bp_already_stored = length events, bp_to_insert = 0, bp_resulting_tip = bp_resulting_tip p\<rparr>"
proof -
  have ne: "events \<noteq> []" using assms(1,2) by (auto simp: plan_batch_def)
  let ?al = "overlap_of tip events"
  from assms(1,2) have p: "bp_already_stored p = ?al" "bp_to_insert p = length events - ?al"
    "verify_chain cd (drop ?al events) tip = Inr (bp_resulting_tip p)"
    and dev: "check_devices d events = Inr ()"
    and nogap: "\<not> en_device_seq (hd events) > u64_add (ct_device_seq tip) 1"
    by (auto simp: plan_batch_eq [OF ne] res_simps split: if_split_asm)
  have al: "?al < length events" using assms(2) p(2) by simp
  obtain d' where run': "try_fold (verify_step cd d') tip (drop ?al events) = Inr (bp_resulting_tip p)"
    using p(3) by (auto simp: verify_chain_run)
  have "drop ?al events ! 0 \<in> set events" using al by simp
  then have "en_device_id (drop ?al events ! 0) = d" using dev by (simp add: check_devices_Inr)
  with run_nth_seq(2) [OF run', of 0] al have "d' = d" by simp
  with run' have run: "try_fold (verify_step cd d) tip (drop ?al events) = Inr (bp_resulting_tip p)" by simp
  have seq: "ct_device_seq (bp_resulting_tip p) = ct_device_seq tip + int (length events - ?al)"
    using event_log.run_seq [OF run] by simp
  have tip1: "u64_add (ct_device_seq tip) 1 = ct_device_seq tip + 1"
    using seq assms(4) al by (simp add: u64_add_def)
  have "?al = nat (ct_device_seq tip + 1 - en_device_seq (hd events))"
    using al tip1 by (auto simp: overlap_of_def u64_sub_def)
  then have "en_device_seq (hd events) + int ?al = ct_device_seq tip + 1" using nogap tip1 by simp
  then have "en_device_seq (hd events) + int (length events) \<le> u64_add (ct_device_seq (bp_resulting_tip p)) 1"
    using seq al assms(4) by (simp add: u64_add_def)
  from plan_batch_noop [OF ne _ this] dev have "plan_batch cd events (bp_resulting_tip p) d =
      Inr \<lparr>bp_already_stored = length events, bp_to_insert = 0, bp_resulting_tip = bp_resulting_tip p\<rparr>"
    by (simp add: check_devices_Inr)
  with p(1,2) al run show ?thesis by auto
qed

lemma plan_batch_sound_witness:
  "\<exists>p. plan_batch sample_codec sample_events tip_genesis 3 = Inr p \<and> bp_to_insert p = 3
     \<and> plan_batch sample_codec sample_events (bp_resulting_tip p) 3 =
         Inr \<lparr>bp_already_stored = 3, bp_to_insert = 0, bp_resulting_tip = bp_resulting_tip p\<rparr>"
proof -
  have "map_ok (\<lambda>p. (bp_to_insert p, ct_device_seq (bp_resulting_tip p)))
      (plan_batch sample_codec sample_events tip_genesis 3) = Inr (3, 3)" by code_simp
  then obtain p where p: "plan_batch sample_codec sample_events tip_genesis 3 = Inr p"
    "bp_to_insert p = 3" "ct_device_seq (bp_resulting_tip p) = 3" by (auto simp: map_ok_Inr_iff)
  with plan_batch_sound [OF p(1)] sample_events_facts(1) show ?thesis by (simp add: tip_genesis_def)
qed

text \<open>A till with an honest log is always accepted: whatever part of its log it sends, from a
  point the server has reached and to any later point, the server skips what it holds, stores
  the rest, and its tip is the furthest of the two.\<close>

theorem honest_push_accepted:
  assumes "verify_chain_from_genesis cd log = Inr t" and "\<forall>e \<in> set log. en_device_id e = d"
    and "i \<le> n" and "n \<le> length log" and "i < j" and "j \<le> length log" and "length log < 2 ^ 64 - 1"
  shows "plan_batch cd (drop i (take j log)) (tip_at log n) d
    = Inr \<lparr>bp_already_stored = min n j - i, bp_to_insert = j - n, bp_resulting_tip = tip_at log (max n j)\<rparr>"
proof -
  obtain d' where run': "try_fold (verify_step cd d') tip_genesis log = Inr t"
    using assms(1) by (auto simp: verify_chain_from_genesis_def verify_chain_run split: list.splits if_splits)
  have "d' = d"
    using run_nth_seq(2) [OF run', of 0] assms(2,5,6) by (cases log) auto
  with run' have run: "try_fold (verify_step cd d) tip_genesis log = Inr t" by simp
  show ?thesis by (rule honest_plan [OF run assms(3-7)])
qed

lemma honest_push_accepted_witness:
  "plan_batch sample_codec (drop 0 (take 3 sample_events)) (tip_at sample_events 2) 3
    = Inr \<lparr>bp_already_stored = 2, bp_to_insert = 1, bp_resulting_tip = tip_at sample_events 3\<rparr>"
proof -
  obtain t where "verify_chain_from_genesis sample_codec sample_events = Inr t" using sample_events_verify by blast
  from honest_push_accepted [OF this sample_events_device, of 0 2 3] sample_events_facts(1) show ?thesis by simp
qed

text \<open>A batch that lies wholly behind the server's tip is never looked at: whatever its events are,
  it is answered as a retry already stored.  So a till that went back to an old copy of its log
  and wrote a different history is told that history is safe.\<close>

theorem stale_batch_unchecked:
  assumes "events \<noteq> []" and "\<forall>e \<in> set events. en_device_id e = d"
    and "en_device_seq (hd events) + int (length events) \<le> u64_add (ct_device_seq tip) 1"
  shows "plan_batch cd events tip d
    = Inr \<lparr>bp_already_stored = length events, bp_to_insert = 0, bp_resulting_tip = tip\<rparr>"
  by (rule plan_batch_noop [OF assms])

lemma stale_batch_unchecked_witness:
  "plan_batch sample_codec sample_events \<lparr>ct_device_seq = 7, ct_hash = [1, 2, 3]\<rparr> 3
    = Inr \<lparr>bp_already_stored = 3, bp_to_insert = 0, bp_resulting_tip = \<lparr>ct_device_seq = 7, ct_hash = [1, 2, 3]\<rparr>\<rparr>"
  using stale_batch_unchecked [OF sample_events_hd(2) sample_events_device] sample_events_hd(1) sample_events_facts(1)
  by (simp add: u64_add_def)

end
