(* ===== verification/Ingest.thy ===== *)
theory Ingest
  imports Sync BTree
begin

text \<open>
  The server's side of sync (\<open>crates/sahl-server/src/sync\<close> and \<open>routes/sync.rs\<close>): accepting a batch
  and delivering a page.  The tables are the state: one row per device and one per event, the
  event rows in the order of their server sequence.  A request runs in one transaction, so an
  error leaves the tables as they were.  Faults of the database itself are \<open>IngestDatabase\<close>; only
  those its constraints and its typed rows produce are modelled.
\<close>

record device_record =
  dr_device_id :: uuid
  dr_tenant_id :: uuid
  dr_outlet_id :: uuid
  dr_public_key :: "nat list"
  dr_revoked :: bool
  dr_tip :: chain_tip

record server =
  sv_devices :: "(uuid, device_record) btree"
  sv_events :: "(event_envelope \<times> int) list"
  sv_next_seq :: int

datatype ingest_error =
    IngestDatabase
  | UnknownDevice uuid
  | Revoked uuid
  | CorruptDevice uuid
  | CorruptEvent
  | ScopeMismatch uuid uuid
  | Rejected sync_error

fun rejection :: "ingest_error \<Rightarrow> sync_rejection" where
  "rejection (UnknownDevice _) = NotAuthorised"
| "rejection (Revoked _) = NotAuthorised"
| "rejection (ScopeMismatch _ _) = InvalidPush"
| "rejection IngestDatabase = Unavailable"
| "rejection (CorruptDevice _) = Unavailable"
| "rejection CorruptEvent = Unavailable"
| "rejection (Rejected e) = from_sync_error e"

definition load_device :: "server \<Rightarrow> uuid \<Rightarrow> ingest_error + device_record" where
  "load_device sv device_id = ok_or (UnknownDevice device_id) (bt_get (sv_devices sv) device_id)"

text \<open>The constraints of the event table: one row per event id, one per device and sequence, and a
  positive sequence.  Its check against a blank kind is left out: the kinds a till writes are constants of
  the code and none is blank.\<close>

definition violates :: "server \<Rightarrow> event_envelope \<Rightarrow> bool" where
  "violates sv e \<longleftrightarrow> en_device_seq e \<le> 0 \<or> list_ex (\<lambda>(f, _). en_event_id f = en_event_id e
     \<or> en_device_id f = en_device_id e \<and> en_device_seq f = en_device_seq e) (sv_events sv)"

definition insert_event ::
    "device_record \<Rightarrow> server \<times> int \<Rightarrow> event_envelope \<Rightarrow> ingest_error + server \<times> int" where
  "insert_event device s e =
     (let (sv, high_water) = s in
      if en_tenant_id e \<noteq> dr_tenant_id device \<or> en_outlet_id e \<noteq> dr_outlet_id device
      then Inl (ScopeMismatch (dr_device_id device) (en_event_id e))
      else if \<not> in_i64 (en_device_seq e) then Inl (CorruptDevice (dr_device_id device))
      else if violates sv e then Inl IngestDatabase
      else
        let assigned = sv_next_seq sv in
        Inr (sv\<lparr>sv_events := sv_events sv @ [(e, assigned)], sv_next_seq := assigned + 1\<rparr>, max high_water assigned))"

definition high_water_for :: "server \<Rightarrow> uuid \<Rightarrow> ingest_error + int" where
  "high_water_for sv device_id =
     (case map snd (filter (\<lambda>(e, _). en_device_id e = device_id) (sv_events sv)) of
        [] \<Rightarrow> Inl IngestDatabase
      | s # ss \<Rightarrow> Inr (foldl max s ss))"

definition ingest_push ::
    "codec \<Rightarrow> server \<Rightarrow> device_record \<Rightarrow> event_envelope list \<Rightarrow> ingest_error + server \<times> push_response" where
  "ingest_push cd sv device events =
     (if dr_revoked device then Inl (Revoked (dr_device_id device))
      else
        and_then (map_err Rejected (plan_batch cd events (dr_tip device) (dr_device_id device))) (\<lambda>plan.
        if is_noop plan then
          map_ok (\<lambda>hw. (sv, \<lparr>ps_accepted = 0, ps_skipped = bp_already_stored plan, ps_tip = dr_tip device,
                             ps_high_water = hw\<rparr>))
            (high_water_for sv (dr_device_id device))
        else
          and_then (try_fold (insert_event device) (sv, 0) (drop (bp_already_stored plan) events)) (\<lambda>(sv', hw).
          if \<not> in_i64 (ct_device_seq (bp_resulting_tip plan)) then Inl (CorruptDevice (dr_device_id device))
          else
            Inr (sv'\<lparr>sv_devices := bt_insert (dr_device_id device) (device\<lparr>dr_tip := bp_resulting_tip plan\<rparr>) (sv_devices sv')\<rparr>,
                 \<lparr>ps_accepted = bp_to_insert plan, ps_skipped = bp_already_stored plan,
                  ps_tip = bp_resulting_tip plan, ps_high_water = hw\<rparr>))))"

definition ingest_pull :: "server \<Rightarrow> device_record \<Rightarrow> int \<Rightarrow> nat \<Rightarrow> pull_response" where
  "ingest_pull sv device cursor limit =
     (let rows = take (limit + 1) (filter (\<lambda>(e, s). en_outlet_id e = dr_outlet_id device
            \<and> en_device_id e \<noteq> dr_device_id device \<and> s > cursor) (sort_key snd (sv_events sv)));
          page = take limit rows
      in \<lparr>pp_events = map fst page, pp_cursor = (if page = [] then cursor else snd (last page)),
          pp_has_more = length rows > limit\<rparr>)"

text \<open>The push endpoint after authentication: the request must be about its sender and within bounds.\<close>

definition handle_push ::
    "codec \<Rightarrow> server \<Rightarrow> uuid \<Rightarrow> push_request \<Rightarrow> server \<times> (sync_rejection + push_response)" where
  "handle_push cd sv authenticated request =
     (case load_device sv authenticated of
        Inl e \<Rightarrow> (sv, Inl NotAuthorised)
      | Inr device \<Rightarrow>
          (if pq_device_id request \<noteq> dr_device_id device then (sv, Inl InvalidPush)
           else case push_validate request of
             Inl e \<Rightarrow> (sv, Inl (from_sync_error e))
           | Inr _ \<Rightarrow>
               (case ingest_push cd sv device (pq_events request) of
                  Inl e \<Rightarrow> (sv, Inl (rejection e))
                | Inr (sv', response) \<Rightarrow> (sv', Inr response))))"

definition handle_pull :: "server \<Rightarrow> uuid \<Rightarrow> int \<Rightarrow> nat \<Rightarrow> sync_rejection + pull_response" where
  "handle_pull sv authenticated cursor limit =
     (case load_device sv authenticated of
        Inl e \<Rightarrow> Inl NotAuthorised
      | Inr device \<Rightarrow> Inr (ingest_pull sv device cursor (min limit 500)))"

end
