(* ===== verification/Store.thy ===== *)
theory Store
  imports EventLog
begin

text \<open>
  The terminal's durable log (\<open>crates/sahl-terminal/src/store\<close>): the rows of its event table and the
  pull cursor, with each statement as what it selects or changes.  The text of a payload, a UUID
  and a digest is read back as it was written.  \<open>io\<close> says whether the disk takes an insert; other
  faults of the database are not modelled.
\<close>

record row =
  rw_event :: event_envelope
  rw_local :: bool
  rw_synced_at :: "int option"
  rw_server_seq :: "int option"

record event_store =
  es_device_id :: uuid
  es_rows :: "row list"
  es_cursor :: int

datatype store_error =
    StoreDatabase
  | StoreCorrupt uuid
  | StoreDuplicate uuid
  | StoreSequenceBreak int int

definition store_open :: "uuid \<Rightarrow> event_store" where
  "store_open device_id = \<lparr>es_device_id = device_id, es_rows = [], es_cursor = 0\<rparr>"

definition tip_within :: "event_store \<Rightarrow> uuid \<Rightarrow> chain_tip" where
  "tip_within st device_id =
     (case sort_key (\<lambda>e. - en_device_seq e) (filter (\<lambda>e. en_device_id e = device_id) (map rw_event (es_rows st))) of
        [] \<Rightarrow> tip_genesis
      | e # _ \<Rightarrow> \<lparr>ct_device_seq = en_device_seq e, ct_hash = en_hash e\<rparr>)"

definition store_tip :: "event_store \<Rightarrow> chain_tip" where
  "store_tip st = tip_within st (es_device_id st)"

text \<open>The primary key and the unique constraint of the table.\<close>

definition conflicts :: "event_store \<Rightarrow> event_envelope \<Rightarrow> bool" where
  "conflicts st e \<longleftrightarrow> list_ex (\<lambda>r. en_event_id (rw_event r) = en_event_id e
     \<or> en_device_id (rw_event r) = en_device_id e \<and> en_device_seq (rw_event r) = en_device_seq e) (es_rows st)"

definition append_within :: "bool \<Rightarrow> event_store \<Rightarrow> event_envelope \<Rightarrow> store_error + event_store" where
  "append_within io st e =
     (let tip = tip_within st (en_device_id e); expected = min (ct_device_seq tip + 1) (2 ^ 64 - 1) in
      if en_device_seq e \<noteq> expected then Inl (StoreSequenceBreak (ct_device_seq tip) (en_device_seq e))
      else if \<not> in_i64 (en_device_seq e) then Inl (StoreCorrupt (en_event_id e))
      else if conflicts st e then Inl (StoreDuplicate (en_event_id e))
      else if \<not> io then Inl StoreDatabase
      else Inr (st\<lparr>es_rows := es_rows st @
        [\<lparr>rw_event = e, rw_local = True, rw_synced_at = None, rw_server_seq = None\<rparr>]\<rparr>))"

definition store_append_all :: "bool \<Rightarrow> event_store \<Rightarrow> event_envelope list \<Rightarrow> store_error + event_store" where
  "store_append_all io st events = try_fold (append_within io) st events"

definition load_all :: "event_store \<Rightarrow> event_envelope list" where
  "load_all st = sort_key en_device_seq (map rw_event (filter rw_local (es_rows st)))"

definition is_unsynced :: "row \<Rightarrow> bool" where
  "is_unsynced r \<longleftrightarrow> rw_local r \<and> rw_synced_at r = None"

definition unsynced :: "event_store \<Rightarrow> event_envelope list" where
  "unsynced st = sort_key en_device_seq (map rw_event (filter is_unsynced (es_rows st)))"

definition unsynced_count :: "event_store \<Rightarrow> nat" where
  "unsynced_count st = length (filter is_unsynced (es_rows st))"

definition to_mark :: "int \<Rightarrow> row \<Rightarrow> bool" where
  "to_mark sequence r \<longleftrightarrow> rw_local r \<and> en_device_seq (rw_event r) \<le> sequence \<and> rw_synced_at r = None"

definition mark_synced :: "event_store \<Rightarrow> int \<Rightarrow> int \<Rightarrow> event_store \<times> nat" where
  "mark_synced st through_seq at_millis =
     (let sequence = min through_seq (2 ^ 63 - 1) in
      (st\<lparr>es_rows := map (\<lambda>r. if to_mark sequence r then r\<lparr>rw_synced_at := Some at_millis\<rparr> else r) (es_rows st)\<rparr>,
       length (filter (to_mark sequence) (es_rows st))))"

definition insert_remote :: "event_store \<Rightarrow> event_envelope \<Rightarrow> int \<Rightarrow> store_error + event_store \<times> bool" where
  "insert_remote st e server_seq =
     (if \<not> in_i64 (en_device_seq e) then Inl (StoreCorrupt (en_event_id e))
      else if conflicts st e then Inr (st, False)
      else Inr (st\<lparr>es_rows := es_rows st @
        [\<lparr>rw_event = e, rw_local = False, rw_synced_at = None, rw_server_seq = Some server_seq\<rparr>]\<rparr>, True))"

definition set_pull_cursor :: "event_store \<Rightarrow> int \<Rightarrow> event_store" where
  "set_pull_cursor st cursor = st\<lparr>es_cursor := max (es_cursor st) cursor\<rparr>"

definition erase_everything :: "event_store \<Rightarrow> event_store" where
  "erase_everything st = st\<lparr>es_rows := [], es_cursor := 0\<rparr>"

definition load_projection_input :: "event_store \<Rightarrow> event_envelope list" where
  "load_projection_input st =
     sort_key (\<lambda>e. (millis (en_occurred_at e), en_event_id e)) (map rw_event (es_rows st))"

end
