(* ===== verification/Engine.thy ===== *)
theory Engine
  imports Sync Store
begin

text \<open>
  The till's sync round (\<open>crates/sahl-terminal/src/sync/engine.rs\<close>) over whatever transport reaches the
  server, and the failures after which the background loop stops (\<open>scheduler.rs\<close>).
\<close>

record 't transport =
  tp_push :: "'t \<Rightarrow> event_envelope list \<Rightarrow> 't \<times> (sync_rejection + push_response)"
  tp_pull :: "'t \<Rightarrow> int \<Rightarrow> nat \<Rightarrow> 't \<times> (sync_rejection + pull_response)"

datatype sync_client_error =
    ClientStore store_error
  | Refused sync_rejection
  | TipMismatch int int

record sync_outcome =
  so_pushed :: nat
  so_skipped :: nat
  so_pulled :: nat
  so_more_pending :: bool

definition no_outcome :: sync_outcome where
  "no_outcome = \<lparr>so_pushed = 0, so_skipped = 0, so_pulled = 0, so_more_pending = False\<rparr>"

definition pull_page :: nat where
  "pull_page = 200"

definition push_pending ::
    "'t transport \<Rightarrow> event_store \<Rightarrow> 't \<Rightarrow> int \<Rightarrow> (event_store \<times> 't) \<times> (sync_client_error + sync_outcome)" where
  "push_pending tp st net now =
     (let pending = unsynced st in
      if pending = [] then ((st, net), Inr no_outcome)
      else
        let batch = take max_batch pending; (net', answer) = tp_push tp net batch in
        (case answer of
           Inl r \<Rightarrow> ((st, net'), Inl (Refused r))
         | Inr response \<Rightarrow>
             let sent_through = en_device_seq (last batch) in
             if ct_device_seq (ps_tip response) < sent_through
             then ((st, net'), Inl (TipMismatch sent_through (ct_device_seq (ps_tip response))))
             else
               ((fst (mark_synced st (ct_device_seq (ps_tip response)) now), net'),
                Inr \<lparr>so_pushed = ps_accepted response, so_skipped = ps_skipped response, so_pulled = 0,
                     so_more_pending = length pending > length batch\<rparr>)))"

fun apply_page ::
    "codec \<Rightarrow> int \<Rightarrow> event_store \<Rightarrow> nat \<Rightarrow> event_envelope list \<Rightarrow> event_store \<times> (sync_client_error + nat)" where
  "apply_page cd cursor st applied [] = (st, Inr applied)"
| "apply_page cd cursor st applied (e # es) =
     (case verify_event cd e of
        Inl _ \<Rightarrow> (st, Inl (Refused InvalidPush))
      | Inr _ \<Rightarrow>
          (case insert_remote st e cursor of
             Inl err \<Rightarrow> (st, Inl (ClientStore err))
           | Inr (st', new) \<Rightarrow> apply_page cd cursor st' (if new then applied + 1 else applied) es))"

definition pull_new ::
    "codec \<Rightarrow> 't transport \<Rightarrow> event_store \<Rightarrow> 't \<Rightarrow> (event_store \<times> 't) \<times> (sync_client_error + nat \<times> bool)" where
  "pull_new cd tp st net =
     (let (net', answer) = tp_pull tp net (es_cursor st) pull_page in
      case answer of
        Inl r \<Rightarrow> ((st, net'), Inl (Refused r))
      | Inr page \<Rightarrow>
          let (st', applied) = apply_page cd (pp_cursor page) st 0 (pp_events page) in
          (case applied of
             Inl e \<Rightarrow> ((st', net'), Inl e)
           | Inr n \<Rightarrow> ((set_pull_cursor st' (pp_cursor page), net'), Inr (n, pp_has_more page))))"

definition sync_once ::
    "codec \<Rightarrow> 't transport \<Rightarrow> event_store \<Rightarrow> 't \<Rightarrow> int \<Rightarrow> (event_store \<times> 't) \<times> (sync_client_error + sync_outcome)" where
  "sync_once cd tp st net now =
     (let ((st', net'), pushed) = push_pending tp st net now in
      case pushed of
        Inl e \<Rightarrow> ((st', net'), Inl e)
      | Inr outcome \<Rightarrow>
          let ((st'', net''), pulled) = pull_new cd tp st' net' in
          ((st'', net''), map_ok (\<lambda>(n, more). outcome\<lparr>so_pulled := n,
              so_more_pending := so_more_pending outcome \<or> more\<rparr>) pulled))"

fun is_terminal_failure :: "sync_client_error \<Rightarrow> bool" where
  "is_terminal_failure (Refused r) = (\<not> is_retryable r)"
| "is_terminal_failure (TipMismatch _ _) = True"
| "is_terminal_failure (ClientStore _) = False"

end
