(* ===== verification/Replication.thy ===== *)
theory Replication
  imports Engine Ingest "HOL-Library.Multiset" "HOL-Library.Sublist"
begin

text \<open>
  A till and the server together: the till seals sales and pushes them in rounds, answers get lost,
  other tills push and this one pulls.  The abstract view is three numbers on one list: the log
  of the till, how much of it the till believes is stored and how much the server stores.
\<close>

section \<open>The abstract view\<close>

definition good_log :: "codec \<Rightarrow> uuid \<Rightarrow> event_envelope list \<Rightarrow> bool" where
  "good_log cd d log \<longleftrightarrow> (\<exists>t. try_fold (verify_step cd d) tip_genesis log = Inr t)
     \<and> distinct (map en_event_id log) \<and> int (length log) < 2 ^ 63"

definition local_rows :: "event_store \<Rightarrow> row list" where
  "local_rows st = filter rw_local (es_rows st)"

text \<open>The till's rows spell a log, of which it believes the first \<open>k\<close> events stored.\<close>

definition till_at :: "event_store \<Rightarrow> uuid \<Rightarrow> event_envelope list \<Rightarrow> nat \<Rightarrow> bool" where
  "till_at st d log k \<longleftrightarrow> es_device_id st = d \<and> map rw_event (local_rows st) = log \<and> k \<le> length log
     \<and> (\<forall>i < length log. rw_synced_at (local_rows st ! i) = None \<longleftrightarrow> k \<le> i)
     \<and> (\<forall>r \<in> set (es_rows st). rw_local r \<longleftrightarrow> en_device_id (rw_event r) = d)"

definition rows_of :: "server \<Rightarrow> uuid \<Rightarrow> event_envelope list" where
  "rows_of sv d = filter (\<lambda>e. en_device_id e = d) (map fst (sv_events sv))"

text \<open>The server stores the first \<open>n\<close> events of the log and no other event under their
  identifiers; its record of the device may push and has reached that point.\<close>

definition stored_at :: "server \<Rightarrow> uuid \<Rightarrow> event_envelope list \<Rightarrow> nat \<Rightarrow> bool" where
  "stored_at sv d log n \<longleftrightarrow> rows_of sv d = take n log
     \<and> (\<forall>f \<in> set (map fst (sv_events sv)). en_device_id f \<noteq> d \<longrightarrow> en_event_id f \<notin> en_event_id ` set log)"

definition in_scope :: "device_record \<Rightarrow> event_envelope list \<Rightarrow> bool" where
  "in_scope dev log \<longleftrightarrow>
     (\<forall>e \<in> set log. en_tenant_id e = dr_tenant_id dev \<and> en_outlet_id e = dr_outlet_id dev)"

definition server_at :: "server \<Rightarrow> uuid \<Rightarrow> event_envelope list \<Rightarrow> nat \<Rightarrow> bool" where
  "server_at sv d log n \<longleftrightarrow> n \<le> length log \<and> stored_at sv d log n
     \<and> (\<exists>dev. bt_get (sv_devices sv) d = Some dev \<and> dr_device_id dev = d \<and> \<not> dr_revoked dev
          \<and> dr_tip dev = tip_at log n \<and> in_scope dev log)"

definition devices_ok :: "server \<Rightarrow> bool" where
  "devices_ok sv \<longleftrightarrow> (\<forall>k dev. bt_get (sv_devices sv) k = Some dev \<longrightarrow> dr_device_id dev = k)"

definition direct :: "codec \<Rightarrow> uuid \<Rightarrow> server transport" where
  "direct cd d = \<lparr>tp_push = (\<lambda>sv batch. handle_push cd sv d \<lparr>pq_device_id = d, pq_events = batch\<rparr>),
     tp_pull = (\<lambda>sv cursor limit. (sv, handle_pull sv d cursor limit))\<rparr>"

section \<open>The till\<close>

lemma good_log_device: "good_log cd d log \<Longrightarrow> e \<in> set log \<Longrightarrow> en_device_id e = d"
  unfolding good_log_def in_set_conv_nth using run_nth_seq(2) by blast

lemma good_log_seq: "good_log cd d log \<Longrightarrow> i < length log \<Longrightarrow> en_device_seq (log ! i) = int i + 1"
  unfolding good_log_def using run_nth_seq(1) [of cd d tip_genesis log] by (auto simp: tip_genesis_def)

lemma good_log_sorted: "good_log cd d log \<Longrightarrow> sorted (map en_device_seq log)"
  by (auto simp: sorted_iff_nth_mono good_log_seq)

lemma filter_drop:
  assumes "\<forall>i < length xs. P (xs ! i) \<longleftrightarrow> k \<le> i"
  shows "filter P xs = drop k xs"
  using assms
proof (induction xs arbitrary: k)
  case (Cons x xs)
  have "\<forall>i < length xs. P (xs ! i) \<longleftrightarrow> k - 1 \<le> i"
    using Cons.prems by (force simp: nth_Cons' dest: spec [of _ "Suc _"])
  with Cons.IH [of "k - 1"] Cons.prems show ?case by (cases k) auto
qed simp

lemma unsynced_at:
  assumes "till_at st d log k" and "good_log cd d log"
  shows "unsynced st = drop k log"
proof -
  have l: "length (local_rows st) = length log" "map rw_event (local_rows st) = log"
    and s: "\<forall>i < length (local_rows st). rw_synced_at (local_rows st ! i) = None \<longleftrightarrow> k \<le> i"
    using assms(1) by (auto simp: till_at_def)
  have "filter is_unsynced (es_rows st) = filter (\<lambda>r. rw_synced_at r = None) (local_rows st)"
    by (auto simp: local_rows_def is_unsynced_def intro: filter_cong)
  also have "\<dots> = drop k (local_rows st)" by (rule filter_drop [OF s])
  finally have "map rw_event (filter is_unsynced (es_rows st)) = drop k log"
    using l(2) by (simp add: drop_map [symmetric])
  moreover have "sorted (map en_device_seq (drop k log))"
    using good_log_sorted [OF assms(2)] by (simp add: sorted_wrt_drop drop_map [symmetric])
  ultimately show ?thesis by (simp add: unsynced_def sorted_sort_id sort_key_id_if_sorted)
qed

lemma map_row_filter:
  assumes "\<And>r. rw_local (f r) = rw_local r"
  shows "filter rw_local (map f rs) = map f (filter rw_local rs)"
  using assms by (induction rs) auto

definition mark :: "int \<Rightarrow> int \<Rightarrow> row \<Rightarrow> row" where
  "mark sequence now r = (if to_mark sequence r then r\<lparr>rw_synced_at := Some now\<rparr> else r)"

lemma mark_keeps [simp]: "rw_local (mark q now r) = rw_local r" "rw_event (mark q now r) = rw_event r"
  by (simp_all add: mark_def)

lemma mark_synced_rows:
  "fst (mark_synced st q now) = st\<lparr>es_rows := map (mark (min q (2 ^ 63 - 1)) now) (es_rows st)\<rparr>"
  unfolding mark_synced_def mark_def Let_def by (simp only: fst_conv)

lemma till_atD:
  assumes "till_at st d log k"
  shows "length (local_rows st) = length log" and "map rw_event (local_rows st) = log"
    and "i < length log \<Longrightarrow> rw_synced_at (local_rows st ! i) = None \<longleftrightarrow> k \<le> i"
    and "i < length log \<Longrightarrow> rw_event (local_rows st ! i) = log ! i"
    and "i < length log \<Longrightarrow> rw_local (local_rows st ! i)" and "k \<le> length log" and "es_device_id st = d"
    and "r \<in> set (es_rows st) \<Longrightarrow> rw_local r \<longleftrightarrow> en_device_id (rw_event r) = d"
proof -
  show l: "map rw_event (local_rows st) = log" and "k \<le> length log" "es_device_id st = d"
    "r \<in> set (es_rows st) \<Longrightarrow> rw_local r \<longleftrightarrow> en_device_id (rw_event r) = d"
    using assms unfolding till_at_def by blast+
  then show len: "length (local_rows st) = length log" by (metis length_map)
  show "i < length log \<Longrightarrow> rw_synced_at (local_rows st ! i) = None \<longleftrightarrow> k \<le> i"
    using assms unfolding till_at_def by blast
  show "i < length log \<Longrightarrow> rw_event (local_rows st ! i) = log ! i" using l len by (metis nth_map)
  show "i < length log \<Longrightarrow> rw_local (local_rows st ! i)"
    using len nth_mem [of i "local_rows st"] unfolding local_rows_def by simp
qed

lemma mark_synced_upto:
  assumes "till_at st d log k" and "good_log cd d log" and "int m < 2 ^ 63"
  shows "till_at (fst (mark_synced st (int m) now)) d log (min (length log) (max k m))"
proof -
  note t = till_atD [OF assms(1)]
  let ?st = "st\<lparr>es_rows := map (mark (int m) now) (es_rows st)\<rparr>"
  have "min (int m) (2 ^ 63 - 1) = int m" using assms(3) by simp
  then have st: "fst (mark_synced st (int m) now) = ?st" by (simp only: mark_synced_rows)
  have rows: "local_rows ?st = map (mark (int m) now) (local_rows st)"
    by (simp add: local_rows_def map_row_filter del: map_map)
  have "rw_synced_at (local_rows ?st ! i) = None \<longleftrightarrow> min (length log) (max k m) \<le> i" if i: "i < length log" for i
  proof -
    have "to_mark (int m) (local_rows st ! i) \<longleftrightarrow> i < m \<and> k \<le> i"
      using t(3-5) [OF i] good_log_seq [OF assms(2) i] by (auto simp: to_mark_def)
    then show ?thesis using t(1) t(3) [OF i] i by (auto simp: rows mark_def)
  qed
  moreover have "map rw_event (local_rows ?st) = log" unfolding rows using t(2) by (simp add: comp_def)
  moreover have "\<forall>r \<in> set (es_rows ?st). rw_local r \<longleftrightarrow> en_device_id (rw_event r) = d" using t(8) by auto
  ultimately show ?thesis unfolding st till_at_def using t(7) by simp
qed

lemma mark_synced_at:
  assumes "till_at st d log k" and "good_log cd d log" and "m \<le> length log"
  shows "till_at (fst (mark_synced st (int m) now)) d log (max k m)"
proof -
  have "min (length log) (max k m) = max k m" using assms(3) till_atD(6) [OF assms(1)] by simp
  with mark_synced_upto [OF assms(1,2), of m now] assms(2,3) show ?thesis by (simp add: good_log_def)
qed

lemma append_at:
  assumes "till_at st d log k" and "good_log cd d (log @ [e])" and "append_within io st e = Inr st'"
  shows "till_at st' d (log @ [e]) k"
proof -
  have st': "es_rows st' = es_rows st @ [\<lparr>rw_event = e, rw_local = True, rw_synced_at = None, rw_server_seq = None\<rparr>]"
    "es_device_id st' = es_device_id st"
    using assms(3) by (auto simp: append_within_def Let_def split: if_splits)
  have "length (local_rows st) = length log" using assms(1) by (auto simp: till_at_def)
  then show ?thesis
    using assms(1) good_log_device [OF assms(2), of e] st'
    by (auto simp: till_at_def local_rows_def nth_append less_Suc_eq)
qed

lemma remote_at:
  assumes "till_at st d log k" and "en_device_id e \<noteq> d" and "insert_remote st e s = Inr (st', new)"
  shows "till_at st' d log k"
  using assms by (auto simp: insert_remote_def till_at_def local_rows_def split: if_splits)

lemma sort_key_eq_sorted:
  assumes "sorted (map f ys)" and "mset xs = mset ys" and "inj_on f (set xs)"
  shows "sort_key f xs = ys"
proof -
  have "sort (map f xs) = map f (sort_key f xs)" by (rule properties_for_sort) simp_all
  moreover have "sort (map f xs) = map f ys" using assms(1,2) by (intro properties_for_sort) simp_all
  ultimately have eq: "map f (sort_key f xs) = map f ys" by simp
  have "set ys = set xs" using assms(2) by (rule mset_eq_setD [symmetric])
  then have "inj_on f (set (sort_key f xs) \<union> set ys)" using assms(3) by simp
  with eq show ?thesis by (rule map_inj_on)
qed

text \<open>What the till seals next, its store takes.\<close>

lemma tip_within_at:
  assumes "till_at st d log k" and "good_log cd d log"
  shows "tip_within st d = tip_at log (length log)"
proof -
  have "filter (\<lambda>e. en_device_id e = d) (map rw_event (es_rows st)) = map rw_event (local_rows st)"
    using assms(1) unfolding till_at_def local_rows_def filter_map
    by (auto intro!: arg_cong [where f = "map rw_event"] filter_cong)
  then have own: "filter (\<lambda>e. en_device_id e = d) (map rw_event (es_rows st)) = log"
    using assms(1) by (simp add: till_at_def)
  have "sorted (map (\<lambda>e. - en_device_seq e) (rev log))"
    using good_log_seq [OF assms(2)] by (auto simp: sorted_iff_nth_mono rev_nth)
  moreover have "mset log = mset (rev log)" by simp
  moreover have "inj_on (\<lambda>e. - en_device_seq e) (set log)"
    by (auto simp: inj_on_def in_set_conv_nth good_log_seq [OF assms(2)])
  ultimately have "sort_key (\<lambda>e. - en_device_seq e) log = rev log" by (rule sort_key_eq_sorted)
  then show ?thesis
    by (cases log rule: rev_cases) (auto simp: tip_within_def own tip_at_def)
qed

section \<open>The server\<close>

lemma good_log_distinct: "good_log cd d log \<Longrightarrow> distinct (map en_event_id log)"
  by (simp add: good_log_def)

lemma good_log_neq:
  assumes "good_log cd d log" and "f \<in> set (take m log)" and "m < length log"
  shows "en_event_id f \<noteq> en_event_id (log ! m)" and "en_device_seq f \<noteq> en_device_seq (log ! m)"
proof -
  obtain i where i: "f = log ! i" "i < m" using assms(2,3) by (auto simp: in_set_conv_nth)
  then show "en_device_seq f \<noteq> en_device_seq (log ! m)"
    using good_log_seq [OF assms(1)] assms(3) by simp
  show "en_event_id f \<noteq> en_event_id (log ! m)"
    using nth_eq_iff_index_eq [OF good_log_distinct [OF assms(1)], of i m] i assms(3) by simp
qed

lemma violates_iff:
  "violates sv e \<longleftrightarrow> en_device_seq e \<le> 0 \<or> (\<exists>f \<in> set (map fst (sv_events sv)). en_event_id f = en_event_id e
     \<or> en_device_id f = en_device_id e \<and> en_device_seq f = en_device_seq e)"
  by (simp add: violates_def list_ex_iff split_beta)

lemma insert_next:
  assumes "stored_at sv d log m" and "good_log cd d log" and "m < length log" and "in_scope dev log"
  shows "\<exists>sv' hw'. insert_event dev (sv, hw) (log ! m) = Inr (sv', hw') \<and> stored_at sv' d log (Suc m)
    \<and> sv_devices sv' = sv_devices sv \<and> (\<forall>d'. d' \<noteq> d \<longrightarrow> rows_of sv' d' = rows_of sv d')"
proof -
  let ?e = "log ! m"
  let ?sv = "sv\<lparr>sv_events := sv_events sv @ [(?e, sv_next_seq sv)], sv_next_seq := sv_next_seq sv + 1\<rparr>"
  have e: "?e \<in> set log" "en_device_id ?e = d" "en_device_seq ?e = int m + 1"
    using assms(2,3) good_log_device good_log_seq by auto
  have rows: "rows_of sv d = take m log" using assms(1) by (simp add: stored_at_def)
  have "\<not> violates sv ?e"
  proof
    assume "violates sv ?e"
    then obtain f where f: "f \<in> set (map fst (sv_events sv))"
      "en_event_id f = en_event_id ?e \<or> en_device_id f = d \<and> en_device_seq f = en_device_seq ?e"
      using e(2,3) unfolding violates_iff by auto
    show False
    proof (cases "en_device_id f = d")
      case True
      then have "f \<in> set (take m log)" using f(1) unfolding rows [symmetric] rows_of_def by auto
      from good_log_neq [OF assms(2) this assms(3)] f(2) show False by blast
    next
      case False
      then show False using f assms(1) e(1) unfolding stored_at_def by blast
    qed
  qed
  moreover have "in_i64 (en_device_seq ?e)" using assms(2,3) e(3) by (simp add: good_log_def in_i64_def)
  ultimately have "insert_event dev (sv, hw) ?e = Inr (?sv, max hw (sv_next_seq sv))"
    using assms(4) e(1) by (simp add: insert_event_def in_scope_def Let_def)
  moreover have "stored_at ?sv d log (Suc m)"
    using assms(1,3) e(2) rows unfolding stored_at_def rows_of_def
    by (simp add: take_Suc_conv_app_nth)
  moreover have "rows_of ?sv d' = rows_of sv d'" if "d' \<noteq> d" for d' using that e(2) by (simp add: rows_of_def)
  ultimately show ?thesis by (intro exI [of _ ?sv] exI [of _ "max hw (sv_next_seq sv)"]) simp
qed

lemma insert_run:
  assumes "stored_at sv d log m" and "good_log cd d log" and "m \<le> j" and "j \<le> length log" and "in_scope dev log"
  shows "\<exists>sv' hw'. try_fold (insert_event dev) (sv, hw) (drop m (take j log)) = Inr (sv', hw') \<and> stored_at sv' d log j
    \<and> sv_devices sv' = sv_devices sv \<and> (\<forall>d'. d' \<noteq> d \<longrightarrow> rows_of sv' d' = rows_of sv d')"
  using assms(1,3)
proof (induction "j - m" arbitrary: sv m hw)
  case 0
  then show ?case by simp
next
  case (Suc n)
  then have m: "m < j" by simp
  then have step: "drop m (take j log) = log ! m # drop (Suc m) (take j log)"
    using assms(4) by (subst Cons_nth_drop_Suc [symmetric]) simp_all
  obtain sv1 hw1 where 1: "insert_event dev (sv, hw) (log ! m) = Inr (sv1, hw1)" "stored_at sv1 d log (Suc m)"
    "sv_devices sv1 = sv_devices sv" "\<forall>d'. d' \<noteq> d \<longrightarrow> rows_of sv1 d' = rows_of sv d'"
    using insert_next [OF Suc.prems(1) assms(2) _ assms(5)] m assms(4) by (metis order_less_le_trans)
  have "n = j - Suc m" "Suc m \<le> j" using Suc.hyps(2) m by simp_all
  from Suc.hyps(1) [OF this(1) 1(2) this(2), of hw1] obtain sv' hw' where
    "try_fold (insert_event dev) (sv1, hw1) (drop (Suc m) (take j log)) = Inr (sv', hw')" "stored_at sv' d log j"
    "sv_devices sv' = sv_devices sv1" "\<forall>d'. d' \<noteq> d \<longrightarrow> rows_of sv' d' = rows_of sv1 d'"
    by blast
  with 1 show ?case unfolding step by (intro exI [of _ sv'] exI [of _ hw']) simp
qed

lemma stored_at_high_water:
  assumes "stored_at sv d log n" and "n \<noteq> 0" and "log \<noteq> []"
  shows "\<exists>hw. high_water_for sv d = Inr hw"
proof -
  have "rows_of sv d \<noteq> []" using assms by (simp add: stored_at_def)
  then have "map snd (filter (\<lambda>(e, _). en_device_id e = d) (sv_events sv)) \<noteq> []"
    by (auto simp: rows_of_def filter_empty_conv)
  then show ?thesis by (auto simp: high_water_for_def neq_Nil_conv)
qed

text \<open>A push from the till's log, whatever part of it is sent.\<close>

lemma push_at:
  assumes "server_at sv d log n" and "good_log cd d log" and "i \<le> n" and "i < j" and "j \<le> length log"
    and "j - i \<le> max_batch"
  shows "\<exists>sv' resp. handle_push cd sv d \<lparr>pq_device_id = d, pq_events = drop i (take j log)\<rparr> = (sv', Inr resp)
    \<and> server_at sv' d log (max n j) \<and> ps_tip resp = tip_at log (max n j)
    \<and> ps_accepted resp = j - n \<and> (\<forall>d'. d' \<noteq> d \<longrightarrow> rows_of sv' d' = rows_of sv d')"
proof -
  let ?ev = "drop i (take j log)"
  obtain dev where n: "n \<le> length log" and st: "stored_at sv d log n" and
    dev: "bt_get (sv_devices sv) d = Some dev" "dr_device_id dev = d" "\<not> dr_revoked dev"
      "dr_tip dev = tip_at log n" "in_scope dev log"
    using assms(1) unfolding server_at_def by blast
  obtain t where run: "try_fold (verify_step cd d) tip_genesis log = Inr t" and len: "int (length log) < 2 ^ 63"
    using assms(2) unfolding good_log_def by blast
  have plan: "plan_batch cd ?ev (tip_at log n) d
      = Inr \<lparr>bp_already_stored = min n j - i, bp_to_insert = j - n, bp_resulting_tip = tip_at log (max n j)\<rparr>"
    using honest_plan [OF run assms(3) n assms(4,5)] len by simp
  have front: "handle_push cd sv d \<lparr>pq_device_id = d, pq_events = ?ev\<rparr> =
      (case ingest_push cd sv dev ?ev of Inl e \<Rightarrow> (sv, Inl (rejection e)) | Inr (sv', resp) \<Rightarrow> (sv', Inr resp))"
  proof -
    have "length ?ev \<le> max_batch" using assms(5,6) by simp
    then have "push_validate \<lparr>pq_device_id = d, pq_events = ?ev\<rparr> = Inr ()" by (simp add: push_validate_def)
    then show ?thesis using dev(1,2) by (simp add: handle_push_def load_device_def)
  qed
  show ?thesis
  proof (cases "j \<le> n")
    case True
    have "n \<noteq> 0" "log \<noteq> []" using True assms(4,5) by auto
    then obtain hw where hw: "high_water_for sv d = Inr hw" using stored_at_high_water [OF st] by blast
    have "ingest_push cd sv dev ?ev
        = Inr (sv, \<lparr>ps_accepted = 0, ps_skipped = min n j - i, ps_tip = tip_at log n, ps_high_water = hw\<rparr>)"
      using plan True hw by (simp add: ingest_push_def dev is_noop_def)
    with True assms(1) show ?thesis unfolding front by (simp add: max_absorb1)
  next
    case False
    have "drop (min n j - i) ?ev = drop n (take j log)" using False assms(3) by simp
    moreover obtain sv1 hw where ins: "try_fold (insert_event dev) (sv, 0) (drop n (take j log)) = Inr (sv1, hw)"
      "stored_at sv1 d log j" "sv_devices sv1 = sv_devices sv" "\<forall>d'. d' \<noteq> d \<longrightarrow> rows_of sv1 d' = rows_of sv d'"
      using insert_run [OF st assms(2) _ assms(5) dev(5)] False by (metis nat_le_linear)
    moreover have "in_i64 (ct_device_seq (tip_at log j))"
      using run_tip_at(2) [OF run assms(5)] len assms(5) by (simp add: in_i64_def)
    ultimately have push: "ingest_push cd sv dev ?ev = Inr
        (sv1\<lparr>sv_devices := bt_insert d (dev\<lparr>dr_tip := tip_at log j\<rparr>) (sv_devices sv)\<rparr>,
         \<lparr>ps_accepted = j - n, ps_skipped = min n j - i, ps_tip = tip_at log j, ps_high_water = hw\<rparr>)"
      using plan False by (simp add: ingest_push_def dev is_noop_def max_absorb2)
    have "server_at (sv1\<lparr>sv_devices := bt_insert d (dev\<lparr>dr_tip := tip_at log j\<rparr>) (sv_devices sv)\<rparr>) d log j"
      using assms(5) ins(2) dev by (simp add: server_at_def stored_at_def rows_of_def in_scope_def)
    then show ?thesis unfolding front push using ins(4) False by (simp add: max_absorb2 rows_of_def)
  qed
qed

text \<open>What a push can change at all.\<close>

lemma insert_frame:
  "try_fold (insert_event dev) (sv, hw) es = Inr (sv', hw') \<Longrightarrow>
     sv_devices sv' = sv_devices sv \<and> map fst (sv_events sv') = map fst (sv_events sv) @ es"
proof (induction es arbitrary: sv hw)
  case (Cons e es)
  from Cons.prems obtain sv1 hw1 where 1: "insert_event dev (sv, hw) e = Inr (sv1, hw1)"
    and rest: "try_fold (insert_event dev) (sv1, hw1) es = Inr (sv', hw')" by (auto simp: res_simps)
  from 1 have "sv_devices sv1 = sv_devices sv" "map fst (sv_events sv1) = map fst (sv_events sv) @ [e]"
    by (auto simp: insert_event_def Let_def split: if_splits)
  with Cons.IH [OF rest] show ?case by simp
qed simp

lemma plan_batch_devices:
  "plan_batch cd events tip d = Inr p \<Longrightarrow> \<forall>e \<in> set events. en_device_id e = d"
  by (cases "events = []") (auto simp: plan_batch_eq res_simps check_devices_Inr simp del: check_devices.simps)

lemma ingest_push_frame:
  assumes "ingest_push cd sv dev events = Inr (sv', resp)"
  shows "(\<exists>new. map fst (sv_events sv') = map fst (sv_events sv) @ new \<and> set new \<subseteq> set events
       \<and> (\<forall>e \<in> set events. en_device_id e = dr_device_id dev))
     \<and> (\<exists>tip. sv_devices sv' = sv_devices sv
          \<or> sv_devices sv' = bt_insert (dr_device_id dev) (dev\<lparr>dr_tip := tip\<rparr>) (sv_devices sv))"
proof -
  from assms obtain plan where plan: "plan_batch cd events (dr_tip dev) (dr_device_id dev) = Inr plan"
    by (auto simp: ingest_push_def res_simps split: if_splits)
  note dev = plan_batch_devices [OF plan]
  show ?thesis
  proof (cases "is_noop plan")
    case True
    then have "sv' = sv" using assms plan by (auto simp: ingest_push_def res_simps split: if_splits)
    with dev show ?thesis by (auto intro: exI [of _ "[]"])
  next
    case False
    then obtain sv1 hw where 1: "try_fold (insert_event dev) (sv, 0) (drop (bp_already_stored plan) events) = Inr (sv1, hw)"
      and sv': "sv' = sv1\<lparr>sv_devices := bt_insert (dr_device_id dev) (dev\<lparr>dr_tip := bp_resulting_tip plan\<rparr>) (sv_devices sv1)\<rparr>"
      using assms plan by (auto simp: ingest_push_def res_simps split: if_splits)
    from insert_frame [OF 1] dev sv' show ?thesis
      by (auto intro!: exI [of _ "drop (bp_already_stored plan) events"] dest: in_set_dropD)
  qed
qed

lemma handle_push_frame:
  assumes "devices_ok sv" and "handle_push cd sv d' req = (sv', answer)"
  shows "\<exists>new. map fst (sv_events sv') = map fst (sv_events sv) @ new \<and> set new \<subseteq> set (pq_events req)
       \<and> (\<forall>e \<in> set new. en_device_id e = d')"
    and "k \<noteq> d' \<Longrightarrow> bt_get (sv_devices sv') k = bt_get (sv_devices sv) k"
    and "devices_ok sv'"
proof -
  have "sv' = sv \<or> (\<exists>dev resp. bt_get (sv_devices sv) d' = Some dev
      \<and> ingest_push cd sv dev (pq_events req) = Inr (sv', resp))"
    using assms(2) by (auto simp: handle_push_def load_device_def res_simps ok_or_def split: sum.splits if_splits option.splits)
  then have "(\<exists>new. map fst (sv_events sv') = map fst (sv_events sv) @ new \<and> set new \<subseteq> set (pq_events req)
       \<and> (\<forall>e \<in> set new. en_device_id e = d'))
     \<and> (k \<noteq> d' \<longrightarrow> bt_get (sv_devices sv') k = bt_get (sv_devices sv) k) \<and> devices_ok sv'"
  proof (elim disjE exE conjE)
    fix dev resp
    assume dev: "bt_get (sv_devices sv) d' = Some dev" and push: "ingest_push cd sv dev (pq_events req) = Inr (sv', resp)"
    have id: "dr_device_id dev = d'" using assms(1) dev by (simp add: devices_ok_def)
    from ingest_push_frame [OF push] obtain new tip where new:
      "map fst (sv_events sv') = map fst (sv_events sv) @ new" "set new \<subseteq> set (pq_events req)"
      "\<forall>e \<in> set (pq_events req). en_device_id e = d'"
      and devs: "sv_devices sv' = sv_devices sv
        \<or> sv_devices sv' = bt_insert d' (dev\<lparr>dr_tip := tip\<rparr>) (sv_devices sv)"
      unfolding id by blast
    from devs have "(k \<noteq> d' \<longrightarrow> bt_get (sv_devices sv') k = bt_get (sv_devices sv) k) \<and> devices_ok sv'"
      using assms(1) id by (auto simp: devices_ok_def split: if_split_asm)
    with new show ?thesis by blast
  qed (use assms(1) in auto)
  then show "\<exists>new. map fst (sv_events sv') = map fst (sv_events sv) @ new \<and> set new \<subseteq> set (pq_events req)
       \<and> (\<forall>e \<in> set new. en_device_id e = d')"
    and "k \<noteq> d' \<Longrightarrow> bt_get (sv_devices sv') k = bt_get (sv_devices sv) k"
    and "devices_ok sv'" by blast+
qed

section \<open>A round of the till\<close>

lemma push_round:
  assumes "till_at st d log k" and "good_log cd d log" and "server_at sv d log n" and "k \<le> n"
    and "devices_ok sv"
  shows "\<exists>st' sv' out k' n'. push_pending (direct cd d) st sv now = ((st', sv'), Inr out)
    \<and> till_at st' d log k' \<and> server_at sv' d log n' \<and> k' \<le> n' \<and> n \<le> n'
    \<and> k \<le> k' \<and> min (length log) (k + max_batch) \<le> k' \<and> devices_ok sv'"
proof -
  have pending: "unsynced st = drop k log" by (rule unsynced_at [OF assms(1,2)])
  show ?thesis
  proof (cases "drop k log = []")
    case True
    then have "push_pending (direct cd d) st sv now = ((st, sv), Inr no_outcome)"
      using pending by (simp add: push_pending_def)
    moreover have "min (length log) (k + max_batch) \<le> k" using True till_atD(6) [OF assms(1)] by simp
    ultimately show ?thesis using assms by blast
  next
    case False
    define j where "j = min (length log) (k + max_batch)"
    have j: "k < j" "j \<le> length log" "j - k \<le> max_batch"
      using False by (auto simp: j_def max_batch_def)
    have batch: "take max_batch (drop k log) = drop k (take j log)"
      using j by (simp add: j_def take_drop min_def add.commute)
    obtain sv' resp where push:
      "handle_push cd sv d \<lparr>pq_device_id = d, pq_events = drop k (take j log)\<rparr> = (sv', Inr resp)"
      "server_at sv' d log (max n j)" "ps_tip resp = tip_at log (max n j)"
      using push_at [OF assms(3,2,4) j] by blast
    have m: "max n j \<le> length log" using push(2) by (simp add: server_at_def)
    have tip: "ct_device_seq (tip_at log (max n j)) = int (max n j)"
      using run_tip_at(2) assms(2) m unfolding good_log_def by blast
    have "last (drop k (take j log)) = log ! (j - 1)" using j by (simp add: last_conv_nth)
    then have sent: "en_device_seq (last (drop k (take j log))) = int j"
      using good_log_seq [OF assms(2), of "j - 1"] j by simp
    let ?st = "fst (mark_synced st (int (max n j)) now)"
    let ?out = "\<lparr>so_pushed = ps_accepted resp, so_skipped = ps_skipped resp, so_pulled = 0,
      so_more_pending = length (drop k log) > length (drop k (take j log))\<rparr>"
    have "push_pending (direct cd d) st sv now = ((?st, sv'), Inr ?out)"
      using False pending push(1,3) tip sent batch by (simp add: push_pending_def direct_def)
    moreover have "till_at ?st d log (max n j)"
    proof -
      have "max k (max n j) = max n j" using assms(4) by simp
      with mark_synced_at [OF assms(1,2) m, of now] show ?thesis by simp
    qed
    ultimately show ?thesis using push(2) handle_push_frame(3) [OF assms(5) push(1)] j assms(4) unfolding j_def [symmetric]
      by (intro exI [of _ ?st] exI [of _ sv'] exI [of _ ?out] exI [of _ "max n j"]) auto
  qed
qed

section \<open>The network\<close>

text \<open>The till, the server and the batches the till has sent that may still arrive, at any time and any
  number of times, without anyone waiting for an answer.\<close>

record network =
  nw_till :: event_store
  nw_server :: server
  nw_sent :: "event_envelope list list"

text \<open>A step: the till seals an event with a fresh identifier; a round is delivered and answered; a
  batch is sent and its answer given up; a batch sent earlier arrives; another device pushes; the till
  pulls a page.\<close>

inductive network_step :: "codec \<Rightarrow> uuid \<Rightarrow> network \<Rightarrow> network \<Rightarrow> bool" for cd d where
  seals: "network_step cd d w (w\<lparr>nw_till := st'\<rparr>)"
    if "append_event cd (chain_resume d (store_tip (nw_till w))) h kind payload = Inr (c, e)"
      and "bt_get (sv_devices (nw_server w)) d = Some dev"
      and "eh_tenant_id h = dr_tenant_id dev" and "eh_outlet_id h = dr_outlet_id dev"
      and "\<forall>f \<in> set (map fst (sv_events (nw_server w))). en_event_id f \<noteq> en_event_id e"
      and "append_within io (nw_till w) e = Inr st'"
| rounds: "network_step cd d w (w\<lparr>nw_till := st', nw_server := sv'\<rparr>)"
    if "push_pending (direct cd d) (nw_till w) (nw_server w) now = ((st', sv'), out)"
| sends: "network_step cd d w (w\<lparr>nw_sent := take max_batch (unsynced (nw_till w)) # nw_sent w\<rparr>)"
    if "unsynced (nw_till w) \<noteq> []"
| arrives: "network_step cd d w (w\<lparr>nw_server := sv'\<rparr>)"
    if "batch \<in> set (nw_sent w)"
      and "handle_push cd (nw_server w) d \<lparr>pq_device_id = d, pq_events = batch\<rparr> = (sv', answer)"
| others: "network_step cd d w (w\<lparr>nw_server := sv'\<rparr>)"
    if "d' \<noteq> d" and "handle_push cd (nw_server w) d' request = (sv', answer)"
      and "\<forall>e \<in> set (pq_events request). \<forall>f \<in> set (load_all (nw_till w)). en_event_id e \<noteq> en_event_id f"
| pulls: "network_step cd d w (w\<lparr>nw_till := st'\<rparr>)"
    if "pull_new cd (direct cd d) (nw_till w) (nw_server w) = ((st', sv'), answer)"

inductive_cases network_stepE: "network_step cd d w w'"

inductive reaches :: "codec \<Rightarrow> uuid \<Rightarrow> network \<Rightarrow> network \<Rightarrow> bool" for cd d w where
  here: "reaches cd d w w"
| further: "reaches cd d w v \<Longrightarrow> network_step cd d v v' \<Longrightarrow> reaches cd d w v'"

text \<open>A fresh till, enrolled at the server.\<close>

definition enrolled :: "server \<Rightarrow> uuid \<Rightarrow> bool" where
  "enrolled sv d \<longleftrightarrow> devices_ok sv \<and> rows_of sv d = []
     \<and> (\<exists>dev. bt_get (sv_devices sv) d = Some dev \<and> \<not> dr_revoked dev \<and> dr_tip dev = tip_genesis)"

definition network_init :: "server \<Rightarrow> uuid \<Rightarrow> network" where
  "network_init sv d = \<lparr>nw_till = store_open d, nw_server = sv, nw_sent = []\<rparr>"

text \<open>The view of a state, and what holds of it.\<close>

definition sendable :: "event_envelope list \<Rightarrow> nat \<Rightarrow> event_envelope list \<Rightarrow> bool" where
  "sendable log n batch \<longleftrightarrow>
     (\<exists>i j. batch = drop i (take j log) \<and> i < j \<and> j \<le> length log \<and> i \<le> n \<and> j - i \<le> max_batch)"

lemma sendable_later: "sendable log n batch \<Longrightarrow> n \<le> n' \<Longrightarrow> sendable (log @ es) n' batch"
  unfolding sendable_def by (elim exE conjE, rule_tac x = i in exI, rule_tac x = j in exI) simp

lemma sendable_mono: "sendable log n batch \<Longrightarrow> n \<le> n' \<Longrightarrow> sendable log n' batch"
  using sendable_later [of log n batch n' "[]"] by simp

definition network_at :: "codec \<Rightarrow> uuid \<Rightarrow> network \<Rightarrow> event_envelope list \<Rightarrow> nat \<Rightarrow> nat \<Rightarrow> bool" where
  "network_at cd d w log k n \<longleftrightarrow> good_log cd d log \<and> till_at (nw_till w) d log k
     \<and> server_at (nw_server w) d log n \<and> k \<le> n \<and> devices_ok (nw_server w)
     \<and> (\<forall>batch \<in> set (nw_sent w). sendable log n batch)"

lemma load_all_at:
  assumes "till_at st d log k" and "good_log cd d log"
  shows "load_all st = log"
proof -
  have "map rw_event (filter rw_local (es_rows st)) = log" using till_atD(2) [OF assms(1)] by (simp add: local_rows_def)
  with good_log_sorted [OF assms(2)] show ?thesis by (simp add: load_all_def sort_key_id_if_sorted)
qed

lemma seals_at:
  assumes "network_at cd d w log k n"
    and "append_event cd (chain_resume d (store_tip (nw_till w))) h kind payload = Inr (c, e)"
    and "bt_get (sv_devices (nw_server w)) d = Some dev"
    and "eh_tenant_id h = dr_tenant_id dev" and "eh_outlet_id h = dr_outlet_id dev"
    and "\<forall>f \<in> set (map fst (sv_events (nw_server w))). en_event_id f \<noteq> en_event_id e"
    and "append_within io (nw_till w) e = Inr st'"
  shows "network_at cd d (w\<lparr>nw_till := st'\<rparr>) (log @ [e]) k n"
proof -
  have log: "good_log cd d log" and till: "till_at (nw_till w) d log k" and server: "server_at (nw_server w) d log n"
    and sent: "\<forall>batch \<in> set (nw_sent w). sendable log n batch"
    using assms(1) unfolding network_at_def by blast+
  have tip: "store_tip (nw_till w) = tip_at log (length log)"
    using tip_within_at [OF till log] till_atD(7) [OF till] by (simp add: store_tip_def)
  obtain t where run: "try_fold (verify_step cd d) tip_genesis log = Inr t" using log unfolding good_log_def by blast
  have "try_fold (verify_step cd d) tip_genesis log = Inr (tip_at log (length log))"
    using run_tip_at(1) [OF run, of "length log"] by simp
  moreover have "verify_step cd d (tip_at log (length log)) e = Inr (ec_tip c)"
    using append_event_Inr [OF assms(2)] tip by (simp add: chain_resume_def)
  ultimately have run': "\<exists>t. try_fold (verify_step cd d) tip_genesis (log @ [e]) = Inr t"
    by (simp add: try_fold_append)
  have fresh: "\<not> conflicts (nw_till w) e" and i64: "in_i64 (en_device_seq e)"
    using assms(7) by (auto simp: append_within_def Let_def split: if_splits)
  have "en_event_id e \<notin> en_event_id ` set log"
    using fresh till_atD(2) [OF till] by (auto simp: conflicts_def list_ex_iff local_rows_def)
  moreover have "en_device_seq e = int (length log) + 1"
    using run' run_nth_seq(1) [of cd d tip_genesis "log @ [e]" _ "length log"] by (auto simp: tip_genesis_def)
  ultimately have log': "good_log cd d (log @ [e])"
    using run' log i64 by (simp add: good_log_def in_i64_def)
  have e: "en_tenant_id e = eh_tenant_id h" "en_outlet_id e = eh_outlet_id h"
    using assms(2) by (auto simp: append_event_def seal_event_def Let_def res_simps split: if_splits)
  have n: "n \<le> length log" using server by (simp add: server_at_def)
  then have "tip_at (log @ [e]) n = tip_at log n" by (auto simp: tip_at_def nth_append)
  then have "server_at (nw_server w) d (log @ [e]) n"
    using server n assms(3-6) e unfolding server_at_def stored_at_def in_scope_def by auto
  moreover have "sendable (log @ [e]) n batch" if "batch \<in> set (nw_sent w)" for batch
    using sent that by (blast intro: sendable_later)
  ultimately show ?thesis
    using append_at [OF till log' assms(7)] log' assms(1) unfolding network_at_def by simp
qed

lemma others_at:
  assumes "network_at cd d w log k n"
    and "d' \<noteq> d" and "handle_push cd (nw_server w) d' request = (sv', answer)"
    and "\<forall>e \<in> set (pq_events request). \<forall>f \<in> set (load_all (nw_till w)). en_event_id e \<noteq> en_event_id f"
  shows "network_at cd d (w\<lparr>nw_server := sv'\<rparr>) log k n"
proof -
  have ok: "devices_ok (nw_server w)" and log: "good_log cd d log" and till: "till_at (nw_till w) d log k"
    and server: "server_at (nw_server w) d log n" using assms(1) unfolding network_at_def by blast+
  obtain new where new: "map fst (sv_events sv') = map fst (sv_events (nw_server w)) @ new"
    "set new \<subseteq> set (pq_events request)" "\<forall>e \<in> set new. en_device_id e = d'"
    using handle_push_frame(1) [OF ok assms(3)] by blast
  have "filter (\<lambda>e. en_device_id e = d) new = []" using new(3) assms(2) by (simp add: filter_empty_conv)
  then have "rows_of sv' d = rows_of (nw_server w) d" unfolding rows_of_def new(1) by simp
  moreover have "en_event_id f \<notin> en_event_id ` set log" if "f \<in> set new" for f
    using assms(4) new(2) that load_all_at [OF till log] by blast
  ultimately have "server_at sv' d log n"
    using server handle_push_frame(2) [OF ok assms(3)] assms(2) unfolding server_at_def stored_at_def new(1) by auto
  then show ?thesis using assms(1) handle_push_frame(3) [OF ok assms(3)] by (simp add: network_at_def)
qed

lemma cursor_at: "till_at (set_pull_cursor st c) d log k = till_at st d log k"
  by (simp add: till_at_def set_pull_cursor_def local_rows_def)

lemma apply_page_at:
  "till_at st d log k \<Longrightarrow> \<forall>e \<in> set es. en_device_id e \<noteq> d \<Longrightarrow> till_at (fst (apply_page cd cur st m es)) d log k"
proof (induction cd cur st m es rule: apply_page.induct)
  case (2 cd cur st m e es)
  then show ?case using remote_at [of st d log k e cur] by (auto split: sum.splits)
qed simp

lemma pulls_at:
  assumes "network_at cd d w log k n"
    and "pull_new cd (direct cd d) (nw_till w) (nw_server w) = ((st', sv'), answer)"
  shows "network_at cd d (w\<lparr>nw_till := st'\<rparr>) log k n"
proof -
  have ok: "devices_ok (nw_server w)" and till: "till_at (nw_till w) d log k"
    using assms(1) unfolding network_at_def by blast+
  have "till_at st' d log k"
  proof (cases "handle_pull (nw_server w) d (es_cursor (nw_till w)) pull_page")
    case (Inl r)
    then show ?thesis using assms(2) till by (simp add: pull_new_def direct_def)
  next
    case (Inr page)
    then have "\<forall>e \<in> set (pp_events page). en_device_id e \<noteq> d"
      using ok by (auto simp: handle_pull_def load_device_def ok_or_def ingest_pull_def Let_def devices_ok_def
          split: option.splits dest!: in_set_takeD)
    note page = apply_page_at [OF till this, of cd "pp_cursor page" 0]
    obtain st1 applied where "apply_page cd (pp_cursor page) (nw_till w) 0 (pp_events page) = (st1, applied)"
      by (rule prod.exhaust)
    with page assms(2) Inr show ?thesis by (auto simp: pull_new_def direct_def cursor_at split: sum.splits)
  qed
  then show ?thesis using assms(1) by (simp add: network_at_def)
qed

text \<open>Every step keeps the view, for a log that only grows.\<close>

lemma network_atD:
  assumes "network_at cd d w log k n"
  shows "till_at (nw_till w) d log k" and "good_log cd d log" and "server_at (nw_server w) d log n" and "k \<le> n"
    and "devices_ok (nw_server w)"
    and "batch \<in> set (nw_sent w) \<Longrightarrow> sendable log n batch"
  using assms unfolding network_at_def by blast+

lemma rounds_at:
  assumes "network_at cd d w log k n"
  shows "\<exists>st' sv' out k' n'. push_pending (direct cd d) (nw_till w) (nw_server w) now = ((st', sv'), Inr out)
    \<and> network_at cd d (w\<lparr>nw_till := st', nw_server := sv'\<rparr>) log k' n' \<and> k \<le> k' \<and> n \<le> n'
    \<and> min (length log) (k + max_batch) \<le> k'"
proof -
  note w = network_atD [OF assms]
  obtain st' sv' out k' n' where 1: "push_pending (direct cd d) (nw_till w) (nw_server w) now = ((st', sv'), Inr out)"
    "till_at st' d log k'" "server_at sv' d log n'" "k' \<le> n'" "n \<le> n'" "k \<le> k'"
    "min (length log) (k + max_batch) \<le> k'" "devices_ok sv'"
    using push_round [OF w(1-5), of now] by blast
  moreover have "sendable log n' batch" if "batch \<in> set (nw_sent w)" for batch
    using w(6) [OF that] 1(5) by (rule sendable_mono)
  ultimately have "network_at cd d (w\<lparr>nw_till := st', nw_server := sv'\<rparr>) log k' n'"
    using w(2) by (simp add: network_at_def)
  with 1 show ?thesis by blast
qed

lemma arrives_at:
  assumes "network_at cd d w log k n" and "batch \<in> set (nw_sent w)"
    and "handle_push cd (nw_server w) d \<lparr>pq_device_id = d, pq_events = batch\<rparr> = (sv', answer)"
  shows "\<exists>n'. network_at cd d (w\<lparr>nw_server := sv'\<rparr>) log k n' \<and> n \<le> n'"
proof -
  note w = network_atD [OF assms(1)]
  obtain i j where ij: "batch = drop i (take j log)" "i < j" "j \<le> length log" "i \<le> n" "j - i \<le> max_batch"
    using w(6) [OF assms(2)] unfolding sendable_def by blast
  have "server_at sv' d log (max n j)"
    using push_at [OF w(3,2) ij(4,2,3,5)] assms(3) ij(1) by auto
  moreover have "sendable log (max n j) b" if "b \<in> set (nw_sent w)" for b
    using w(6) [OF that] by (rule sendable_mono) simp
  ultimately have "network_at cd d (w\<lparr>nw_server := sv'\<rparr>) log k (max n j)"
    using w handle_push_frame(3) [OF w(5) assms(3)] by (simp add: network_at_def max.coboundedI1)
  then show ?thesis by (intro exI [of _ "max n j"]) simp
qed

lemma sends_at:
  assumes "network_at cd d w log k n" and "unsynced (nw_till w) \<noteq> []"
  shows "network_at cd d (w\<lparr>nw_sent := take max_batch (unsynced (nw_till w)) # nw_sent w\<rparr>) log k n"
proof -
  note w = network_atD [OF assms(1)]
  define j where "j = min (length log) (k + max_batch)"
  have un: "unsynced (nw_till w) = drop k log" by (rule unsynced_at [OF w(1,2)])
  then have "k < j" "j \<le> length log" "j - k \<le> max_batch" using assms(2) by (auto simp: j_def max_batch_def)
  moreover have "take max_batch (unsynced (nw_till w)) = drop k (take j log)"
    unfolding un j_def by (simp add: take_drop min_def add.commute)
  ultimately have "sendable log n (take max_batch (unsynced (nw_till w)))"
    unfolding sendable_def using w(4) by (intro exI [of _ k] exI [of _ j]) simp
  with assms(1) show ?thesis by (simp add: network_at_def)
qed

lemma network_step_at:
  assumes "network_step cd d w w'" and "network_at cd d w log k n"
  shows "\<exists>log' k' n'. network_at cd d w' log' k' n' \<and> prefix log log' \<and> k \<le> k' \<and> n \<le> n'"
  using assms(1)
proof cases
  case (seals h kind payload c e dev io st')
  from seals_at [OF assms(2) seals(2-7)] show ?thesis unfolding seals(1) by (blast intro: prefixI)
next
  case (rounds now st' sv' out)
  from rounds_at [OF assms(2), of now] rounds(2) show ?thesis unfolding rounds(1) by auto
next
  case sends
  from sends_at [OF assms(2) sends(2)] show ?thesis unfolding sends(1) by blast
next
  case (arrives batch sv' answer)
  from arrives_at [OF assms(2) arrives(2,3)] show ?thesis unfolding arrives(1) by blast
next
  case (others d' request sv' answer)
  from others_at [OF assms(2) others(2-4)] show ?thesis unfolding others(1) by blast
next
  case (pulls st' sv' answer)
  from pulls_at [OF assms(2) pulls(2)] show ?thesis unfolding pulls(1) by blast
qed

lemma reaches_at:
  assumes "reaches cd d w w'" and "network_at cd d w log k n"
  shows "\<exists>log' k' n'. network_at cd d w' log' k' n' \<and> prefix log log' \<and> k \<le> k' \<and> n \<le> n'"
  using assms(1)
proof induction
  case here
  show ?case using assms(2) by blast
next
  case (further v v')
  then show ?case using network_step_at by (meson order_trans prefix_order.trans)
qed

lemma network_init_at:
  assumes "enrolled sv d"
  shows "network_at cd d (network_init sv d) [] 0 0"
  using assms by (auto simp: enrolled_def network_at_def network_init_def good_log_def till_at_def store_open_def
      local_rows_def server_at_def stored_at_def in_scope_def devices_ok_def tip_at_def)

text \<open>An enrolled device 3 and its till after one sealed event.\<close>

definition sample_server :: server where
  "sample_server = \<lparr>sv_devices = [(3, \<lparr>dr_device_id = 3, dr_tenant_id = 1, dr_outlet_id = 2,
     dr_public_key = [], dr_revoked = False, dr_tip = tip_genesis\<rparr>)], sv_events = [], sv_next_seq = 1\<rparr>"

lemma sample_server_enrolled: "enrolled sample_server 3"
  by (auto simp: enrolled_def sample_server_def devices_ok_def rows_of_def split: if_splits)

lemma sample_sealed:
  "\<exists>w e. network_step sample_codec 3 (network_init sample_server 3) w \<and> load_all (nw_till w) = [e]
     \<and> unsynced (nw_till w) = [e]"
proof -
  let ?append = "append_event sample_codec (chain_resume 3 (store_tip (store_open 3))) (sample_header 10) ''test.tick'' (Inr JNull)"
  have "map_ok (\<lambda>(c, e). (en_device_seq e, en_device_id e)) ?append = Inr (1, 3)" by code_simp
  then obtain c e where e: "?append = Inr (c, e)" "en_device_seq e = 1" "en_device_id e = 3"
    by (auto simp: map_ok_Inr_iff)
  obtain st' where st': "append_within True (store_open 3) e = Inr st'"
    "es_rows st' = [\<lparr>rw_event = e, rw_local = True, rw_synced_at = None, rw_server_seq = None\<rparr>]"
  proof -
    have "append_within True (store_open 3) e = Inr (store_open 3\<lparr>es_rows :=
        [\<lparr>rw_event = e, rw_local = True, rw_synced_at = None, rw_server_seq = None\<rparr>]\<rparr>)"
      using e(2) by (simp add: append_within_def tip_within_def store_open_def conflicts_def tip_genesis_def
          in_i64_def cong: if_cong)
    then show ?thesis by (rule that) simp
  qed
  have header: "eh_tenant_id (sample_header 10) = 1" "eh_outlet_id (sample_header 10) = 2"
    by (simp_all add: sample_header_def)
  have "network_step sample_codec 3 (network_init sample_server 3) (network_init sample_server 3\<lparr>nw_till := st'\<rparr>)"
    by (rule seals [where dev = "snd (hd (sv_devices sample_server))" and h = "sample_header 10"
          and kind = "''test.tick''" and payload = "Inr JNull" and c = c and e = e and io = True])
      (simp_all add: network_init_def e(1) st'(1) sample_server_def header)
  with st'(2) show ?thesis
    by (intro exI [of _ "network_init sample_server 3\<lparr>nw_till := st'\<rparr>"] exI [of _ e])
      (simp add: load_all_def unsynced_def is_unsynced_def)
qed

section \<open>Properties\<close>

text \<open>C23: replication never lies.  From a fresh, enrolled till on, whatever is sealed, sent, lost, repeated
  or delayed, and whatever other devices push: the till's own log verifies, the server's copy of it is
  a prefix of it, in order and without a gap, and every event the till counts as synced is in that
  copy.\<close>

theorem replication_safe:
  assumes "enrolled sv d" and "reaches cd d (network_init sv d) w"
  shows "(\<exists>t. try_fold (verify_step cd d) tip_genesis (load_all (nw_till w)) = Inr t)
    \<and> prefix (rows_of (nw_server w) d) (load_all (nw_till w))
    \<and> (\<forall>r \<in> set (es_rows (nw_till w)). rw_local r \<and> rw_synced_at r \<noteq> None
         \<longrightarrow> rw_event r \<in> set (rows_of (nw_server w) d))"
proof -
  obtain log k n where at: "network_at cd d w log k n"
    using reaches_at [OF assms(2) network_init_at [OF assms(1)]] by blast
  note w = network_atD [OF at]
  have log: "load_all (nw_till w) = log" by (rule load_all_at [OF w(1,2)])
  have rows: "rows_of (nw_server w) d = take n log" using w(3) by (simp add: server_at_def stored_at_def)
  have "rw_event r \<in> set (take n log)"
    if r: "r \<in> set (es_rows (nw_till w))" "rw_local r" "rw_synced_at r \<noteq> None" for r
  proof -
    have "r \<in> set (local_rows (nw_till w))" using r by (simp add: local_rows_def)
    then obtain i where i: "i < length log" "local_rows (nw_till w) ! i = r"
      using till_atD(1) [OF w(1)] by (auto simp: in_set_conv_nth)
    with till_atD(3,4) [OF w(1) i(1)] r(3) w(4) have "log ! i = rw_event r" "i < n" by auto
    then show ?thesis using i(1) by (metis in_set_conv_nth length_take min_less_iff_conj nth_take)
  qed
  with log rows w(2) show ?thesis by (auto simp: good_log_def take_is_prefix)
qed

lemma replication_safe_witness:
  "\<exists>w. reaches sample_codec 3 (network_init sample_server 3) w \<and> length (load_all (nw_till w)) = 1
     \<and> prefix (rows_of (nw_server w) 3) (load_all (nw_till w))"
proof -
  obtain w e where w: "network_step sample_codec 3 (network_init sample_server 3) w" "load_all (nw_till w) = [e]"
    using sample_sealed by blast
  have "reaches sample_codec 3 (network_init sample_server 3) w" by (rule further [OF here w(1)])
  with replication_safe [OF sample_server_enrolled this] w(2) show ?thesis by auto
qed

text \<open>Rounds delivered one after the other.\<close>

fun push_rounds :: "codec \<Rightarrow> uuid \<Rightarrow> int \<Rightarrow> nat \<Rightarrow> event_store \<times> server \<Rightarrow> event_store \<times> server" where
  "push_rounds cd d now 0 s = s"
| "push_rounds cd d now (Suc m) (st, sv) = push_rounds cd d now m (fst (push_pending (direct cd d) st sv now))"

lemma push_rounds_at:
  assumes "network_at cd d w log k n"
  shows "\<exists>st' sv' k' n'. push_rounds cd d now m (nw_till w, nw_server w) = (st', sv')
    \<and> network_at cd d (w\<lparr>nw_till := st', nw_server := sv'\<rparr>) log k' n' \<and> min (length log) (k + m * max_batch) \<le> k'"
  using assms
proof (induction m arbitrary: w k n)
  case 0
  then show ?case by (intro exI [of _ "nw_till w"] exI [of _ "nw_server w"] exI [of _ k] exI [of _ n]) simp
next
  case (Suc m)
  obtain st1 sv1 out k1 n1 where 1: "push_pending (direct cd d) (nw_till w) (nw_server w) now = ((st1, sv1), Inr out)"
    "network_at cd d (w\<lparr>nw_till := st1, nw_server := sv1\<rparr>) log k1 n1" "min (length log) (k + max_batch) \<le> k1"
    using rounds_at [OF Suc.prems, of now] by blast
  from Suc.IH [OF 1(2)] obtain st' sv' k' n' where 2: "push_rounds cd d now m (st1, sv1) = (st', sv')"
    "network_at cd d (w\<lparr>nw_till := st', nw_server := sv'\<rparr>) log k' n'" "min (length log) (k1 + m * max_batch) \<le> k'"
    by auto
  have "min (length log) (k + Suc m * max_batch) \<le> k'" using 1(3) 2(3) by simp
  with 1(1) 2 show ?case by auto
qed

text \<open>C24: replication makes progress: from any state the network can reach, no round is ever refused, and
  one delivered round for every 500 events that wait leaves nothing waiting, with the server holding
  the till's whole log.\<close>

theorem replication_live:
  assumes "enrolled sv d" and "reaches cd d (network_init sv d) w"
    and "length (unsynced (nw_till w)) \<le> m * max_batch"
  shows "(\<exists>s out. push_pending (direct cd d) (nw_till w) (nw_server w) now = (s, Inr out))
    \<and> (case push_rounds cd d now m (nw_till w, nw_server w) of (st', sv') \<Rightarrow>
         unsynced st' = [] \<and> rows_of sv' d = load_all (nw_till w) \<and> load_all st' = load_all (nw_till w))"
proof -
  obtain log k n where at: "network_at cd d w log k n"
    using reaches_at [OF assms(2) network_init_at [OF assms(1)]] by blast
  note w = network_atD [OF at]
  obtain st' sv' k' n' where 1: "push_rounds cd d now m (nw_till w, nw_server w) = (st', sv')"
    and at': "network_at cd d (w\<lparr>nw_till := st', nw_server := sv'\<rparr>) log k' n'"
    and k': "min (length log) (k + m * max_batch) \<le> k'" using push_rounds_at [OF at] by blast
  note w' = network_atD [OF at', simplified]
  have "length log \<le> k'" using k' assms(3) unsynced_at [OF w(1,2)] till_atD(6) [OF w(1)] by simp
  moreover have "rows_of sv' d = take n' log" using w'(3) by (simp add: server_at_def stored_at_def)
  ultimately have "unsynced st' = []" "rows_of sv' d = log"
    using unsynced_at [OF w'(1,2)] w'(4) by simp_all
  moreover have "\<exists>s out. push_pending (direct cd d) (nw_till w) (nw_server w) now = (s, Inr out)"
    using rounds_at [OF at, of now] by blast
  ultimately show ?thesis using 1 load_all_at [OF w(1,2)] load_all_at [OF w'(1,2)] by simp
qed

lemma replication_live_witness:
  "\<exists>w st' sv'. reaches sample_codec 3 (network_init sample_server 3) w \<and> length (unsynced (nw_till w)) = 1
     \<and> push_rounds sample_codec 3 0 1 (nw_till w, nw_server w) = (st', sv') \<and> unsynced st' = []
     \<and> rows_of sv' 3 = load_all (nw_till w)"
proof -
  obtain w e where w: "network_step sample_codec 3 (network_init sample_server 3) w" "unsynced (nw_till w) = [e]"
    using sample_sealed by blast
  have r: "reaches sample_codec 3 (network_init sample_server 3) w" by (rule further [OF here w(1)])
  obtain st' sv' where p: "push_rounds sample_codec 3 0 1 (nw_till w, nw_server w) = (st', sv')"
    by (rule prod.exhaust)
  have "length (unsynced (nw_till w)) \<le> 1 * max_batch" using w(2) by (simp add: max_batch_def)
  from replication_live [OF sample_server_enrolled r this, of 0] p w(2) r show ?thesis by auto
qed

text \<open>C30: the proof needs the till to keep its log.  A till that went back to an old copy of its store and
  wrote other events since, fewer than the server already holds, is told by its next round that all
  of them are stored: nothing is sent again, and the server has none of them.\<close>

theorem restored_till_loses:
  assumes "till_at st d other k" and "good_log cd d other" and "k < length other"
    and "server_at sv d log n" and "good_log cd d log" and "length other \<le> n"
  shows "\<exists>st' out. push_pending (direct cd d) st sv now = ((st', sv), Inr out) \<and> so_pushed out = 0
    \<and> unsynced st' = [] \<and> load_all st' = other
    \<and> (\<forall>e \<in> set other. e \<notin> set log \<longrightarrow> e \<notin> set (rows_of sv d))"
proof -
  let ?ev = "take max_batch (drop k other)"
  have pending: "unsynced st = drop k other" by (rule unsynced_at [OF assms(1,2)])
  obtain dev where n: "n \<le> length log" and stored: "stored_at sv d log n" and
    dev: "bt_get (sv_devices sv) d = Some dev" "dr_device_id dev = d" "\<not> dr_revoked dev"
      "dr_tip dev = tip_at log n"
    using assms(4) unfolding server_at_def by blast
  have tip: "ct_device_seq (tip_at log n) = int n" using run_tip_at(2) assms(5) n unfolding good_log_def by blast
  have ev: "?ev \<noteq> []" using assms(3) by (simp add: max_batch_def)
  have "hd ?ev = other ! k" using assms(3) by (simp add: max_batch_def hd_drop_conv_nth)
  then have hd: "en_device_seq (hd ?ev) = int k + 1" using good_log_seq [OF assms(2,3)] by simp
  have len: "length ?ev = min max_batch (length other - k)" by simp
  have "u64_add (int n) 1 = int n + 1" using assms(5) n by (simp add: u64_add_def good_log_def)
  then have "en_device_seq (hd ?ev) + int (length ?ev) \<le> u64_add (ct_device_seq (dr_tip dev)) 1"
    using hd len assms(3,6) tip dev(4) by simp
  moreover have "\<forall>e \<in> set ?ev. en_device_id e = d"
    using good_log_device [OF assms(2)] by (meson in_set_dropD in_set_takeD)
  ultimately have plan: "plan_batch cd ?ev (dr_tip dev) d
      = Inr \<lparr>bp_already_stored = length ?ev, bp_to_insert = 0, bp_resulting_tip = dr_tip dev\<rparr>"
    by (intro plan_batch_noop [OF ev])
  obtain hw where hw: "high_water_for sv d = Inr hw"
    using stored_at_high_water [OF stored] n assms(3,6) by fastforce
  have push: "handle_push cd sv d \<lparr>pq_device_id = d, pq_events = ?ev\<rparr>
      = (sv, Inr \<lparr>ps_accepted = 0, ps_skipped = length ?ev, ps_tip = tip_at log n, ps_high_water = hw\<rparr>)"
    using dev plan hw by (simp add: handle_push_def load_device_def push_validate_def ingest_push_def is_noop_def)
  let ?st = "fst (mark_synced st (int n) now)"
  have "last ?ev \<in> set other" using ev by (meson in_set_dropD in_set_takeD last_in_set)
  then have "en_device_seq (last ?ev) \<le> int n"
    using assms(6) good_log_seq [OF assms(2)] by (fastforce simp: in_set_conv_nth)
  then obtain out where round: "push_pending (direct cd d) st sv now = ((?st, sv), Inr out)" "so_pushed out = 0"
    using pending push tip assms(3) by (simp add: push_pending_def direct_def Let_def)
  have "min (length other) (max k n) = length other" using assms(6) by simp
  then have "till_at ?st d other (length other)"
    using mark_synced_upto [OF assms(1,2), of n now] assms(5) n by (simp add: good_log_def)
  then show ?thesis using round unsynced_at [OF _ assms(2)] load_all_at [OF _ assms(2)] stored
    by (auto simp: stored_at_def dest: in_set_takeD)
qed

text \<open>The server has the three events above; the till is back at an empty store and has sealed two others.\<close>

definition other_events :: "event_envelope list" where
  "other_events = (case append_all sample_codec (chain_new 3)
      (map (\<lambda>n. (sample_header n, ''test.tick'', Inr (JObject [(''n'', JInt (int n))]))) [20, 21]) of
     Inl _ \<Rightarrow> [] | Inr (c, es) \<Rightarrow> es)"

definition till_of :: "event_envelope list \<Rightarrow> event_store" where
  "till_of es = (case store_append_all True (store_open 3) es of Inl _ \<Rightarrow> store_open 3 | Inr st \<Rightarrow> st)"

definition server_of :: "event_envelope list \<Rightarrow> server" where
  "server_of es = \<lparr>sv_devices = [(3, \<lparr>dr_device_id = 3, dr_tenant_id = 1, dr_outlet_id = 2, dr_public_key = [],
     dr_revoked = False, dr_tip = tip_at es (length es)\<rparr>)], sv_events = map (\<lambda>e. (e, en_device_seq e)) es,
     sv_next_seq = 100\<rparr>"

lemma good_log_sample: "good_log sample_codec 3 sample_events" "good_log sample_codec 3 other_events"
proof -
  have "is_ok (try_fold (verify_step sample_codec 3) tip_genesis sample_events) \<and> distinct (map en_event_id sample_events)
      \<and> int (length sample_events) < 2 ^ 63" by code_simp
  then show "good_log sample_codec 3 sample_events" by (auto simp: good_log_def is_ok_def split: sum.splits)
  have "is_ok (try_fold (verify_step sample_codec 3) tip_genesis other_events) \<and> distinct (map en_event_id other_events)
      \<and> int (length other_events) < 2 ^ 63" by code_simp
  then show "good_log sample_codec 3 other_events" by (auto simp: good_log_def is_ok_def split: sum.splits)
qed

lemma append_all_at:
  "till_at st d log k \<Longrightarrow> good_log cd d (log @ es) \<Longrightarrow> try_fold (append_within io) st es = Inr st'
     \<Longrightarrow> till_at st' d (log @ es) k"
proof (induction es arbitrary: st log)
  case (Cons e es)
  from Cons.prems(3) obtain st1 where 1: "append_within io st e = Inr st1"
    "try_fold (append_within io) st1 es = Inr st'" by (auto simp: res_simps)
  have "good_log cd d (log @ [e])"
    using Cons.prems(2) run_split [of cd d tip_genesis "log @ [e]" es] by (auto simp: good_log_def)
  from Cons.IH [OF append_at [OF Cons.prems(1) this 1(1)] _ 1(2)] Cons.prems(2) show ?case by simp
qed simp

lemma restored_till_loses_witness:
  "\<exists>st' out. push_pending (direct sample_codec 3) (till_of other_events) (server_of sample_events) 0
       = ((st', server_of sample_events), Inr out)
     \<and> unsynced st' = [] \<and> length (load_all st') = 2
     \<and> (\<forall>e \<in> set (load_all st'). e \<notin> set (rows_of (server_of sample_events) 3))"
proof -
  have till: "till_at (till_of other_events) 3 other_events 0"
  proof -
    have "is_ok (store_append_all True (store_open 3) other_events)" by code_simp
    then obtain st where "store_append_all True (store_open 3) other_events = Inr st"
      by (auto simp: is_ok_def split: sum.splits)
    with append_all_at [of "store_open 3" 3 "[]" 0 _ other_events True st] good_log_sample(2) show ?thesis
      by (simp add: till_of_def store_append_all_def till_at_def store_open_def local_rows_def)
  qed
  have "list_all (\<lambda>e. en_tenant_id e = 1 \<and> en_outlet_id e = 2) sample_events" by code_simp
  then have server: "server_at (server_of sample_events) 3 sample_events 3"
    using sample_events_device sample_events_facts(1)
    by (simp add: server_at_def server_of_def stored_at_def rows_of_def in_scope_def list_all_iff comp_def)
  have len: "length other_events = 2" by code_simp
  have "list_all (\<lambda>e. en_event_id e < 20) sample_events \<and> list_all (\<lambda>e. 20 \<le> en_event_id e) other_events" by code_simp
  then have "\<forall>e \<in> set other_events. e \<notin> set sample_events" by (force simp: list_all_iff)
  with restored_till_loses [OF till good_log_sample(2) _ server good_log_sample(1), of 0] len show ?thesis by auto
qed

end
