(* ===== verification/Floor.thy ===== *)
theory Floor
  imports BTree Projection Text Units "HOL-Library.Option_ord"
begin

text \<open>
  The floor plan (\<open>crates/sahl-core/src/floor\<close>): tables, the events that edit them and the plan they
  replay to.  The Unicode tables behind \<open>str::to_lowercase\<close> are a parameter: the plan uses them only to
  order labels.
\<close>

section \<open>Tables\<close>

datatype floor_error =
    UnknownTable uuid
  | DuplicateTable uuid
  | BlankTable
  | DuplicateLabel utext
  | BadSeats nat

definition max_seats :: nat where
  "max_seats = 30"

record table =
  tb_id :: uuid
  tb_label :: utext
  tb_section :: "utext option"
  tb_seats :: nat
  tb_active :: bool

definition table_validate :: "table \<Rightarrow> floor_error + unit" where
  "table_validate t =
     (if trim (tb_label t) = [] then Inl BlankTable
      else if tb_seats t = 0 \<or> tb_seats t > max_seats then Inl (BadSeats (tb_seats t))
      else Inr ())"

section \<open>Events\<close>

record table_details =
  td_label :: utext
  td_section :: "utext option"
  td_seats :: nat

datatype floor_event =
    TableAdded (fe_table_id: uuid) table_details (fe_at: timestamp) uuid
  | TableUpdated (fe_table_id: uuid) table_details (fe_at: timestamp) uuid
  | TableRemoved (fe_table_id: uuid) (fe_at: timestamp) uuid
  | TableRestored (fe_table_id: uuid) (fe_at: timestamp) uuid

definition floor_table_id :: "floor_event \<Rightarrow> uuid" where
  "floor_table_id ev = fe_table_id ev"

definition floor_at :: "floor_event \<Rightarrow> timestamp" where
  "floor_at ev = fe_at ev"

fun floor_kind :: "floor_event \<Rightarrow> string" where
  "floor_kind (TableAdded _ _ _ _) = ''floor.table_added''"
| "floor_kind (TableUpdated _ _ _ _) = ''floor.table_updated''"
| "floor_kind (TableRemoved _ _ _) = ''floor.table_removed''"
| "floor_kind (TableRestored _ _ _) = ''floor.table_restored''"

definition table_of :: "uuid \<Rightarrow> table_details \<Rightarrow> bool \<Rightarrow> table" where
  "table_of i d active =
     \<lparr>tb_id = i, tb_label = trim (td_label d), tb_section = td_section d, tb_seats = td_seats d, tb_active = active\<rparr>"

definition to_table :: "floor_event \<Rightarrow> bool \<Rightarrow> floor_error + table" where
  "to_table ev active =
     (let build = (\<lambda>i d. let t = table_of i d active in and_then (table_validate t) (\<lambda>_. Inr t)) in
      case ev of
        TableAdded i d _ _ \<Rightarrow> build i d
      | TableUpdated i d _ _ \<Rightarrow> build i d
      | TableRemoved i _ _ \<Rightarrow> Inl (UnknownTable i)
      | TableRestored i _ _ \<Rightarrow> Inl (UnknownTable i))"

section \<open>The plan\<close>

type_synonym floor_plan = "(uuid, table) btree"

definition floor_new :: floor_plan where
  "floor_new = []"

definition ascii_lower :: "int \<Rightarrow> int" where
  "ascii_lower c = (if 65 \<le> c \<and> c \<le> 90 then c + 32 else c)"

definition eq_ignore_ascii_case :: "utext \<Rightarrow> utext \<Rightarrow> bool" where
  "eq_ignore_ascii_case s t \<longleftrightarrow> map ascii_lower s = map ascii_lower t"

definition assert_label_free :: "floor_plan \<Rightarrow> table \<Rightarrow> floor_error + unit" where
  "assert_label_free f t =
     (if list_ex (\<lambda>other. tb_id other \<noteq> tb_id t \<and> tb_active other \<and> tb_section other = tb_section t
           \<and> eq_ignore_ascii_case (tb_label other) (tb_label t)) (bt_values f)
      then Inl (DuplicateLabel (tb_label t)) else Inr ())"

definition set_in_service :: "floor_plan \<Rightarrow> uuid \<Rightarrow> bool \<Rightarrow> floor_error + floor_plan" where
  "set_in_service f i active =
     (case bt_get f i of
        None \<Rightarrow> Inl (UnknownTable i)
      | Some t \<Rightarrow> Inr (bt_insert i (t\<lparr>tb_active := active\<rparr>) f))"

definition floor_apply :: "floor_plan \<Rightarrow> floor_event \<Rightarrow> floor_error + floor_plan" where
  "floor_apply f ev =
     (case ev of
        TableAdded i _ _ _ \<Rightarrow>
          (if bt_get f i \<noteq> None then Inl (DuplicateTable i)
           else
             and_then (to_table ev True) (\<lambda>t.
             and_then (assert_label_free f t) (\<lambda>_.
             Inr (bt_insert i t f))))
      | TableUpdated i _ _ _ \<Rightarrow>
          and_then (ok_or (UnknownTable i) (map_option tb_active (bt_get f i))) (\<lambda>active.
          and_then (to_table ev active) (\<lambda>t.
          and_then (assert_label_free f t) (\<lambda>_.
          Inr (bt_insert i t f))))
      | TableRemoved i _ _ \<Rightarrow> set_in_service f i False
      | TableRestored i _ _ \<Rightarrow> set_in_service f i True)"

definition floor_replay :: "floor_event list \<Rightarrow> floor_error + floor_plan" where
  "floor_replay events = try_fold floor_apply floor_new events"

definition floor_get :: "floor_plan \<Rightarrow> uuid \<Rightarrow> table option" where
  "floor_get f i = bt_get f i"

text \<open>A label sorts by its leading number, the largest \<open>u64\<close> when there is none or it does not fit.\<close>

definition label_key :: "(utext \<Rightarrow> utext) \<Rightarrow> utext \<Rightarrow> int \<times> utext" where
  "label_key lowercase label =
     (let digits = takeWhile is_ascii_digit label in
      (case parse_int in_u64 digits of None \<Rightarrow> 2 ^ 64 - 1 | Some n \<Rightarrow> n, lowercase label))"

definition table_key :: "(utext \<Rightarrow> utext) \<Rightarrow> table \<Rightarrow> utext option \<times> int \<times> utext" where
  "table_key lowercase t = (tb_section t, label_key lowercase (tb_label t))"

definition in_service :: "(utext \<Rightarrow> utext) \<Rightarrow> floor_plan \<Rightarrow> table list" where
  "in_service lowercase f = sort_key (table_key lowercase) (filter tb_active (bt_values f))"

definition all_tables :: "(utext \<Rightarrow> utext) \<Rightarrow> floor_plan \<Rightarrow> table list" where
  "all_tables lowercase f = sort_key (table_key lowercase) (bt_values f)"

definition sections :: "floor_plan \<Rightarrow> utext list" where
  "sections f = remdups_adj (sort (List.map_filter tb_section (filter tb_active (bt_values f))))"

text \<open>The sum of a release build, which wraps.\<close>

definition capacity :: "floor_plan \<Rightarrow> nat" where
  "capacity f = sum_list (map tb_seats (filter tb_active (bt_values f))) mod 2 ^ 32"

definition floor_is_empty :: "floor_plan \<Rightarrow> bool" where
  "floor_is_empty f \<longleftrightarrow> f = []"

section \<open>What a plan keeps\<close>

definition good_floor :: "floor_plan \<Rightarrow> bool" where
  "good_floor f \<longleftrightarrow> bt_ok f \<and> (\<forall>k t. bt_get f k = Some t \<longrightarrow> tb_id t = k \<and> table_validate t = Inr ())"

definition floor_keeps :: "floor_plan \<Rightarrow> floor_plan \<Rightarrow> bool" where
  "floor_keeps f g \<longleftrightarrow> (\<forall>k. bt_get f k \<noteq> None \<longrightarrow> bt_get g k \<noteq> None)"

definition same_spot :: "table \<Rightarrow> table \<Rightarrow> bool" where
  "same_spot s t \<longleftrightarrow> tb_section s = tb_section t \<and> eq_ignore_ascii_case (tb_label s) (tb_label t)"

text \<open>No two tables in service answer to one label in one section.\<close>

definition labels_apart :: "floor_plan \<Rightarrow> bool" where
  "labels_apart f \<longleftrightarrow> (\<forall>j k s t. bt_get f j = Some s \<longrightarrow> bt_get f k = Some t \<longrightarrow> j \<noteq> k
     \<longrightarrow> tb_active s \<longrightarrow> tb_active t \<longrightarrow> \<not> same_spot s t)"

lemma to_table_Inr:
  "to_table ev active = Inr t \<Longrightarrow> tb_id t = fe_table_id ev \<and> tb_active t = active \<and> table_validate t = Inr ()"
  by (auto simp: to_table_def table_of_def Let_def res_simps split: floor_event.splits)

lemma table_validate_active [simp]: "table_validate (t\<lparr>tb_active := a\<rparr>) = table_validate t"
  by (simp add: table_validate_def)

lemma floor_apply_good: "good_floor f \<Longrightarrow> floor_apply f ev = Inr g \<Longrightarrow> good_floor g"
  by (cases ev) (auto simp: floor_apply_def good_floor_def set_in_service_def res_simps
      split: if_split_asm option.splits dest!: to_table_Inr)

lemma floor_apply_keeps: "floor_apply f ev = Inr g \<Longrightarrow> floor_keeps f g"
  by (cases ev) (auto simp: floor_apply_def floor_keeps_def set_in_service_def res_simps
      split: if_split_asm option.splits)

interpretation floor_log: evidence_log floor_apply good_floor floor_keeps
  by unfold_locales (blast intro: floor_apply_good floor_apply_keeps | simp add: floor_keeps_def)+

lemma floor_new_good: "good_floor floor_new"
  by (simp add: floor_new_def good_floor_def)

lemma floor_replay_good: "floor_replay es = Inr f \<Longrightarrow> good_floor f"
  unfolding floor_replay_def by (rule floor_log.run_good [OF _ floor_new_good])

lemma same_spot_sym: "same_spot s t \<Longrightarrow> same_spot t s"
  by (simp add: same_spot_def eq_ignore_ascii_case_def)

lemma assert_label_free_Inr:
  assumes "good_floor f"
  shows "assert_label_free f t = Inr () \<longleftrightarrow>
    (\<forall>k s. bt_get f k = Some s \<longrightarrow> k \<noteq> tb_id t \<longrightarrow> tb_active s \<longrightarrow> \<not> same_spot s t)"
proof -
  have ok: "bt_ok f" using assms by (simp add: good_floor_def)
  have "tb_id s = k" if "bt_get f k = Some s" for k s using assms that by (simp add: good_floor_def)
  then show ?thesis
    using bt_value_iff [OF ok] by (auto simp: assert_label_free_def list_ex_iff same_spot_def) metis+
qed

lemma labels_apart_insert:
  assumes "good_floor f" and "labels_apart f" and "tb_id t = i" and "assert_label_free f t = Inr ()"
  shows "labels_apart (bt_insert i t f)"
  using assms(2,3) assms(4) [unfolded assert_label_free_Inr [OF assms(1)]]
  by (auto simp: labels_apart_def split: if_split_asm dest: same_spot_sym)

text \<open>Every event but a restoration keeps the labels apart.\<close>

lemma floor_apply_apart:
  assumes "good_floor f" and "labels_apart f" and "floor_apply f ev = Inr g"
    and "\<And>i at by_whom. ev \<noteq> TableRestored i at by_whom"
  shows "labels_apart g"
proof (cases ev)
  case (TableRemoved i at by_whom)
  then show ?thesis using assms(2,3)
    by (auto simp: floor_apply_def set_in_service_def labels_apart_def split: option.splits if_split_asm)
next
  case (TableAdded i d at by_whom)
  then show ?thesis using assms(1-3)
    by (auto simp: floor_apply_def res_simps split: if_split_asm dest!: to_table_Inr intro: labels_apart_insert)
next
  case (TableUpdated i d at by_whom)
  then show ?thesis using assms(1-3)
    by (auto simp: floor_apply_def res_simps dest!: to_table_Inr intro: labels_apart_insert)
qed (use assms(4) in blast)

fun restores :: "floor_event \<Rightarrow> bool" where
  "restores (TableRestored _ _ _) = True"
| "restores _ = False"

lemma floor_replay_apart:
  assumes "floor_replay es = Inr f" and "list_all (\<lambda>e. \<not> restores e) es"
  shows "labels_apart f"
proof -
  have "try_fold floor_apply g es = Inr f \<Longrightarrow> good_floor g \<Longrightarrow> labels_apart g \<Longrightarrow> labels_apart f" for g
    using assms(2)
  proof (induction es arbitrary: g)
    case (Cons e es)
    from Cons.prems(1) obtain h where h: "floor_apply g e = Inr h" "try_fold floor_apply h es = Inr f"
      by (auto simp: res_simps)
    have "labels_apart h" using Cons.prems(4) by (intro floor_apply_apart [OF Cons.prems(2,3) h(1)]) auto
    with Cons.IH [OF h(2) floor_apply_good [OF Cons.prems(2) h(1)]] Cons.prems(4) show ?case by simp
  qed simp
  moreover have "labels_apart floor_new" by (simp add: labels_apart_def floor_new_def)
  ultimately show ?thesis using assms(1) floor_new_good by (auto simp: floor_replay_def)
qed

section \<open>Properties\<close>

text \<open>Table 4 is replaced, and the old one is put back.\<close>

definition sample_floor :: "floor_event list" where
  "sample_floor =
     (let d = \<lparr>td_label = lit ''4'', td_section = None, td_seats = 4\<rparr> in
      [TableAdded 1 d \<lparr>millis = 0\<rparr> 7, TableRemoved 1 \<lparr>millis = 1\<rparr> 7, TableAdded 2 d \<lparr>millis = 2\<rparr> 7,
       TableRestored 1 \<lparr>millis = 3\<rparr> 7])"

lemma sample_floor_ambiguous:
  "\<exists>f s t. floor_replay sample_floor = Inr f \<and> bt_get f 1 = Some s \<and> bt_get f 2 = Some t
     \<and> tb_active s \<and> tb_active t \<and> same_spot s t"
proof -
  have "map_ok (\<lambda>f. (map_option tb_active (bt_get f 1), map_option tb_active (bt_get f 2),
      case (bt_get f 1, bt_get f 2) of (Some s, Some t) \<Rightarrow> same_spot s t | _ \<Rightarrow> False)) (floor_replay sample_floor)
    = Inr (Some True, Some True, True)"
    by code_simp
  then obtain f where f: "floor_replay sample_floor = Inr f" "map_option tb_active (bt_get f 1) = Some True"
    "map_option tb_active (bt_get f 2) = Some True"
    "case (bt_get f 1, bt_get f 2) of (Some s, Some t) \<Rightarrow> same_spot s t | _ \<Rightarrow> False"
    by (simp only: map_ok_Inr_iff prod.inject) (elim exE conjE, rule that, (assumption | erule sym | simp)+)
  from f(2,3) obtain s t where "bt_get f 1 = Some s" "bt_get f 2 = Some t" "tb_active s" "tb_active t" by auto
  with f(1,4) show ?thesis by (intro exI [of _ f] exI [of _ s] exI [of _ t]) simp
qed

text \<open>The floor plan shows exactly the tables in service, in the room's order, each with a label and a
  believable number of seats; no table is ever lost; and as long as no table is put back into service,
  no two tables in service answer to the same label in the same section.  Putting one back is not
  checked: the events above leave two tables 4.\<close>

theorem floor_unambiguous:
  assumes "floor_replay es = Inr f"
  shows "set (in_service lowercase f) = {t. \<exists>k. bt_get f k = Some t \<and> tb_active t}
    \<and> sorted (map (table_key lowercase) (in_service lowercase f))
    \<and> (\<forall>k t. bt_get f k = Some t \<longrightarrow> tb_id t = k \<and> trim (tb_label t) \<noteq> [] \<and> tb_seats t \<in> {1..30})
    \<and> (\<forall>fs g. floor_replay (es @ fs) = Inr g \<longrightarrow> floor_keeps f g)
    \<and> (list_all (\<lambda>e. \<not> restores e) es \<longrightarrow> labels_apart f)
    \<and> \<not> (\<forall>g. floor_replay sample_floor = Inr g \<longrightarrow> labels_apart g)"
proof -
  note good = floor_replay_good [OF assms]
  then have ok: "bt_ok f" by (simp add: good_floor_def)
  have "set (in_service lowercase f) = {t. \<exists>k. bt_get f k = Some t \<and> tb_active t}"
    using bt_value_iff [OF ok] by (auto simp: in_service_def)
  moreover have "tb_id t = k \<and> trim (tb_label t) \<noteq> [] \<and> tb_seats t \<in> {1..30}" if "bt_get f k = Some t" for k t
  proof -
    have "tb_id t = k" "table_validate t = Inr ()" using good that by (auto simp: good_floor_def)
    then show ?thesis by (auto simp: table_validate_def max_seats_def split: if_splits)
  qed
  moreover have "floor_keeps f g" if "floor_replay (es @ fs) = Inr g" for fs g
    using that assms floor_log.run_keeps [OF _ good] by (simp add: floor_replay_def try_fold_append)
  moreover have "\<not> (\<forall>g. floor_replay sample_floor = Inr g \<longrightarrow> labels_apart g)"
  proof -
    obtain g s t where g: "floor_replay sample_floor = Inr g" "bt_get g 1 = Some s" "bt_get g 2 = Some t"
      "tb_active s" "tb_active t" "same_spot s t" using sample_floor_ambiguous by blast
    have "\<not> labels_apart g"
      using g(2-6) unfolding labels_apart_def by (intro notI) (drule spec [of _ 1], drule spec [of _ 2], simp)
    with g(1) show ?thesis by blast
  qed
  ultimately show ?thesis
    using floor_replay_apart [OF assms] by (simp add: in_service_def)
qed

lemma floor_unambiguous_witness:
  "\<exists>f. floor_replay (take 3 sample_floor) = Inr f \<and> labels_apart f \<and> map tb_id (in_service (\<lambda>s. s) f) = [2]"
proof -
  have "map_ok (\<lambda>f. map tb_id (in_service (\<lambda>s. s) f)) (floor_replay (take 3 sample_floor)) = Inr [2]" by code_simp
  then have "\<exists>f. floor_replay (take 3 sample_floor) = Inr f \<and> map tb_id (in_service (\<lambda>s. s) f) = [2]"
    by (simp only: map_ok_Inr_iff) (elim exE conjE, rule exI, rule conjI, assumption, erule sym)
  then obtain f where f: "floor_replay (take 3 sample_floor) = Inr f" "map tb_id (in_service (\<lambda>s. s) f) = [2]"
    by (elim exE conjE) (rule that)
  have "list_all (\<lambda>e. \<not> restores e) (take 3 sample_floor)" by code_simp
  then have "labels_apart f"
    by (rule mp [OF floor_unambiguous [OF f(1), THEN conjunct2, THEN conjunct2, THEN conjunct2, THEN conjunct2,
          THEN conjunct1]])
  then show ?thesis using f by (intro exI [of _ f] conjI)
qed

end
