(* ===== verification/Kitchen.thy ===== *)
theory Kitchen
  imports Sale Catalogue
begin

text \<open>
  What a prep station is told about a ticket (\<open>crates/sahl-core/src/kitchen/ticket.rs\<close>), and the event
  that records it as sent (\<open>fire_kitchen\<close> of \<open>crates/sahl-terminal/src/commands/mod.rs\<close>).
\<close>

section \<open>Stations in order\<close>

fun station_rank :: "station \<Rightarrow> nat" where
  "station_rank Kitchen = 0"
| "station_rank Bar = 1"
| "station_rank Counter = 2"
| "station_rank Pass = 3"

lemma station_rank_inj: "station_rank a = station_rank b \<Longrightarrow> a = b"
  by (cases a; cases b) auto

instantiation station :: linorder
begin

definition less_eq_station :: "station \<Rightarrow> station \<Rightarrow> bool" where
  "a \<le> b \<longleftrightarrow> station_rank a \<le> station_rank b"

definition less_station :: "station \<Rightarrow> station \<Rightarrow> bool" where
  "a < b \<longleftrightarrow> station_rank a < station_rank b"

instance
  by standard (auto simp: less_eq_station_def less_station_def station_rank_inj)

end

section \<open>Tickets\<close>

record ticket_line =
  tl_line_id :: uuid
  tl_name :: utext
  tl_quantity_milli :: int
  tl_modifiers :: "utext list"

datatype ticket_kind = Order | Cancellation

record kitchen_ticket =
  kt_sale_id :: uuid
  kt_station :: station
  kt_kind :: ticket_kind
  kt_table_label :: "utext option"
  kt_covers :: "nat option"
  kt_round :: nat
  kt_at :: timestamp
  kt_lines :: "ticket_line list"

definition ticket_is_empty :: "kitchen_ticket \<Rightarrow> bool" where
  "ticket_is_empty t \<longleftrightarrow> kt_lines t = []"

definition to_line :: "sale_line \<Rightarrow> ticket_line" where
  "to_line l = \<lparr>tl_line_id = l_id l, tl_name = l_name l, tl_quantity_milli = milli (l_quantity l),
     tl_modifiers = map mo_name (l_modifiers l)\<rparr>"

definition line_station :: "(uuid \<Rightarrow> station option) \<Rightarrow> sale_line \<Rightarrow> station" where
  "line_station station_of l = (case station_of (l_product_id l) of None \<Rightarrow> Kitchen | Some st \<Rightarrow> st)"

text \<open>\<open>entry(k).or_default().push(v)\<close>.\<close>

definition bt_push :: "'k::linorder \<Rightarrow> 'v \<Rightarrow> ('k, 'v list) btree \<Rightarrow> ('k, 'v list) btree" where
  "bt_push k v m = bt_insert k ((case bt_get m k of None \<Rightarrow> [] | Some vs \<Rightarrow> vs) @ [v]) m"

definition ticket_for ::
    "sale \<Rightarrow> ticket_kind \<Rightarrow> nat \<Rightarrow> timestamp \<Rightarrow> utext option \<Rightarrow> station \<times> ticket_line list \<Rightarrow> kitchen_ticket" where
  "ticket_for s k round at table_label entry =
     \<lparr>kt_sale_id = s_id s, kt_station = fst entry, kt_kind = k, kt_table_label = table_label,
      kt_covers = map_option se_covers (s_seating s), kt_round = round, kt_at = at, kt_lines = snd entry\<rparr>"

definition pending ::
    "sale \<Rightarrow> uuid list \<Rightarrow> nat \<Rightarrow> timestamp \<Rightarrow> utext option \<Rightarrow> (uuid \<Rightarrow> station option) \<Rightarrow> kitchen_ticket list" where
  "pending s already_fired round at table_label station_of =
     map (ticket_for s Order round at table_label)
       (foldl (\<lambda>m l. if l_id l \<in> set already_fired then m
                     else bt_push (line_station station_of l) (to_line l) m)
          [] (filter is_active (s_lines s)))"

definition cancellations ::
    "sale \<Rightarrow> uuid list \<Rightarrow> nat \<Rightarrow> timestamp \<Rightarrow> utext option \<Rightarrow> (uuid \<Rightarrow> station option) \<Rightarrow> kitchen_ticket list" where
  "cancellations s already_fired round at table_label station_of =
     map (ticket_for s Cancellation round at table_label)
       (foldl (\<lambda>m l. if is_active l \<or> l_id l \<notin> set already_fired then m
                     else bt_push (line_station station_of l) (to_line l) m)
          [] (s_lines s))"

text \<open>The lines that \<open>fire_kitchen\<close> records as sent.\<close>

definition fired_line_ids :: "kitchen_ticket list \<Rightarrow> uuid list" where
  "fired_line_ids tickets = concat (map (\<lambda>t. map tl_line_id (kt_lines t)) (filter (\<lambda>t. kt_kind t = Order) tickets))"

section \<open>Grouping by station\<close>

definition group_by :: "('x \<Rightarrow> 'k::linorder) \<Rightarrow> ('x \<Rightarrow> 'v) \<Rightarrow> 'x list \<Rightarrow> ('k, 'v list) btree" where
  "group_by f g xs = foldl (\<lambda>m x. bt_push (f x) (g x) m) [] xs"

lemma group_by_snoc: "group_by f g (xs @ [x]) = bt_push (f x) (g x) (group_by f g xs)"
  by (simp add: group_by_def)

lemma group_by_ok: "bt_ok (group_by f g xs)"
  by (induction xs rule: rev_induct) (simp_all add: group_by_snoc bt_push_def, simp add: group_by_def)

lemma group_by_get:
  "bt_get (group_by f g xs) k =
     (let ys = filter (\<lambda>x. f x = k) xs in if ys = [] then None else Some (map g ys))"
proof (induction xs rule: rev_induct)
  case (snoc x xs)
  then show ?case by (auto simp: group_by_snoc bt_push_def Let_def)
qed (simp add: group_by_def)

lemma group_by_entry:
  "(k, vs) \<in> set (group_by f g xs) \<longleftrightarrow> vs \<noteq> [] \<and> vs = map g (filter (\<lambda>x. f x = k) xs)"
  unfolding bt_entry_iff [OF group_by_ok] group_by_get Let_def by auto

lemma foldl_skip: "foldl (\<lambda>m x. if P x then m else h x m) m xs = foldl (\<lambda>m x. h x m) m (filter (\<lambda>x. \<not> P x) xs)"
  by (induction xs arbitrary: m) auto

lemma group_by_elements: "(\<Union>(k, vs) \<in> set (group_by f g xs). set vs) = g ` set xs"
proof -
  have "v \<in> (\<Union>(k, vs) \<in> set (group_by f g xs). set vs)" if "x \<in> set xs" "v = g x" for v x
    using that group_by_entry [of "f x" "map g (filter (\<lambda>y. f y = f x) xs)" f g xs]
    by (force simp: filter_empty_conv)
  moreover have "v \<in> g ` set xs" if "(k, vs) \<in> set (group_by f g xs)" "v \<in> set vs" for v k vs
    using that by (auto simp: group_by_entry)
  ultimately show ?thesis by auto
qed

definition unfired :: "sale \<Rightarrow> uuid list \<Rightarrow> sale_line list" where
  "unfired s fired = filter (\<lambda>l. is_active l \<and> l_id l \<notin> set fired) (s_lines s)"

definition cancelled :: "sale \<Rightarrow> uuid list \<Rightarrow> sale_line list" where
  "cancelled s fired = filter (\<lambda>l. \<not> is_active l \<and> l_id l \<in> set fired) (s_lines s)"

lemma pending_groups: "pending s fired round at tab st =
    map (ticket_for s Order round at tab) (group_by (line_station st) to_line (unfired s fired))"
  by (simp add: pending_def group_by_def unfired_def foldl_skip conj_commute)

lemma cancellations_groups: "cancellations s fired round at tab st =
    map (ticket_for s Cancellation round at tab) (group_by (line_station st) to_line (cancelled s fired))"
  by (simp add: cancellations_def group_by_def cancelled_def foldl_skip)

lemma fired_line_ids_pending: "set (fired_line_ids (pending s fired round at tab st)) = l_id ` set (unfired s fired)"
proof -
  have "set (fired_line_ids (pending s fired round at tab st))
      = tl_line_id ` (\<Union>(k, vs) \<in> set (group_by (line_station st) to_line (unfired s fired)). set vs)"
    by (force simp: fired_line_ids_def pending_groups ticket_for_def)
  then show ?thesis by (simp add: group_by_elements image_image to_line_def)
qed

section \<open>Sending\<close>

text \<open>What the stations are still to hear: lines not sent yet, and lines voided after they were sent.\<close>

definition to_tell :: "ticket_kind \<Rightarrow> sale \<Rightarrow> sale_line list" where
  "to_tell k s = (case k of Order \<Rightarrow> unfired s (s_fired s) | Cancellation \<Rightarrow> cancelled s (s_fired s))"

text \<open>What the till has for the stations, and a press of send: the tickets are handed out once the
  firing is on the log, and nothing is recorded when no line is new.\<close>

definition station_tickets ::
    "sale \<Rightarrow> timestamp \<Rightarrow> utext option \<Rightarrow> (uuid \<Rightarrow> station option) \<Rightarrow> kitchen_ticket list" where
  "station_tickets s at table_label station_of =
     (let round = min (s_rounds_fired s + 1) (2 ^ 32 - 1)
      in pending s (s_fired s) round at table_label station_of
         @ cancellations s (s_fired s) round at table_label station_of)"

text \<open>The 32-bit round in binary, for evaluation.\<close>

lemma station_tickets_code [code]:
  "station_tickets s at table_label station_of =
     (let round = nat (min (int (s_rounds_fired s) + 1) (2 ^ 32 - 1))
      in pending s (s_fired s) round at table_label station_of
         @ cancellations s (s_fired s) round at table_label station_of)"
proof -
  have "nat (min (int n + 1) (2 ^ 32 - 1)) = min (n + 1) (2 ^ 32 - 1)" for n
    by (simp add: min_def nat_add_distrib)
  then show ?thesis by (simp add: station_tickets_def)
qed

definition fire_order ::
    "sale \<Rightarrow> timestamp \<Rightarrow> timestamp \<Rightarrow> uuid \<Rightarrow> utext option \<Rightarrow> (uuid \<Rightarrow> station option)
       \<Rightarrow> sale_error + sale \<times> kitchen_ticket list" where
  "fire_order s now at fired_by table_label station_of =
     (let tickets = station_tickets s at table_label station_of;
          round = (case tickets of [] \<Rightarrow> 1 | t # _ \<Rightarrow> kt_round t);
          line_ids = fired_line_ids tickets
      in if line_ids = [] then Inr (s, tickets)
         else map_ok (\<lambda>s'. (s', tickets)) (sale_step s (LinesFired (s_id s) line_ids round now fired_by)))"

text \<open>An order as the floor lives it: events of the sale and presses of send in any order, with whatever
  the catalogue then says of the stations.  What the sale refuses changes nothing; a press whose
  record could not be written sends nothing and is as good as not made.\<close>

datatype service_step =
    Ring sale_event
  | Press timestamp timestamp uuid "utext option" "uuid \<Rightarrow> station option"

fun serve :: "sale \<Rightarrow> service_step list \<Rightarrow> sale \<times> kitchen_ticket list" where
  "serve s [] = (s, [])"
| "serve s (Ring ev # steps) = serve (case sale_step s ev of Inl _ \<Rightarrow> s | Inr s' \<Rightarrow> s') steps"
| "serve s (Press now at who tab st # steps) =
     (case fire_order s now at who tab st of
        Inl _ \<Rightarrow> serve s steps
      | Inr (s', tickets) \<Rightarrow> (let (s'', later) = serve s' steps in (s'', tickets @ later)))"

text \<open>Only a press of send records lines as fired.\<close>

fun rings :: "service_step \<Rightarrow> bool" where
  "rings (Ring (LinesFired _ _ _ _ _)) = False"
| "rings _ = True"

lemma concat_keyed_distinct:
  "distinct (map fst ps) \<Longrightarrow> (\<And>k vs. (k, vs) \<in> set ps \<Longrightarrow> distinct (map h vs) \<and> (\<forall>v \<in> set vs. key (h v) = k))
     \<Longrightarrow> distinct (concat (map (\<lambda>p. map h (snd p)) ps))"
proof (induction ps)
  case (Cons p ps)
  obtain k vs where p: "p = (k, vs)" by (cases p)
  have "i \<notin> set (concat (map (\<lambda>p. map h (snd p)) ps))" if "i \<in> h ` set vs" for i
  proof
    assume "i \<in> set (concat (map (\<lambda>p. map h (snd p)) ps))"
    then obtain k' vs' where q: "(k', vs') \<in> set ps" "i \<in> h ` set vs'" by auto
    then have "key i = k'" using Cons.prems(2) [of k' vs'] by auto
    moreover have "key i = k" using that Cons.prems(2) [of k vs] by (auto simp: p)
    ultimately show False using Cons.prems(1) q(1) by (force simp: p)
  qed
  moreover have "distinct (concat (map (\<lambda>p. map h (snd p)) ps))"
    using Cons.prems by (intro Cons.IH) auto
  moreover have "distinct (map h vs)" using Cons.prems(2) [of k vs] by (simp add: p)
  ultimately show ?case by (auto simp: p)
qed simp

lemma station_of_ids:
  assumes "distinct (map l_id ls)"
  obtains key where "\<And>l. l \<in> set ls \<Longrightarrow> key (l_id l) = line_station st l"
proof
  fix l assume "l \<in> set ls"
  then show "line_station st (the_inv_into (set ls) l_id (l_id l)) = line_station st l"
    using assms by (simp add: the_inv_into_f_f distinct_map)
qed

lemma fired_line_ids_distinct:
  assumes "distinct (map l_id ls)"
  shows "distinct (fired_line_ids (map (ticket_for s Order round at tab) (group_by (line_station st) to_line ls)))"
proof -
  obtain key where key: "\<And>l. l \<in> set ls \<Longrightarrow> key (l_id l) = line_station st l"
    using station_of_ids [OF assms] by blast
  have "distinct (concat (map (\<lambda>p. map tl_line_id (snd p)) (group_by (line_station st) to_line ls)))"
  proof (rule concat_keyed_distinct [where key = key])
    show "distinct (map fst (group_by (line_station st) to_line ls))" using bt_ok_distinct [OF group_by_ok] .
    fix k vs assume "(k, vs) \<in> set (group_by (line_station st) to_line ls)"
    then have vs: "vs = map to_line (filter (\<lambda>l. line_station st l = k) ls)" by (simp add: group_by_entry)
    have "distinct (map tl_line_id vs)"
      using distinct_map_filter [OF assms] by (simp add: vs comp_def to_line_def)
    then show "distinct (map tl_line_id vs) \<and> (\<forall>v \<in> set vs. key (tl_line_id v) = k)"
      using key by (auto simp: vs to_line_def)
  qed
  then show ?thesis by (simp add: fired_line_ids_def ticket_for_def comp_def)
qed

lemma fired_line_ids_append: "fired_line_ids (ts @ us) = fired_line_ids ts @ fired_line_ids us"
  by (simp add: fired_line_ids_def)

lemma fired_line_ids_cancellations: "fired_line_ids (cancellations s fired round at tab st) = []"
  by (simp add: fired_line_ids_def cancellations_groups ticket_for_def filter_empty_conv)

lemma station_tickets_ids:
  assumes "good_sale s"
  shows "distinct (fired_line_ids (station_tickets s at tab st))"
    and "set (fired_line_ids (station_tickets s at tab st)) = l_id ` set (unfired s (s_fired s))"
proof -
  have "distinct (map l_id (unfired s (s_fired s)))"
    using assms by (simp add: good_sale_def unfired_def distinct_map_filter)
  then show "distinct (fired_line_ids (station_tickets s at tab st))"
    by (simp add: station_tickets_def Let_def fired_line_ids_append fired_line_ids_cancellations
        pending_groups fired_line_ids_distinct)
  show "set (fired_line_ids (station_tickets s at tab st)) = l_id ` set (unfired s (s_fired s))"
    by (simp add: station_tickets_def Let_def fired_line_ids_append fired_line_ids_cancellations fired_line_ids_pending)
qed

text \<open>A press, seen from the sale.\<close>

lemma fire_order_Inr:
  assumes "good_sale s" and "fire_order s now at who tab st = Inr (s', tickets)"
  shows "tickets = station_tickets s at tab st" and "good_sale s'" and "s_lines s' = s_lines s"
    and "set (s_fired s') = set (s_fired s) \<union> set (fired_line_ids tickets)"
proof -
  show tickets: "tickets = station_tickets s at tab st"
    using assms(2) by (auto simp: fire_order_def Let_def res_simps split: if_splits)
  let ?ids = "fired_line_ids tickets"
  show "good_sale s'"
    using assms by (auto simp: fire_order_def Let_def res_simps split: if_splits intro: sale_log.step_good)
  show "s_lines s' = s_lines s" "set (s_fired s') = set (s_fired s) \<union> set ?ids"
    using assms(2) tickets
    by (auto simp: fire_order_def Let_def res_simps accepted_simps fire_set split: if_splits)
qed

lemma fire_order_open: "s_status s = StatusOpen \<Longrightarrow> is_ok (fire_order s now at who tab st)"
  by (auto simp: fire_order_def Let_def sale_step_def sale_apply_def event_sale_id_def)

lemma ring_keeps_fired:
  assumes "sale_step s ev = Inr s'" and "rings (Ring ev)"
  shows "s_fired s' = s_fired s"
  using step_then_moves [OF assms(1)] assms(2)
  by (cases rule: moves.cases) (auto simp: claim_ticket_def release_ticket_def Let_def split: option.splits)

text \<open>Over a whole order: nothing is told twice, and what was told is what is recorded as fired.\<close>

lemma serve_told:
  assumes "good_sale s" and "list_all rings steps" and "serve s steps = (s', sent)"
  shows "good_sale s' \<and> distinct (fired_line_ids sent) \<and> set (fired_line_ids sent) \<inter> set (s_fired s) = {}
    \<and> set (s_fired s') = set (s_fired s) \<union> set (fired_line_ids sent)"
  using assms
proof (induction steps arbitrary: s sent)
  case (Cons x steps)
  show ?case
  proof (cases x)
    case (Ring ev)
    let ?s = "case sale_step s ev of Inl _ \<Rightarrow> s | Inr s' \<Rightarrow> s'"
    have "good_sale ?s" "s_fired ?s = s_fired s"
      using Cons.prems ring_keeps_fired by (auto simp: Ring split: sum.splits intro: sale_log.step_good)
    with Cons.IH [of ?s sent] Cons.prems(2,3) show ?thesis by (simp add: Ring)
  next
    case (Press now at who tab st)
    show ?thesis
    proof (cases "fire_order s now at who tab st")
      case (Inl e)
      with Cons Press show ?thesis by simp
    next
      case (Inr r)
      obtain u tickets where r: "fire_order s now at who tab st = Inr (u, tickets)" using Inr by (cases r) auto
      obtain later where later: "serve u steps = (s', later)" "sent = tickets @ later"
        using Cons.prems(3) by (auto simp: Press r split: prod.splits)
      note press = fire_order_Inr [OF Cons.prems(1) r]
      have "set (fired_line_ids tickets) \<inter> set (s_fired s) = {}" "distinct (fired_line_ids tickets)"
        using station_tickets_ids [OF Cons.prems(1), of at tab st] by (auto simp: press(1) unfired_def)
      with Cons.IH [OF press(2) _ later(1)] Cons.prems(2) press(4) show ?thesis
        by (auto simp: later(2) fired_line_ids_append)
    qed
  qed
qed (simp add: fired_line_ids_def)


lemma station_tickets_of: "filter (\<lambda>t. kt_kind t = k) (station_tickets s at tab st)
    = map (ticket_for s k (min (s_rounds_fired s + 1) (2 ^ 32 - 1)) at tab)
        (group_by (line_station st) to_line (to_tell k s))"
  by (cases k) (simp_all add: station_tickets_def Let_def pending_groups cancellations_groups to_tell_def
      filter_map comp_def ticket_for_def)

lemma station_tickets_kind:
  "distinct (map kt_station (filter (\<lambda>t. kt_kind t = k) (station_tickets s at tab st)))"
  "l \<in> set (to_tell k s) \<Longrightarrow>
     \<exists>t \<in> set (station_tickets s at tab st). kt_kind t = k \<and> to_line l \<in> set (kt_lines t)"
  "t \<in> set (station_tickets s at tab st) \<Longrightarrow> kt_lines t \<noteq> []
     \<and> kt_lines t = map to_line (filter (\<lambda>l. line_station st l = kt_station t) (to_tell (kt_kind t) s))"
proof -
  show "distinct (map kt_station (filter (\<lambda>t. kt_kind t = k) (station_tickets s at tab st)))"
    using bt_ok_distinct [OF group_by_ok] by (simp add: station_tickets_of ticket_for_def comp_def)
  show "\<exists>t \<in> set (station_tickets s at tab st). kt_kind t = k \<and> to_line l \<in> set (kt_lines t)"
    if "l \<in> set (to_tell k s)"
  proof -
    have "to_line l \<in> (\<Union>(k', vs) \<in> set (group_by (line_station st) to_line (to_tell k s)). set vs)"
      unfolding group_by_elements using that by simp
    then have "\<exists>t \<in> set (filter (\<lambda>t. kt_kind t = k) (station_tickets s at tab st)). to_line l \<in> set (kt_lines t)"
      unfolding station_tickets_of by (force simp: ticket_for_def)
    then show ?thesis by auto
  qed
  have each: "kt_lines t \<noteq> [] \<and> kt_lines t = map to_line (filter (\<lambda>l. line_station st l = kt_station t) (to_tell k s))"
    if "t \<in> set (filter (\<lambda>t. kt_kind t = k) (station_tickets s at tab st))" for k t
    using that unfolding station_tickets_of by (auto simp: ticket_for_def group_by_entry)
  show "kt_lines t \<noteq> []
     \<and> kt_lines t = map to_line (filter (\<lambda>l. line_station st l = kt_station t) (to_tell (kt_kind t) s))"
    if "t \<in> set (station_tickets s at tab st)" by (rule each) (simp add: that)
qed

lemma fire_order_tells:
  assumes "good_sale s" and "fire_order s now at who tab st = Inr (u, tickets)"
  shows "to_tell Order u = []" and "to_tell Cancellation u = to_tell Cancellation s"
proof -
  note u = fire_order_Inr [OF assms]
  have fired: "set (s_fired u) = set (s_fired s) \<union> l_id ` set (unfired s (s_fired s))"
    using u(1,4) station_tickets_ids(2) [OF assms(1), of at tab st] by simp
  then show "to_tell Order u = []" by (auto simp: to_tell_def unfired_def filter_empty_conv u(3))
  have "inj_on l_id (set (s_lines s))" using assms(1) by (simp add: good_sale_def distinct_map)
  then have "l_id l \<in> set (s_fired u) \<longleftrightarrow> l_id l \<in> set (s_fired s)" if "l \<in> set (s_lines s)" "\<not> is_active l" for l
    using that fired by (auto simp: unfired_def inj_on_def)
  then show "to_tell Cancellation u = to_tell Cancellation s"
    by (auto simp: to_tell_def cancelled_def u(3) intro: filter_cong)
qed

text \<open>More of a line that was sent is news to nobody.\<close>

lemma requantified_unfired:
  assumes "sale_step s (LineQuantityChanged (s_id s) lid q) = Inr u" and "lid \<in> set (s_fired s)"
  shows "to_tell Order u = to_tell Order s"
  using step_then_moves [OF assms(1)] assms(2)
  by (cases rule: moves.cases) (auto simp: to_tell_def unfired_def is_active_def)

section \<open>Properties\<close>


text \<open>Two dishes sent, a drink added and a dish voided, and send pressed twice more.\<close>

definition sample_order :: "sale_event list" where
  "sample_order =
     [Opened 2 9 Bdt TaxInclusive HalfUp,
      LineAdded 2 11 101 (lit ''Tea'') (taka 5000) \<lparr>milli = 1000\<rparr> (standard 1500) [],
      LineAdded 2 12 102 (lit ''Curry'') (taka 25000) \<lparr>milli = 1000\<rparr> (standard 1500) []]"

definition sample_stations :: "uuid \<Rightarrow> station option" where
  "sample_stations i = (if i = 103 then Some Bar else None)"

definition sample_service :: "service_step list" where
  "sample_service =
     [Press \<lparr>millis = 1\<rparr> epoch 9 None sample_stations,
      Ring (LineAdded 2 13 103 (lit ''Juice'') (taka 9000) \<lparr>milli = 1000\<rparr> (standard 1500) []),
      Ring (LineVoided 2 11 Mistake 9),
      Press \<lparr>millis = 2\<rparr> epoch 9 None sample_stations,
      Press \<lparr>millis = 3\<rparr> epoch 9 None sample_stations]"


end
