(* ===== verification/Outlet.thy ===== *)
theory Outlet
  imports Scale Staff
begin

text \<open>
  How an outlet trades (\<open>crates/sahl-core/src/outlet\<close>): its vertical profile and what that profile may
  do, the fiscal regime, and the settings, which are checked when they are made.
\<close>

section \<open>Profiles\<close>

datatype profile = Retail | Cafe | Grocery

datatype capability =
    OpenTickets | TableService | KitchenRouting | LineModifiers | CourseFiring | SplitBills
  | WeighedItems | ScaleIntegration | BatchExpiry | CashDrawer

fun profile_can :: "profile \<Rightarrow> capability \<Rightarrow> bool" where
  "profile_can Retail cap = (cap = CashDrawer)"
| "profile_can Cafe cap =
     (cap \<in> set [OpenTickets, TableService, KitchenRouting, LineModifiers, CourseFiring, SplitBills, CashDrawer])"
| "profile_can Grocery cap = (cap \<in> set [WeighedItems, ScaleIntegration, BatchExpiry, CashDrawer])"

fun profile_label :: "profile \<Rightarrow> string" where
  "profile_label Retail = ''retail''"
| "profile_label Cafe = ''cafe''"
| "profile_label Grocery = ''grocery''"

definition capabilities :: "profile \<Rightarrow> capability list" where
  "capabilities p = filter (profile_can p)
     [OpenTickets, TableService, KitchenRouting, LineModifiers, CourseFiring, SplitBills,
      WeighedItems, ScaleIntegration, BatchExpiry, CashDrawer]"

section \<open>The fiscal regime\<close>

datatype fiscal_regime = RegimeNone | RegimeBdMushak | RegimeZatca

datatype outlet_error =
    NotConfigured
  | BlankField string
  | RegistrationRequired utext
  | UnknownRegime utext

fun regime_label :: "fiscal_regime \<Rightarrow> utext" where
  "regime_label RegimeNone = lit ''none''"
| "regime_label RegimeBdMushak = lit ''bd_mushak''"
| "regime_label RegimeZatca = lit ''zatca''"

definition needs_registration :: "fiscal_regime \<Rightarrow> bool" where
  "needs_registration r \<longleftrightarrow> r \<in> set [RegimeBdMushak, RegimeZatca]"

definition regime_from_label :: "utext \<Rightarrow> outlet_error + fiscal_regime" where
  "regime_from_label label =
     (if label = lit ''none'' then Inr RegimeNone
      else if label = lit ''bd_mushak'' then Inr RegimeBdMushak
      else if label = lit ''zatca'' then Inr RegimeZatca
      else Inl (UnknownRegime label))"

section \<open>Settings\<close>

record outlet_config =
  oc_outlet_id :: uuid
  oc_name :: utext
  oc_profile :: profile
  oc_currency :: currency
  oc_timezone :: utext
  oc_regime :: fiscal_regime
  oc_tax_registration :: "utext option"
  oc_address :: utext
  oc_scale :: "scale_format option"
  oc_approval :: approval_policy
  oc_configured_at :: timestamp

definition outlet_validate :: "outlet_config \<Rightarrow> outlet_error + unit" where
  "outlet_validate c =
     (if trim (oc_name c) = [] then Inl (BlankField ''name'')
      else if trim (oc_timezone c) = [] then Inl (BlankField ''timezone'')
      else if trim (oc_address c) = [] then Inl (BlankField ''address'')
      else if needs_registration (oc_regime c)
        \<and> (case oc_tax_registration c of None \<Rightarrow> True | Some v \<Rightarrow> trim v = [])
      then Inl (RegistrationRequired (regime_label (oc_regime c)))
      else Inr ())"

definition outlet_can :: "outlet_config \<Rightarrow> capability \<Rightarrow> bool" where
  "outlet_can c cap = profile_can (oc_profile c) cap"

record outlet_settings =
  os_name :: utext
  os_profile :: profile
  os_currency :: currency
  os_timezone :: utext
  os_regime :: fiscal_regime
  os_tax_registration :: "utext option"
  os_address :: utext
  os_scale :: "scale_format option"
  os_approval :: "approval_policy option"

datatype outlet_event = Configured (oe_outlet_id: uuid) (oe_settings: outlet_settings) (oe_at: timestamp) uuid

definition outlet_event_id :: "outlet_event \<Rightarrow> uuid" where
  "outlet_event_id ev = oe_outlet_id ev"

definition outlet_event_at :: "outlet_event \<Rightarrow> timestamp" where
  "outlet_event_at ev = oe_at ev"

fun outlet_kind :: "outlet_event \<Rightarrow> string" where
  "outlet_kind (Configured _ _ _ _) = ''outlet.configured''"

definition to_config :: "outlet_event \<Rightarrow> outlet_error + outlet_config" where
  "to_config ev =
     (case ev of Configured outlet_id s at _ \<Rightarrow>
        let config = \<lparr>oc_outlet_id = outlet_id, oc_name = os_name s, oc_profile = os_profile s,
              oc_currency = os_currency s, oc_timezone = os_timezone s, oc_regime = os_regime s,
              oc_tax_registration = os_tax_registration s, oc_address = os_address s, oc_scale = os_scale s,
              oc_approval = (case os_approval s of None \<Rightarrow> strictest (os_currency s) | Some a \<Rightarrow> a),
              oc_configured_at = at\<rparr>
        in and_then (outlet_validate config) (\<lambda>_. Inr config))"

section \<open>What settings establish\<close>

lemma regime_round_trip: "regime_from_label (regime_label r) = Inr r"
proof (cases r)
  case RegimeNone
  moreover have "regime_from_label (regime_label RegimeNone) = Inr RegimeNone" by code_simp
  ultimately show ?thesis by simp
next
  case RegimeBdMushak
  moreover have "regime_from_label (regime_label RegimeBdMushak) = Inr RegimeBdMushak" by code_simp
  ultimately show ?thesis by simp
next
  case RegimeZatca
  moreover have "regime_from_label (regime_label RegimeZatca) = Inr RegimeZatca" by code_simp
  ultimately show ?thesis by simp
qed

lemma regime_from_label_Inr: "regime_from_label label = Inr r \<longleftrightarrow> label = regime_label r"
proof
  show "regime_from_label label = Inr r \<Longrightarrow> label = regime_label r"
    by (auto simp: regime_from_label_def split: if_splits)
qed (simp add: regime_round_trip)

text \<open>Accepted settings have a name, a time zone, an address and, under a regime that issues documents,
  a registration; nobody set up without thresholds may approve anything alone.\<close>

lemma to_config_Inr:
  assumes "to_config ev = Inr c"
  shows "trim (oc_name c) \<noteq> []" and "trim (oc_timezone c) \<noteq> []" and "trim (oc_address c) \<noteq> []"
    and "oc_regime c \<noteq> RegimeNone \<Longrightarrow> \<exists>v. oc_tax_registration c = Some v \<and> trim v \<noteq> []"
    and "oc_currency c = os_currency (oe_settings ev)" and "oc_regime c = os_regime (oe_settings ev)"
    and "os_approval (oe_settings ev) = None \<Longrightarrow> oc_approval c = strictest (oc_currency c)"
proof -
  obtain i s at who where ev: "ev = Configured i s at who" by (cases ev)
  have "outlet_validate c = Inr ()" and c: "oc_currency c = os_currency s" "oc_regime c = os_regime s"
    "os_approval s = None \<Longrightarrow> oc_approval c = strictest (oc_currency c)"
    using assms by (auto simp: to_config_def ev Let_def res_simps)
  then have v: "trim (oc_name c) \<noteq> []" "trim (oc_timezone c) \<noteq> []" "trim (oc_address c) \<noteq> []"
    "needs_registration (oc_regime c) \<Longrightarrow> \<exists>v. oc_tax_registration c = Some v \<and> trim v \<noteq> []"
    by (auto simp: outlet_validate_def split: if_splits option.splits)
  have "needs_registration (oc_regime c)" if "oc_regime c \<noteq> RegimeNone"
    using that by (cases "oc_regime c") (simp_all add: needs_registration_def)
  with v c show "trim (oc_name c) \<noteq> []" "trim (oc_timezone c) \<noteq> []" "trim (oc_address c) \<noteq> []"
    "oc_regime c \<noteq> RegimeNone \<Longrightarrow> \<exists>v. oc_tax_registration c = Some v \<and> trim v \<noteq> []"
    "oc_currency c = os_currency (oe_settings ev)" "oc_regime c = os_regime (oe_settings ev)"
    "os_approval (oe_settings ev) = None \<Longrightarrow> oc_approval c = strictest (oc_currency c)"
    by (simp_all add: ev)
qed

lemma capabilities_iff: "cap \<in> set (capabilities p) \<longleftrightarrow> profile_can p cap"
  by (cases cap) (simp_all add: capabilities_def)

text \<open>A cafe may do nothing a scale needs and a grocer nothing a kitchen needs; only the drawer is shared.\<close>

lemma profiles_apart: "p \<noteq> q \<Longrightarrow> profile_can p cap \<Longrightarrow> profile_can q cap \<Longrightarrow> cap = CashDrawer"
  by (cases p; cases q) auto

end
