(* ===== verification/Invoicing.thy ===== *)
theory Invoicing
  imports Tax Scale Display
begin

text \<open>
  What a jurisdiction asks for on top of a sale (\<open>crates/sahl-fiscal/src\<close>): the Bangladeshi Mushak 6.3 challan, the
  Saudi simplified tax invoice with its QR payload, and no regime at all.  The calendar of the \<open>time\<close> crate and the
  base64 encoder are parameters (\<open>qr_tools\<close>); bytes are numbers below 256.
\<close>

section \<open>An invoice\<close>

datatype document_error =
    DocMoney money_error
  | DocMissing string string
  | DocEmpty
  | DocInvalid utext

record seller =
  sr_name :: utext
  sr_registration :: utext
  sr_address :: utext

record buyer =
  by_name :: "utext option"
  by_registration :: "utext option"
  by_address :: "utext option"

record fiscal_line =
  fl_description :: utext
  fl_unit :: utext
  fl_quantity_milli :: int

record invoice =
  in_sale_id :: uuid
  in_sequence :: int
  in_issued_at :: timestamp
  in_seller :: seller
  in_buyer :: buyer
  in_lines :: "fiscal_line list"
  in_totals :: order_totals
  in_destination :: "utext option"

definition no_buyer :: buyer where
  "no_buyer = \<lparr>by_name = None, by_registration = None, by_address = None\<rparr>"

definition blank :: "utext option \<Rightarrow> bool" where
  "blank v = (case v of None \<Rightarrow> True | Some s \<Rightarrow> trim s = [])"

text \<open>The per-unit value the challan derives from a line's net.\<close>

definition unit_value :: "money \<Rightarrow> int \<Rightarrow> money_error + money" where
  "unit_value net quantity_milli =
     (if quantity_milli = 0 then Inr (from_minor 0 (currency net))
      else mul_ratio net milli_per_unit quantity_milli HalfUp)"

fun rate_of :: "tax_class \<Rightarrow> int" where
  "rate_of (Standard r) = basis_points r"
| "rate_of ZeroRated = 0"
| "rate_of Exempt = 0"

section \<open>Mushak 6.3\<close>

definition buyer_required_above_minor :: int where
  "buyer_required_above_minor = 2500000"

record mushak_line =
  ml_serial :: nat
  ml_description :: utext
  ml_unit :: utext
  ml_quantity_milli :: int
  ml_unit_value :: money
  ml_total_value :: money
  ml_supplementary_duty :: money
  ml_vat_rate_basis_points :: int
  ml_vat_amount :: money
  ml_total_with_tax :: money

record mushak63 =
  mu_seller_name :: utext
  mu_seller_bin :: utext
  mu_issuing_address :: utext
  mu_buyer_name :: "utext option"
  mu_buyer_bin :: "utext option"
  mu_buyer_address :: "utext option"
  mu_destination :: "utext option"
  mu_invoice_number :: utext
  mu_issued_at_millis :: int
  mu_lines :: "mushak_line list"
  mu_total_value :: money
  mu_total_supplementary_duty :: money
  mu_total_vat :: money
  mu_total_with_tax :: money

definition buyer_required :: "money \<Rightarrow> bool" where
  "buyer_required total_with_tax \<longleftrightarrow> minor total_with_tax > buyer_required_above_minor"

text \<open>The guards in front of the table.\<close>

definition mushak_check :: "invoice \<Rightarrow> document_error + unit" where
  "mushak_check i =
     (let missing = (\<lambda>field. DocMissing field ''Mushak 6.3''); s = in_seller i; b = in_buyer i in
      if ot_lines (in_totals i) = [] then Inl DocEmpty
      else if length (in_lines i) \<noteq> length (ot_lines (in_totals i))
      then Inl (DocInvalid (show_int (int (length (in_lines i))) @ lit '' line descriptions for ''
             @ show_int (int (length (ot_lines (in_totals i)))) @ lit '' calculated lines''))
      else if trim (sr_registration s) = [] then Inl (missing ''BIN of Registered Person'')
      else if trim (sr_name s) = [] then Inl (missing ''Name of Registered Person'')
      else if trim (sr_address s) = [] then Inl (missing ''Challan Issuing Address'')
      else if \<not> buyer_required (ot_total (in_totals i)) then Inr ()
      else if blank (by_name b) then Inl (missing ''Name of Purchaser'')
      else if blank (by_registration b) then Inl (missing ''BIN of Purchaser'')
      else if blank (by_address b) then Inl (missing ''Address of Purchaser'')
      else Inr ())"

definition mushak_row :: "money \<Rightarrow> nat \<Rightarrow> line_totals \<Rightarrow> fiscal_line \<Rightarrow> document_error + mushak_line" where
  "mushak_row zero index computed described =
     (if int index + 1 \<ge> 4294967296 then Inl (DocMoney Overflow)
      else map_ok (\<lambda>u.
        \<lparr>ml_serial = index + 1, ml_description = fl_description described, ml_unit = fl_unit described,
         ml_quantity_milli = fl_quantity_milli described, ml_unit_value = u, ml_total_value = lt_net computed,
         ml_supplementary_duty = zero, ml_vat_rate_basis_points = rate_of (lt_tax_class computed),
         ml_vat_amount = lt_tax computed, ml_total_with_tax = lt_total computed\<rparr>)
       (map_err DocMoney (unit_value (lt_net computed) (fl_quantity_milli described))))"

record mushak_sums =
  mm_rows :: "mushak_line list"
  mm_value :: money
  mm_vat :: money
  mm_with_tax :: money

definition mushak_step :: "money \<Rightarrow> mushak_sums \<Rightarrow> nat \<times> line_totals \<times> fiscal_line \<Rightarrow> document_error + mushak_sums" where
  "mushak_step zero m item =
     (let (index, computed, described) = item in
      and_then (mushak_row zero index computed described) (\<lambda>row.
      and_then (map_err DocMoney (checked_add (mm_value m) (lt_net computed))) (\<lambda>value_sum.
      and_then (map_err DocMoney (checked_add (mm_vat m) (lt_tax computed))) (\<lambda>vat_sum.
      and_then (map_err DocMoney (checked_add (mm_with_tax m) (lt_total computed))) (\<lambda>with_tax.
      Inr \<lparr>mm_rows = mm_rows m @ [row], mm_value = value_sum, mm_vat = vat_sum, mm_with_tax = with_tax\<rparr>)))))"

definition mushak_build :: "invoice \<Rightarrow> document_error + mushak63" where
  "mushak_build i =
     and_then (mushak_check i) (\<lambda>_.
     let zero = from_minor 0 (currency (ot_total (in_totals i))) in
     and_then (try_fold (mushak_step zero) \<lparr>mm_rows = [], mm_value = zero, mm_vat = zero, mm_with_tax = zero\<rparr>
       (enumerate 0 (zip (ot_lines (in_totals i)) (in_lines i)))) (\<lambda>m.
     Inr \<lparr>mu_seller_name = sr_name (in_seller i), mu_seller_bin = sr_registration (in_seller i),
          mu_issuing_address = sr_address (in_seller i), mu_buyer_name = by_name (in_buyer i),
          mu_buyer_bin = by_registration (in_buyer i), mu_buyer_address = by_address (in_buyer i),
          mu_destination = in_destination i, mu_invoice_number = show_int (in_sequence i),
          mu_issued_at_millis = millis (in_issued_at i), mu_lines = mm_rows m, mu_total_value = mm_value m,
          mu_total_supplementary_duty = zero, mu_total_vat = mm_vat m, mu_total_with_tax = mm_with_tax m\<rparr>))"

section \<open>The Saudi simplified invoice\<close>

record 'moment qr_tools =
  qt_moment :: "int \<Rightarrow> 'moment option"
  qt_format :: "'moment \<Rightarrow> utext + utext"
  qt_base64 :: "nat list \<Rightarrow> utext"

datatype tag = SellerName | VatRegistration | TagTimestamp | TotalWithVat | VatTotal

fun tag_byte :: "tag \<Rightarrow> nat" where
  "tag_byte SellerName = 1"
| "tag_byte VatRegistration = 2"
| "tag_byte TagTimestamp = 3"
| "tag_byte TotalWithVat = 4"
| "tag_byte VatTotal = 5"

record zatca_line =
  zl_description :: utext
  zl_unit :: utext
  zl_quantity_milli :: int
  zl_unit_price :: money
  zl_line_total :: money
  zl_vat_rate_basis_points :: int
  zl_vat_amount :: money
  zl_total_with_vat :: money

record simplified_tax_invoice =
  zi_seller_name :: utext
  zi_seller_vat :: utext
  zi_issuing_address :: utext
  zi_invoice_number :: utext
  zi_issued_at_millis :: int
  zi_lines :: "zatca_line list"
  zi_total_excluding_vat :: money
  zi_total_vat :: money
  zi_total_with_vat :: money
  zi_qr :: utext

text \<open>\<open>str::as_bytes\<close>: the UTF-8 encoding of a text.\<close>

definition utf8_char :: "int \<Rightarrow> nat list" where
  "utf8_char c =
     (if c < 128 then [nat c]
      else if c < 2048 then [nat (192 + c div 64), nat (128 + c mod 64)]
      else if c < 65536 then [nat (224 + c div 4096), nat (128 + c div 64 mod 64), nat (128 + c mod 64)]
      else [nat (240 + c div 262144), nat (128 + c div 4096 mod 64), nat (128 + c div 64 mod 64), nat (128 + c mod 64)])"

definition as_bytes :: "utext \<Rightarrow> nat list" where
  "as_bytes s = concat (map utf8_char s)"

definition push_tlv :: "nat list \<Rightarrow> tag \<Rightarrow> nat list \<Rightarrow> document_error + nat list" where
  "push_tlv buffer t v =
     (if length v > 255
      then Inl (DocInvalid (lit ''a QR field is at most 255 bytes, tag '' @ show_int (int (tag_byte t)) @ lit '' is ''
             @ show_int (int (length v))))
      else Inr (buffer @ [tag_byte t, length v] @ v))"

definition zulu :: "'moment qr_tools \<Rightarrow> int \<Rightarrow> document_error + utext" where
  "zulu qt ms =
     (case qt_moment qt (ms div 1000) of
        None \<Rightarrow> Inl (DocInvalid (show_int ms @ lit '' is not a representable instant''))
      | Some moment \<Rightarrow> map_err DocInvalid (qt_format qt moment))"

definition decimal :: "money \<Rightarrow> utext" where
  "decimal m =
     (let places = exponent (currency m); per_major = minor_per_major (currency m); magnitude = \<bar>minor m\<bar>;
          sign = (if minor m < 0 then lit ''-'' else []) in
      if places = 0 then sign @ show_digits (magnitude div per_major)
      else sign @ show_digits (magnitude div per_major) @ lit ''.'' @ pad_zero places (show_digits (magnitude mod per_major)))"

definition qr_payload ::
    "'moment qr_tools \<Rightarrow> utext \<Rightarrow> utext \<Rightarrow> int \<Rightarrow> money \<Rightarrow> money \<Rightarrow> document_error + utext" where
  "qr_payload qt seller_name vat_registration issued_at_millis total_with_vat vat_total =
     and_then (push_tlv [] SellerName (as_bytes seller_name)) (\<lambda>bytes.
     and_then (push_tlv bytes VatRegistration (as_bytes vat_registration)) (\<lambda>bytes.
     and_then (zulu qt issued_at_millis) (\<lambda>moment.
     and_then (push_tlv bytes TagTimestamp (as_bytes moment)) (\<lambda>bytes.
     and_then (push_tlv bytes TotalWithVat (as_bytes (decimal total_with_vat))) (\<lambda>bytes.
     and_then (push_tlv bytes VatTotal (as_bytes (decimal vat_total))) (\<lambda>bytes.
     Inr (qt_base64 qt bytes)))))))"

definition vat_number_digits :: nat where
  "vat_number_digits = 15"

definition check_vat_number :: "utext \<Rightarrow> document_error + unit" where
  "check_vat_number registration =
     (let trimmed = trim registration in
      if trimmed = [] then Inl (DocMissing ''VAT registration number'' ''ZATCA simplified tax invoice'')
      else if utf8_length trimmed \<noteq> vat_number_digits \<or> \<not> list_all is_ascii_digit trimmed
        \<or> hd trimmed \<noteq> 51 \<or> last trimmed \<noteq> 51
      then Inl (DocInvalid (trimmed @ lit '' is not a Saudi VAT number: 15 digits beginning and ending with 3''))
      else Inr ())"

definition unit_price :: "money \<Rightarrow> int \<Rightarrow> document_error + money" where
  "unit_price net quantity_milli =
     (if quantity_milli = 0 then Inr (from_minor 0 (currency net))
      else map_err DocMoney (mul_ratio net milli_per_unit quantity_milli HalfUp))"

definition zatca_row :: "fiscal_line \<times> line_totals \<Rightarrow> document_error + zatca_line" where
  "zatca_row item =
     (let (l, computed) = item in
      map_ok (\<lambda>u.
        \<lparr>zl_description = fl_description l, zl_unit = fl_unit l, zl_quantity_milli = fl_quantity_milli l,
         zl_unit_price = u, zl_line_total = lt_net computed, zl_vat_rate_basis_points = rate_of (lt_tax_class computed),
         zl_vat_amount = lt_tax computed, zl_total_with_vat = lt_total computed\<rparr>)
       (unit_price (lt_net computed) (fl_quantity_milli l)))"

definition zatca_build :: "'moment qr_tools \<Rightarrow> invoice \<Rightarrow> document_error + simplified_tax_invoice" where
  "zatca_build qt i =
     (let s = in_seller i; t = in_totals i in
      if in_lines i = [] \<or> ot_lines t = [] then Inl DocEmpty
      else if trim (sr_name s) = [] then Inl (DocMissing ''seller name'' ''ZATCA simplified tax invoice'')
      else
        and_then (check_vat_number (sr_registration s)) (\<lambda>_.
        if currency (ot_total t) \<noteq> Sar
        then Inl (DocInvalid (lit ''a ZATCA invoice is in SAR, this sale is in '' @ lit (code (currency (ot_total t)))))
        else
          and_then (try_map zatca_row (zip (in_lines i) (ot_lines t))) (\<lambda>rows.
          and_then (qr_payload qt (sr_name s) (sr_registration s) (millis (in_issued_at i)) (ot_total t) (ot_tax t)) (\<lambda>qr.
          Inr \<lparr>zi_seller_name = sr_name s, zi_seller_vat = sr_registration s, zi_issuing_address = sr_address s,
               zi_invoice_number = show_int (in_sequence i), zi_issued_at_millis = millis (in_issued_at i),
               zi_lines = rows, zi_total_excluding_vat = ot_net t, zi_total_vat = ot_tax t,
               zi_total_with_vat = ot_total t, zi_qr = qr\<rparr>))))"

section \<open>Regimes\<close>

datatype document = BdMushak63 mushak63 | ZatcaInvoice simplified_tax_invoice | NoDocument

definition issue_none :: "invoice \<Rightarrow> document_error + document" where
  "issue_none i = (if ot_lines (in_totals i) = [] then Inl DocEmpty else Inr NoDocument)"

definition issue_mushak :: "invoice \<Rightarrow> document_error + document" where
  "issue_mushak i = map_ok BdMushak63 (mushak_build i)"

definition issue_zatca :: "'moment qr_tools \<Rightarrow> invoice \<Rightarrow> document_error + document" where
  "issue_zatca qt i = map_ok ZatcaInvoice (zatca_build qt i)"

section \<open>The challan adds up\<close>

lemma mushak_step_Inr:
  assumes "mushak_step zero m (k, computed, described) = Inr m'"
  shows "\<exists>row. mushak_row zero k computed described = Inr row \<and> mm_rows m' = mm_rows m @ [row]
    \<and> minor (mm_value m') = minor (mm_value m) + minor (lt_net computed)
    \<and> minor (mm_vat m') = minor (mm_vat m) + minor (lt_tax computed)
    \<and> minor (mm_with_tax m') = minor (mm_with_tax m) + minor (lt_total computed)"
  using assms by (auto simp: mushak_step_def res_simps checked_add_def split: if_splits)

lemma mushak_rows:
  assumes "try_fold (mushak_step zero) m (enumerate k xs) = Inr m'"
  shows "\<exists>rows. mm_rows m' = mm_rows m @ rows
    \<and> list_all2 (\<lambda>(i, computed, described) row. mushak_row zero i computed described = Inr row) (enumerate k xs) rows
    \<and> minor (mm_value m') = minor (mm_value m) + (\<Sum>r\<leftarrow>rows. minor (ml_total_value r))
    \<and> minor (mm_vat m') = minor (mm_vat m) + (\<Sum>r\<leftarrow>rows. minor (ml_vat_amount r))
    \<and> minor (mm_with_tax m') = minor (mm_with_tax m) + (\<Sum>r\<leftarrow>rows. minor (ml_total_with_tax r))"
  using assms
proof (induction xs arbitrary: k m)
  case Nil
  then show ?case by simp
next
  case (Cons x xs)
  obtain computed described where x: "x = (computed, described)" by (cases x)
  from Cons.prems obtain n where n: "mushak_step zero m (k, computed, described) = Inr n"
    "try_fold (mushak_step zero) n (enumerate (Suc k) xs) = Inr m'" by (auto simp: x res_simps)
  obtain row where row: "mushak_row zero k computed described = Inr row" "mm_rows n = mm_rows m @ [row]"
    "minor (mm_value n) = minor (mm_value m) + minor (lt_net computed)"
    "minor (mm_vat n) = minor (mm_vat m) + minor (lt_tax computed)"
    "minor (mm_with_tax n) = minor (mm_with_tax m) + minor (lt_total computed)"
    using mushak_step_Inr [OF n(1)] by blast
  have "ml_total_value row = lt_net computed" "ml_vat_amount row = lt_tax computed" "ml_total_with_tax row = lt_total computed"
    using row(1) by (auto simp: mushak_row_def res_simps split: if_splits)
  moreover obtain rows where "mm_rows m' = mm_rows n @ rows"
    "list_all2 (\<lambda>(i, computed, described) row. mushak_row zero i computed described = Inr row) (enumerate (Suc k) xs) rows"
    "minor (mm_value m') = minor (mm_value n) + (\<Sum>r\<leftarrow>rows. minor (ml_total_value r))"
    "minor (mm_vat m') = minor (mm_vat n) + (\<Sum>r\<leftarrow>rows. minor (ml_vat_amount r))"
    "minor (mm_with_tax m') = minor (mm_with_tax n) + (\<Sum>r\<leftarrow>rows. minor (ml_total_with_tax r))"
    using Cons.IH [OF n(2)] by blast
  ultimately show ?case using row by (intro exI [of _ "row # rows"]) (simp add: x)
qed

text \<open>A challan has one numbered row per computed line, described by the line at its place and carrying its exact net, tax
  and total; the total row is exactly the sum of its columns and of the order; nothing above Tk 25,000 is issued without
  a buyer named with number and address.\<close>

lemma challan_rows:
  assumes "calculate ord = Inr (in_totals i)" and "mushak_build i = Inr m"
  shows "length (mu_lines m) = length (ot_lines (in_totals i)) \<and> length (in_lines i) = length (ot_lines (in_totals i))
    \<and> (\<forall>k < length (mu_lines m). let r = mu_lines m ! k; l = ot_lines (in_totals i) ! k in
         ml_serial r = k + 1 \<and> ml_description r = fl_description (in_lines i ! k)
         \<and> ml_quantity_milli r = fl_quantity_milli (in_lines i ! k)
         \<and> ml_total_value r = lt_net l \<and> ml_vat_amount r = lt_tax l \<and> ml_total_with_tax r = lt_total l)
    \<and> minor (mu_total_value m) = minor (ot_net (in_totals i)) \<and> minor (mu_total_vat m) = minor (ot_tax (in_totals i))
    \<and> minor (mu_total_with_tax m) = minor (ot_total (in_totals i))
    \<and> minor (mu_total_with_tax m) = minor (mu_total_value m) + minor (mu_total_vat m)"
proof -
  let ?xs = "zip (ot_lines (in_totals i)) (in_lines i)" and ?zero = "from_minor 0 (currency (ot_total (in_totals i)))"
  from assms(2) obtain sums where chk: "mushak_check i = Inr ()"
    and sums: "try_fold (mushak_step ?zero) \<lparr>mm_rows = [], mm_value = ?zero, mm_vat = ?zero, mm_with_tax = ?zero\<rparr>
       (enumerate 0 ?xs) = Inr sums"
    and m: "mu_lines m = mm_rows sums" "mu_total_value m = mm_value sums" "mu_total_vat m = mm_vat sums"
      "mu_total_with_tax m = mm_with_tax sums"
    by (auto simp: mushak_build_def Let_def res_simps)
  have len: "length (in_lines i) = length (ot_lines (in_totals i))"
    using chk by (auto simp: mushak_check_def Let_def split: if_splits)
  obtain rows where rows: "mm_rows sums = rows"
    "list_all2 (\<lambda>(i, computed, described) row. mushak_row ?zero i computed described = Inr row) (enumerate 0 ?xs) rows"
    "minor (mm_value sums) = (\<Sum>r\<leftarrow>rows. minor (ml_total_value r))"
    "minor (mm_vat sums) = (\<Sum>r\<leftarrow>rows. minor (ml_vat_amount r))"
    "minor (mm_with_tax sums) = (\<Sum>r\<leftarrow>rows. minor (ml_total_with_tax r))"
    using mushak_rows [OF sums] by (auto simp: from_minor_def)
  have n: "length rows = length (ot_lines (in_totals i))" using list_all2_lengthD [OF rows(2)] len by simp
  have row: "mushak_row ?zero k (ot_lines (in_totals i) ! k) (in_lines i ! k) = Inr (rows ! k)" if "k < length rows" for k
    using list_all2_nthD2 [OF rows(2) that] that n len by (simp add: nth_enumerate_eq)
  then have each: "ml_serial (rows ! k) = k + 1" "ml_description (rows ! k) = fl_description (in_lines i ! k)"
    "ml_quantity_milli (rows ! k) = fl_quantity_milli (in_lines i ! k)"
    "ml_total_value (rows ! k) = lt_net (ot_lines (in_totals i) ! k)" "ml_vat_amount (rows ! k) = lt_tax (ot_lines (in_totals i) ! k)"
    "ml_total_with_tax (rows ! k) = lt_total (ot_lines (in_totals i) ! k)" if "k < length rows" for k
    using that by (fastforce simp: mushak_row_def res_simps split: if_splits)+
  have "map ml_total_value rows = map lt_net (ot_lines (in_totals i))" "map ml_vat_amount rows = map lt_tax (ot_lines (in_totals i))"
    "map ml_total_with_tax rows = map lt_total (ot_lines (in_totals i))"
    using each n by (auto intro!: nth_equalityI)
  then have cols: "map minor (map ml_total_value rows) = map minor (map lt_net (ot_lines (in_totals i)))"
    "map minor (map ml_vat_amount rows) = map minor (map lt_tax (ot_lines (in_totals i)))"
    "map minor (map ml_total_with_tax rows) = map minor (map lt_total (ot_lines (in_totals i)))" by simp_all
  from calculate_trace [OF assms(1)] obtain priced subtotal od shares groups
    where tr: "trace ord (in_totals i) priced subtotal od shares groups" by blast
  have tot: "minor (mm_value sums) = minor (ot_net (in_totals i))" "minor (mm_vat sums) = minor (ot_tax (in_totals i))"
    "minor (mm_with_tax sums) = minor (ot_total (in_totals i))"
    using cols rows(3-5) tr by (auto simp: trace_def comp_def dest!: try_sum_Inr(1))
  have "minor (ot_total (in_totals i)) = minor (ot_net (in_totals i)) + minor (ot_tax (in_totals i))"
    using trace_total [OF tr] .
  with tot each n len m rows(1) show ?thesis by (simp add: Let_def)
qed

lemma challan_columns:
  assumes "mushak_build i = Inr m"
  shows "minor (mu_total_value m) = (\<Sum>r\<leftarrow>mu_lines m. minor (ml_total_value r))"
    and "minor (mu_total_vat m) = (\<Sum>r\<leftarrow>mu_lines m. minor (ml_vat_amount r))"
    and "minor (mu_total_with_tax m) = (\<Sum>r\<leftarrow>mu_lines m. minor (ml_total_with_tax r))"
  using assms by (auto simp: mushak_build_def Let_def res_simps from_minor_def dest!: mushak_rows)

text \<open>Nothing above Tk 25,000 is issued without a buyer named with number and address.\<close>

lemma challan_buyer:
  assumes "mushak_build i = Inr m" and "minor (ot_total (in_totals i)) > 2500000"
  shows "\<not> blank (by_name (in_buyer i)) \<and> \<not> blank (by_registration (in_buyer i)) \<and> \<not> blank (by_address (in_buyer i))"
proof -
  from assms(1) have "mushak_check i = Inr ()" by (auto simp: mushak_build_def res_simps)
  with assms(2) show ?thesis
    by (auto simp: mushak_check_def Let_def buyer_required_def buyer_required_above_minor_def split: if_splits)
qed

section \<open>The QR payload reads back\<close>

text \<open>How a scanner reads tag-length-value triplets.\<close>

function read_tlv :: "nat list \<Rightarrow> (nat \<times> nat list) list option" where
  "read_tlv [] = Some []"
| "read_tlv [t] = None"
| "read_tlv (t # n # rest) =
     (if length rest < n then None else map_option (\<lambda>fields. (t, take n rest) # fields) (read_tlv (drop n rest)))"
  by pat_completeness auto
termination by (relation "measure length") auto

lemma read_tlv_append: "read_tlv (t # length v # v @ rest) = map_option (\<lambda>fields. (t, v) # fields) (read_tlv rest)"
  by simp

lemma decimal_exact:
  "\<exists>whole frac. decimal m = (if minor m < 0 then lit ''-'' else []) @ whole @ lit ''.'' @ frac
    \<and> list_all is_ascii_digit (whole @ frac) \<and> length frac = 2 \<and> digits_value (whole @ frac) = \<bar>minor m\<bar>"
proof -
  have c: "minor_per_major (currency m) = 100" "exponent (currency m) = 2"
    by (cases "currency m"; simp add: minor_per_major_def)+
  let ?w = "show_digits (\<bar>minor m\<bar> div 100)" and ?f = "pad_zero 2 (show_digits (\<bar>minor m\<bar> mod 100))"
  have "length ?f = 2" by (rule pad_zero_length) simp_all
  moreover have "list_all is_ascii_digit ?w" by (rule show_digits_digits) simp
  moreover have "list_all is_ascii_digit ?f" "digits_value ?f = \<bar>minor m\<bar> mod 100"
    using pad_zero_digits [of "\<bar>minor m\<bar> mod 100" 2] by simp_all
  ultimately have "decimal m = (if minor m < 0 then lit ''-'' else []) @ ?w @ lit ''.'' @ ?f
      \<and> list_all is_ascii_digit (?w @ ?f) \<and> length ?f = 2 \<and> digits_value (?w @ ?f) = \<bar>minor m\<bar>"
    by (simp add: decimal_def Let_def c digits_value_append show_digits_value)
  then show ?thesis by blast
qed

text \<open>C40: the payload of an issued simplified invoice reads back as its five fields: the seller's name, the registration, the
  moment of issue to the second, and the two amounts as decimals that stand for exactly the invoice's amounts.\<close>

theorem qr_reads_back:
  assumes "zatca_build qt i = Inr z"
  shows "\<exists>bytes moment. zi_qr z = qt_base64 qt bytes
    \<and> read_tlv bytes = Some [(1, as_bytes (sr_name (in_seller i))), (2, as_bytes (sr_registration (in_seller i))),
        (3, as_bytes moment), (4, as_bytes (decimal (zi_total_with_vat z))), (5, as_bytes (decimal (zi_total_vat z)))]
    \<and> zulu qt (zi_issued_at_millis z) = Inr moment
    \<and> zi_total_with_vat z = ot_total (in_totals i) \<and> zi_total_vat z = ot_tax (in_totals i) \<and> currency (zi_total_with_vat z) = Sar"
  using assms by (auto simp: zatca_build_def Let_def res_simps qr_payload_def push_tlv_def split: if_splits)

section \<open>A challan, an invoice and a registration with a space\<close>

definition one_line :: "currency \<Rightarrow> int \<Rightarrow> order_input" where
  "one_line c price = order_input_new c [\<lparr>li_unit_price = \<lparr>minor = price, currency = c\<rparr>, li_quantity = quantity_one,
     li_tax_class = standard 1500, li_discount = DiscountNone\<rparr>]"

definition sample_invoice :: "currency \<Rightarrow> utext \<Rightarrow> invoice" where
  "sample_invoice c registration = \<lparr>in_sale_id = 1, in_sequence = 7, in_issued_at = \<lparr>millis = 1753000000000\<rparr>,
     in_seller = \<lparr>sr_name = [75], sr_registration = registration, sr_address = [68]\<rparr>,
     in_buyer = no_buyer,
     in_lines = [\<lparr>fl_description = [82], fl_unit = [112], fl_quantity_milli = 1000\<rparr>],
     in_totals = projr (calculate (one_line c 11500)), in_destination = None\<rparr>"

text \<open>A scanner of base64 would see the bytes; the calendar here writes every moment alike.\<close>

definition plain_tools :: "int qr_tools" where
  "plain_tools = \<lparr>qt_moment = Some, qt_format = (\<lambda>_. Inr [50, 48, 50, 53, 90]), qt_base64 = map int\<rparr>"

lemma sample_challan: "is_ok (mushak_build (sample_invoice Bdt [48, 51]))"
  by code_simp

definition spaced :: utext where
  "spaced = 32 # 51 # replicate 13 48 @ [51, 32]"

text \<open>A registration with spaces around it passes the check, and goes into the QR with them.\<close>

lemma qr_reads_back_witness:
  "\<exists>z bytes fields. zatca_build plain_tools (sample_invoice Sar (spaced)) = Inr z
    \<and> zi_qr z = map int bytes \<and> read_tlv bytes = Some fields
    \<and> fields ! 1 = (2, as_bytes (spaced)) \<and> fields ! 3 = (4, as_bytes (decimal (zi_total_with_vat z)))"
proof -
  have "is_ok (zatca_build plain_tools (sample_invoice Sar (spaced)))" by code_simp
  then obtain z where z: "zatca_build plain_tools (sample_invoice Sar (spaced)) = Inr z"
    by (auto simp: is_ok_iff)
  from qr_reads_back [OF z] z show ?thesis by (auto simp: sample_invoice_def plain_tools_def)
qed

end
