(* ===== verification/Terminal.thy ===== *)
theory Terminal
  imports Book Shift Fiscal Inventory Staff Exceptions Purchasing Catalogue Outlet Floor Kitchen Engine Invoicing
begin

text \<open>
  The till itself (\<open>crates/sahl-terminal/src/terminal.rs\<close>): its store, its event chain, its fiscal chain and
  the projections over them.  Every recorder validates an event against a copy of its projection, seals it
  onto the chain, writes it, and only then adopts the copy; \<open>load\<close> rebuilds a till from its store.

  A method on \<open>&mut self\<close> returns the terminal as it leaves it, also when it fails.  \<open>serde\<close> is the parameter
  \<open>wire\<close>: what each event is written as, and what \<open>payload_as\<close> of each family reads from a payload.
\<close>

section \<open>Events and their wire form\<close>

datatype till_event =
    SaleEv sale_event
  | ShiftEv shift_event
  | StockEv inventory_event
  | PurchaseEv purchase_event
  | CatalogueEv catalogue_event
  | FloorEv floor_event
  | StaffEv staff_event
  | OutletEv outlet_event
  | FiscalEv fiscal_event

fun event_kind :: "till_event \<Rightarrow> string" where
  "event_kind (SaleEv e) = sale_event_kind e"
| "event_kind (ShiftEv e) = shift_event_kind e"
| "event_kind (StockEv e) = inventory_kind e"
| "event_kind (PurchaseEv e) = purchase_kind e"
| "event_kind (CatalogueEv e) = catalogue_kind e"
| "event_kind (FloorEv e) = floor_kind e"
| "event_kind (StaffEv e) = staff_event_kind e"
| "event_kind (OutletEv e) = outlet_kind e"
| "event_kind (FiscalEv e) = fiscal_event_kind e"

record wire =
  wr_write :: "till_event \<Rightarrow> string + json"
  wr_content :: "invoice_content \<Rightarrow> json"
  wr_sale :: "json \<Rightarrow> sale_event option"
  wr_shift :: "json \<Rightarrow> shift_event option"
  wr_stock :: "json \<Rightarrow> inventory_event option"
  wr_purchase :: "json \<Rightarrow> purchase_event option"
  wr_catalogue :: "json \<Rightarrow> catalogue_event option"
  wr_floor :: "json \<Rightarrow> floor_event option"
  wr_staff :: "json \<Rightarrow> staff_event option"
  wr_outlet :: "json \<Rightarrow> outlet_event option"
  wr_fiscal :: "json \<Rightarrow> fiscal_event option"

section \<open>State\<close>

record device_identity =
  di_tenant_id :: uuid
  di_outlet_id :: uuid
  di_device_id :: uuid

datatype terminal_error =
    TermSale sale_error
  | TermShift shift_error
  | TermInventory inventory_error
  | TermDirectory directory_error
  | TermPurchase purchase_error
  | TermFiscal fiscal_error
  | TermOutlet outlet_error
  | TermCatalogue catalogue_error
  | TermFloor floor_error
  | TermScale scale_error
  | TermWeigh weigh_error
  | TermDocument document_error
  | NotInvoiced uuid
  | UnknownOrder uuid
  | NotAuthorized
  | NoApprover
  | TermDenied
  | TermNotConfigured
  | NoOpenShift
  | ShiftAlreadyOpen
  | TermStore store_error
  | TermEvent event_error
  | UnknownSale uuid
  | TicketHeld uuid uuid
  | CorruptLog event_error

record terminal =
  tm_store :: event_store
  tm_chain :: event_chain
  tm_book :: sale_book
  tm_shift :: "shift option"
  tm_stock :: inventory_book
  tm_staff :: directory
  tm_catalogue :: catalogue
  tm_floor :: floor_plan
  tm_fiscal :: fiscal_chain
  tm_outlet :: "outlet_config option"
  tm_orders :: "(uuid, purchase_order) btree"
  tm_session :: presence
  tm_identity :: device_identity

definition till_header :: "terminal \<Rightarrow> uuid \<Rightarrow> timestamp \<Rightarrow> event_header" where
  "till_header t event_id at =
     \<lparr>eh_event_id = event_id, eh_tenant_id = di_tenant_id (tm_identity t),
      eh_outlet_id = di_outlet_id (tm_identity t), eh_device_id = di_device_id (tm_identity t),
      eh_occurred_at = at\<rparr>"

section \<open>Sealing and writing\<close>

text \<open>The chain moves when an event is sealed, before the store has taken it.\<close>

definition seal ::
    "codec \<Rightarrow> wire \<Rightarrow> bool \<Rightarrow> terminal \<Rightarrow> till_event \<Rightarrow> uuid \<Rightarrow> timestamp
      \<Rightarrow> terminal \<times> (terminal_error + event_envelope)" where
  "seal cd wr io t ev event_id at =
     (case append_event cd (tm_chain t) (till_header t event_id at) (event_kind ev) (wr_write wr ev) of
        Inl e \<Rightarrow> (t, Inl (TermEvent e))
      | Inr (chain, envelope) \<Rightarrow>
          let t = t\<lparr>tm_chain := chain\<rparr> in
          (case append_within io (tm_store t) envelope of
             Inl e \<Rightarrow> (t, Inl (TermStore e))
           | Inr store \<Rightarrow> (t\<lparr>tm_store := store\<rparr>, Inr envelope)))"

text \<open>Two events in one transaction.\<close>

definition seal_both ::
    "codec \<Rightarrow> wire \<Rightarrow> bool \<Rightarrow> terminal \<Rightarrow> till_event \<Rightarrow> uuid \<Rightarrow> till_event \<Rightarrow> uuid \<Rightarrow> timestamp
      \<Rightarrow> terminal \<times> (terminal_error + unit)" where
  "seal_both cd wr io t ev id1 ev' id2 at =
     (case append_event cd (tm_chain t) (till_header t id1 at) (event_kind ev) (wr_write wr ev) of
        Inl e \<Rightarrow> (t, Inl (TermEvent e))
      | Inr (chain, first) \<Rightarrow>
          let t = t\<lparr>tm_chain := chain\<rparr> in
          (case append_event cd chain (till_header t id2 at) (event_kind ev') (wr_write wr ev') of
             Inl e \<Rightarrow> (t, Inl (TermEvent e))
           | Inr (chain', second) \<Rightarrow>
               let t = t\<lparr>tm_chain := chain'\<rparr> in
               (case store_append_all io (tm_store t) [first, second] of
                  Inl e \<Rightarrow> (t, Inl (TermStore e))
                | Inr store \<Rightarrow> (t\<lparr>tm_store := store\<rparr>, Inr ()))))"

text \<open>Adopting a candidate after a successful write.\<close>

definition adopting ::
    "(terminal \<Rightarrow> terminal) \<Rightarrow> terminal \<times> (terminal_error + 'a) \<Rightarrow> terminal \<times> (terminal_error + 'a)" where
  "adopting f r = (case snd r of Inl _ \<Rightarrow> r | Inr _ \<Rightarrow> (f (fst r), snd r))"

section \<open>Recorders\<close>

definition assert_may_write :: "terminal \<Rightarrow> sale_event \<Rightarrow> timestamp \<Rightarrow> terminal_error + unit" where
  "assert_may_write t ev now =
     (case ev of
        Opened _ _ _ _ _ \<Rightarrow> Inr ()
      | TicketClaimed _ _ _ \<Rightarrow> Inr ()
      | _ \<Rightarrow>
          (case book_get (tm_book t) (event_sale_id ev) of
             None \<Rightarrow> Inr ()
           | Some sale \<Rightarrow>
               (case may_write sale (di_device_id (tm_identity t)) now of
                  Held who \<Rightarrow> Inl (TicketHeld (event_sale_id ev) who)
                | _ \<Rightarrow> Inr ())))"

definition record_sale ::
    "codec \<Rightarrow> wire \<Rightarrow> bool \<Rightarrow> terminal \<Rightarrow> sale_event \<Rightarrow> uuid \<Rightarrow> timestamp
      \<Rightarrow> terminal \<times> (terminal_error + event_envelope)" where
  "record_sale cd wr io t ev event_id at =
     (case and_then (assert_may_write t ev at) (\<lambda>_. map_err TermSale (book_step (tm_book t) ev)) of
        Inl e \<Rightarrow> (t, Inl e)
      | Inr candidate \<Rightarrow> adopting (tm_book_update (\<lambda>_. candidate)) (seal cd wr io t (SaleEv ev) event_id at))"

definition running_shift :: "terminal \<Rightarrow> shift option" where
  "running_shift t = (case tm_shift t of
      None \<Rightarrow> None | Some s \<Rightarrow> (if sh_status s = ShiftIsOpen then Some s else None))"

definition shift_candidate :: "terminal \<Rightarrow> shift_event \<Rightarrow> terminal_error + shift" where
  "shift_candidate t ev =
     (case (running_shift t, ev) of
        (Some _, ShiftOpened _ _ _ _ _) \<Rightarrow> Inl ShiftAlreadyOpen
      | (Some s, _) \<Rightarrow> map_err TermShift (shift_apply s ev)
      | (None, ShiftOpened _ _ _ _ _) \<Rightarrow> map_err TermShift (shift_replay [ev])
      | (None, _) \<Rightarrow> Inl NoOpenShift)"

definition record_shift ::
    "codec \<Rightarrow> wire \<Rightarrow> bool \<Rightarrow> terminal \<Rightarrow> shift_event \<Rightarrow> uuid \<Rightarrow> timestamp
      \<Rightarrow> terminal \<times> (terminal_error + event_envelope)" where
  "record_shift cd wr io t ev event_id at =
     (case shift_candidate t ev of
        Inl e \<Rightarrow> (t, Inl e)
      | Inr candidate \<Rightarrow>
          adopting (tm_shift_update (\<lambda>_. Some candidate)) (seal cd wr io t (ShiftEv ev) event_id at))"

definition record_stock ::
    "codec \<Rightarrow> wire \<Rightarrow> bool \<Rightarrow> terminal \<Rightarrow> inventory_event \<Rightarrow> uuid \<Rightarrow> timestamp
      \<Rightarrow> terminal \<times> (terminal_error + event_envelope)" where
  "record_stock cd wr io t ev event_id at =
     (case inventory_apply (tm_stock t) ev of
        Inl e \<Rightarrow> (t, Inl (TermInventory e))
      | Inr candidate \<Rightarrow> adopting (tm_stock_update (\<lambda>_. candidate)) (seal cd wr io t (StockEv ev) event_id at))"

definition order_candidate :: "terminal \<Rightarrow> purchase_event \<Rightarrow> purchase_error + purchase_order" where
  "order_candidate t ev =
     (case bt_get (tm_orders t) (purchase_order_id ev) of
        Some ord \<Rightarrow> purchase_step ord ev
      | None \<Rightarrow> purchase_replay [ev])"

definition record_purchase ::
    "codec \<Rightarrow> wire \<Rightarrow> bool \<Rightarrow> terminal \<Rightarrow> purchase_event \<Rightarrow> uuid \<Rightarrow> timestamp
      \<Rightarrow> terminal \<times> (terminal_error + event_envelope)" where
  "record_purchase cd wr io t ev event_id at =
     (case order_candidate t ev of
        Inl e \<Rightarrow> (t, Inl (TermPurchase e))
      | Inr candidate \<Rightarrow>
          adopting (tm_orders_update (bt_insert (purchase_order_id ev) candidate))
            (seal cd wr io t (PurchaseEv ev) event_id at))"

text \<open>The invoice is sealed on a copy of the fiscal chain; \<open>id1\<close> and \<open>id2\<close> are the generated ids.\<close>

definition invoice_candidate ::
    "codec \<Rightarrow> wire \<Rightarrow> terminal \<Rightarrow> sale_event \<Rightarrow> string \<Rightarrow> timestamp
      \<Rightarrow> terminal_error + sale_book \<times> invoice_content \<times> fiscal_chain \<times> invoice_seal" where
  "invoice_candidate cd wr t ev reg at =
     and_then (assert_may_write t ev at) (\<lambda>_.
     and_then (map_err TermSale (book_step (tm_book t) ev)) (\<lambda>candidate.
     and_then (ok_or (UnknownSale (event_sale_id ev)) (book_get candidate (event_sale_id ev))) (\<lambda>sale.
     and_then (map_err TermSale (sale_totals sale)) (\<lambda>totals.
     let content = \<lparr>iv_totals = totals, iv_regime = reg\<rparr>;
         (chain, sealed) = fiscal_seal cd (tm_fiscal t) (event_sale_id ev) at (wr_content wr content)
     in and_then (map_err TermFiscal sealed) (\<lambda>s. Inr (candidate, content, chain, s))))))"

definition till_complete_sale ::
    "codec \<Rightarrow> wire \<Rightarrow> bool \<Rightarrow> terminal \<Rightarrow> sale_event \<Rightarrow> string \<Rightarrow> uuid \<Rightarrow> timestamp \<Rightarrow> uuid \<Rightarrow> uuid
      \<Rightarrow> terminal \<times> (terminal_error + invoice_seal)" where
  "till_complete_sale cd wr io t ev reg issued_by at id1 id2 =
     (case invoice_candidate cd wr t ev reg at of
        Inl e \<Rightarrow> (t, Inl e)
      | Inr (candidate, content, chain, s) \<Rightarrow>
          (let (t', r) = adopting (\<lambda>t. t\<lparr>tm_book := candidate, tm_fiscal := chain\<rparr>)
                 (seal_both cd wr io t (SaleEv ev) id1 (FiscalEv (InvoiceIssued s content at issued_by)) id2 at)
           in (t', map_ok (\<lambda>_. s) r)))"

definition record_outlet ::
    "codec \<Rightarrow> wire \<Rightarrow> bool \<Rightarrow> terminal \<Rightarrow> outlet_event \<Rightarrow> uuid \<Rightarrow> timestamp
      \<Rightarrow> terminal \<times> (terminal_error + event_envelope)" where
  "record_outlet cd wr io t ev event_id at =
     (case to_config ev of
        Inl e \<Rightarrow> (t, Inl (TermOutlet e))
      | Inr config \<Rightarrow> adopting (tm_outlet_update (\<lambda>_. Some config)) (seal cd wr io t (OutletEv ev) event_id at))"

definition record_receipt ::
    "codec \<Rightarrow> wire \<Rightarrow> bool \<Rightarrow> terminal \<Rightarrow> purchase_event \<Rightarrow> inventory_event \<Rightarrow> timestamp \<Rightarrow> uuid \<Rightarrow> uuid
      \<Rightarrow> terminal \<times> (terminal_error + unit)" where
  "record_receipt cd wr io t purchase stock at id1 id2 =
     (case and_then (ok_or (UnknownOrder (purchase_order_id purchase))
             (bt_get (tm_orders t) (purchase_order_id purchase))) (\<lambda>existing.
           and_then (map_err TermPurchase (purchase_step existing purchase)) (\<lambda>ord.
           and_then (map_err TermInventory (inventory_apply (tm_stock t) stock)) (\<lambda>batches. Inr (ord, batches)))) of
        Inl e \<Rightarrow> (t, Inl e)
      | Inr (ord, batches) \<Rightarrow>
          adopting (\<lambda>t. t\<lparr>tm_orders := bt_insert (purchase_order_id purchase) ord (tm_orders t), tm_stock := batches\<rparr>)
            (seal_both cd wr io t (PurchaseEv purchase) id1 (StockEv stock) id2 at))"

definition record_staff ::
    "codec \<Rightarrow> wire \<Rightarrow> bool \<Rightarrow> terminal \<Rightarrow> staff_event \<Rightarrow> uuid \<Rightarrow> timestamp
      \<Rightarrow> terminal \<times> (terminal_error + event_envelope)" where
  "record_staff cd wr io t ev event_id at =
     (case directory_apply (tm_staff t) ev of
        Inl e \<Rightarrow> (t, Inl (TermDirectory e))
      | Inr candidate \<Rightarrow> adopting (tm_staff_update (\<lambda>_. candidate)) (seal cd wr io t (StaffEv ev) event_id at))"

definition record_catalogue ::
    "codec \<Rightarrow> wire \<Rightarrow> bool \<Rightarrow> terminal \<Rightarrow> catalogue_event \<Rightarrow> uuid \<Rightarrow> timestamp
      \<Rightarrow> terminal \<times> (terminal_error + event_envelope)" where
  "record_catalogue cd wr io t ev event_id at =
     (case catalogue_apply (tm_catalogue t) ev of
        Inl e \<Rightarrow> (t, Inl (TermCatalogue e))
      | Inr candidate \<Rightarrow>
          adopting (tm_catalogue_update (\<lambda>_. candidate)) (seal cd wr io t (CatalogueEv ev) event_id at))"

definition record_floor ::
    "codec \<Rightarrow> wire \<Rightarrow> bool \<Rightarrow> terminal \<Rightarrow> floor_event \<Rightarrow> uuid \<Rightarrow> timestamp
      \<Rightarrow> terminal \<times> (terminal_error + event_envelope)" where
  "record_floor cd wr io t ev event_id at =
     (case floor_apply (tm_floor t) ev of
        Inl e \<Rightarrow> (t, Inl (TermFloor e))
      | Inr candidate \<Rightarrow> adopting (tm_floor_update (\<lambda>_. candidate)) (seal cd wr io t (FloorEv ev) event_id at))"

section \<open>Loading a till from its store\<close>

record projections =
  pj_book :: sale_book
  pj_stock :: inventory_book
  pj_staff :: directory
  pj_catalogue :: catalogue
  pj_floor :: floor_plan
  pj_purchases :: "(uuid, purchase_event list) btree"
  pj_fiscal_tip :: fiscal_tip
  pj_outlet :: "outlet_config option"
  pj_shifts :: "shift_event list"

definition no_projections :: projections where
  "no_projections = \<lparr>pj_book = book_new, pj_stock = inventory_new, pj_staff = directory_new,
     pj_catalogue = catalogue_new, pj_floor = floor_new, pj_purchases = [],
     pj_fiscal_tip = fiscal_genesis, pj_outlet = None, pj_shifts = []\<rparr>"

definition kind_in :: "string \<Rightarrow> string \<Rightarrow> bool" where
  "kind_in family k \<longleftrightarrow> take (length family) k = family"

definition ok_or_keep :: "'a \<Rightarrow> 'e + 'a \<Rightarrow> 'a" where
  "ok_or_keep a r = (case r of Inl _ \<Rightarrow> a | Inr b \<Rightarrow> b)"

text \<open>One round of the loop of \<open>load\<close>, by the family an event belongs to.\<close>

definition project_event :: "uuid \<Rightarrow> projections \<Rightarrow> till_event \<Rightarrow> terminal_error + projections" where
  "project_event device p ev =
     (case ev of
        SaleEv e \<Rightarrow> Inr (p\<lparr>pj_book := fst (book_apply (pj_book p) e)\<rparr>)
      | ShiftEv e \<Rightarrow> Inr (p\<lparr>pj_shifts := pj_shifts p @ [e]\<rparr>)
      | StockEv e \<Rightarrow> map_ok (\<lambda>b. p\<lparr>pj_stock := b\<rparr>) (map_err TermInventory (inventory_apply (pj_stock p) e))
      | CatalogueEv e \<Rightarrow> Inr (p\<lparr>pj_catalogue := ok_or_keep (pj_catalogue p) (catalogue_apply (pj_catalogue p) e)\<rparr>)
      | FloorEv e \<Rightarrow> Inr (p\<lparr>pj_floor := ok_or_keep (pj_floor p) (floor_apply (pj_floor p) e)\<rparr>)
      | StaffEv e \<Rightarrow> map_ok (\<lambda>d. p\<lparr>pj_staff := d\<rparr>) (map_err TermDirectory (directory_apply (pj_staff p) e))
      | OutletEv e \<Rightarrow> Inr (case to_config e of Inl _ \<Rightarrow> p | Inr config \<Rightarrow> p\<lparr>pj_outlet := Some config\<rparr>)
      | FiscalEv (InvoiceIssued s _ _ _) \<Rightarrow>
          Inr (if is_device_id s = device
               then p\<lparr>pj_fiscal_tip := \<lparr>ft_counter = is_counter s, ft_hash = is_hash s\<rparr>\<rparr> else p)
      | PurchaseEv e \<Rightarrow> Inr (p\<lparr>pj_purchases := bt_push (purchase_order_id e) e (pj_purchases p)\<rparr>))"

definition read_event :: "wire \<Rightarrow> string \<Rightarrow> json \<Rightarrow> till_event option" where
  "read_event wr k v =
     (if kind_in ''sale.'' k then map_option SaleEv (wr_sale wr v)
      else if kind_in ''shift.'' k then map_option ShiftEv (wr_shift wr v)
      else if kind_in ''inventory.'' k then map_option StockEv (wr_stock wr v)
      else if kind_in ''catalogue.'' k then map_option CatalogueEv (wr_catalogue wr v)
      else if kind_in ''floor.'' k then map_option FloorEv (wr_floor wr v)
      else if kind_in ''staff.'' k then map_option StaffEv (wr_staff wr v)
      else if kind_in ''outlet.'' k then map_option OutletEv (wr_outlet wr v)
      else if kind_in ''fiscal.'' k then map_option FiscalEv (wr_fiscal wr v)
      else if kind_in ''purchase.'' k then map_option PurchaseEv (wr_purchase wr v)
      else None)"

definition project_envelope :: "wire \<Rightarrow> uuid \<Rightarrow> projections \<Rightarrow> event_envelope \<Rightarrow> terminal_error + projections" where
  "project_envelope wr device p e =
     (case read_event wr (en_kind e) (en_payload e) of None \<Rightarrow> Inr p | Some ev \<Rightarrow> project_event device p ev)"

definition latest_open_shift :: "shift_event list \<Rightarrow> terminal_error + shift option" where
  "latest_open_shift events =
     (if events = [] then Inr None
      else
        let latest = event_shift_id (last events) in
        and_then (map_err TermShift (shift_replay (filter (\<lambda>e. event_shift_id e = latest) events))) (\<lambda>s.
        Inr (if sh_status s = ShiftIsOpen then Some s else None)))"

definition replay_orders :: "(uuid, purchase_event list) btree \<Rightarrow> (uuid, purchase_order) btree" where
  "replay_orders groups = bt_collect (List.map_filter (\<lambda>(k, es).
     case purchase_replay es of Inl _ \<Rightarrow> None | Inr ord \<Rightarrow> Some (k, ord)) groups)"

definition load :: "codec \<Rightarrow> wire \<Rightarrow> event_store \<Rightarrow> device_identity \<Rightarrow> terminal_error + terminal" where
  "load cd wr st identity =
     and_then (map_err CorruptLog (verify_chain_from_genesis cd (load_all st))) (\<lambda>_.
     and_then (try_fold (project_envelope wr (di_device_id identity)) no_projections (load_projection_input st)) (\<lambda>p.
     and_then (latest_open_shift (pj_shifts p)) (\<lambda>open_shift.
     Inr \<lparr>tm_store = st,
          tm_chain = chain_resume (di_device_id identity) (store_tip st),
          tm_book = pj_book p,
          tm_shift = open_shift,
          tm_stock = pj_stock p,
          tm_staff = pj_staff p,
          tm_catalogue = pj_catalogue p,
          tm_floor = pj_floor p,
          tm_fiscal = fiscal_resume (di_device_id identity) (pj_fiscal_tip p),
          tm_outlet = pj_outlet p,
          tm_orders = replay_orders (pj_purchases p),
          tm_session = SignedOut,
          tm_identity = identity\<rparr>)))"

definition till_erase_everything :: "terminal \<Rightarrow> terminal" where
  "till_erase_everything t =
     (let st = erase_everything (tm_store t); device = di_device_id (tm_identity t) in
      \<lparr>tm_store = st, tm_chain = chain_resume device (store_tip st), tm_book = book_new, tm_shift = None,
       tm_stock = inventory_new, tm_staff = directory_new, tm_catalogue = catalogue_new,
       tm_floor = floor_new, tm_fiscal = fiscal_resume device fiscal_genesis, tm_outlet = None,
       tm_orders = [], tm_session = SignedOut, tm_identity = tm_identity t\<rparr>)"

section \<open>Synchronising\<close>

text \<open>After a pull the book alone is rebuilt, from every payload that reads as an event of a sale.\<close>

definition rebuild_book :: "wire \<Rightarrow> event_envelope list \<Rightarrow> sale_book" where
  "rebuild_book wr es = foldl (\<lambda>b e.
     case wr_sale wr (en_payload e) of None \<Rightarrow> b | Some ev \<Rightarrow> fst (book_apply b ev)) book_new es"

definition till_sync ::
    "codec \<Rightarrow> wire \<Rightarrow> 't transport \<Rightarrow> terminal \<Rightarrow> 't \<Rightarrow> int \<Rightarrow> (terminal \<times> 't) \<times> (sync_client_error + sync_outcome)" where
  "till_sync cd wr tp t net now =
     (let ((st, net'), r) = sync_once cd tp (tm_store t) net now; t = t\<lparr>tm_store := st\<rparr> in
      case r of
        Inl e \<Rightarrow> ((t, net'), Inl e)
      | Inr outcome \<Rightarrow>
          ((if so_pulled outcome > 0 then t\<lparr>tm_book := rebuild_book wr (load_projection_input st)\<rparr> else t, net'),
           Inr outcome))"

end
