(* ===== verification/Restart.thy ===== *)
theory Restart
  imports Terminal Replication
begin

text \<open>
  What a restart gives back.  A till lives through recorded events, refused ones, failed writes, sign-ins,
  rounds of sync and restarts; as long as its store holds no event of another device and its clock does
  not go back, loading its store gives the projections it had.
\<close>

section \<open>The log on disk\<close>

definition time_key :: "event_envelope \<Rightarrow> int \<times> uuid" where
  "time_key e = (millis (en_occurred_at e), en_event_id e)"

definition stored_log :: "event_store \<Rightarrow> event_envelope list" where
  "stored_log st = map rw_event (es_rows st)"

definition decoded :: "wire \<Rightarrow> event_store \<Rightarrow> till_event list" where
  "decoded wr st = List.map_filter (\<lambda>e. read_event wr (en_kind e) (en_payload e)) (stored_log st)"

text \<open>The store holds the device's own verified log, in the order of its clock, and nothing else; the
  chain in memory stands at its end, or ahead of it after a write that failed.\<close>

definition own_chain :: "codec \<Rightarrow> uuid \<Rightarrow> event_store \<Rightarrow> event_chain \<Rightarrow> bool" where
  "own_chain cd d st c \<longleftrightarrow> es_device_id st = d \<and> list_all rw_local (es_rows st)
     \<and> try_fold (verify_step cd d) tip_genesis (stored_log st) = Inr (store_tip st)
     \<and> ec_device_id c = d \<and> (ec_tip c = store_tip st \<or> ct_device_seq (store_tip st) < ct_device_seq (ec_tip c))"

definition own_log :: "codec \<Rightarrow> uuid \<Rightarrow> event_store \<Rightarrow> event_chain \<Rightarrow> bool" where
  "own_log cd d st c \<longleftrightarrow> own_chain cd d st c \<and> sorted_wrt (\<lambda>e f. time_key e < time_key f) (stored_log st)"

definition next_key :: "event_store \<Rightarrow> uuid \<Rightarrow> timestamp \<Rightarrow> bool" where
  "next_key st event_id at \<longleftrightarrow> list_all (\<lambda>e. time_key e < (millis at, event_id)) (stored_log st)"

lemma run_seqs:
  assumes "try_fold (verify_step cd d) tip_genesis log = Inr t"
  shows "sorted_wrt (<) (map en_device_seq log)" and "e \<in> set log \<Longrightarrow> en_device_id e = d"
  using run_nth_seq [OF assms] by (auto simp: sorted_wrt_iff_nth_less in_set_conv_nth)

lemma tip_of_run:
  assumes "try_fold (verify_step cd d) tip_genesis (stored_log st) = Inr t"
  shows "tip_within st d = t"
proof -
  define log where "log = stored_log st"
  have run: "try_fold (verify_step cd d) tip_genesis log = Inr t" using assms by (simp only: log_def)
  have "sorted (map (\<lambda>e. - en_device_seq e) (rev log))"
    using run_nth_seq(1) [OF run] by (auto simp: sorted_iff_nth_mono rev_nth)
  moreover have "inj_on (\<lambda>e. - en_device_seq e) (set log)"
    using run_nth_seq(1) [OF run] by (auto simp: inj_on_def in_set_conv_nth)
  ultimately have "sort_key (\<lambda>e. - en_device_seq e) log = rev log" by (intro sort_key_eq_sorted) auto
  moreover have "filter (\<lambda>e. en_device_id e = d) log = log"
    using run_seqs(2) [OF run] by (simp add: filter_id_conv)
  ultimately have "tip_within st d = (case rev log of [] \<Rightarrow> tip_genesis
      | e # _ \<Rightarrow> \<lparr>ct_device_seq = en_device_seq e, ct_hash = en_hash e\<rparr>)"
    by (simp only: tip_within_def log_def stored_log_def)
  then show ?thesis using run run_last_tip [OF run] by (cases log rule: rev_cases) auto
qed

lemma own_chain_reads:
  assumes "own_chain cd d st c"
  shows "load_all st = stored_log st" and "verify_chain_from_genesis cd (stored_log st) = Inr (store_tip st)"
proof -
  have run: "try_fold (verify_step cd d) tip_genesis (stored_log st) = Inr (store_tip st)"
    and loc: "list_all rw_local (es_rows st)" using assms by (simp_all add: own_chain_def)
  have "sorted (map en_device_seq (stored_log st))" using run_seqs(1) [OF run] by (simp add: strict_sorted_iff)
  then show "load_all st = stored_log st"
    using loc by (simp add: load_all_def stored_log_def list_all_iff sort_key_id_if_sorted cong: filter_cong)
  show "verify_chain_from_genesis cd (stored_log st) = Inr (store_tip st)"
  proof (cases "stored_log st")
    case (Cons e es)
    with run have "en_device_seq e = 1" "is_genesis (en_prev_hash e)"
      by (auto simp: res_simps verify_step_Inr tip_genesis_def is_genesis_def)
    then show ?thesis
      using run verify_chain_run [of cd "stored_log st" tip_genesis] Cons by (auto simp: verify_chain_from_genesis_def)
  qed (use run verify_chain_run in \<open>auto simp: verify_chain_from_genesis_def\<close>)
qed

lemma projection_input_sorted:
  assumes "sorted (map time_key es)" and "mset (stored_log st) = mset es" and "inj_on time_key (set es)"
  shows "load_projection_input st = es"
proof -
  have "sort_key time_key (stored_log st) = es"
    using assms mset_eq_setD [OF assms(2)] by (intro sort_key_eq_sorted) auto
  then show ?thesis unfolding load_projection_input_def stored_log_def time_key_def .
qed

lemma strict_keys:
  assumes "sorted_wrt (\<lambda>e f. time_key e < time_key f) es"
  shows "sorted (map time_key es)" and "inj_on time_key (set es)"
proof -
  have "sorted_wrt (<) (map time_key es)" using assms by (simp add: sorted_wrt_map)
  then show "sorted (map time_key es)" "inj_on time_key (set es)"
    by (auto simp: strict_sorted_iff distinct_map)
qed

lemma own_log_reads:
  assumes "own_log cd d st c"
  shows "load_all st = stored_log st" and "load_projection_input st = stored_log st"
    and "verify_chain_from_genesis cd (stored_log st) = Inr (store_tip st)"
  using assms own_chain_reads projection_input_sorted [OF strict_keys(1) refl strict_keys(2)]
  by (auto simp: own_log_def)

text \<open>One event sealed and written.\<close>

lemma append_own_chain:
  assumes "own_chain cd d st c" and "append_event cd c h k v = Inr (c', e)"
  shows "own_chain cd d st c'"
    and "append_within io st e = Inr st' \<Longrightarrow>
      own_chain cd d st' c' \<and> stored_log st' = stored_log st @ [e] \<and> ec_tip c' = store_tip st'
      \<and> en_kind e = k \<and> v = Inr (en_payload e) \<and> time_key e = (millis (eh_occurred_at h), eh_event_id h)"
    and "ec_tip c \<noteq> store_tip st \<Longrightarrow> \<exists>err. append_within io st e = Inl err"
    and "ec_tip c' \<noteq> store_tip st"
proof -
  have d: "ec_device_id c = d" "es_device_id st = d" "list_all rw_local (es_rows st)"
    and run: "try_fold (verify_step cd d) tip_genesis (stored_log st) = Inr (store_tip st)"
    and tips: "ec_tip c = store_tip st \<or> ct_device_seq (store_tip st) < ct_device_seq (ec_tip c)"
    using assms(1) by (simp_all add: own_chain_def)
  have step: "verify_step cd d (ec_tip c) e = Inr (ec_tip c')" "ec_device_id c' = d"
    using append_event_Inr [OF assms(2)] d(1) by simp_all
  then have seq: "en_device_seq e = ct_device_seq (ec_tip c) + 1" "ct_device_seq (ec_tip c') = en_device_seq e"
    "en_device_id e = d" by (auto simp: verify_step_Inr)
  have fields: "en_kind e = k" "v = Inr (en_payload e)" "time_key e = (millis (eh_occurred_at h), eh_event_id h)"
    using assms(2) by (auto simp: append_event_def seal_event_def Let_def res_simps time_key_def split: if_splits)
  show ahead: "ec_tip c' \<noteq> store_tip st" using seq tips by auto
  show "own_chain cd d st c'" using assms(1) step(2) seq tips by (auto simp: own_chain_def)
  show "\<exists>err. append_within io st e = Inl err" if "ec_tip c \<noteq> store_tip st"
    using that seq tips d(2) by (auto simp: append_within_def store_tip_def Let_def)
  assume w: "append_within io st e = Inr st'"
  have eq: "ec_tip c = store_tip st"
    using w seq tips d(2) by (auto simp: append_within_def store_tip_def Let_def split: if_splits)
  have st': "st' = st\<lparr>es_rows := es_rows st @
      [\<lparr>rw_event = e, rw_local = True, rw_synced_at = None, rw_server_seq = None\<rparr>]\<rparr>"
    using w by (auto simp: append_within_def Let_def split: if_splits)
  then have log: "stored_log st' = stored_log st @ [e]" by (simp add: stored_log_def)
  have run': "try_fold (verify_step cd d) tip_genesis (stored_log st') = Inr (ec_tip c')"
    using run step(1) eq by (simp add: log try_fold_append)
  have st2: "es_device_id st' = d" "list_all rw_local (es_rows st')" using st' d by simp_all
  then have tip: "store_tip st' = ec_tip c'" using tip_of_run [OF run'] by (simp add: store_tip_def)
  show "own_chain cd d st' c' \<and> stored_log st' = stored_log st @ [e] \<and> ec_tip c' = store_tip st'
      \<and> en_kind e = k \<and> v = Inr (en_payload e) \<and> time_key e = (millis (eh_occurred_at h), eh_event_id h)"
    using st2 run' step(2) fields by (simp add: own_chain_def log tip)
qed

lemma append_own_log:
  assumes "own_log cd d st c" and "append_event cd c h k v = Inr (c', e)"
  shows "own_log cd d st c'"
    and "append_within io st e = Inr st' \<Longrightarrow> next_key st (eh_event_id h) (eh_occurred_at h) \<Longrightarrow>
      own_log cd d st' c' \<and> stored_log st' = stored_log st @ [e] \<and> ec_tip c' = store_tip st'
      \<and> en_kind e = k \<and> v = Inr (en_payload e) \<and> time_key e = (millis (eh_occurred_at h), eh_event_id h)"
    and "ec_tip c \<noteq> store_tip st \<Longrightarrow> \<exists>err. append_within io st e = Inl err"
    and "ec_tip c' \<noteq> store_tip st"
proof -
  have chain: "own_chain cd d st c" and sorted: "sorted_wrt (\<lambda>e f. time_key e < time_key f) (stored_log st)"
    using assms(1) by (simp_all add: own_log_def)
  note a = append_own_chain [OF chain assms(2)]
  show "own_log cd d st c'" using a(1) sorted by (simp add: own_log_def)
  show "\<exists>err. append_within io st e = Inl err" if "ec_tip c \<noteq> store_tip st" by (rule a(3) [OF that])
  show "ec_tip c' \<noteq> store_tip st" by (rule a(4))
  show "own_log cd d st' c' \<and> stored_log st' = stored_log st @ [e] \<and> ec_tip c' = store_tip st'
      \<and> en_kind e = k \<and> v = Inr (en_payload e) \<and> time_key e = (millis (eh_occurred_at h), eh_event_id h)"
    if "append_within io st e = Inr st'" "next_key st (eh_event_id h) (eh_occurred_at h)"
    using a(2) [OF that(1)] sorted that(2) by (auto simp: own_log_def next_key_def list_all_iff sorted_wrt_append)
qed

section \<open>What a till goes through\<close>

datatype till_action =
    RecordSale sale_event uuid timestamp
  | RecordShift shift_event uuid timestamp
  | RecordStock inventory_event uuid timestamp
  | RecordPurchase purchase_event uuid timestamp
  | RecordCatalogue catalogue_event uuid timestamp
  | RecordFloor floor_event uuid timestamp
  | RecordStaff staff_event uuid timestamp
  | RecordOutlet outlet_event uuid timestamp
  | CompleteSale sale_event string uuid timestamp uuid uuid
  | RecordReceipt purchase_event inventory_event timestamp uuid uuid

definition outcome :: "terminal \<times> (terminal_error + 'a) \<Rightarrow> terminal \<times> (terminal_error + unit)" where
  "outcome r = (fst r, map_ok (\<lambda>_. ()) (snd r))"

fun perform :: "codec \<Rightarrow> wire \<Rightarrow> bool \<Rightarrow> terminal \<Rightarrow> till_action \<Rightarrow> terminal \<times> (terminal_error + unit)" where
  "perform cd wr io t (RecordSale ev i at) = outcome (record_sale cd wr io t ev i at)"
| "perform cd wr io t (RecordShift ev i at) = outcome (record_shift cd wr io t ev i at)"
| "perform cd wr io t (RecordStock ev i at) = outcome (record_stock cd wr io t ev i at)"
| "perform cd wr io t (RecordPurchase ev i at) = outcome (record_purchase cd wr io t ev i at)"
| "perform cd wr io t (RecordCatalogue ev i at) = outcome (record_catalogue cd wr io t ev i at)"
| "perform cd wr io t (RecordFloor ev i at) = outcome (record_floor cd wr io t ev i at)"
| "perform cd wr io t (RecordStaff ev i at) = outcome (record_staff cd wr io t ev i at)"
| "perform cd wr io t (RecordOutlet ev i at) = outcome (record_outlet cd wr io t ev i at)"
| "perform cd wr io t (CompleteSale ev reg by at i j) = outcome (till_complete_sale cd wr io t ev reg by at i j)"
| "perform cd wr io t (RecordReceipt ev stock at i j) = outcome (record_receipt cd wr io t ev stock at i j)"

definition used_shifts :: "wire \<Rightarrow> event_store \<Rightarrow> uuid list" where
  "used_shifts wr st = List.map_filter (\<lambda>ev. case ev of ShiftEv e \<Rightarrow> Some (event_shift_id e) | _ \<Rightarrow> None) (decoded wr st)"

text \<open>The clock and the generated ids move on, and a shift is opened under an id of its own.\<close>

fun fresh :: "wire \<Rightarrow> event_store \<Rightarrow> till_action \<Rightarrow> bool" where
  "fresh wr st (RecordSale ev i at) = next_key st i at"
| "fresh wr st (RecordShift ev i at) = (next_key st i at
     \<and> (case ev of ShiftOpened sid _ _ _ _ \<Rightarrow> sid \<notin> set (used_shifts wr st) | _ \<Rightarrow> True))"
| "fresh wr st (RecordStock ev i at) = next_key st i at"
| "fresh wr st (RecordPurchase ev i at) = next_key st i at"
| "fresh wr st (RecordCatalogue ev i at) = next_key st i at"
| "fresh wr st (RecordFloor ev i at) = next_key st i at"
| "fresh wr st (RecordStaff ev i at) = next_key st i at"
| "fresh wr st (RecordOutlet ev i at) = next_key st i at"
| "fresh wr st (CompleteSale ev reg by at i j) = (next_key st i at \<and> i < j)"
| "fresh wr st (RecordReceipt ev stock at i j) = (next_key st i at \<and> i < j)"

text \<open>Reading gives back what was written, as \<open>serde\<close> promises of a derived pair.\<close>

definition faithful_wire :: "wire \<Rightarrow> bool" where
  "faithful_wire wr \<longleftrightarrow> (\<forall>ev v. wr_write wr ev = Inr v \<longrightarrow> read_event wr (event_kind ev) v = Some ev)"

text \<open>A round of sync meets whatever answers; no more of the transport's state is needed for one round.\<close>

inductive lived :: "codec \<Rightarrow> wire \<Rightarrow> device_identity \<Rightarrow> terminal \<Rightarrow> bool" for cd wr me where
  first_start: "load cd wr (store_open (di_device_id me)) me = Inr t \<Longrightarrow> lived cd wr me t"
| acts: "lived cd wr me t \<Longrightarrow> fresh wr (tm_store t) a \<Longrightarrow> perform cd wr io t a = (t', r) \<Longrightarrow> lived cd wr me t'"
| signs: "lived cd wr me t \<Longrightarrow> lived cd wr me (t\<lparr>tm_session := p\<rparr>)"
| syncs: "lived cd wr me t \<Longrightarrow> till_sync cd wr (tp :: unit transport) t () now = ((t', ()), r)
    \<Longrightarrow> list_all rw_local (es_rows (tm_store t')) \<Longrightarrow> lived cd wr me t'"
| restarts: "lived cd wr me t \<Longrightarrow> load cd wr (tm_store t) me = Inr t' \<Longrightarrow> lived cd wr me t'"

section \<open>Memory mirrors the log\<close>

definition same_orders :: "(uuid, purchase_event list) btree \<Rightarrow> (uuid, purchase_order) btree \<Rightarrow> bool" where
  "same_orders groups orders \<longleftrightarrow> bt_ok groups \<and> bt_ok orders
     \<and> (\<forall>k. case bt_get groups k of None \<Rightarrow> bt_get orders k = None
          | Some es \<Rightarrow> \<exists>ord. purchase_replay es = Inr ord \<and> bt_get orders k = Some ord)"

definition mirrors :: "uuid \<Rightarrow> projections \<Rightarrow> terminal \<Rightarrow> bool" where
  "mirrors d p t \<longleftrightarrow> pj_book p = tm_book t \<and> pj_stock p = tm_stock t \<and> pj_staff p = tm_staff t
     \<and> pj_catalogue p = tm_catalogue t \<and> pj_floor p = tm_floor t
     \<and> fiscal_resume d (pj_fiscal_tip p) = tm_fiscal t \<and> pj_outlet p = tm_outlet t
     \<and> same_orders (pj_purchases p) (tm_orders t) \<and> latest_open_shift (pj_shifts p) = Inr (running_shift t)"

definition log_projection :: "wire \<Rightarrow> uuid \<Rightarrow> event_store \<Rightarrow> terminal_error + projections" where
  "log_projection wr d st = try_fold (project_envelope wr d) no_projections (stored_log st)"

definition intact :: "codec \<Rightarrow> wire \<Rightarrow> device_identity \<Rightarrow> terminal \<Rightarrow> bool" where
  "intact cd wr me t \<longleftrightarrow> tm_identity t = me \<and> own_log cd (di_device_id me) (tm_store t) (tm_chain t)
     \<and> (\<exists>p. log_projection wr (di_device_id me) (tm_store t) = Inr p \<and> mirrors (di_device_id me) p t)"

lemma fold_decoded: "try_fold (project_envelope wr d) p es =
    try_fold (project_event d) p (List.map_filter (\<lambda>e. read_event wr (en_kind e) (en_payload e)) es)"
  by (induction es arbitrary: p)
    (auto simp: project_envelope_def List.map_filter_simps and_then_def split: option.splits sum.splits)

lemma log_projection_decoded: "log_projection wr d st = try_fold (project_event d) no_projections (decoded wr st)"
  by (simp add: log_projection_def decoded_def fold_decoded)

lemma map_filter_append: "List.map_filter f (xs @ ys) = List.map_filter f xs @ List.map_filter f ys"
  by (induction xs) (auto simp: List.map_filter_simps split: option.splits)

lemma mirrors_frame [simp]:
  "mirrors d p (t\<lparr>tm_chain := c\<rparr>) = mirrors d p t"
  "mirrors d p (t\<lparr>tm_store := st\<rparr>) = mirrors d p t"
  "mirrors d p (t\<lparr>tm_session := s\<rparr>) = mirrors d p t"
  by (simp_all add: mirrors_def running_shift_def)

lemma purchase_replay_snoc:
  "purchase_replay es = Inr ord \<Longrightarrow> purchase_replay (es @ [e]) = purchase_step ord e"
  by (cases es) (auto simp: purchase_replay_def try_fold_append res_simps and_then_def split: sum.splits)

lemma shift_replay_snoc: "shift_replay es = Inr s \<Longrightarrow> shift_replay (es @ [e]) = shift_apply s e"
  by (cases es) (auto simp: shift_replay_def try_fold_append res_simps and_then_def split: sum.splits)

lemma same_orders_push:
  assumes "same_orders groups orders"
    and "(case bt_get orders k of None \<Rightarrow> purchase_replay [e] | Some ord \<Rightarrow> purchase_step ord e) = Inr ord'"
  shows "same_orders (bt_push k e groups) (bt_insert k ord' orders)"
proof -
  have ok: "bt_ok groups" "bt_ok orders" using assms(1) by (simp_all add: same_orders_def)
  have at: "case bt_get groups j of None \<Rightarrow> bt_get orders j = None
      | Some es \<Rightarrow> \<exists>ord. purchase_replay es = Inr ord \<and> bt_get orders j = Some ord" for j
    using assms(1) by (simp add: same_orders_def)
  have "purchase_replay ((case bt_get groups k of None \<Rightarrow> [] | Some vs \<Rightarrow> vs) @ [e]) = Inr ord'"
    using at [of k] assms(2) by (auto simp: purchase_replay_snoc split: option.splits)
  moreover have "case bt_get groups j of None \<Rightarrow> bt_get (bt_insert k ord' orders) j = None
      | Some es \<Rightarrow> \<exists>ord. purchase_replay es = Inr ord \<and> bt_get (bt_insert k ord' orders) j = Some ord" if "j \<noteq> k" for j
    using at [of j] that by (auto split: option.splits)
  ultimately show ?thesis using ok by (auto simp: same_orders_def bt_push_def)
qed

lemma replay_same_orders:
  assumes "same_orders groups orders"
  shows "replay_orders groups = orders"
proof (rule bt_ext)
  show "bt_ok (replay_orders groups)" "bt_ok orders" using assms by (simp_all add: replay_orders_def same_orders_def)
  fix k
  let ?f = "\<lambda>(k, es). case purchase_replay es of Inl _ \<Rightarrow> None | Inr ord \<Rightarrow> Some (k, ord)"
  let ?g = "\<lambda>(k, es). (k, projr (purchase_replay es))"
  have ok: "bt_ok groups" and at: "bt_get groups j = Some es \<Longrightarrow> \<exists>ord. purchase_replay es = Inr ord" for j es
    using assms by (auto simp: same_orders_def split: option.splits)
  then have "?f e = Some (?g e)" if "e \<in> set groups" for e
    using that bt_entry_iff [OF ok] by (cases e) fastforce
  then have "List.map_filter ?f groups = map ?g groups" by (induction groups) (auto simp: List.map_filter_simps)
  moreover have "distinct (map fst (map ?g groups))"
    using bt_ok_distinct [OF ok] by (simp add: comp_def split_beta)
  moreover from this have "map_of (rev (map ?g groups)) = map_of (map ?g groups)"
    by (subst map_of_inject_set) (simp_all add: rev_map [symmetric])
  ultimately have "bt_get (replay_orders groups) k = map_of (map ?g groups) k"
    by (simp only: replay_orders_def bt_get_collect)
  also have "\<dots> = map_option (\<lambda>es. projr (purchase_replay es)) (bt_get groups k)" by (simp add: map_of_map)
  also have "\<dots> = bt_get orders k" using assms by (auto simp: same_orders_def split: option.splits dest!: spec [of _ k])
  finally show "bt_get (replay_orders groups) k = bt_get orders k" .
qed


section \<open>Every action keeps it so\<close>

text \<open>What sealing one event does to a till.\<close>

lemma seal_cases:
  assumes "faithful_wire wr" and "intact cd wr me t" and "next_key (tm_store t) i at"
    and "seal cd wr io t ev i at = (t', r)"
  obtains (refused) e c where "r = Inl e" and "t' = t\<lparr>tm_chain := c\<rparr>" and "intact cd wr me t'"
    | (sealed) env c st where "r = Inr env" and "t' = t\<lparr>tm_chain := c, tm_store := st\<rparr>"
        and "own_log cd (di_device_id me) st c"
        and "decoded wr st = decoded wr (tm_store t) @ [ev]"
proof -
  let ?h = "till_header t i at"
  have own: "own_log cd (di_device_id me) (tm_store t) (tm_chain t)" using assms(2) by (simp add: intact_def)
  show ?thesis
  proof (cases "append_event cd (tm_chain t) ?h (event_kind ev) (wr_write wr ev)")
    case (Inl e)
    with assms(4) have "r = Inl (TermEvent e)" "t' = t\<lparr>tm_chain := tm_chain t\<rparr>" by (auto simp: seal_def)
    with assms(2) show ?thesis by (intro refused [of "TermEvent e" "tm_chain t"]) auto
  next
    case (Inr ce)
    obtain c env where ap: "append_event cd (tm_chain t) ?h (event_kind ev) (wr_write wr ev) = Inr (c, env)"
      using Inr by (cases ce) auto
    show ?thesis
    proof (cases "append_within io (tm_store t) env")
      case (Inl e)
      then have "r = Inl (TermStore e)" "t' = t\<lparr>tm_chain := c\<rparr>" using assms(4) ap by (auto simp: seal_def Let_def)
      moreover from this have "intact cd wr me t'"
        using assms(2) append_own_log(1) [OF own ap] by (auto simp: intact_def)
      ultimately show ?thesis by (rule refused)
    next
      case (Inr st)
      have k: "next_key (tm_store t) (eh_event_id ?h) (eh_occurred_at ?h)" using assms(3) by (simp add: till_header_def)
      note w = append_own_log(2) [OF own ap Inr k]
      have "read_event wr (en_kind env) (en_payload env) = Some ev"
        using w assms(1) by (auto simp: faithful_wire_def)
      then have "decoded wr st = decoded wr (tm_store t) @ [ev]"
        using w by (simp add: decoded_def map_filter_append List.map_filter_simps)
      moreover have "r = Inr env" "t' = t\<lparr>tm_chain := c, tm_store := st\<rparr>"
        using assms(4) ap Inr by (auto simp: seal_def Let_def)
      ultimately show ?thesis using w by (intro sealed) auto
    qed
  qed
qed

text \<open>A recorder keeps the till intact when the state it adopts is the one the projection makes.\<close>

definition follows :: "wire \<Rightarrow> uuid \<Rightarrow> terminal \<Rightarrow> till_event \<Rightarrow> (terminal \<Rightarrow> terminal) \<Rightarrow> bool" where
  "follows wr d t ev f \<longleftrightarrow> (\<forall>p. log_projection wr d (tm_store t) = Inr p \<longrightarrow> mirrors d p t \<longrightarrow> (\<exists>p'. project_event d p ev = Inr p' \<and> mirrors d p' (f t)))"

definition memory_only :: "(terminal \<Rightarrow> terminal) \<Rightarrow> bool" where
  "memory_only f \<longleftrightarrow> (\<forall>t c st. f (t\<lparr>tm_chain := c, tm_store := st\<rparr>) = (f t)\<lparr>tm_chain := c, tm_store := st\<rparr>
     \<and> tm_identity (f t) = tm_identity t)"

lemma adopting_intact:
  assumes "faithful_wire wr" and "intact cd wr me t" and "next_key (tm_store t) i at"
    and "memory_only f" and "follows wr (di_device_id me) t ev f"
  shows "intact cd wr me (fst (adopting f (seal cd wr io t ev i at)))"
proof -
  obtain t' r where s: "seal cd wr io t ev i at = (t', r)" by fastforce
  from assms(1-3) s show ?thesis
  proof (cases rule: seal_cases)
    case (sealed env c st)
    obtain p where p: "log_projection wr (di_device_id me) (tm_store t) = Inr p" "mirrors (di_device_id me) p t"
      using assms(2) by (auto simp: intact_def)
    with assms(5) obtain p' where p': "project_event (di_device_id me) p ev = Inr p'" "mirrors (di_device_id me) p' (f t)"
      by (auto simp: follows_def)
    have "f t' = (f t)\<lparr>tm_chain := c, tm_store := st\<rparr>" "tm_identity (f t) = me"
      using assms(2,4) sealed(2) by (simp_all add: memory_only_def intact_def)
    with sealed(3,4) p p' show ?thesis
      by (auto simp: s adopting_def sealed(1) intact_def log_projection_decoded try_fold_append)
  qed (simp add: s adopting_def)
qed


text \<open>Two events written together.\<close>

lemma seal_both_cases:
  assumes "faithful_wire wr" and "intact cd wr me t" and "next_key (tm_store t) i at" and "i < j"
    and "seal_both cd wr io t ev i ev' j at = (t', r)"
  obtains (refused) e c where "r = Inl e" and "t' = t\<lparr>tm_chain := c\<rparr>" and "intact cd wr me t'"
    | (sealed) c st where "r = Inr ()" and "t' = t\<lparr>tm_chain := c, tm_store := st\<rparr>"
        and "own_log cd (di_device_id me) st c" and "decoded wr st = decoded wr (tm_store t) @ [ev, ev']"
proof (cases "append_event cd (tm_chain t) (till_header t i at) (event_kind ev) (wr_write wr ev)")
  case (Inl e)
  with assms(2,5) show ?thesis by (intro refused [of "TermEvent e" "tm_chain t"]) (auto simp: seal_both_def)
next
  case (Inr ce)
  let ?d = "di_device_id me"
  note own = assms(2) [unfolded intact_def, THEN conjunct2, THEN conjunct1]
  obtain c1 e1 where a1: "append_event cd (tm_chain t) (till_header t i at) (event_kind ev) (wr_write wr ev) = Inr (c1, e1)"
    using Inr by (cases ce) auto
  note own1 = append_own_log(1) [OF own a1]
  show ?thesis
  proof (cases "append_event cd c1 (till_header t j at) (event_kind ev') (wr_write wr ev')")
    case (Inl e)
    with a1 assms(2,5) own1 show ?thesis
      by (intro refused [of "TermEvent e" c1]) (auto simp: seal_both_def intact_def till_header_def)
  next
    case (Inr ce)
    obtain c2 e2 where a2: "append_event cd c1 (till_header t j at) (event_kind ev') (wr_write wr ev') = Inr (c2, e2)"
      using Inr by (cases ce) auto
    note own2 = append_own_log(1) [OF own1 a2]
    show ?thesis
    proof (cases "store_append_all io (tm_store t) [e1, e2]")
      case (Inl e)
      with a1 a2 assms(2,5) own2 show ?thesis
        by (intro refused [of "TermStore e" c2]) (auto simp: seal_both_def intact_def till_header_def Let_def)
    next
      case (Inr st)
      then obtain st1 where w: "append_within io (tm_store t) e1 = Inr st1" "append_within io st1 e2 = Inr st"
        by (auto simp: store_append_all_def res_simps)
      have w1: "own_log cd ?d st1 c1 \<and> stored_log st1 = stored_log (tm_store t) @ [e1] \<and> en_kind e1 = event_kind ev
          \<and> wr_write wr ev = Inr (en_payload e1) \<and> time_key e1 = (millis at, i)"
        using append_own_log(2) [OF own a1 w(1)] assms(3) by (simp add: till_header_def)
      then have "next_key st1 j at" using assms(3,4) by (auto simp: next_key_def list_all_iff intro: less_trans)
      then have w2: "own_log cd ?d st c2 \<and> stored_log st = stored_log st1 @ [e2] \<and> en_kind e2 = event_kind ev'
          \<and> wr_write wr ev' = Inr (en_payload e2)"
        using append_own_log(2) [OF _ a2 w(2), of ?d] w1 by (simp add: till_header_def)
      have "read_event wr (en_kind e1) (en_payload e1) = Some ev" "read_event wr (en_kind e2) (en_payload e2) = Some ev'"
        using w1 w2 assms(1) by (auto simp: faithful_wire_def)
      then have "decoded wr st = decoded wr (tm_store t) @ [ev, ev']"
        using w1 w2 by (simp add: decoded_def map_filter_append List.map_filter_simps)
      moreover have "t' = t\<lparr>tm_chain := c2, tm_store := st\<rparr>" "r = Inr ()"
        using a1 a2 Inr assms(5) by (auto simp: seal_both_def till_header_def Let_def)
      ultimately show ?thesis using w2 by (intro sealed) auto
    qed
  qed
qed

lemma seal_both_intact:
  assumes "faithful_wire wr" and "intact cd wr me t" and "next_key (tm_store t) i at" and "i < j"
    and "memory_only f"
    and follows: "\<And>p. mirrors (di_device_id me) p t \<Longrightarrow> \<exists>p1 p2. project_event (di_device_id me) p ev = Inr p1
      \<and> project_event (di_device_id me) p1 ev' = Inr p2 \<and> mirrors (di_device_id me) p2 (f t)"
  shows "intact cd wr me (fst (adopting f (seal_both cd wr io t ev i ev' j at)))"
proof -
  obtain t' r where s: "seal_both cd wr io t ev i ev' j at = (t', r)" by fastforce
  from assms(1-4) s show ?thesis
  proof (cases rule: seal_both_cases)
    case (sealed c st)
    obtain p where p: "log_projection wr (di_device_id me) (tm_store t) = Inr p" "mirrors (di_device_id me) p t"
      using assms(2) by (auto simp: intact_def)
    from follows [OF p(2)] obtain p1 p2 where p2: "project_event (di_device_id me) p ev = Inr p1"
      "project_event (di_device_id me) p1 ev' = Inr p2" "mirrors (di_device_id me) p2 (f t)" by blast
    have "f t' = (f t)\<lparr>tm_chain := c, tm_store := st\<rparr>" "tm_identity (f t) = me"
      using assms(2,5) sealed(2) by (simp_all add: memory_only_def intact_def)
    with sealed(3,4) p p2 show ?thesis
      by (auto simp: s adopting_def sealed(1) intact_def log_projection_decoded try_fold_append)
  qed (simp add: s adopting_def)
qed

section \<open>Each recorder follows its projection\<close>

lemma book_step_fst: "book_step b ev = Inr b' \<Longrightarrow> fst (book_apply b ev) = b'"
  by (auto simp: book_step_def res_simps split: prod.splits)

lemma follows_sale: "book_step (tm_book t) ev = Inr b \<Longrightarrow> follows wr d t (SaleEv ev) (tm_book_update (\<lambda>_. b))"
  by (auto simp: follows_def project_event_def mirrors_def running_shift_def dest: book_step_fst)

lemma follows_stock:
  "inventory_apply (tm_stock t) ev = Inr b \<Longrightarrow> follows wr d t (StockEv ev) (tm_stock_update (\<lambda>_. b))"
  by (auto simp: follows_def project_event_def mirrors_def running_shift_def)

lemma follows_catalogue:
  "catalogue_apply (tm_catalogue t) ev = Inr c \<Longrightarrow> follows wr d t (CatalogueEv ev) (tm_catalogue_update (\<lambda>_. c))"
  by (auto simp: follows_def project_event_def mirrors_def running_shift_def ok_or_keep_def)

lemma follows_floor:
  "floor_apply (tm_floor t) ev = Inr c \<Longrightarrow> follows wr d t (FloorEv ev) (tm_floor_update (\<lambda>_. c))"
  by (auto simp: follows_def project_event_def mirrors_def running_shift_def ok_or_keep_def)

lemma follows_staff:
  "directory_apply (tm_staff t) ev = Inr c \<Longrightarrow> follows wr d t (StaffEv ev) (tm_staff_update (\<lambda>_. c))"
  by (auto simp: follows_def project_event_def mirrors_def running_shift_def)

lemma follows_outlet: "to_config ev = Inr c \<Longrightarrow> follows wr d t (OutletEv ev) (tm_outlet_update (\<lambda>_. Some c))"
  by (auto simp: follows_def project_event_def mirrors_def running_shift_def)

lemma follows_purchase:
  "order_candidate t ev = Inr ord \<Longrightarrow>
     follows wr d t (PurchaseEv ev) (tm_orders_update (bt_insert (purchase_order_id ev) ord))"
  by (auto simp: follows_def project_event_def mirrors_def running_shift_def order_candidate_def
      intro!: same_orders_push split: option.splits)

lemma shift_apply_id: "shift_apply s e = Inr s' \<Longrightarrow> sh_id s' = sh_id s \<and> event_shift_id e = sh_id s"
  by (auto simp: shift_apply_def split: if_splits shift_event.splits)

lemma shift_replay_id: "shift_replay es = Inr s \<Longrightarrow> es \<noteq> [] \<and> sh_id s = event_shift_id (hd es)"
proof -
  assume r: "shift_replay es = Inr s"
  then obtain e fs m where m: "es = e # fs" "shift_opened e = Inr m" "try_fold shift_apply m fs = Inr s"
    by (cases es) (auto simp: shift_replay_def res_simps)
  have "sh_id s = sh_id m"
    by (rule try_fold_invariant [OF m(3)]) (auto dest: shift_apply_id)
  then show ?thesis using m(1,2) by (auto simp: shift_opened_def event_shift_id_def split: shift_event.splits)
qed

lemma latest_next:
  assumes "latest_open_shift es = Inr (Some s)" and "shift_apply s ev = Inr s'"
  shows "latest_open_shift (es @ [ev]) = Inr (if sh_status s' = ShiftIsOpen then Some s' else None)"
proof -
  let ?mine = "filter (\<lambda>e. event_shift_id e = event_shift_id (last es)) es"
  have mine: "shift_replay ?mine = Inr s" and "es \<noteq> []"
    using assms(1) by (auto simp: latest_open_shift_def Let_def res_simps split: if_splits)
  then have "?mine \<noteq> []" "sh_id s = event_shift_id (hd ?mine)" using shift_replay_id by auto
  then have "sh_id s = event_shift_id (last es)" using hd_in_set [of ?mine] by simp
  then have "event_shift_id ev = event_shift_id (last es)" using shift_apply_id [OF assms(2)] by simp
  then have "filter (\<lambda>e. event_shift_id e = event_shift_id ev) (es @ [ev]) = ?mine @ [ev]" by simp
  with shift_replay_snoc [OF mine, of ev] assms(2) show ?thesis by (simp add: latest_open_shift_def Let_def)
qed

lemma latest_first:
  assumes "event_shift_id ev \<notin> event_shift_id ` set es" and "shift_replay [ev] = Inr s"
  shows "latest_open_shift (es @ [ev]) = Inr (if sh_status s = ShiftIsOpen then Some s else None)"
proof -
  have "filter (\<lambda>e. event_shift_id e = event_shift_id ev) es = []" using assms(1) by (auto simp: filter_empty_conv) (metis imageI)
  with assms(2) show ?thesis by (simp add: latest_open_shift_def Let_def)
qed


lemma projected_shifts:
  "try_fold (project_event d) p evs = Inr p' \<Longrightarrow>
     pj_shifts p' = pj_shifts p @ List.map_filter (\<lambda>ev. case ev of ShiftEv e \<Rightarrow> Some e | _ \<Rightarrow> None) evs"
proof (induction evs arbitrary: p)
  case (Cons ev evs)
  then obtain m where m: "project_event d p ev = Inr m" "try_fold (project_event d) m evs = Inr p'"
    by (auto simp: res_simps)
  then have "pj_shifts m = pj_shifts p @ (case ev of ShiftEv e \<Rightarrow> [e] | _ \<Rightarrow> [])"
    by (auto simp: project_event_def res_simps split: till_event.splits fiscal_event.splits sum.splits if_splits)
  with Cons.IH [OF m(2)] show ?case by (auto simp: List.map_filter_simps split: till_event.splits)
qed (simp add: List.map_filter_simps)

lemma used_shifts_projected:
  assumes "log_projection wr d st = Inr p"
  shows "set (used_shifts wr st) = event_shift_id ` set (pj_shifts p)"
proof -
  have "pj_shifts p = List.map_filter (\<lambda>ev. case ev of ShiftEv e \<Rightarrow> Some e | _ \<Rightarrow> None) (decoded wr st)"
    using projected_shifts assms by (fastforce simp: log_projection_decoded no_projections_def)
  moreover have "List.map_filter (\<lambda>ev. case ev of ShiftEv e \<Rightarrow> Some (event_shift_id e) | _ \<Rightarrow> None) evs
      = map event_shift_id (List.map_filter (\<lambda>ev. case ev of ShiftEv e \<Rightarrow> Some e | _ \<Rightarrow> None) evs)" for evs
    by (induction evs) (auto simp: List.map_filter_simps split: till_event.splits)
  ultimately show ?thesis by (simp add: used_shifts_def)
qed

lemma follows_shift:
  assumes "shift_candidate t ev = Inr s" and "fresh wr (tm_store t) (RecordShift ev i at)"
  shows "follows wr d t (ShiftEv ev) (tm_shift_update (\<lambda>_. Some s))"
proof -
  have "latest_open_shift (pj_shifts p @ [ev]) = Inr (if sh_status s = ShiftIsOpen then Some s else None)"
    if "log_projection wr d (tm_store t) = Inr p" "mirrors d p t" for p
  proof (cases "running_shift t")
    case None
    with assms(1) have s: "shift_replay [ev] = Inr s" and "\<exists>sid by c fl at. ev = ShiftOpened sid by c fl at"
      by (auto simp: shift_candidate_def res_simps split: shift_event.splits)
    with assms(2) used_shifts_projected [OF that(1)] have "event_shift_id ev \<notin> event_shift_id ` set (pj_shifts p)"
      by (auto simp: event_shift_id_def)
    from latest_first [OF this s] show ?thesis .
  next
    case (Some s0)
    with assms(1) have "shift_apply s0 ev = Inr s"
      by (auto simp: shift_candidate_def res_simps split: shift_event.splits)
    with latest_next [of "pj_shifts p" s0 ev s] that(2) Some show ?thesis by (simp add: mirrors_def)
  qed
  then show ?thesis by (auto simp: follows_def project_event_def mirrors_def running_shift_def)
qed

lemmas recorder_defs = record_sale_def record_shift_def record_stock_def record_purchase_def
  record_catalogue_def record_floor_def record_staff_def record_outlet_def

lemma memory_only_updates:
  "memory_only (tm_book_update (\<lambda>_. b))" "memory_only (tm_shift_update (\<lambda>_. s))"
  "memory_only (tm_stock_update (\<lambda>_. k))" "memory_only (tm_catalogue_update (\<lambda>_. c))"
  "memory_only (tm_floor_update (\<lambda>_. f))" "memory_only (tm_staff_update (\<lambda>_. dir))"
  "memory_only (tm_outlet_update (\<lambda>_. oc))" "memory_only (tm_orders_update g)"
  by (simp_all add: memory_only_def)

lemma invoice_candidate_Inr:
  assumes "invoice_candidate cd wr t ev reg at = Inr (b, content, chain, s)"
  shows "book_step (tm_book t) ev = Inr b"
    and "fiscal_seal cd (tm_fiscal t) (event_sale_id ev) at (wr_content wr content) = (chain, Inr s)"
  using assms by (auto simp: invoice_candidate_def Let_def res_simps split: prod.splits) (metis surj_pair)+

lemma complete_intact:
  assumes "faithful_wire wr" and "intact cd wr me t" and "next_key (tm_store t) i at" and "i < j"
  shows "intact cd wr me (fst (till_complete_sale cd wr io t ev reg by at i j))"
proof (cases "invoice_candidate cd wr t ev reg at")
  case (Inl e)
  with assms(2) show ?thesis by (simp add: till_complete_sale_def)
next
  case (Inr x)
  let ?d = "di_device_id me"
  obtain b content chain s where x: "x = (b, content, chain, s)" by (cases x)
  note c = invoice_candidate_Inr [OF Inr [unfolded x]]
  have f: "fc_counter chain = \<lparr>ic_device_id = ic_device_id (fc_counter (tm_fiscal t)), ic_issued = is_counter s\<rparr>"
    "fc_tip chain = is_hash s" "is_device_id s = ic_device_id (fc_counter (tm_fiscal t))"
    using c(2) by (auto simp: fiscal_seal_def counter_next_def Let_def res_simps split: sum.splits)
  have chain: "chain = fiscal_resume ?d \<lparr>ft_counter = is_counter s, ft_hash = is_hash s\<rparr>" "is_device_id s = ?d"
    if "mirrors ?d p t" for p
  proof -
    have "tm_fiscal t = fiscal_resume ?d (pj_fiscal_tip p)" using that by (simp add: mirrors_def)
    then have "ic_device_id (fc_counter (tm_fiscal t)) = ?d" by (simp add: fiscal_resume_def counter_resume_def)
    with f show "chain = fiscal_resume ?d \<lparr>ft_counter = is_counter s, ft_hash = is_hash s\<rparr>" "is_device_id s = ?d"
      by (simp_all add: fiscal_resume_def counter_resume_def)
  qed
  have "intact cd wr me (fst (adopting (\<lambda>t. t\<lparr>tm_book := b, tm_fiscal := chain\<rparr>)
      (seal_both cd wr io t (SaleEv ev) i (FiscalEv (InvoiceIssued s content at by)) j at)))"
  proof (rule seal_both_intact [OF assms])
    show "memory_only (\<lambda>t. t\<lparr>tm_book := b, tm_fiscal := chain\<rparr>)" by (simp add: memory_only_def)
    show "\<exists>p1 p2. project_event ?d p (SaleEv ev) = Inr p1
        \<and> project_event ?d p1 (FiscalEv (InvoiceIssued s content at by)) = Inr p2
        \<and> mirrors ?d p2 (t\<lparr>tm_book := b, tm_fiscal := chain\<rparr>)" if "mirrors ?d p t" for p
      using that chain [OF that] book_step_fst [OF c(1)]
      by (auto simp: project_event_def mirrors_def running_shift_def)
  qed
  then show ?thesis by (simp add: till_complete_sale_def Inr x split_beta)
qed

lemma receipt_intact:
  assumes "faithful_wire wr" and "intact cd wr me t" and "next_key (tm_store t) i at" and "i < j"
  shows "intact cd wr me (fst (record_receipt cd wr io t ev stock at i j))"
proof -
  let ?d = "di_device_id me"
  consider e where "record_receipt cd wr io t ev stock at i j = (t, Inl e)"
    | ord0 ord b where "bt_get (tm_orders t) (purchase_order_id ev) = Some ord0" "purchase_step ord0 ev = Inr ord"
      "inventory_apply (tm_stock t) stock = Inr b"
    by (cases "bt_get (tm_orders t) (purchase_order_id ev)"; cases "purchase_step (the (bt_get (tm_orders t) (purchase_order_id ev))) ev";
        cases "inventory_apply (tm_stock t) stock") (auto simp: record_receipt_def)
  then show ?thesis
  proof cases
    case (2 ord0 ord b)
    let ?f = "\<lambda>t. t\<lparr>tm_orders := bt_insert (purchase_order_id ev) ord (tm_orders t), tm_stock := b\<rparr>"
    have "intact cd wr me (fst (adopting ?f (seal_both cd wr io t (PurchaseEv ev) i (StockEv stock) j at)))"
    proof (rule seal_both_intact [OF assms])
      show "memory_only ?f" by (simp add: memory_only_def)
      show "\<exists>p1 p2. project_event ?d p (PurchaseEv ev) = Inr p1 \<and> project_event ?d p1 (StockEv stock) = Inr p2
          \<and> mirrors ?d p2 (?f t)" if "mirrors ?d p t" for p
        using that 2 same_orders_push [where k = "purchase_order_id ev" and e = ev and ord' = ord]
        by (auto simp: project_event_def mirrors_def running_shift_def)
    qed
    with 2 show ?thesis by (simp add: record_receipt_def)
  qed (use assms(2) in simp)
qed

lemma outcome_fst [simp]: "fst (outcome r) = fst r"
  by (simp add: outcome_def)

lemma record_intact:
  assumes "faithful_wire wr" and "intact cd wr me t" and "next_key (tm_store t) i at"
    and "\<And>c. r = Inr c \<Longrightarrow> memory_only (f c) \<and> follows wr (di_device_id me) t ev (f c)"
  shows "intact cd wr me (fst (case r of Inl e \<Rightarrow> (t, Inl (g e)) | Inr c \<Rightarrow> adopting (f c) (seal cd wr io t ev i at)))"
  using assms by (cases r) (auto intro: adopting_intact)

lemma perform_intact:
  assumes "faithful_wire wr" and "intact cd wr me t" and "fresh wr (tm_store t) a"
  shows "intact cd wr me (fst (perform cd wr io t a))"
proof -
  note rec = record_intact [OF assms(1,2)] and use = memory_only_updates
  show ?thesis
  proof (cases a)
    case (RecordSale ev i at)
    then have "next_key (tm_store t) i at" using assms(3) by simp
    then show ?thesis unfolding RecordSale perform.simps outcome_fst record_sale_def
      by (rule rec) (auto simp: res_simps use intro: follows_sale)
  next
    case (RecordShift ev i at)
    then have "next_key (tm_store t) i at" and f: "fresh wr (tm_store t) (RecordShift ev i at)" using assms(3) by simp_all
    then show ?thesis unfolding RecordShift perform.simps outcome_fst record_shift_def
      by (elim rec) (auto simp: use intro: follows_shift [OF _ f])
  next
    case (RecordStock ev i at)
    then have "next_key (tm_store t) i at" using assms(3) by simp
    then show ?thesis unfolding RecordStock perform.simps outcome_fst record_stock_def
      by (rule rec) (auto simp: use intro: follows_stock)
  next
    case (RecordPurchase ev i at)
    then have "next_key (tm_store t) i at" using assms(3) by simp
    then show ?thesis unfolding RecordPurchase perform.simps outcome_fst record_purchase_def
      by (rule rec) (auto simp: use intro: follows_purchase)
  next
    case (RecordCatalogue ev i at)
    then have "next_key (tm_store t) i at" using assms(3) by simp
    then show ?thesis unfolding RecordCatalogue perform.simps outcome_fst record_catalogue_def
      by (rule rec) (auto simp: use intro: follows_catalogue)
  next
    case (RecordFloor ev i at)
    then have "next_key (tm_store t) i at" using assms(3) by simp
    then show ?thesis unfolding RecordFloor perform.simps outcome_fst record_floor_def
      by (rule rec) (auto simp: use intro: follows_floor)
  next
    case (RecordStaff ev i at)
    then have "next_key (tm_store t) i at" using assms(3) by simp
    then show ?thesis unfolding RecordStaff perform.simps outcome_fst record_staff_def
      by (rule rec) (auto simp: use intro: follows_staff)
  next
    case (RecordOutlet ev i at)
    then have "next_key (tm_store t) i at" using assms(3) by simp
    then show ?thesis unfolding RecordOutlet perform.simps outcome_fst record_outlet_def
      by (rule rec) (auto simp: use intro: follows_outlet)
  qed (use assms(3) complete_intact [OF assms(1,2)] receipt_intact [OF assms(1,2)] in simp_all)
qed


section \<open>Synchronising and restarting\<close>

definition same_rows :: "event_store \<Rightarrow> event_store \<Rightarrow> bool" where
  "same_rows st st' \<longleftrightarrow> es_device_id st' = es_device_id st
     \<and> map (\<lambda>r. (rw_event r, rw_local r)) (es_rows st') = map (\<lambda>r. (rw_event r, rw_local r)) (es_rows st)"

lemma same_rows_log:
  assumes "same_rows st st'"
  shows "stored_log st' = stored_log st" and "list_all rw_local (es_rows st') = list_all rw_local (es_rows st)"
    and "store_tip st' = store_tip st"
proof -
  have "map fst (map (\<lambda>r. (rw_event r, rw_local r)) (es_rows st')) = map fst (map (\<lambda>r. (rw_event r, rw_local r)) (es_rows st))"
    "map snd (map (\<lambda>r. (rw_event r, rw_local r)) (es_rows st')) = map snd (map (\<lambda>r. (rw_event r, rw_local r)) (es_rows st))"
    using assms by (simp_all only: same_rows_def)
  then have "map rw_event (es_rows st') = map rw_event (es_rows st)" "map rw_local (es_rows st') = map rw_local (es_rows st)"
    by (simp_all add: comp_def)
  moreover from this(2) have "list_all rw_local (es_rows st') = list_all rw_local (es_rows st)"
    by (metis (no_types) list.pred_map comp_id id_comp)
  moreover have "es_device_id st' = es_device_id st" using assms by (simp add: same_rows_def)
  ultimately show "stored_log st' = stored_log st" "list_all rw_local (es_rows st') = list_all rw_local (es_rows st)"
    "store_tip st' = store_tip st" by (simp_all only: stored_log_def store_tip_def tip_within_def)
qed

lemma same_rows_intact:
  "intact cd wr me t \<Longrightarrow> same_rows (tm_store t) st \<Longrightarrow> intact cd wr me (t\<lparr>tm_store := st\<rparr>)"
  using same_rows_log [of "tm_store t" st]
  by (auto simp: intact_def own_log_def own_chain_def log_projection_def same_rows_def)

lemma same_rows_refl: "same_rows st st"
  by (simp add: same_rows_def)

lemma mark_synced_same: "same_rows st (fst (mark_synced st q now))"
  by (simp add: mark_synced_rows same_rows_def comp_def)

lemma push_pending_same: "push_pending tp st net now = ((st', net'), r) \<Longrightarrow> same_rows st st'"
  using mark_synced_same same_rows_refl
  by (auto simp: push_pending_def Let_def split: if_splits sum.splits prod.splits) 

lemma push_pending_pulled: "push_pending tp st net now = ((st', net'), Inr oc) \<Longrightarrow> so_pulled oc = 0"
  by (auto simp: push_pending_def no_outcome_def Let_def split: if_splits sum.splits prod.splits)

lemma apply_page_local:
  "apply_page cd cur st n es = (st', r) \<Longrightarrow> list_all rw_local (es_rows st') \<Longrightarrow> st' = st \<and> (\<forall>m. r = Inr m \<longrightarrow> m = n)"
proof (induction es arbitrary: st n)
  case (Cons e es)
  have keep: "\<exists>rs. es_rows st'' = es_rows st1 @ rs" if "apply_page cd cur st1 k fs = (st'', q)" for st1 k fs st'' q
    using that
  proof (induction fs arbitrary: st1 k)
    case (Cons f fs)
    then show ?case by (fastforce simp: insert_remote_def split: sum.splits if_splits prod.splits)
  qed simp
  show ?case
  proof (cases "verify_event cd e")
    case (Inr u)
    show ?thesis
    proof (cases "insert_remote st e cur")
      case (Inr sn)
      obtain st1 new where sn: "insert_remote st e cur = Inr (st1, new)" using Inr by (cases sn) auto
      have rest: "apply_page cd cur st1 (if new then n + 1 else n) es = (st', r)"
        using Cons.prems(1) \<open>verify_event cd e = Inr u\<close> sn by simp
      from keep [OF rest] Cons.prems(2) have "list_all rw_local (es_rows st1)" by auto
      with sn have "st1 = st" "\<not> new" by (auto simp: insert_remote_def split: if_splits)
      with Cons.IH [OF rest Cons.prems(2)] show ?thesis by auto
    qed (use Cons.prems \<open>verify_event cd e = Inr u\<close> in auto)
  qed (use Cons.prems in auto)
qed auto

lemma sync_same:
  assumes "till_sync cd wr tp t net now = ((t', net'), r)" and "list_all rw_local (es_rows (tm_store t'))"
  shows "same_rows (tm_store t) (tm_store t') \<and> t' = t\<lparr>tm_store := tm_store t'\<rparr>"
proof -
  obtain st n1 q where push: "push_pending tp (tm_store t) net now = ((st, n1), q)" by (metis prod.exhaust)
  note same = push_pending_same [OF push]
  show ?thesis
  proof (cases q)
    case (Inl e)
    then show ?thesis using assms(1) push same by (auto simp: till_sync_def sync_once_def)
  next
    case (Inr oc)
    obtain n2 ans where pull: "tp_pull tp n1 (es_cursor st) pull_page = (n2, ans)" by fastforce
    show ?thesis
    proof (cases ans)
      case (Inl e)
      then show ?thesis using assms(1) push same Inr pull by (auto simp: till_sync_def sync_once_def pull_new_def)
    next
      case pg: (Inr page)
      obtain st1 ap where page: "apply_page cd (pp_cursor page) st 0 (pp_events page) = (st1, ap)" by fastforce
      have "\<exists>x. es_rows (tm_store t') = es_rows st1"
        using assms(1) push Inr pull pg page
        by (cases ap) (auto simp: till_sync_def sync_once_def pull_new_def set_pull_cursor_def Let_def)
      with assms(2) apply_page_local [OF page] have st1: "st1 = st" "\<And>m. ap = Inr m \<Longrightarrow> m = 0" by auto
      then show ?thesis using assms(1) push Inr pull pg page same
        by (cases ap) (auto simp: till_sync_def sync_once_def pull_new_def set_pull_cursor_def same_rows_def Let_def)
    qed
  qed
qed

lemma sync_intact:
  assumes "intact cd wr me t" and "till_sync cd wr tp t net now = ((t', net'), r)"
    and "list_all rw_local (es_rows (tm_store t'))"
  shows "intact cd wr me t'"
  using same_rows_intact [OF assms(1)] sync_same [OF assms(2,3)] by metis

text \<open>What a restart forgets: who was signed in, a closed shift, and how far a failed write had
  pushed the chain.\<close>

definition restarted :: "terminal \<Rightarrow> terminal" where
  "restarted t = t\<lparr>tm_chain := chain_resume (di_device_id (tm_identity t)) (store_tip (tm_store t)),
     tm_shift := running_shift t, tm_session := SignedOut\<rparr>"

lemma load_intact:
  assumes "intact cd wr me t"
  shows "load cd wr (tm_store t) me = Inr (restarted t)" and "intact cd wr me (restarted t)"
proof -
  let ?d = "di_device_id me"
  obtain p where p: "log_projection wr ?d (tm_store t) = Inr p" "mirrors ?d p t" and me: "tm_identity t = me"
    and own: "own_log cd ?d (tm_store t) (tm_chain t)" using assms by (auto simp: intact_def)
  note reads = own_log_reads [OF own]
  have m: "pj_book p = tm_book t" "pj_stock p = tm_stock t" "pj_staff p = tm_staff t" "pj_catalogue p = tm_catalogue t"
    "pj_floor p = tm_floor t" "fiscal_resume ?d (pj_fiscal_tip p) = tm_fiscal t" "pj_outlet p = tm_outlet t"
    "replay_orders (pj_purchases p) = tm_orders t" "latest_open_shift (pj_shifts p) = Inr (running_shift t)"
    using p(2) replay_same_orders by (auto simp: mirrors_def)
  show "load cd wr (tm_store t) me = Inr (restarted t)"
    using p(1) by (simp add: load_def reads log_projection_def m restarted_def me)
  have "mirrors ?d p (restarted t)"
    using p(2) by (auto simp: mirrors_def restarted_def running_shift_def split: option.splits)
  moreover have "own_log cd ?d (tm_store t) (chain_resume ?d (store_tip (tm_store t)))"
    using own by (simp add: own_log_def own_chain_def chain_resume_def)
  ultimately show "intact cd wr me (restarted t)" using p(1) me by (auto simp: intact_def restarted_def)
qed

lemma lived_intact:
  assumes "faithful_wire wr" and "lived cd wr me t"
  shows "intact cd wr me t"
  using assms(2)
proof (induction rule: lived.induct)
  case (first_start t)
  let ?st = "store_open (di_device_id me)"
  have tip: "store_tip ?st = tip_genesis" by (simp add: store_open_def store_tip_def tip_within_def)
  have t: "tm_identity t = me" "tm_store t = ?st" "tm_chain t = chain_resume (di_device_id me) tip_genesis"
    "mirrors (di_device_id me) no_projections t"
    using first_start tip by (auto simp: load_def res_simps load_projection_input_def store_open_def
        mirrors_def no_projections_def same_orders_def replay_orders_def bt_collect_def List.map_filter_simps
        latest_open_shift_def running_shift_def)
  then show ?case using tip
    by (auto simp: intact_def own_log_def own_chain_def stored_log_def store_open_def log_projection_def chain_resume_def)
next
  case (acts t a io t' r)
  then show ?case using perform_intact [OF assms(1), of cd me t a io] by simp
next
  case (signs t p)
  then show ?case by (auto simp: intact_def)
next
  case (syncs t tp now t' r)
  then show ?case using sync_intact by metis
next
  case (restarts t t')
  then show ?case using load_intact [of cd wr me t] by simp
qed


section \<open>Invoices on the log\<close>

definition invoices_in :: "wire \<Rightarrow> till_event list \<Rightarrow> (invoice_seal \<times> json) list" where
  "invoices_in wr evs = List.map_filter (\<lambda>ev. case ev of
     FiscalEv (InvoiceIssued s c _ _) \<Rightarrow> Some (s, wr_content wr c) | _ \<Rightarrow> None) evs"

definition invoices_ok :: "codec \<Rightarrow> wire \<Rightarrow> terminal \<Rightarrow> bool" where
  "invoices_ok cd wr t \<longleftrightarrow>
     try_fold (verify_seal cd) fiscal_genesis (invoices_in wr (decoded wr (tm_store t))) = Inr (fiscal_tip_of (tm_fiscal t))"

lemma invoices_in_append: "invoices_in wr (evs @ fs) = invoices_in wr evs @ invoices_in wr fs"
  by (simp add: invoices_in_def map_filter_append)

definition keeps_fiscal :: "(terminal \<Rightarrow> terminal) \<Rightarrow> bool" where
  "keeps_fiscal f \<longleftrightarrow> (\<forall>t. tm_fiscal (f t) = tm_fiscal t \<and> tm_store (f t) = tm_store t)"

lemma record_invoices:
  assumes "faithful_wire wr" and "intact cd wr me t" and "next_key (tm_store t) i at" and "invoices_ok cd wr t"
    and "\<And>c. keeps_fiscal (f c)" and "invoices_in wr [ev] = []"
  shows "invoices_ok cd wr (fst (case r of Inl e \<Rightarrow> (t, Inl (g e)) | Inr c \<Rightarrow> adopting (f c) (seal cd wr io t ev i at)))"
proof (cases r)
  case (Inr c)
  obtain t' q where s: "seal cd wr io t ev i at = (t', q)" by fastforce
  from assms(1-3) s show ?thesis
    using assms(4-6) by (cases rule: seal_cases)
      (auto simp: Inr s adopting_def invoices_ok_def invoices_in_append keeps_fiscal_def)
qed (use assms(4) in simp)

lemma keeps_fiscal_updates:
  "keeps_fiscal (tm_book_update (\<lambda>_. b))" "keeps_fiscal (tm_shift_update (\<lambda>_. s))"
  "keeps_fiscal (tm_stock_update (\<lambda>_. k))" "keeps_fiscal (tm_catalogue_update (\<lambda>_. c))"
  "keeps_fiscal (tm_floor_update (\<lambda>_. f))" "keeps_fiscal (tm_staff_update (\<lambda>_. dir))"
  "keeps_fiscal (tm_outlet_update (\<lambda>_. oc))" "keeps_fiscal (tm_orders_update g)"
  by (simp_all add: keeps_fiscal_def)

lemma receipt_invoices:
  assumes "faithful_wire wr" and "intact cd wr me t" and "next_key (tm_store t) i at" and "i < j" and "invoices_ok cd wr t"
  shows "invoices_ok cd wr (fst (record_receipt cd wr io t ev stock at i j))"
proof -
  obtain t' q where s: "seal_both cd wr io t (PurchaseEv ev) i (StockEv stock) j at = (t', q)" by fastforce
  from assms(1-4) s have "invoices_ok cd wr t'"
    using assms(5) by (cases rule: seal_both_cases)
      (auto simp: invoices_ok_def invoices_in_append, simp add: invoices_in_def List.map_filter_simps)
  then show ?thesis using assms(5)
    by (auto simp: record_receipt_def adopting_def s invoices_ok_def split: sum.split)
qed

lemma complete_invoices:
  assumes "faithful_wire wr" and "intact cd wr me t" and "next_key (tm_store t) i at" and "i < j" and "invoices_ok cd wr t"
  shows "invoices_ok cd wr (fst (till_complete_sale cd wr io t ev reg by at i j))"
proof (cases "invoice_candidate cd wr t ev reg at")
  case (Inr x)
  obtain b content chain s where x: "x = (b, content, chain, s)" by (cases x)
  have v: "verify_seal cd (fiscal_tip_of (tm_fiscal t)) (s, wr_content wr content) = Inr (fiscal_tip_of chain)"
    using fiscal_seal_ok [OF invoice_candidate_Inr(2) [OF Inr [unfolded x]]] .
  obtain t' q where sb: "seal_both cd wr io t (SaleEv ev) i (FiscalEv (InvoiceIssued s content at by)) j at = (t', q)"
    by fastforce
  have two: "invoices_in wr [SaleEv ev, FiscalEv (InvoiceIssued s content at by)] = [(s, wr_content wr content)]"
    by (simp add: invoices_in_def List.map_filter_simps)
  from assms(1-4) sb show ?thesis
    using assms(5) v by (cases rule: seal_both_cases)
      (auto simp: till_complete_sale_def Inr x sb adopting_def invoices_ok_def invoices_in_append two try_fold_append)
qed (use assms(5) in \<open>simp add: till_complete_sale_def\<close>)

lemma perform_invoices:
  assumes "faithful_wire wr" and "intact cd wr me t" and "fresh wr (tm_store t) a" and "invoices_ok cd wr t"
  shows "invoices_ok cd wr (fst (perform cd wr io t a))"
proof -
  note rec = record_invoices [OF assms(1,2) _ assms(4) keeps_fiscal_updates(1)] record_invoices [OF assms(1,2) _ assms(4) keeps_fiscal_updates(2)]
    record_invoices [OF assms(1,2) _ assms(4) keeps_fiscal_updates(3)] record_invoices [OF assms(1,2) _ assms(4) keeps_fiscal_updates(4)]
    record_invoices [OF assms(1,2) _ assms(4) keeps_fiscal_updates(5)] record_invoices [OF assms(1,2) _ assms(4) keeps_fiscal_updates(6)]
    record_invoices [OF assms(1,2) _ assms(4) keeps_fiscal_updates(7)] record_invoices [OF assms(1,2) _ assms(4) keeps_fiscal_updates(8)]
  have none: "invoices_in wr [SaleEv e1] = []" "invoices_in wr [ShiftEv e2] = []" "invoices_in wr [StockEv e3] = []"
    "invoices_in wr [PurchaseEv e4] = []" "invoices_in wr [CatalogueEv e5] = []" "invoices_in wr [FloorEv e6] = []"
    "invoices_in wr [StaffEv e7] = []" "invoices_in wr [OutletEv e8] = []" for e1 e2 e3 e4 e5 e6 e7 e8
    by (simp_all add: invoices_in_def List.map_filter_simps)
  show ?thesis
  proof (cases a)
    case (RecordSale ev i at)
    with assms(3) show ?thesis
      by (simp only: perform.simps outcome_fst fresh.simps record_sale_def) (rule rec(1) [OF _ none(1)], simp)
  next
    case (RecordShift ev i at)
    with assms(3) show ?thesis
      by (simp only: perform.simps outcome_fst fresh.simps record_shift_def) (rule rec(2) [OF _ none(2)], simp)
  next
    case (RecordStock ev i at)
    with assms(3) show ?thesis
      by (simp only: perform.simps outcome_fst fresh.simps record_stock_def) (rule rec(3) [OF _ none(3)], simp)
  next
    case (RecordPurchase ev i at)
    with assms(3) show ?thesis
      by (simp only: perform.simps outcome_fst fresh.simps record_purchase_def) (rule rec(8) [OF _ none(4)], simp)
  next
    case (RecordCatalogue ev i at)
    with assms(3) show ?thesis
      by (simp only: perform.simps outcome_fst fresh.simps record_catalogue_def) (rule rec(4) [OF _ none(5)], simp)
  next
    case (RecordFloor ev i at)
    with assms(3) show ?thesis
      by (simp only: perform.simps outcome_fst fresh.simps record_floor_def) (rule rec(5) [OF _ none(6)], simp)
  next
    case (RecordStaff ev i at)
    with assms(3) show ?thesis
      by (simp only: perform.simps outcome_fst fresh.simps record_staff_def) (rule rec(6) [OF _ none(7)], simp)
  next
    case (RecordOutlet ev i at)
    with assms(3) show ?thesis
      by (simp only: perform.simps outcome_fst fresh.simps record_outlet_def) (rule rec(7) [OF _ none(8)], simp)
  qed (use assms(3,4) complete_invoices [OF assms(1,2)] receipt_invoices [OF assms(1,2)] in simp_all)
qed


lemma lived_invoices:
  assumes "faithful_wire wr" and "lived cd wr me t"
  shows "invoices_ok cd wr t"
  using assms(2)
proof (induction rule: lived.induct)
  case (first_start t)
  then have "decoded wr (tm_store t) = []" "tm_fiscal t = fiscal_resume (di_device_id me) fiscal_genesis"
    by (auto simp: load_def res_simps load_projection_input_def store_open_def no_projections_def decoded_def
        stored_log_def List.map_filter_simps)
  then show ?case
    by (simp add: invoices_ok_def invoices_in_def List.map_filter_simps fiscal_resume_def fiscal_tip_of_def counter_resume_def)
next
  case (acts t a io t' r)
  then show ?case using perform_invoices [OF assms(1) lived_intact [OF assms(1)], of cd me t a io] by simp
next
  case (signs t p)
  then show ?case by (simp add: invoices_ok_def)
next
  case (syncs t tp now t' r)
  have i: "intact cd wr me t" "intact cd wr me t'"
    using lived_intact [OF assms(1)] syncs.hyps lived.syncs by blast+
  note same = sync_same [OF syncs.hyps(2,3)]
  have "tm_fiscal (t\<lparr>tm_store := st\<rparr>) = tm_fiscal t" for st by simp
  with same have "tm_fiscal t' = tm_fiscal t" by metis
  then show ?case using syncs.IH same_rows_log(1) [OF same [THEN conjunct1]] by (simp add: invoices_ok_def decoded_def)
next
  case (restarts t t')
  then show ?case using load_intact(1) [OF lived_intact [OF assms(1) restarts.hyps(1)]]
    by (auto simp: invoices_ok_def restarted_def)
qed

lemma verified_counters:
  "try_fold (verify_seal cd) u xs = Inr v \<Longrightarrow>
     map (is_counter \<circ> fst) xs = map (\<lambda>i. ft_counter u + 1 + int i) [0..<length xs] \<and> ft_counter v = ft_counter u + int (length xs)"
proof (induction xs arbitrary: u)
  case (Cons x xs)
  obtain s c where x: "x = (s, c)" by (cases x)
  from Cons.prems obtain m where m: "verify_seal cd u (s, c) = Inr m" "try_fold (verify_seal cd) m xs = Inr v"
    by (auto simp: x res_simps)
  with Cons.IH [OF m(2)] show ?case
    by (auto simp: x verify_seal_Inr upt_conv_Cons map_Suc_upt [symmetric] simp del: upt_Suc)
qed simp

end
