(* ===== verification/Recovery.thy ===== *)
theory Recovery
  imports Restart
begin

text \<open>
  What a till promises across restarts and failed writes, and what it does not: the properties of
  \<open>Terminal\<close> that rest on \<open>Restart\<close>, and the cases in which an event of another device or a clock set
  back breaks them.
\<close>

section \<open>After a failed write\<close>

text \<open>The chain stands past the log.\<close>

definition wedged :: "codec \<Rightarrow> device_identity \<Rightarrow> terminal \<Rightarrow> bool" where
  "wedged cd me t \<longleftrightarrow> own_log cd (di_device_id me) (tm_store t) (tm_chain t) \<and> ec_tip (tm_chain t) \<noteq> store_tip (tm_store t)"

definition refuses :: "codec \<Rightarrow> device_identity \<Rightarrow> terminal \<Rightarrow> terminal \<times> (terminal_error + 'a) \<Rightarrow> bool" where
  "refuses cd me t r \<longleftrightarrow> (\<exists>e. snd r = Inl e) \<and> tm_store (fst r) = tm_store t \<and> wedged cd me (fst r)"

lemma wedged_seal:
  assumes "wedged cd me t"
  shows "refuses cd me t (adopting f (seal cd wr io t ev i at))"
proof (cases "append_event cd (tm_chain t) (till_header t i at) (event_kind ev) (wr_write wr ev)")
  case (Inl e)
  with assms show ?thesis by (simp add: refuses_def seal_def adopting_def)
next
  case (Inr ce)
  obtain c e where a: "append_event cd (tm_chain t) (till_header t i at) (event_kind ev) (wr_write wr ev) = Inr (c, e)"
    using Inr by (cases ce) auto
  have own: "own_log cd (di_device_id me) (tm_store t) (tm_chain t)" and ne: "ec_tip (tm_chain t) \<noteq> store_tip (tm_store t)"
    using assms by (simp_all add: wedged_def)
  obtain err where "append_within io (tm_store t) e = Inl err" using append_own_log(3) [OF own a ne] by blast
  with a append_own_log(1,4) [OF own a] show ?thesis by (simp add: refuses_def seal_def adopting_def wedged_def)
qed

lemma wedged_seal_both:
  assumes "wedged cd me t"
  shows "refuses cd me t (adopting f (seal_both cd wr io t ev i ev' j at))"
proof (cases "append_event cd (tm_chain t) (till_header t i at) (event_kind ev) (wr_write wr ev)")
  case (Inl e)
  with assms show ?thesis by (simp add: refuses_def seal_both_def adopting_def)
next
  case (Inr ce)
  obtain c e where a: "append_event cd (tm_chain t) (till_header t i at) (event_kind ev) (wr_write wr ev) = Inr (c, e)"
    using Inr by (cases ce) auto
  have own: "own_log cd (di_device_id me) (tm_store t) (tm_chain t)" and ne: "ec_tip (tm_chain t) \<noteq> store_tip (tm_store t)"
    using assms by (simp_all add: wedged_def)
  obtain err where err: "append_within io (tm_store t) e = Inl err" using append_own_log(3) [OF own a ne] by blast
  note own' = append_own_log(1,4) [OF own a]
  show ?thesis
  proof (cases "append_event cd c (till_header t j at) (event_kind ev') (wr_write wr ev')")
    case (Inl e')
    with a own' show ?thesis by (simp add: refuses_def seal_both_def adopting_def wedged_def till_header_def)
  next
    case (Inr ce')
    obtain c' e' where a': "append_event cd c (till_header t j at) (event_kind ev') (wr_write wr ev') = Inr (c', e')"
      using Inr by (cases ce') auto
    from a err append_own_log(1,4) [OF own'(1) a'] a' show ?thesis
      by (simp add: refuses_def seal_both_def adopting_def wedged_def till_header_def Let_def store_append_all_def)
  qed
qed

lemma refuses_self: "wedged cd me t \<Longrightarrow> refuses cd me t (t, Inl e)"
  by (simp add: refuses_def)

lemma refuses_outcome [simp]: "refuses cd me t (outcome r) \<longleftrightarrow> refuses cd me t r"
  by (cases "snd r") (auto simp: refuses_def outcome_def)

lemma refuses_map_ok [simp]: "refuses cd me t (fst r, map_ok g (snd r)) \<longleftrightarrow> refuses cd me t r"
  by (cases "snd r") (auto simp: refuses_def)

lemma wedged_perform: "wedged cd me t \<Longrightarrow> refuses cd me t (perform cd wr io t a)"
  by (cases a) (auto simp: recorder_defs till_complete_sale_def record_receipt_def split_beta
      intro: refuses_self wedged_seal wedged_seal_both split: sum.split)


definition perform_all :: "codec \<Rightarrow> wire \<Rightarrow> terminal \<Rightarrow> (bool \<times> till_action) list \<Rightarrow> terminal" where
  "perform_all cd wr t bs = foldl (\<lambda>t (io, b). fst (perform cd wr io t b)) t bs"

lemma wedged_run:
  "wedged cd me t \<Longrightarrow> wedged cd me (perform_all cd wr t bs) \<and> tm_store (perform_all cd wr t bs) = tm_store t"
proof (induction bs rule: rev_induct)
  case (snoc x bs)
  obtain io b where x: "x = (io, b)" by (cases x)
  from snoc wedged_perform [of cd me "perform_all cd wr t bs" wr io b] show ?case
    by (simp add: x perform_all_def refuses_def)
qed (simp add: perform_all_def)

lemma seal_failed:
  assumes "own_log cd (di_device_id me) (tm_store t) (tm_chain t)" and "seal cd wr io t ev i at = (t', Inl (TermStore e))"
  shows "wedged cd me t' \<and> tm_store t' = tm_store t"
proof -
  from assms(2) obtain c env where a: "append_event cd (tm_chain t) (till_header t i at) (event_kind ev) (wr_write wr ev) = Inr (c, env)"
    and t': "t' = t\<lparr>tm_chain := c\<rparr>"
    by (auto simp: seal_def Let_def split: sum.splits)
  from append_own_log(1,4) [OF assms(1) a] t' show ?thesis by (simp add: wedged_def)
qed

lemma seal_both_failed:
  assumes "own_log cd (di_device_id me) (tm_store t) (tm_chain t)"
    and "seal_both cd wr io t ev i ev' j at = (t', Inl (TermStore e))"
  shows "wedged cd me t' \<and> tm_store t' = tm_store t"
proof -
  from assms(2) obtain c c' e1 e2 where
    a: "append_event cd (tm_chain t) (till_header t i at) (event_kind ev) (wr_write wr ev) = Inr (c, e1)"
    and a': "append_event cd c (till_header t j at) (event_kind ev') (wr_write wr ev') = Inr (c', e2)"
    and t': "t' = t\<lparr>tm_chain := c'\<rparr>"
    by (auto simp: seal_both_def Let_def till_header_def split: sum.splits)
  from append_own_log(1,4) [OF append_own_log(1) [OF assms(1) a] a'] t' show ?thesis by (simp add: wedged_def)
qed

lemma outcome_Inl: "outcome r = (t', Inl e) \<Longrightarrow> \<exists>s. r = (s, Inl e) \<and> s = t'"
  by (cases r; cases "snd r") (auto simp: outcome_def)

lemma adopting_Inl: "adopting f r = (t', Inl e) \<Longrightarrow> r = (t', Inl e)"
  by (auto simp: adopting_def split: sum.splits)

lemma map_err_Inl_iff: "map_err f r = Inl x \<longleftrightarrow> (\<exists>e. r = Inl e \<and> x = f e)"
  by (cases r) auto

text \<open>No validation reports a failure of the store.\<close>

lemma valid_no_store:
  "assert_may_write t ev now \<noteq> Inl (TermStore e)"
  "shift_candidate t sev \<noteq> Inl (TermStore e)"
  "invoice_candidate cd wr t ev reg at \<noteq> Inl (TermStore e)"
proof -
  show w: "assert_may_write t ev now \<noteq> Inl (TermStore e)" for ev now
    by (auto simp: assert_may_write_def split: sale_event.splits option.splits claim_verdict.splits)
  show "shift_candidate t sev \<noteq> Inl (TermStore e)"
    by (auto simp: shift_candidate_def map_err_Inl_iff split: option.splits shift_event.splits)
  show "invoice_candidate cd wr t ev reg at \<noteq> Inl (TermStore e)"
    by (auto simp: invoice_candidate_def and_then_Inl_iff map_err_Inl_iff w Let_def split: prod.splits)
qed

lemma map_ok_Inl_iff: "map_ok f r = Inl e \<longleftrightarrow> r = Inl e"
  by (cases r) auto

lemma perform_failed:
  assumes "own_log cd (di_device_id me) (tm_store t) (tm_chain t)" and "perform cd wr io t a = (t', Inl (TermStore e))"
  shows "wedged cd me t' \<and> tm_store t' = tm_store t"
proof -
  note f = seal_failed [OF assms(1)] seal_both_failed [OF assms(1)]
  show ?thesis
    using assms(2)
    by (cases a) (auto simp: recorder_defs till_complete_sale_def record_receipt_def and_then_Inl_iff
        map_err_Inl_iff map_ok_Inl_iff valid_no_store dest!: outcome_Inl adopting_Inl dest: f split: sum.splits prod.splits)
qed


section \<open>A till for the examples\<close>

text \<open>A wire that writes the events of one table as their position in it, and an invoice as its seal;
  what is not in the table cannot be written.\<close>

fun position :: "till_event list \<Rightarrow> till_event \<Rightarrow> nat option" where
  "position [] ev = None"
| "position (x # xs) ev = (if x = ev then Some 0 else map_option Suc (position xs ev))"

lemma position_Some: "position xs ev = Some i \<Longrightarrow> i < length xs \<and> xs ! i = ev"
  by (induction xs arbitrary: i) (auto split: if_splits)

definition seal_json :: "invoice_seal \<Rightarrow> timestamp \<Rightarrow> uuid \<Rightarrow> json" where
  "seal_json s at by = JArray
     [JInt (int (is_device_id s)), JInt (is_counter s), JInt (int (is_sale_id s)), JInt (millis (is_issued_at s)),
      JArray (map (\<lambda>n. JInt (int n)) (is_previous_hash s)), JArray (map (\<lambda>n. JInt (int n)) (is_hash s)),
      JInt (millis at), JInt (int by)]"

fun int_of :: "json \<Rightarrow> int" where
  "int_of (JInt n) = n"
| "int_of _ = 0"

fun nats_of :: "json \<Rightarrow> nat list" where
  "nats_of (JArray js) = map (\<lambda>j. nat (int_of j)) js"
| "nats_of _ = []"

lemma nats_of_map: "nats_of (JArray (map (\<lambda>n. JInt (int n)) ns)) = ns"
  by (induction ns) auto

fun read_seal :: "invoice_content \<Rightarrow> json \<Rightarrow> fiscal_event option" where
  "read_seal c (JArray js) =
     (if length js = 8
      then Some (InvoiceIssued
        \<lparr>is_device_id = nat (int_of (js ! 0)), is_counter = int_of (js ! 1), is_sale_id = nat (int_of (js ! 2)),
         is_issued_at = \<lparr>millis = int_of (js ! 3)\<rparr>, is_previous_hash = nats_of (js ! 4), is_hash = nats_of (js ! 5)\<rparr>
        c \<lparr>millis = int_of (js ! 6)\<rparr> (nat (int_of (js ! 7))))
      else None)"
| "read_seal c _ = None"

lemma read_seal_json: "read_seal c (seal_json s at by) = Some (InvoiceIssued s c at by)"
  by (simp add: seal_json_def nats_of_map del: nats_of.simps)

fun from_table :: "till_event list \<Rightarrow> json \<Rightarrow> till_event option" where
  "from_table evs (JInt n) = (if nat n < length evs then Some (evs ! nat n) else None)"
| "from_table evs _ = None"

definition table_wire :: "till_event list \<Rightarrow> invoice_content \<Rightarrow> wire" where
  "table_wire evs content =
     \<lparr>wr_write = (\<lambda>ev. case ev of
        FiscalEv (InvoiceIssued s c at by) \<Rightarrow> if c = content then Inr (seal_json s at by) else Inl ''another content''
      | _ \<Rightarrow> (case position evs ev of None \<Rightarrow> Inl ''not in the table'' | Some i \<Rightarrow> Inr (JInt (int i)))),
      wr_content = (\<lambda>c. JString (iv_regime c)),
      wr_sale = (\<lambda>j. case from_table evs j of Some (SaleEv e) \<Rightarrow> Some e | _ \<Rightarrow> None),
      wr_shift = (\<lambda>j. case from_table evs j of Some (ShiftEv e) \<Rightarrow> Some e | _ \<Rightarrow> None),
      wr_stock = (\<lambda>j. case from_table evs j of Some (StockEv e) \<Rightarrow> Some e | _ \<Rightarrow> None),
      wr_purchase = (\<lambda>j. case from_table evs j of Some (PurchaseEv e) \<Rightarrow> Some e | _ \<Rightarrow> None),
      wr_catalogue = (\<lambda>j. case from_table evs j of Some (CatalogueEv e) \<Rightarrow> Some e | _ \<Rightarrow> None),
      wr_floor = (\<lambda>j. case from_table evs j of Some (FloorEv e) \<Rightarrow> Some e | _ \<Rightarrow> None),
      wr_staff = (\<lambda>j. case from_table evs j of Some (StaffEv e) \<Rightarrow> Some e | _ \<Rightarrow> None),
      wr_outlet = (\<lambda>j. case from_table evs j of Some (OutletEv e) \<Rightarrow> Some e | _ \<Rightarrow> None),
      wr_fiscal = read_seal content\<rparr>"

lemma read_by_family:
  "read_event wr (event_kind ev) v = (case ev of
      SaleEv _ \<Rightarrow> map_option SaleEv (wr_sale wr v) | ShiftEv _ \<Rightarrow> map_option ShiftEv (wr_shift wr v)
    | StockEv _ \<Rightarrow> map_option StockEv (wr_stock wr v) | PurchaseEv _ \<Rightarrow> map_option PurchaseEv (wr_purchase wr v)
    | CatalogueEv _ \<Rightarrow> map_option CatalogueEv (wr_catalogue wr v) | FloorEv _ \<Rightarrow> map_option FloorEv (wr_floor wr v)
    | StaffEv _ \<Rightarrow> map_option StaffEv (wr_staff wr v) | OutletEv _ \<Rightarrow> map_option OutletEv (wr_outlet wr v)
    | FiscalEv _ \<Rightarrow> map_option FiscalEv (wr_fiscal wr v))"
proof (cases ev)
  case (SaleEv e)
  then show ?thesis by (cases e) (simp_all add: read_event_def kind_in_def)
next
  case (ShiftEv e)
  then show ?thesis by (cases e) (simp_all add: read_event_def kind_in_def)
next
  case (StockEv e)
  then show ?thesis by (cases e) (simp_all add: read_event_def kind_in_def)
next
  case (PurchaseEv e)
  then show ?thesis by (cases e) (simp_all add: read_event_def kind_in_def)
next
  case (CatalogueEv e)
  then show ?thesis by (cases e) (simp_all add: read_event_def kind_in_def)
next
  case (FloorEv e)
  then show ?thesis by (cases e) (simp_all add: read_event_def kind_in_def)
next
  case (StaffEv e)
  then show ?thesis by (cases e) (simp_all add: read_event_def kind_in_def)
next
  case (OutletEv e)
  then show ?thesis by (cases e) (simp_all add: read_event_def kind_in_def)
next
  case (FiscalEv e)
  then show ?thesis by (cases e) (simp_all add: read_event_def kind_in_def)
qed

lemma table_wire_faithful: "faithful_wire (table_wire evs content)"
  unfolding faithful_wire_def read_by_family
  by (auto simp: table_wire_def read_seal_json dest!: position_Some
      split: till_event.splits fiscal_event.splits option.splits if_splits)


text \<open>Acting as long as every action is fresh.\<close>

fun live_run :: "codec \<Rightarrow> wire \<Rightarrow> terminal \<Rightarrow> (bool \<times> till_action) list \<Rightarrow> terminal option" where
  "live_run cd wr t [] = Some t"
| "live_run cd wr t ((io, a) # as) =
     (if fresh wr (tm_store t) a then live_run cd wr (fst (perform cd wr io t a)) as else None)"

lemma lived_run: "lived cd wr me t \<Longrightarrow> live_run cd wr t as = Some t' \<Longrightarrow> lived cd wr me t'"
proof (induction as arbitrary: t)
  case (Cons x as)
  obtain io a where x: "x = (io, a)" by (cases x)
  from Cons.prems have f: "fresh wr (tm_store t) a" "live_run cd wr (fst (perform cd wr io t a)) as = Some t'"
    by (auto simp: x split: if_splits)
  show ?case by (rule Cons.IH [OF acts [OF Cons.prems(1) f(1) prod.collapse [symmetric]] f(2)])
qed simp

definition sample_me :: device_identity where
  "sample_me = \<lparr>di_tenant_id = 1, di_outlet_id = 2, di_device_id = 3\<rparr>"

text \<open>A codec that is quick to evaluate: the digest is the numbers of the outermost object.\<close>

fun own_numbers :: "json \<Rightarrow> nat list" where
  "own_numbers (JObject kvs) = concat (map (\<lambda>(k, v). case v of JInt n \<Rightarrow> [nat n] | _ \<Rightarrow> []) kvs)"
| "own_numbers _ = []"

definition quick_codec :: codec where
  "quick_codec = \<lparr>cd_to_vec = (\<lambda>v. Inr (own_numbers v)), cd_sha256 = (\<lambda>b. b), cd_hex = (\<lambda>_. []), cd_uuid = (\<lambda>_. [])\<rparr>"

definition short_sale :: "sale_event list" where
  "short_sale = [sample_opening, sample_item 11 10000, TenderRecorded 1 22 Cash (taka 10000) None,
     Completed 1 (taka 10000) (taka 0) \<lparr>millis = 77\<rparr>]"

definition sample_content :: invoice_content where
  "sample_content = \<lparr>iv_totals = projr (and_then (sale_replay short_sale) sale_totals), iv_regime = ''none''\<rparr>"

text \<open>The till's store after a round of sync brought one event of another device, later than its own.\<close>

definition sibling_event :: "event_store \<Rightarrow> event_envelope \<Rightarrow> event_store \<Rightarrow> bool" where
  "sibling_event st e st' \<longleftrightarrow> (\<exists>seq. insert_remote st e seq = Inr (st', True)) \<and> en_device_id e \<noteq> es_device_id st
     \<and> next_key st (en_event_id e) (en_occurred_at e)"

definition first_shift :: till_action where
  "first_shift = RecordShift (ShiftOpened 50 7 Bdt (taka 0) \<lparr>millis = 1\<rparr>) 100 \<lparr>millis = 1\<rparr>"

definition day_table :: "till_event list" where
  "day_table = map SaleEv short_sale @
     [ShiftEv (ShiftOpened 50 7 Bdt (taka 0) \<lparr>millis = 1\<rparr>),
      ShiftEv (ShiftOpened 51 8 Bdt (taka 0) \<lparr>millis = 90\<rparr>),
      StockEv (StockIssued 70 \<lparr>milli = 1000\<rparr> Wastage None \<lparr>millis = 90\<rparr> 8)]"

definition day_wire :: wire where
  "day_wire = table_wire day_table sample_content"

lemma day_wire_faithful: "faithful_wire day_wire"
  unfolding day_wire_def by (rule table_wire_faithful)

definition first_till :: terminal where
  "first_till = projr (load quick_codec day_wire (store_open 3) sample_me)"

definition ring_up :: "uuid \<Rightarrow> sale_event list \<Rightarrow> (bool \<times> till_action) list" where
  "ring_up n sale = map (\<lambda>(i, ev). (True, RecordSale ev i \<lparr>millis = int i\<rparr>)) (zip [n..<n + 3] sale)"

definition day_actions :: "(bool \<times> till_action) list" where
  "day_actions = (True, first_shift) # ring_up 101 short_sale
     @ [(True, CompleteSale (Completed 1 (taka 10000) (taka 0) \<lparr>millis = 77\<rparr>) ''none'' 7 \<lparr>millis = 177\<rparr> 110 111)]"

definition day_till :: terminal where
  "day_till = the (live_run quick_codec day_wire first_till day_actions)"

lemma first_till_lived: "lived quick_codec day_wire sample_me first_till"
proof -
  have "is_ok (load quick_codec day_wire (store_open 3) sample_me)" by code_simp
  then have "load quick_codec day_wire (store_open (di_device_id sample_me)) sample_me = Inr first_till"
    by (auto simp: first_till_def sample_me_def is_ok_iff)
  then show ?thesis by (rule first_start)
qed

lemma day_till_facts:
  "\<exists>t. live_run quick_codec day_wire first_till day_actions = Some t
    \<and> map s_status (bt_values (tm_book t)) = [StatusCompleted] \<and> map_option sh_id (tm_shift t) = Some 50
    \<and> ft_counter (fiscal_tip_of (tm_fiscal t)) = 1 \<and> length (es_rows (tm_store t)) = 6
    \<and> es_device_id (tm_store t) = 3 \<and> ec_tip (tm_chain t) = store_tip (tm_store t)
    \<and> list_all (\<lambda>e. time_key e < (300, 300)) (stored_log (tm_store t))
    \<and> list_all (\<lambda>e. en_event_id e \<noteq> 300 \<and> en_device_id e = 3) (stored_log (tm_store t))
    \<and> used_shifts day_wire (tm_store t) = [50]
    \<and> inventory_apply (tm_stock t) (StockIssued 70 \<lparr>milli = 1000\<rparr> Wastage None \<lparr>millis = 90\<rparr> 8) = Inl (UnknownBatch 70)"
proof -
  have "(case live_run quick_codec day_wire first_till day_actions of None \<Rightarrow> False | Some t \<Rightarrow>
      map s_status (bt_values (tm_book t)) = [StatusCompleted] \<and> map_option sh_id (tm_shift t) = Some 50
    \<and> ft_counter (fiscal_tip_of (tm_fiscal t)) = 1 \<and> length (es_rows (tm_store t)) = 6
    \<and> es_device_id (tm_store t) = 3 \<and> ec_tip (tm_chain t) = store_tip (tm_store t)
    \<and> list_all (\<lambda>e. time_key e < (300, 300)) (stored_log (tm_store t))
    \<and> list_all (\<lambda>e. en_event_id e \<noteq> 300 \<and> en_device_id e = 3) (stored_log (tm_store t))
    \<and> used_shifts day_wire (tm_store t) = [50]
    \<and> inventory_apply (tm_stock t) (StockIssued 70 \<lparr>milli = 1000\<rparr> Wastage None \<lparr>millis = 90\<rparr> 8) = Inl (UnknownBatch 70))"
    by code_simp
  then show ?thesis by (cases "live_run quick_codec day_wire first_till day_actions") simp_all
qed

lemma day_till_lived: "lived quick_codec day_wire sample_me day_till"
  using lived_run [OF first_till_lived] day_till_facts by (auto simp: day_till_def)

text \<open>What a sibling device sent, and the store after a round of sync brought it.\<close>

definition sibling_envelope :: "string \<Rightarrow> json \<Rightarrow> event_envelope" where
  "sibling_envelope k v = \<lparr>en_event_id = 300, en_tenant_id = 1, en_outlet_id = 2, en_device_id = 4, en_device_seq = 1,
     en_occurred_at = \<lparr>millis = 300\<rparr>, en_kind = k, en_payload = v, en_prev_hash = genesis, en_hash = genesis\<rparr>"

definition other_shift :: event_envelope where
  "other_shift = sibling_envelope ''shift.opened'' (JInt 5)"

definition skewed_issue :: event_envelope where
  "skewed_issue = sibling_envelope ''inventory.stock_issued'' (JInt 6)"

definition with_sibling :: "event_envelope \<Rightarrow> event_store" where
  "with_sibling e = fst (projr (insert_remote (tm_store day_till) e 5))"

lemma with_sibling_event: "sibling_event (tm_store day_till) (sibling_envelope k v) (with_sibling (sibling_envelope k v))"
proof -
  obtain t where t: "day_till = t" "es_device_id (tm_store t) = 3" "list_all (\<lambda>e. time_key e < (300, 300)) (stored_log (tm_store t))"
    "list_all (\<lambda>e. en_event_id e \<noteq> 300 \<and> en_device_id e = 3) (stored_log (tm_store t))"
    using day_till_facts by (auto simp: day_till_def)
  then have "\<not> conflicts (tm_store t) (sibling_envelope k v)"
    by (auto simp: conflicts_def list_ex_iff list_all_iff stored_log_def sibling_envelope_def)
  then show ?thesis using t
    by (auto simp: sibling_event_def with_sibling_def insert_remote_def sibling_envelope_def in_i64_def next_key_def)
qed

lemma sibling_samples:
  "sibling_event (tm_store day_till) other_shift (with_sibling other_shift)"
  "sibling_event (tm_store day_till) skewed_issue (with_sibling skewed_issue)"
  by (simp_all add: other_shift_def skewed_issue_def with_sibling_event)

text \<open>Two sales, the second still open.\<close>

definition second_sale :: "sale_event list" where
  "second_sale = [Opened 2 900 Bdt TaxInclusive HalfUp,
     LineAdded 2 11 511 (lit ''Item'') (taka 10000) \<lparr>milli = 1000\<rparr> (Standard \<lparr>basis_points = 1500\<rparr>) [],
     TenderRecorded 2 22 Cash (taka 10000) None, Completed 2 (taka 10000) (taka 0) \<lparr>millis = 0\<rparr>]"

definition two_wire :: wire where
  "two_wire = table_wire (map SaleEv (short_sale @ second_sale)) sample_content"

lemma two_wire_faithful: "faithful_wire two_wire"
  unfolding two_wire_def by (rule table_wire_faithful)

definition two_first :: terminal where
  "two_first = projr (load quick_codec two_wire (store_open 3) sample_me)"

definition two_actions :: "(bool \<times> till_action) list" where
  "two_actions = ring_up 101 short_sale
     @ (True, CompleteSale (Completed 1 (taka 10000) (taka 0) \<lparr>millis = 77\<rparr>) ''none'' 7 \<lparr>millis = 177\<rparr> 110 111)
     # ring_up 201 second_sale"

definition two_till :: terminal where
  "two_till = the (live_run quick_codec two_wire two_first two_actions)"

lemma two_till_facts:
  "\<exists>t. live_run quick_codec two_wire two_first two_actions = Some t
    \<and> ft_counter (fiscal_tip_of (tm_fiscal t)) = 1
    \<and> list_all (\<lambda>e. ((0, 121) :: int \<times> uuid) < time_key e) (stored_log (tm_store t))
    \<and> map_ok is_counter (snd (till_complete_sale quick_codec two_wire True t (Completed 2 (taka 10000) (taka 0) \<lparr>millis = 0\<rparr>)
        ''none'' 7 \<lparr>millis = 0\<rparr> 120 121)) = Inr 2"
proof -
  have "(case live_run quick_codec two_wire two_first two_actions of None \<Rightarrow> False | Some t \<Rightarrow>
    ft_counter (fiscal_tip_of (tm_fiscal t)) = 1
    \<and> list_all (\<lambda>e. ((0, 121) :: int \<times> uuid) < time_key e) (stored_log (tm_store t))
    \<and> map_ok is_counter (snd (till_complete_sale quick_codec two_wire True t (Completed 2 (taka 10000) (taka 0) \<lparr>millis = 0\<rparr>)
        ''none'' 7 \<lparr>millis = 0\<rparr> 120 121)) = Inr 2)"
    by code_simp
  then show ?thesis by (cases "live_run quick_codec two_wire two_first two_actions") simp_all
qed

lemma two_till_lived: "lived quick_codec two_wire sample_me two_till"
proof -
  have "is_ok (load quick_codec two_wire (store_open 3) sample_me)" by code_simp
  then have "load quick_codec two_wire (store_open (di_device_id sample_me)) sample_me = Inr two_first"
    by (auto simp: two_first_def sample_me_def is_ok_iff)
  from lived_run [OF first_start [OF this]] two_till_facts show ?thesis by (auto simp: two_till_def)
qed

section \<open>An event of a sibling\<close>

lemma sibling_load:
  assumes "faithful_wire wr" and "lived cd wr me t" and "sibling_event (tm_store t) e st"
  shows "\<exists>p. log_projection wr (di_device_id me) (tm_store t) = Inr p \<and> mirrors (di_device_id me) p t
    \<and> load cd wr st me = and_then (project_envelope wr (di_device_id me) p e) (\<lambda>q.
        and_then (latest_open_shift (pj_shifts q)) (\<lambda>open_shift.
        Inr \<lparr>tm_store = st, tm_chain = chain_resume (di_device_id me) (store_tip (tm_store t)), tm_book = pj_book q,
             tm_shift = open_shift, tm_stock = pj_stock q, tm_staff = pj_staff q, tm_catalogue = pj_catalogue q,
             tm_floor = pj_floor q, tm_fiscal = fiscal_resume (di_device_id me) (pj_fiscal_tip q),
             tm_outlet = pj_outlet q, tm_orders = replay_orders (pj_purchases q), tm_session = SignedOut,
             tm_identity = me\<rparr>))"
proof -
  let ?d = "di_device_id me" and ?st = "tm_store t"
  have i: "intact cd wr me t" by (rule lived_intact [OF assms(1,2)])
  then obtain p where p: "log_projection wr ?d ?st = Inr p" "mirrors ?d p t" and own: "own_log cd ?d ?st (tm_chain t)"
    by (auto simp: intact_def)
  have d: "es_device_id ?st = ?d" "list_all rw_local (es_rows ?st)" using own by (simp_all add: own_log_def own_chain_def)
  obtain seq where st: "st = ?st\<lparr>es_rows := es_rows ?st @
      [\<lparr>rw_event = e, rw_local = False, rw_synced_at = None, rw_server_seq = Some seq\<rparr>]\<rparr>"
    and e: "en_device_id e \<noteq> ?d" "next_key ?st (en_event_id e) (en_occurred_at e)"
    using assms(3) d(1) by (auto simp: sibling_event_def insert_remote_def split: if_splits)
  have log: "stored_log st = stored_log ?st @ [e]" by (simp add: st stored_log_def)
  have "load_all st = load_all ?st" by (simp add: load_all_def st)
  then have all: "verify_chain_from_genesis cd (load_all st) = Inr (store_tip ?st)"
    using own_log_reads [OF own] by simp
  have "sorted_wrt (\<lambda>e f. time_key e < time_key f) (stored_log ?st @ [e])"
    using own e(2) by (auto simp: own_log_def next_key_def list_all_iff sorted_wrt_append time_key_def)
  then have input: "load_projection_input st = stored_log ?st @ [e]"
    by (intro projection_input_sorted strict_keys) (simp_all add: log)
  have tip: "store_tip st = store_tip ?st" using e(1) d(1) by (simp add: store_tip_def tip_within_def st)
  have "load cd wr st me = and_then (project_envelope wr ?d p e) (\<lambda>q.
        and_then (latest_open_shift (pj_shifts q)) (\<lambda>open_shift.
        Inr \<lparr>tm_store = st, tm_chain = chain_resume ?d (store_tip ?st), tm_book = pj_book q,
             tm_shift = open_shift, tm_stock = pj_stock q, tm_staff = pj_staff q, tm_catalogue = pj_catalogue q,
             tm_floor = pj_floor q, tm_fiscal = fiscal_resume ?d (pj_fiscal_tip q),
             tm_outlet = pj_outlet q, tm_orders = replay_orders (pj_purchases q), tm_session = SignedOut,
             tm_identity = me\<rparr>))"
    using p(1) by (cases "project_envelope wr ?d p e")
      (simp_all add: load_def all input log_projection_def try_fold_append tip)
  with p show ?thesis by blast
qed

section \<open>A clock set back\<close>

lemma seal_both_appends:
  assumes "faithful_wire wr" and "own_chain cd (di_device_id me) (tm_store t) (tm_chain t)"
    and "seal_both cd wr io t ev i ev' j at = (t', Inr ())"
  obtains e1 e2 c st where "t' = t\<lparr>tm_chain := c, tm_store := st\<rparr>" and "own_chain cd (di_device_id me) st c"
    and "stored_log st = stored_log (tm_store t) @ [e1, e2]" and "time_key e1 = (millis at, i)" and "time_key e2 = (millis at, j)"
    and "read_event wr (en_kind e1) (en_payload e1) = Some ev" and "read_event wr (en_kind e2) (en_payload e2) = Some ev'"
proof -
  from assms(3) obtain c1 e1 c2 e2 st where
    a1: "append_event cd (tm_chain t) (till_header t i at) (event_kind ev) (wr_write wr ev) = Inr (c1, e1)"
    and a2: "append_event cd c1 (till_header t j at) (event_kind ev') (wr_write wr ev') = Inr (c2, e2)"
    and w: "store_append_all io (tm_store t) [e1, e2] = Inr st" and t': "t' = t\<lparr>tm_chain := c2, tm_store := st\<rparr>"
    by (auto simp: seal_both_def Let_def till_header_def split: sum.splits)
  from w obtain st1 where w1: "append_within io (tm_store t) e1 = Inr st1" and w2: "append_within io st1 e2 = Inr st"
    by (auto simp: store_append_all_def res_simps)
  note b1 = append_own_chain(2) [OF assms(2) a1 w1]
  note b2 = append_own_chain(2) [OF b1 [THEN conjunct1] a2 w2]
  have r: "read_event wr (en_kind e1) (en_payload e1) = Some ev" "read_event wr (en_kind e2) (en_payload e2) = Some ev'"
    using b1 b2 assms(1) by (auto simp: faithful_wire_def)
  have k: "time_key e1 = (millis at, i)" "time_key e2 = (millis at, j)"
    using b1 b2 by (simp_all only: till_header_def event_header.select_convs)
  have "stored_log st = stored_log (tm_store t) @ [e1, e2]" using b1 b2 by simp
  from that [OF t' b2 [THEN conjunct1] this k r] show ?thesis .
qed

definition same_but_book :: "projections \<Rightarrow> projections \<Rightarrow> bool" where
  "same_but_book p q \<longleftrightarrow> pj_stock p = pj_stock q \<and> pj_staff p = pj_staff q \<and> pj_shifts p = pj_shifts q"

definition own_invoice :: "uuid \<Rightarrow> till_event \<Rightarrow> bool" where
  "own_invoice d ev = (case ev of FiscalEv (InvoiceIssued s _ _ _) \<Rightarrow> is_device_id s = d | _ \<Rightarrow> False)"

lemma project_same:
  assumes "same_but_book p q" and "project_event d p ev = Inr p'"
  shows "\<exists>q'. project_event d q ev = Inr q' \<and> same_but_book p' q'
    \<and> (own_invoice d ev \<or> pj_fiscal_tip p = pj_fiscal_tip q \<longrightarrow> pj_fiscal_tip p' = pj_fiscal_tip q')"
  using assms by (cases ev) (auto simp: project_event_def same_but_book_def own_invoice_def res_simps
      split: fiscal_event.splits sum.splits)

lemma run_same:
  "same_but_book p q \<Longrightarrow> try_fold (project_event d) p evs = Inr p' \<Longrightarrow>
     \<exists>q'. try_fold (project_event d) q evs = Inr q' \<and> same_but_book p' q'
       \<and> ((\<exists>ev \<in> set evs. own_invoice d ev) \<or> pj_fiscal_tip p = pj_fiscal_tip q \<longrightarrow> pj_fiscal_tip p' = pj_fiscal_tip q')"
proof (induction evs arbitrary: p q)
  case (Cons ev evs)
  then obtain m where m: "project_event d p ev = Inr m" "try_fold (project_event d) m evs = Inr p'" by (auto simp: res_simps)
  from project_same [OF Cons.prems(1) m(1)] obtain n where n: "project_event d q ev = Inr n" "same_but_book m n"
    "own_invoice d ev \<or> pj_fiscal_tip p = pj_fiscal_tip q \<longrightarrow> pj_fiscal_tip m = pj_fiscal_tip n" by blast
  from Cons.IH [OF n(2) m(2)] n(1,3) show ?case by auto
qed simp

lemma no_own_invoice:
  "try_fold (project_event d) p evs = Inr p' \<Longrightarrow> \<not> (\<exists>ev \<in> set evs. own_invoice d ev) \<Longrightarrow> pj_fiscal_tip p' = pj_fiscal_tip p"
proof (induction evs arbitrary: p)
  case (Cons ev evs)
  then obtain m where m: "project_event d p ev = Inr m" "try_fold (project_event d) m evs = Inr p'" by (auto simp: res_simps)
  moreover have "pj_fiscal_tip m = pj_fiscal_tip p"
    using m(1) Cons.prems(2) by (auto simp: project_event_def own_invoice_def res_simps
        split: till_event.splits fiscal_event.splits sum.splits)
  ultimately show ?case using Cons.IH [OF m(2)] Cons.prems(2) by simp
qed simp


lemma till_complete_sale_Inr:
  assumes "till_complete_sale cd wr io t ev reg by at i j = (t', Inr s)"
  obtains b content chain u where "invoice_candidate cd wr t ev reg at = Inr (b, content, chain, s)"
    and "seal_both cd wr io t (SaleEv ev) i (FiscalEv (InvoiceIssued s content at by)) j at = (u, Inr ())"
    and "t' = u\<lparr>tm_book := b, tm_fiscal := chain\<rparr>"
proof -
  from assms obtain b content chain s' where c: "invoice_candidate cd wr t ev reg at = Inr (b, content, chain, s')"
    by (auto simp: till_complete_sale_def split: sum.splits prod.splits)
  obtain u r where u: "seal_both cd wr io t (SaleEv ev) i (FiscalEv (InvoiceIssued s' content at by)) j at = (u, r)" by fastforce
  from assms have "s' = s" "r = Inr ()" "t' = u\<lparr>tm_book := b, tm_fiscal := chain\<rparr>"
    by (auto simp: till_complete_sale_def c u adopting_def map_ok_Inr_iff split: sum.splits)
  with c u that show ?thesis by simp
qed

section \<open>Two tills in step\<close>

text \<open>Two tills that differ at most in who is signed in and in a shift that is closed.\<close>

definition twins :: "terminal \<Rightarrow> terminal \<Rightarrow> bool" where
  "twins t u \<longleftrightarrow> tm_store u = tm_store t \<and> tm_chain u = tm_chain t \<and> tm_book u = tm_book t
     \<and> running_shift u = running_shift t \<and> tm_stock u = tm_stock t \<and> tm_staff u = tm_staff t
     \<and> tm_catalogue u = tm_catalogue t \<and> tm_floor u = tm_floor t \<and> tm_fiscal u = tm_fiscal t
     \<and> tm_outlet u = tm_outlet t \<and> tm_orders u = tm_orders t \<and> tm_identity u = tm_identity t"

definition alike :: "terminal \<times> 'r \<Rightarrow> terminal \<times> 'r \<Rightarrow> bool" where
  "alike a b \<longleftrightarrow> twins (fst a) (fst b) \<and> snd b = snd a"

lemma twins_fields:
  assumes "twins t u"
  shows "tm_store u = tm_store t" "tm_chain u = tm_chain t" "tm_book u = tm_book t"
    "running_shift u = running_shift t" "tm_stock u = tm_stock t" "tm_staff u = tm_staff t"
    "tm_catalogue u = tm_catalogue t" "tm_floor u = tm_floor t" "tm_fiscal u = tm_fiscal t"
    "tm_orders u = tm_orders t" "tm_identity u = tm_identity t"
  using assms by (simp_all add: twins_def)

lemma twins_updates:
  assumes "twins t u"
  shows "twins (t\<lparr>tm_chain := c\<rparr>) (u\<lparr>tm_chain := c\<rparr>)" "twins (t\<lparr>tm_store := st\<rparr>) (u\<lparr>tm_store := st\<rparr>)"
    "twins (t\<lparr>tm_book := b\<rparr>) (u\<lparr>tm_book := b\<rparr>)" "twins (t\<lparr>tm_shift := x\<rparr>) (u\<lparr>tm_shift := x\<rparr>)"
    "twins (t\<lparr>tm_stock := k\<rparr>) (u\<lparr>tm_stock := k\<rparr>)" "twins (t\<lparr>tm_staff := d\<rparr>) (u\<lparr>tm_staff := d\<rparr>)"
    "twins (t\<lparr>tm_catalogue := g\<rparr>) (u\<lparr>tm_catalogue := g\<rparr>)" "twins (t\<lparr>tm_floor := f\<rparr>) (u\<lparr>tm_floor := f\<rparr>)"
    "twins (t\<lparr>tm_fiscal := n\<rparr>) (u\<lparr>tm_fiscal := n\<rparr>)" "twins (t\<lparr>tm_outlet := z\<rparr>) (u\<lparr>tm_outlet := z\<rparr>)"
    "twins (t\<lparr>tm_orders := ords\<rparr>) (u\<lparr>tm_orders := ords\<rparr>)"
    "twins (tm_orders_update h t) (tm_orders_update h u)"
  using assms by (simp_all add: twins_def running_shift_def)

lemma alike_pair: "twins t u \<Longrightarrow> alike (t, r) (u, r)"
  by (simp add: alike_def)

lemma twins_seal: "twins t u \<Longrightarrow> alike (seal cd wr io t ev i at) (seal cd wr io u ev i at)"
  by (auto simp: seal_def till_header_def twins_fields Let_def intro: alike_pair twins_updates split: sum.splits)

lemma twins_seal_both: "twins t u \<Longrightarrow> alike (seal_both cd wr io t ev i ev' j at) (seal_both cd wr io u ev i ev' j at)"
  by (auto simp: seal_both_def till_header_def twins_fields Let_def intro!: alike_pair twins_updates split: sum.splits)

lemma alike_adopting: "alike a b \<Longrightarrow> (\<And>t u. twins t u \<Longrightarrow> twins (f t) (f u)) \<Longrightarrow> alike (adopting f a) (adopting f b)"
  by (auto simp: alike_def adopting_def split: sum.splits)

lemma alike_outcome: "alike a b \<Longrightarrow> alike (outcome a) (outcome b)"
  by (simp add: alike_def outcome_def)

lemma alike_map: "alike a b \<Longrightarrow> alike (fst a, map_ok g (snd a)) (fst b, map_ok g (snd b))"
  by (simp add: alike_def)

lemma twins_candidates:
  assumes "twins t u"
  shows "assert_may_write u ev at = assert_may_write t ev at"
    and "shift_candidate u sev = shift_candidate t sev"
    and "order_candidate u pev = order_candidate t pev"
    and "invoice_candidate cd wr u ev reg at = invoice_candidate cd wr t ev reg at"
proof -
  note f = twins_fields [OF assms]
  show may: "assert_may_write u ev at = assert_may_write t ev at" unfolding assert_may_write_def f ..
  show "shift_candidate u sev = shift_candidate t sev" "order_candidate u pev = order_candidate t pev"
    by (simp_all add: shift_candidate_def order_candidate_def f)
  show "invoice_candidate cd wr u ev reg at = invoice_candidate cd wr t ev reg at"
    by (simp add: invoice_candidate_def may f)
qed

lemma twins_perform: "twins t u \<Longrightarrow> alike (perform cd wr io t a) (perform cd wr io u a)"
  by (cases a) (auto simp: recorder_defs till_complete_sale_def record_receipt_def twins_candidates twins_fields split_beta
      intro!: alike_outcome alike_pair alike_map alike_adopting twins_seal twins_seal_both twins_updates split: sum.splits)

text \<open>What the actions of a run answer.\<close>

fun answers :: "codec \<Rightarrow> wire \<Rightarrow> terminal \<Rightarrow> (bool \<times> till_action) list \<Rightarrow> (terminal_error + unit) list" where
  "answers cd wr t [] = []"
| "answers cd wr t ((io, a) # as) = snd (perform cd wr io t a) # answers cd wr (fst (perform cd wr io t a)) as"

lemma twins_run: "twins t u \<Longrightarrow> twins (perform_all cd wr t bs) (perform_all cd wr u bs) \<and> answers cd wr u bs = answers cd wr t bs"
proof (induction bs arbitrary: t u)
  case (Cons x bs)
  obtain io a where x: "x = (io, a)" by (cases x)
  have "alike (perform cd wr io t a) (perform cd wr io u a)" using Cons.prems by (rule twins_perform)
  with Cons.IH [of "fst (perform cd wr io t a)" "fst (perform cd wr io u a)"] show ?case
    by (simp add: x perform_all_def alike_def)
qed (simp add: perform_all_def)

section \<open>Properties\<close>

text \<open>C31: as long as a till's clock and ids only go forward and its store holds no event of another
  device, which is what \<open>lived\<close> asks, whatever the till went through (recorded and refused events, writes the
  disk failed, sign-ins, rounds of sync that brought nothing, earlier restarts), loading its store succeeds
  and gives back every projection it had in memory; only the signed-in person and a closed shift are forgotten,
  and the chain stands at the end of the log.  If no write has failed since the last start, the restarted till
  goes on in step with the one it replaces: to any further sequence of actions, on any disk, it gives the same
  answers, and it ends with the same store and the same projections.  A till whose write failed is not in step
  with its restart: it refuses what the restarted one records.  Without the two conditions a restart may resume
  a used invoice counter or another till's shift: \<open>clock_back_reissues\<close>, \<open>sibling_shift_resumed\<close>.\<close>

theorem restart_resumes:
  assumes "faithful_wire wr" and "lived cd wr me t"
    and "u = t\<lparr>tm_chain := chain_resume (di_device_id me) (store_tip (tm_store t)),
      tm_shift := running_shift t, tm_session := SignedOut\<rparr>"
  shows "load cd wr (tm_store t) me = Inr u
    \<and> (ec_tip (tm_chain t) = store_tip (tm_store t) \<longrightarrow>
         (\<forall>bs. twins (perform_all cd wr t bs) (perform_all cd wr u bs) \<and> answers cd wr u bs = answers cd wr t bs))"
proof
  have i: "intact cd wr me t" by (rule lived_intact [OF assms(1,2)])
  then show "load cd wr (tm_store t) me = Inr u"
    using load_intact(1) [OF i] by (simp add: restarted_def intact_def assms(3))
  show "ec_tip (tm_chain t) = store_tip (tm_store t) \<longrightarrow>
      (\<forall>bs. twins (perform_all cd wr t bs) (perform_all cd wr u bs) \<and> answers cd wr u bs = answers cd wr t bs)"
  proof (intro impI allI)
    fix bs assume tip: "ec_tip (tm_chain t) = store_tip (tm_store t)"
    have "ec_device_id (tm_chain t) = di_device_id me" using i by (simp add: intact_def own_log_def own_chain_def)
    with tip have "twins t u" by (auto simp: assms(3) twins_def running_shift_def chain_resume_def split: option.splits)
    then show "twins (perform_all cd wr t bs) (perform_all cd wr u bs) \<and> answers cd wr u bs = answers cd wr t bs"
      by (rule twins_run)
  qed
qed

lemma restart_resumes_witness:
  "\<exists>u. load quick_codec day_wire (tm_store day_till) sample_me = Inr u \<and> tm_session u = SignedOut
     \<and> length (es_rows (tm_store day_till)) = 6
     \<and> answers quick_codec day_wire u [(True, first_shift)] = answers quick_codec day_wire day_till [(True, first_shift)]"
proof -
  have tip: "ec_tip (tm_chain day_till) = store_tip (tm_store day_till)" "length (es_rows (tm_store day_till)) = 6"
    using day_till_facts by (auto simp: day_till_def)
  note r = restart_resumes [OF day_wire_faithful day_till_lived refl]
  from r [THEN conjunct2] tip(1) have "answers quick_codec day_wire (day_till\<lparr>tm_chain := chain_resume (di_device_id sample_me)
      (store_tip (tm_store day_till)), tm_shift := running_shift day_till, tm_session := SignedOut\<rparr>) [(True, first_shift)]
    = answers quick_codec day_wire day_till [(True, first_shift)]" by blast
  with r [THEN conjunct1] tip(2) show ?thesis by (intro exI conjI) (assumption | simp)+
qed

text \<open>C33: once a write fails the till records nothing more: its chain stands ahead of its store, every further
  action is refused and leaves the store alone, however healthy the disk is by then, until a restart, which
  succeeds and gives what a restart before the failed write would have given.\<close>

theorem failed_write_wedges:
  assumes "faithful_wire wr" and "lived cd wr me t" and "perform cd wr io t a = (t', Inl (TermStore e))"
  shows "tm_store t' = tm_store t
    \<and> (\<forall>bs io' b. tm_store (perform_all cd wr t' bs) = tm_store t
         \<and> (\<exists>err. snd (perform cd wr io' (perform_all cd wr t' bs) b) = Inl err))
    \<and> is_ok (load cd wr (tm_store t') me)"
proof -
  have own: "own_log cd (di_device_id me) (tm_store t) (tm_chain t)"
    using lived_intact [OF assms(1,2)] by (simp add: intact_def)
  note w = perform_failed [OF own assms(3)]
  then have "tm_store (perform_all cd wr t' bs) = tm_store t \<and> (\<exists>err. snd (perform cd wr io' (perform_all cd wr t' bs) b) = Inl err)"
    for bs io' b using wedged_run [OF w [THEN conjunct1]] wedged_perform by (fastforce simp: refuses_def)
  with w load_intact(1) [OF lived_intact [OF assms(1,2)]] show ?thesis by simp
qed

lemma failed_write_wedges_witness:
  "\<exists>t'. perform quick_codec day_wire False first_till first_shift = (t', Inl (TermStore StoreDatabase))
    \<and> tm_store (perform_all quick_codec day_wire t' [(True, first_shift)]) = tm_store first_till
    \<and> (\<exists>err. snd (perform quick_codec day_wire True t' first_shift) = Inl err)"
proof -
  have "snd (perform quick_codec day_wire False first_till first_shift) = Inl (TermStore StoreDatabase)" by code_simp
  then obtain t' where t': "perform quick_codec day_wire False first_till first_shift = (t', Inl (TermStore StoreDatabase))"
    by (cases "perform quick_codec day_wire False first_till first_shift") auto
  note w = failed_write_wedges [OF day_wire_faithful first_till_lived t',
      THEN conjunct2, THEN conjunct1, rule_format]
  from w [of "[]" True first_shift] w [of "[(True, first_shift)]"] t' show ?thesis
    by (intro exI [of _ t']) (auto simp: perform_all_def)
qed

text \<open>C32: as long as a till's clock and ids only go forward and its store holds no event of another device,
  the invoices on its log verify as one fiscal chain from its beginning, numbered 1, 2, 3 and so on without a
  gap, and its next number continues them, whatever was refused, whichever writes failed and however often it
  restarted in between.  The condition on the clock is needed: \<open>clock_back_reissues\<close> gives a number twice.\<close>

theorem invoices_gapless:
  assumes "faithful_wire wr" and "lived cd wr me t" and "issued = invoices_in wr (decoded wr (tm_store t))"
  shows "verify_invoice_chain cd issued fiscal_genesis = Inr (fiscal_tip_of (tm_fiscal t))
    \<and> map (is_counter \<circ> fst) issued = map (\<lambda>i. int i + 1) [0..<length issued]
    \<and> ft_counter (fiscal_tip_of (tm_fiscal t)) = int (length issued)"
  using lived_invoices [OF assms(1,2)] verified_counters [of cd fiscal_genesis]
  by (auto simp: assms(3) verify_invoice_chain_def invoices_ok_def fiscal_genesis_def)

lemma invoices_gapless_witness:
  "map (is_counter \<circ> fst) (invoices_in day_wire (decoded day_wire (tm_store day_till))) = [1]"
  using invoices_gapless [OF day_wire_faithful day_till_lived refl] day_till_facts
  by (auto simp: day_till_def)

text \<open>A clock set back behind the log makes the till number two invoices alike: the sale completes under the
  next number, but a restart sorts its invoice before the others and resumes the counter from the one it
  already used.\<close>

theorem clock_back_reissues:
  assumes "faithful_wire wr" and "lived cd wr me t" and "0 < ft_counter (fiscal_tip_of (tm_fiscal t))"
    and "till_complete_sale cd wr io t ev reg by at i j = (t', Inr s)" and "i < j"
    and "\<forall>e \<in> set (stored_log (tm_store t)). (millis at, j) < time_key e"
  shows "\<exists>u. load cd wr (tm_store t') me = Inr u \<and> tm_fiscal u = tm_fiscal t
    \<and> (\<forall>sale at' content u' s'. fiscal_seal cd (tm_fiscal u) sale at' content = (u', Inr s') \<longrightarrow> is_counter s' = is_counter s)"
proof -
  let ?d = "di_device_id me" and ?log = "stored_log (tm_store t)"
  have i: "intact cd wr me t" by (rule lived_intact [OF assms(1,2)])
  obtain p where p: "log_projection wr ?d (tm_store t) = Inr p" "mirrors ?d p t" and own: "own_log cd ?d (tm_store t) (tm_chain t)"
    using i by (auto simp: intact_def)
  obtain b content chain u where c: "invoice_candidate cd wr t ev reg at = Inr (b, content, chain, s)"
    and sb: "seal_both cd wr io t (SaleEv ev) i (FiscalEv (InvoiceIssued s content at by)) j at = (u, Inr ())"
    and t': "t' = u\<lparr>tm_book := b, tm_fiscal := chain\<rparr>" by (rule till_complete_sale_Inr [OF assms(4)])
  have "own_chain cd ?d (tm_store t) (tm_chain t)" using own by (simp add: own_log_def)
  from seal_both_appends [OF assms(1) this sb] obtain e1 e2 c st where u: "u = t\<lparr>tm_chain := c, tm_store := st\<rparr>"
    and own': "own_chain cd ?d st c" and log: "stored_log st = ?log @ [e1, e2]"
    and k: "time_key e1 = (millis at, i)" "time_key e2 = (millis at, j)"
    and r: "read_event wr (en_kind e1) (en_payload e1) = Some (SaleEv ev)"
      "read_event wr (en_kind e2) (en_payload e2) = Some (FiscalEv (InvoiceIssued s content at by))" by metis
  have "\<forall>e \<in> set ?log. (millis at, i) < time_key e" using assms(5,6) by (auto intro: less_trans [of _ "(millis at, j)"])
  then have "sorted_wrt (\<lambda>e f. time_key e < time_key f) (e1 # e2 # ?log)"
    using own assms(5,6) k by (simp add: own_log_def)
  then have input: "load_projection_input st = e1 # e2 # ?log"
    by (intro projection_input_sorted strict_keys) (simp_all add: log)
  obtain q where q: "project_envelope wr ?d no_projections e1 = Inr q" "same_but_book no_projections q"
    using r(1) by (auto simp: project_envelope_def project_event_def same_but_book_def)
  obtain q2 where q2: "project_envelope wr ?d q e2 = Inr q2" "same_but_book no_projections q2"
    using r(2) q(2) by (auto simp: project_envelope_def project_event_def same_but_book_def)
  have run: "try_fold (project_event ?d) no_projections (decoded wr (tm_store t)) = Inr p"
    using p(1) by (simp add: log_projection_decoded)
  have tip: "fiscal_resume ?d (pj_fiscal_tip p) = tm_fiscal t" using p(2) by (simp add: mirrors_def)
  have "pj_fiscal_tip p \<noteq> pj_fiscal_tip no_projections"
    using assms(3) tip [symmetric] by (auto simp: no_projections_def fiscal_genesis_def fiscal_resume_def counter_resume_def fiscal_tip_of_def)
  then have "\<exists>ev \<in> set (decoded wr (tm_store t)). own_invoice ?d ev" using no_own_invoice [OF run] by blast
  with run_same [OF q2(2) run] obtain q3 where q3: "try_fold (project_event ?d) q2 (decoded wr (tm_store t)) = Inr q3"
    "same_but_book p q3" "pj_fiscal_tip q3 = pj_fiscal_tip p" by auto
  have "latest_open_shift (pj_shifts q3) = Inr (running_shift t)"
    using q3(2) p(2) by (simp add: same_but_book_def mirrors_def)
  then have "\<exists>x. load cd wr st me = Inr x \<and> tm_fiscal x = tm_fiscal t"
    using own_chain_reads [OF own'] q q2 q3 tip
    by (simp add: load_def input fold_decoded [symmetric] decoded_def)
  moreover have "tm_store t' = st" by (simp add: t' u)
  moreover have "is_counter s = ic_issued (fc_counter (tm_fiscal t)) + 1"
    using invoice_candidate_Inr(2) [OF \<open>invoice_candidate cd wr t ev reg at = _\<close>]
    by (auto simp: fiscal_seal_def counter_next_def Let_def res_simps split: sum.splits)
  moreover have "is_counter s' = ic_issued (fc_counter (tm_fiscal t)) + 1"
    if "fiscal_seal cd (tm_fiscal t) sale at' content = (u', Inr s')" for sale at' content u' s'
    using that by (auto simp: fiscal_seal_def counter_next_def Let_def res_simps split: sum.splits)
  ultimately show ?thesis by metis
qed

lemma clock_back_reissues_witness:
  "\<exists>t' s u. till_complete_sale quick_codec two_wire True two_till (Completed 2 (taka 10000) (taka 0) \<lparr>millis = 0\<rparr>)
        ''none'' 7 \<lparr>millis = 0\<rparr> 120 121 = (t', Inr s) \<and> is_counter s = 2
    \<and> load quick_codec two_wire (tm_store t') sample_me = Inr u \<and> ft_counter (fiscal_tip_of (tm_fiscal u)) = 1"
proof -
  let ?r = "till_complete_sale quick_codec two_wire True two_till (Completed 2 (taka 10000) (taka 0) \<lparr>millis = 0\<rparr>)
        ''none'' 7 \<lparr>millis = 0\<rparr> 120 121"
  obtain t0 where t0: "live_run quick_codec two_wire two_first two_actions = Some t0" "two_till = t0"
    using two_till_facts by (auto simp: two_till_def)
  have f: "map_ok is_counter (snd ?r) = Inr 2" "ft_counter (fiscal_tip_of (tm_fiscal two_till)) = 1"
    "list_all (\<lambda>e. ((0, 121) :: int \<times> uuid) < time_key e) (stored_log (tm_store two_till))"
    using two_till_facts t0 by simp_all
  then obtain t' s where r: "?r = (t', Inr s)" "is_counter s = 2"
    by (cases ?r) (auto simp: map_ok_Inr_iff)
  have "\<exists>u. load quick_codec two_wire (tm_store t') sample_me = Inr u \<and> tm_fiscal u = tm_fiscal two_till
    \<and> (\<forall>sale at' content u' s'. fiscal_seal quick_codec (tm_fiscal u) sale at' content = (u', Inr s') \<longrightarrow> is_counter s' = is_counter s)"
    by (rule clock_back_reissues [OF two_wire_faithful two_till_lived _ r(1)])
      (use f in \<open>auto simp: list_all_iff\<close>)
  with r f show ?thesis by metis
qed

text \<open>A till that restarts after sync brought the opening of another till's shift takes that shift for its
  own: the drawer it had open is forgotten, and its cash is counted into the other person's session.\<close>

theorem sibling_shift_resumed:
  assumes "faithful_wire wr" and "lived cd wr me t" and "sibling_event (tm_store t) e st"
    and "read_event wr (en_kind e) (en_payload e) = Some (ShiftEv (ShiftOpened sid by c opening at))"
    and "sid \<notin> set (used_shifts wr (tm_store t))"
  shows "\<exists>u s. load cd wr st me = Inr u \<and> tm_shift u = Some s \<and> sh_id s = sid \<and> sh_opened_by s = by"
proof -
  let ?d = "di_device_id me" and ?ev = "ShiftOpened sid by c opening at"
  from sibling_load [OF assms(1-3)] obtain p where p: "log_projection wr ?d (tm_store t) = Inr p"
    and l: "load cd wr st me = and_then (project_envelope wr ?d p e) (\<lambda>q.
        and_then (latest_open_shift (pj_shifts q)) (\<lambda>open_shift.
        Inr \<lparr>tm_store = st, tm_chain = chain_resume ?d (store_tip (tm_store t)), tm_book = pj_book q,
             tm_shift = open_shift, tm_stock = pj_stock q, tm_staff = pj_staff q, tm_catalogue = pj_catalogue q,
             tm_floor = pj_floor q, tm_fiscal = fiscal_resume ?d (pj_fiscal_tip q),
             tm_outlet = pj_outlet q, tm_orders = replay_orders (pj_purchases q), tm_session = SignedOut,
             tm_identity = me\<rparr>))" by blast
  obtain s where s: "shift_replay [?ev] = Inr s" "sh_id s = sid" "sh_opened_by s = by" "sh_status s = ShiftIsOpen"
    by (simp add: shift_replay_def shift_opened_def)
  have "event_shift_id ?ev \<notin> event_shift_id ` set (pj_shifts p)"
    using used_shifts_projected [OF p] assms(5) by (simp add: event_shift_id_def)
  from latest_first [OF this s(1)] s show ?thesis
    by (simp add: l project_envelope_def assms(4) project_event_def)
qed

lemma sibling_shift_resumed_witness:
  "\<exists>u s. load quick_codec day_wire (with_sibling other_shift) sample_me = Inr u \<and> tm_shift u = Some s
    \<and> sh_id s = 51 \<and> map_option sh_id (tm_shift day_till) = Some 50"
proof -
  have r: "read_event day_wire (en_kind other_shift) (en_payload other_shift)
      = Some (ShiftEv (ShiftOpened 51 8 Bdt (taka 0) \<lparr>millis = 90\<rparr>))" by code_simp
  have "51 \<notin> set (used_shifts day_wire (tm_store day_till))" "map_option sh_id (tm_shift day_till) = Some 50"
    using day_till_facts by (auto simp: day_till_def)
  with sibling_shift_resumed [OF day_wire_faithful day_till_lived
      sibling_samples(1) r] show ?thesis by auto
qed

text \<open>A stock or staff event of another till that does not apply where its clock places it stops this till
  from starting at all.\<close>

theorem sibling_event_stops_till:
  assumes "faithful_wire wr" and "lived cd wr me t" and "sibling_event (tm_store t) e st"
    and "read_event wr (en_kind e) (en_payload e) = Some ev"
  shows "load cd wr st me = (case ev of
      StockEv sev \<Rightarrow> (case inventory_apply (tm_stock t) sev of
        Inl err \<Rightarrow> Inl (TermInventory err) | Inr _ \<Rightarrow> load cd wr st me)
    | StaffEv fev \<Rightarrow> (case directory_apply (tm_staff t) fev of
        Inl err \<Rightarrow> Inl (TermDirectory err) | Inr _ \<Rightarrow> load cd wr st me)
    | _ \<Rightarrow> load cd wr st me)"
  using sibling_load [OF assms(1-3)] assms(4)
  by (auto simp: project_envelope_def project_event_def mirrors_def split: till_event.splits sum.splits)

lemma sibling_event_stops_till_witness:
  "load quick_codec day_wire (with_sibling skewed_issue) sample_me = Inl (TermInventory (UnknownBatch 70))"
proof -
  have "read_event day_wire (en_kind skewed_issue) (en_payload skewed_issue)
      = Some (StockEv (StockIssued 70 \<lparr>milli = 1000\<rparr> Wastage None \<lparr>millis = 90\<rparr> 8))" by code_simp
  from sibling_event_stops_till [OF day_wire_faithful day_till_lived
      sibling_samples(2) this]
  show ?thesis using day_till_facts by (auto simp: day_till_def)
qed

end
