(* ===== verification/Till.thy ===== *)
theory Till
  imports Recovery
begin

text \<open>
  What a till answers without writing (\<open>crates/sahl-terminal/src/terminal.rs\<close>): scans, options, the kitchen's
  tickets, who is at the till and who authorised what, and the figures on the screen.  A UUID of nobody
  is 0.
\<close>

section \<open>The outlet\<close>

definition till_currency :: "terminal \<Rightarrow> terminal_error + currency" where
  "till_currency t = ok_or TermNotConfigured (map_option oc_currency (tm_outlet t))"

definition till_regime :: "terminal \<Rightarrow> utext" where
  "till_regime t = (case tm_outlet t of None \<Rightarrow> lit ''none'' | Some c \<Rightarrow> regime_label (oc_regime c))"

definition till_approval_policy :: "terminal \<Rightarrow> approval_policy" where
  "till_approval_policy t = (case tm_outlet t of None \<Rightarrow> strictest Bdt | Some c \<Rightarrow> oc_approval c)"

section \<open>Sales and invoices\<close>

definition till_sale :: "terminal \<Rightarrow> uuid \<Rightarrow> terminal_error + sale" where
  "till_sale t sale_id = ok_or (UnknownSale sale_id) (book_get (tm_book t) sale_id)"

definition till_takings :: "terminal \<Rightarrow> currency \<Rightarrow> terminal_error + money" where
  "till_takings t c = map_err TermSale (takings (tm_book t) c)"

definition occupied_tables :: "terminal \<Rightarrow> (uuid, uuid) btree" where
  "occupied_tables t = bt_collect (List.map_filter
     (\<lambda>s. map_option (\<lambda>seat. (se_table_id seat, s_id s)) (s_seating s)) (book_open (tm_book t)))"

definition till_shift_report :: "terminal \<Rightarrow> terminal_error + shift_report" where
  "till_shift_report t =
     and_then (ok_or NoOpenShift (tm_shift t)) (\<lambda>s. map_err TermShift (report s (book_completed (tm_book t))))"

definition till_unsynced_count :: "terminal \<Rightarrow> nat" where
  "till_unsynced_count t = unsynced_count (tm_store t)"

definition till_order :: "terminal \<Rightarrow> uuid \<Rightarrow> terminal_error + purchase_order" where
  "till_order t order_id = ok_or (UnknownOrder order_id) (bt_get (tm_orders t) order_id)"

definition till_orders :: "terminal \<Rightarrow> purchase_order list" where
  "till_orders t = bt_values (tm_orders t)"

definition invoice_seal_in :: "wire \<Rightarrow> uuid \<Rightarrow> event_envelope \<Rightarrow> invoice_seal option" where
  "invoice_seal_in wr sale_id e =
     (if en_kind e \<noteq> ''fiscal.invoice_issued'' then None
      else case wr_fiscal wr (en_payload e) of
        None \<Rightarrow> None
      | Some (InvoiceIssued s _ _ _) \<Rightarrow> (if is_sale_id s = sale_id then Some s else None))"

definition till_invoice_seal :: "wire \<Rightarrow> terminal \<Rightarrow> uuid \<Rightarrow> invoice_seal option" where
  "till_invoice_seal wr t sale_id =
     (case List.map_filter (invoice_seal_in wr sale_id) (load_all (tm_store t)) of [] \<Rightarrow> None | s # _ \<Rightarrow> Some s)"

section \<open>The exception feed\<close>

record audit_walk =
  aw_sale_actors :: "(uuid, uuid) btree"
  aw_shift_actors :: "(uuid, uuid) btree"
  aw_sales :: "attributed list"
  aw_shifts :: "(shift_event \<times> uuid) list"

definition nobody :: uuid where
  "nobody = 0"

definition audit_step :: "wire \<Rightarrow> audit_walk \<Rightarrow> event_envelope \<Rightarrow> audit_walk" where
  "audit_step wr w e =
     (if kind_in ''sale.'' (en_kind e) then
        (case wr_sale wr (en_payload e) of
           None \<Rightarrow> w
         | Some ev \<Rightarrow>
             let actors = (case ev of Opened sale_id opened_by _ _ _ \<Rightarrow> bt_insert sale_id opened_by (aw_sale_actors w)
                           | _ \<Rightarrow> aw_sale_actors w);
                 actor = (case bt_get actors (event_sale_id ev) of None \<Rightarrow> nobody | Some a \<Rightarrow> a)
             in w\<lparr>aw_sale_actors := actors, aw_sales := aw_sales w @ [(ev, en_occurred_at e, actor)]\<rparr>)
      else if kind_in ''shift.'' (en_kind e) then
        (case wr_shift wr (en_payload e) of
           None \<Rightarrow> w
         | Some ev \<Rightarrow>
             let actors = (case ev of ShiftOpened shift_id opened_by _ _ _ \<Rightarrow> bt_insert shift_id opened_by (aw_shift_actors w)
                           | _ \<Rightarrow> aw_shift_actors w);
                 actor = (case bt_get actors (event_shift_id ev) of None \<Rightarrow> nobody | Some a \<Rightarrow> a)
             in w\<lparr>aw_shift_actors := actors, aw_shifts := aw_shifts w @ [(ev, actor)]\<rparr>)
      else w)"

definition till_audit_entries :: "wire \<Rightarrow> terminal \<Rightarrow> audit_entry list" where
  "till_audit_entries wr t =
     (let w = foldl (audit_step wr) \<lparr>aw_sale_actors = [], aw_shift_actors = [], aw_sales = [], aw_shifts = []\<rparr>
              (load_all (tm_store t))
      in from_sales (aw_sales w) @ from_shifts (aw_shifts w))"

section \<open>The kitchen\<close>

definition now_for_kitchen :: "terminal \<Rightarrow> timestamp" where
  "now_for_kitchen t =
     (case map millis (List.map_filter s_settled_at (book_iter (tm_book t))) of
        [] \<Rightarrow> epoch
      | ms \<Rightarrow> \<lparr>millis = Max (set ms)\<rparr>)"

definition till_station_of :: "terminal \<Rightarrow> uuid \<Rightarrow> station option" where
  "till_station_of t product_id = Option.bind (bt_get (tm_catalogue t) product_id) pr_station"

definition pending_kitchen :: "terminal \<Rightarrow> uuid \<Rightarrow> terminal_error + kitchen_ticket list" where
  "pending_kitchen t sale_id =
     and_then (till_sale t sale_id) (\<lambda>s.
     let tab = map_option tb_label (Option.bind (s_seating s) (\<lambda>seat. floor_get (tm_floor t) (se_table_id seat)));
         round = min (s_rounds_fired s + 1) (2 ^ 32 - 1)
     in Inr (pending s (s_fired s) round (now_for_kitchen t) tab (till_station_of t)
             @ cancellations s (s_fired s) round (now_for_kitchen t) tab (till_station_of t)))"

text \<open>What a till shows for a sale is what a press of send on that sale hands out.\<close>

lemma pending_kitchen_tickets: "pending_kitchen t sale_id = map_ok (\<lambda>s. station_tickets s (now_for_kitchen t)
    (map_option tb_label (Option.bind (s_seating s) (\<lambda>seat. floor_get (tm_floor t) (se_table_id seat)))) (till_station_of t))
  (till_sale t sale_id)"
  by (cases "till_sale t sale_id") (simp_all add: pending_kitchen_def station_tickets_def Let_def)

section \<open>Options\<close>

definition chosen_modifiers :: "modifier_group list \<Rightarrow> uuid list \<Rightarrow> modifier list" where
  "chosen_modifiers gs chosen = concat (map (\<lambda>g. List.map_filter (\<lambda>i.
     map_option (\<lambda>op. \<lparr>mo_option_id = mp_id op, mo_name = mp_name op, mo_price_delta = mp_price_delta op\<rparr>)
       (group_option g i)) chosen) gs)"

definition resolve_modifiers :: "terminal \<Rightarrow> uuid \<Rightarrow> uuid list \<Rightarrow> terminal_error + modifier list" where
  "resolve_modifiers t product_id chosen =
     (case bt_get (tm_catalogue t) product_id of
        None \<Rightarrow> Inr []
      | Some p \<Rightarrow>
          map_ok (\<lambda>_. chosen_modifiers (pr_option_groups p) chosen)
            (map_err TermCatalogue (check_groups (pr_option_groups p) chosen)))"

section \<open>Scanning\<close>

record scanned =
  sn_product_id :: uuid
  sn_quantity :: quantity
  sn_price :: "money option"

definition scale_of :: "terminal \<Rightarrow> utext \<Rightarrow> scale_format option" where
  "scale_of t barcode = Option.bind (Option.bind (tm_outlet t) oc_scale)
     (\<lambda>f. if label_matches f barcode then Some f else None)"

definition till_scan :: "terminal \<Rightarrow> utext \<Rightarrow> terminal_error + scanned option" where
  "till_scan t text =
     (let barcode = trim text in
      case scale_of t barcode of
        None \<Rightarrow> Inr (map_option (\<lambda>p. \<lparr>sn_product_id = pr_id p, sn_quantity = quantity_one, sn_price = None\<rparr>)
                 (by_barcode (tm_catalogue t) barcode))
      | Some f \<Rightarrow>
          let c = (case tm_outlet t of None \<Rightarrow> Bdt | Some oc \<Rightarrow> oc_currency oc) in
          and_then (map_err TermScale (label_parse f barcode c)) (\<lambda>sc.
          case by_barcode (tm_catalogue t) (sc_item_code sc) of
            None \<Rightarrow> Inr None
          | Some p \<Rightarrow>
              (case sc_value sc of
                 ScannedWeight q \<Rightarrow>
                   map_ok (\<lambda>w. Some \<lparr>sn_product_id = pr_id p, sn_quantity = w, sn_price = None\<rparr>)
                     (map_err TermWeigh (weigh (pr_unit p) q))
               | ScannedPrice m \<Rightarrow>
                   Inr (Some \<lparr>sn_product_id = pr_id p, sn_quantity = quantity_one, sn_price = Some m\<rparr>))))"

section \<open>Who is at the till\<close>

definition till_approve :: "'phc argon \<Rightarrow> terminal \<Rightarrow> permission \<Rightarrow> nat list \<Rightarrow> terminal_error + uuid" where
  "till_approve ar t p pin =
     and_then (map_err TermDirectory (approve ar (tm_staff t) p pin)) (\<lambda>r.
     case r of
       SignInOk staff_id _ \<Rightarrow> Inr staff_id
     | SignInUnknown \<Rightarrow> Inl NoApprover
     | _ \<Rightarrow> Inl NotAuthorized)"

definition till_sign_in ::
    "'phc argon \<Rightarrow> terminal \<Rightarrow> uuid \<Rightarrow> nat list \<Rightarrow> timestamp \<Rightarrow> terminal \<times> (terminal_error + session)" where
  "till_sign_in ar t staff_id pin now =
     (case sign_in ar (tm_staff t) staff_id pin of
        Inl e \<Rightarrow> (t, Inl (TermDirectory e))
      | Inr (SignInOk who r) \<Rightarrow>
          let t = t\<lparr>tm_session := presence_sign_in who r now\<rparr> in
          (t, ok_or NotAuthorized (current (tm_session t) now session_idle_timeout_millis))
      | Inr _ \<Rightarrow> (t, Inl NotAuthorized))"

definition current_session :: "terminal \<Rightarrow> timestamp \<Rightarrow> session option" where
  "current_session t now =
     Option.bind (current (tm_session t) now session_idle_timeout_millis) (\<lambda>s.
     Option.bind (bt_get (tm_staff t) (ss_staff_id s)) (\<lambda>m.
     if sm_active m then Some (s\<lparr>ss_role := sm_role m\<rparr>) else None))"

definition till_touch :: "terminal \<Rightarrow> timestamp \<Rightarrow> terminal" where
  "till_touch t now = t\<lparr>tm_session := touch (tm_session t) now session_idle_timeout_millis\<rparr>"

definition till_sign_out :: "terminal \<Rightarrow> terminal" where
  "till_sign_out t = t\<lparr>tm_session := presence_sign_out (tm_session t)\<rparr>"

definition authorize_for ::
    "'phc argon \<Rightarrow> terminal \<Rightarrow> permission \<Rightarrow> (role \<Rightarrow> approval_policy \<Rightarrow> authorization) \<Rightarrow> nat list \<Rightarrow> timestamp
      \<Rightarrow> terminal_error + uuid" where
  "authorize_for ar t p verdict pin now =
     (case current_session t now of
        None \<Rightarrow> till_approve ar t p pin
      | Some s \<Rightarrow>
          (case verdict (ss_role s) (till_approval_policy t) of
             Allowed \<Rightarrow> Inr (ss_staff_id s)
           | Denied \<Rightarrow> Inl TermDenied
           | NeedsApproval _ \<Rightarrow> till_approve ar t p pin))"

section \<open>What an authorisation rests on\<close>

lemma till_approve_Inr:
  assumes "good_directory (tm_staff t)" and "till_approve ar t p pin = Inr who"
  shows "\<exists>m. bt_get (tm_staff t) who = Some m \<and> sm_active m \<and> can (sm_role m) p
    \<and> verify_pin ar pin (sm_pin_hash m) = Inr True"
proof -
  obtain res where res: "approve ar (tm_staff t) p pin = Inr res" using assms(2) by (auto simp: till_approve_def res_simps)
  with assms(2) obtain r where "approve_among ar pin False (filter (\<lambda>m. member_can m p) (bt_values (tm_staff t))) = Inr (SignInOk who r)"
    by (cases res) (auto simp: till_approve_def approve_def)
  from approve_among_ok [OF this] obtain m where m: "m \<in> set (bt_values (tm_staff t))" "member_can m p" "sm_id m = who"
    "verify_pin ar pin (sm_pin_hash m) = Inr True" by auto
  moreover obtain k where "bt_get (tm_staff t) k = Some m"
    using m(1) bt_value_iff assms(1) unfolding good_directory_def by metis
  ultimately show ?thesis using assms(1) by (auto simp: good_directory_def member_can_def)
qed

lemma current_session_Some:
  assumes "current_session t now = Some s"
  shows "\<exists>s0 m. tm_session t = SignedIn s0 \<and> \<not> session_expired s0 now session_idle_timeout_millis
    \<and> ss_staff_id s = ss_staff_id s0 \<and> bt_get (tm_staff t) (ss_staff_id s) = Some m \<and> sm_active m \<and> ss_role s = sm_role m"
  using assms by (cases "tm_session t") (auto simp: current_session_def res_simps split: if_splits)

lemma lived_staff_good:
  assumes "faithful_wire wr" and "lived cd wr me t"
  shows "good_directory (tm_staff t)"
proof -
  obtain p where p: "try_fold (project_event (di_device_id me)) no_projections (decoded wr (tm_store t)) = Inr p"
    "tm_staff t = pj_staff p"
    using lived_intact [OF assms] by (auto simp: intact_def log_projection_decoded mirrors_def)
  have "good_directory (pj_staff p)"
  proof (rule try_fold_invariant [OF p(1), where P = "\<lambda>p. good_directory (pj_staff p)"])
    show "good_directory (pj_staff no_projections)"
      by (simp add: no_projections_def directory_new_def good_directory_def)
    show "good_directory (pj_staff q')" if "good_directory (pj_staff q)" "project_event (di_device_id me) q ev = Inr q'" for q ev q'
      using that directory_log.step_good by (auto simp: project_event_def res_simps
          split: till_event.splits fiscal_event.splits sum.splits if_splits)
  qed
  with p(2) show ?thesis by simp
qed

text \<open>C34: whoever \<open>authorize_for\<close> names works here and is active now, and either is the person signed in at the till,
  not idle too long, whose present role the rule allows to act alone, or holds the permission and gave a PIN
  that matches their own.\<close>

theorem authorised_person:
  assumes "faithful_wire wr" and "lived cd wr me t" and "authorize_for ar t p verdict pin now = Inr who"
  shows "\<exists>m. bt_get (tm_staff t) who = Some m \<and> sm_active m
    \<and> ((\<exists>s. tm_session t = SignedIn s \<and> ss_staff_id s = who \<and> \<not> session_expired s now session_idle_timeout_millis
          \<and> verdict (sm_role m) (till_approval_policy t) = Allowed)
       \<or> can (sm_role m) p \<and> verify_pin ar pin (sm_pin_hash m) = Inr True)"
proof -
  have approved: ?thesis if ta: "till_approve ar t p pin = Inr who"
  proof -
    obtain m where "bt_get (tm_staff t) who = Some m" "sm_active m" "can (sm_role m) p"
      "verify_pin ar pin (sm_pin_hash m) = Inr True"
      using till_approve_Inr [OF lived_staff_good [OF assms(1,2)] ta] by (elim exE conjE)
    then show ?thesis by (intro exI [of _ m]) simp
  qed
  show ?thesis
  proof (cases "current_session t now")
    case None
    with assms(3) approved show ?thesis by (simp add: authorize_for_def)
  next
    case (Some s)
    show ?thesis
    proof (cases "verdict (ss_role s) (till_approval_policy t)")
      case Allowed
      then have "who = ss_staff_id s" using assms(3) Some by (simp add: authorize_for_def)
      moreover from current_session_Some [OF Some] obtain s0 m where "tm_session t = SignedIn s0"
        "\<not> session_expired s0 now session_idle_timeout_millis" "ss_staff_id s = ss_staff_id s0"
        "bt_get (tm_staff t) (ss_staff_id s) = Some m" "sm_active m" "ss_role s = sm_role m" by (elim exE conjE)
      ultimately show ?thesis using Allowed by (intro exI [of _ m]) simp
    qed (use assms(3) Some approved in \<open>simp_all add: authorize_for_def\<close>)
  qed
qed

definition staff_wire :: wire where
  "staff_wire = table_wire (map StaffEv sample_staff) sample_content"

definition staffed_till :: terminal where
  "staffed_till = (the (live_run quick_codec staff_wire (projr (load quick_codec staff_wire (store_open 3) sample_me))
     (map (\<lambda>(i, ev). (True, RecordStaff ev i \<lparr>millis = int i\<rparr>)) (zip [1..<5] sample_staff))))
       \<lparr>tm_session := presence_sign_in 1 Cashier \<lparr>millis = 10\<rparr>\<rparr>"

lemma staffed_till_facts:
  "\<exists>t0 t. load quick_codec staff_wire (store_open 3) sample_me = Inr t0
    \<and> live_run quick_codec staff_wire t0
        (map (\<lambda>(i, ev). (True, RecordStaff ev i \<lparr>millis = int i\<rparr>)) (zip [1..<5] sample_staff)) = Some t
    \<and> staffed_till = t\<lparr>tm_session := presence_sign_in 1 Cashier \<lparr>millis = 10\<rparr>\<rparr>"
proof -
  have "is_ok (load quick_codec staff_wire (store_open 3) sample_me)
    \<and> live_run quick_codec staff_wire (projr (load quick_codec staff_wire (store_open 3) sample_me))
        (map (\<lambda>(i, ev). (True, RecordStaff ev i \<lparr>millis = int i\<rparr>)) (zip [1..<5] sample_staff)) \<noteq> None"
    by code_simp
  then show ?thesis by (auto simp: staffed_till_def is_ok_iff)
qed

lemma authorised_person_witness:
  "\<exists>m. authorize_for sample_argon staffed_till VoidLine (\<lambda>r _. authorize r VoidLine) [51, 54, 57, 48] \<lparr>millis = 20\<rparr> = Inr 3
    \<and> bt_get (tm_staff staffed_till) 3 = Some m \<and> sm_active m \<and> can (sm_role m) VoidLine"
proof -
  have a: "authorize_for sample_argon staffed_till VoidLine (\<lambda>r _. authorize r VoidLine) [51, 54, 57, 48] \<lparr>millis = 20\<rparr> = Inr 3"
    and s: "(case tm_session staffed_till of SignedIn s \<Rightarrow> ss_staff_id s | SignedOut \<Rightarrow> 0) = 1" by code_simp+
  obtain t0 t where t: "load quick_codec staff_wire (store_open 3) sample_me = Inr t0"
    "live_run quick_codec staff_wire t0
        (map (\<lambda>(i, ev). (True, RecordStaff ev i \<lparr>millis = int i\<rparr>)) (zip [1..<5] sample_staff)) = Some t"
    "staffed_till = t\<lparr>tm_session := presence_sign_in 1 Cashier \<lparr>millis = 10\<rparr>\<rparr>" using staffed_till_facts by blast
  have "lived quick_codec staff_wire sample_me t0" by (rule first_start) (use t(1) in \<open>simp add: sample_me_def\<close>)
  from signs [OF lived_run [OF this t(2)]] have "lived quick_codec staff_wire sample_me staffed_till" by (simp add: t(3))
  moreover have "faithful_wire staff_wire" unfolding staff_wire_def by (rule table_wire_faithful)
  ultimately obtain m where "bt_get (tm_staff staffed_till) 3 = Some m" "sm_active m"
    "(\<exists>s. tm_session staffed_till = SignedIn s \<and> ss_staff_id s = 3) \<or> can (sm_role m) VoidLine"
    using authorised_person [OF _ _ a] by blast
  with a s show ?thesis by (auto split: presence.splits)
qed

end
