(* ===== verification/DayReport.thy ===== *)
theory DayReport
  imports Book Allocation Units
begin

text \<open>
  A day, totalled (\<open>crates/sahl-core/src/report/day.rs\<close>): takings, tax and discounts, and the same day by
  cashier, by way of paying and by product.
\<close>

section \<open>Ways of paying in order\<close>

fun wallet_rank :: "wallet \<Rightarrow> nat" where
  "wallet_rank Bkash = 0"
| "wallet_rank Nagad = 1"
| "wallet_rank Rocket = 2"
| "wallet_rank Upay = 3"
| "wallet_rank StcPay = 4"

fun method_rank :: "tender_method \<Rightarrow> nat \<times> nat" where
  "method_rank Cash = (0, 0)"
| "method_rank Card = (1, 0)"
| "method_rank (MobileWallet w) = (2, wallet_rank w)"
| "method_rank BankTransfer = (3, 0)"
| "method_rank StoreCredit = (4, 0)"

lemma wallet_rank_inj: "wallet_rank a = wallet_rank b \<Longrightarrow> a = b"
  by (cases a; cases b) auto

lemma method_rank_inj: "method_rank a = method_rank b \<Longrightarrow> a = b"
  by (cases a; cases b) (auto dest: wallet_rank_inj)

instantiation tender_method :: linorder
begin

definition less_eq_tender_method :: "tender_method \<Rightarrow> tender_method \<Rightarrow> bool" where
  "a \<le> b \<longleftrightarrow> method_rank a \<le> method_rank b"

definition less_tender_method :: "tender_method \<Rightarrow> tender_method \<Rightarrow> bool" where
  "a < b \<longleftrightarrow> method_rank a < method_rank b"

instance
  by standard (auto simp: less_eq_tender_method_def less_tender_method_def dest: method_rank_inj)

end

section \<open>The report\<close>

record cashier_row =
  cr_staff_id :: uuid
  cr_sales :: nat
  cr_takings :: money
  cr_discount :: money
  cr_voids :: nat

record payment_row =
  py_method :: tender_method
  py_count :: nat
  py_taken :: money

record product_row =
  dp_product_id :: uuid
  dp_name :: utext
  dp_quantity_milli :: int
  dp_revenue :: money

record day =
  dy_currency :: currency
  dy_sales :: nat
  dy_takings :: money
  dy_net :: money
  dy_tax :: money
  dy_discount :: money
  dy_average_sale :: money
  dy_voids :: nat
  dy_by_cashier :: "cashier_row list"
  dy_by_payment :: "payment_row list"
  dy_by_product :: "product_row list"

definition day_empty :: "currency \<Rightarrow> day" where
  "day_empty c = \<lparr>dy_currency = c, dy_sales = 0, dy_takings = money_zero c, dy_net = money_zero c,
     dy_tax = money_zero c, dy_discount = money_zero c, dy_average_sale = money_zero c, dy_voids = 0,
     dy_by_cashier = [], dy_by_payment = [], dy_by_product = []\<rparr>"

record day_maps =
  dm_cashiers :: "(uuid, cashier_row) btree"
  dm_payments :: "(tender_method, payment_row) btree"
  dm_products :: "(uuid, product_row) btree"

text \<open>\<open>entry(k).or_insert_with(f)\<close>, then an update of the row that may fail.\<close>

definition at_entry :: "'k::linorder \<Rightarrow> 'v \<Rightarrow> ('v \<Rightarrow> 'e + 'v) \<Rightarrow> ('k, 'v) btree \<Rightarrow> 'e + ('k, 'v) btree" where
  "at_entry k d f m =
     map_ok (\<lambda>v. bt_insert k v m) (f (case bt_get m k of None \<Rightarrow> d | Some v \<Rightarrow> v))"

definition add_money :: "money \<Rightarrow> money \<Rightarrow> sale_error + money" where
  "add_money a b = map_err SaleMoney (checked_add a b)"

definition day_totals :: "day \<Rightarrow> sale \<Rightarrow> money \<Rightarrow> order_totals \<Rightarrow> sale_error + day" where
  "day_totals d s paid totals =
     and_then (add_money (dy_takings d) paid) (\<lambda>takings.
     and_then (add_money (dy_net d) (ot_net totals)) (\<lambda>net.
     and_then (add_money (dy_tax d) (ot_tax totals)) (\<lambda>tax.
     and_then (add_money (dy_discount d) (ot_discount totals)) (\<lambda>disc.
     Inr (d\<lparr>dy_sales := dy_sales d + 1, dy_takings := takings, dy_net := net, dy_tax := tax,
            dy_discount := disc, dy_voids := dy_voids d + void_count s\<rparr>)))))"

definition count_cashier ::
    "currency \<Rightarrow> sale \<Rightarrow> money \<Rightarrow> order_totals \<Rightarrow> (uuid, cashier_row) btree \<Rightarrow> sale_error + (uuid, cashier_row) btree" where
  "count_cashier c s paid totals =
     at_entry (s_opened_by s)
       \<lparr>cr_staff_id = s_opened_by s, cr_sales = 0, cr_takings = money_zero c, cr_discount = money_zero c, cr_voids = 0\<rparr>
       (\<lambda>r. and_then (add_money (cr_takings r) paid) (\<lambda>takings.
            and_then (add_money (cr_discount r) (ot_discount totals)) (\<lambda>disc.
            Inr (r\<lparr>cr_sales := cr_sales r + 1, cr_takings := takings, cr_discount := disc,
                   cr_voids := cr_voids r + void_count s\<rparr>))))"

definition count_tender ::
    "currency \<Rightarrow> money \<Rightarrow> (tender_method, payment_row) btree \<Rightarrow> tender \<Rightarrow> sale_error + (tender_method, payment_row) btree" where
  "count_tender c change m tn =
     at_entry (te_method tn) \<lparr>py_method = te_method tn, py_count = 0, py_taken = money_zero c\<rparr>
       (\<lambda>r. and_then (add_money (py_taken r) (te_amount tn)) (\<lambda>taken.
            and_then
              (if accepts_overtender (te_method tn) \<and> \<not> is_zero change
               then map_err SaleMoney (checked_sub taken change) else Inr taken) (\<lambda>taken.
            Inr (r\<lparr>py_count := py_count r + 1, py_taken := taken\<rparr>)))) m"

definition count_product ::
    "currency \<Rightarrow> (uuid, product_row) btree \<Rightarrow> sale_line \<Rightarrow> line_totals \<Rightarrow> sale_error + (uuid, product_row) btree" where
  "count_product c m l computed =
     at_entry (l_product_id l)
       \<lparr>dp_product_id = l_product_id l, dp_name = l_name l, dp_quantity_milli = 0, dp_revenue = money_zero c\<rparr>
       (\<lambda>r. and_then (add_money (dp_revenue r) (lt_total computed)) (\<lambda>revenue.
            Inr (r\<lparr>dp_quantity_milli := saturate (dp_quantity_milli r + milli (l_quantity l)),
                   dp_revenue := revenue\<rparr>))) m"

definition count_line ::
    "currency \<Rightarrow> (uuid, product_row) btree \<Rightarrow> sale_line \<times> line_totals \<Rightarrow> sale_error + (uuid, product_row) btree" where
  "count_line c m item =
     (let (l, computed) = item in if \<not> is_active l then Inr m else count_product c m l computed)"

definition day_sale :: "currency \<Rightarrow> day \<times> day_maps \<Rightarrow> sale \<Rightarrow> sale_error + day \<times> day_maps" where
  "day_sale c acc s =
     (let (d, m) = acc in
      case s_settled_total s of
        None \<Rightarrow> Inr acc
      | Some paid \<Rightarrow>
          and_then (sale_totals s) (\<lambda>totals.
          and_then (day_totals d s paid totals) (\<lambda>d.
          and_then (count_cashier c s paid totals (dm_cashiers m)) (\<lambda>cashiers.
          let change = (case s_change_given s of None \<Rightarrow> money_zero c | Some x \<Rightarrow> x) in
          and_then (try_fold (count_tender c change) (dm_payments m) (s_tenders s)) (\<lambda>payments.
          and_then (try_fold (count_line c) (dm_products m) (zip (s_lines s) (ot_lines totals))) (\<lambda>products.
          Inr (d, \<lparr>dm_cashiers = cashiers, dm_payments = payments, dm_products = products\<rparr>)))))))"

definition average_sale :: "day \<Rightarrow> sale_error + money" where
  "average_sale d =
     (if dy_sales d = 0 then Inr (money_zero (dy_currency d))
      else map_ok (\<lambda>ms. case ms of [] \<Rightarrow> money_zero (dy_currency d) | x # _ \<Rightarrow> x)
             (map_err SaleMoney (allocate (dy_takings d) (replicate (dy_sales d) 1))))"

definition day_of :: "sale list \<Rightarrow> currency \<Rightarrow> sale_error + day" where
  "day_of sales c =
     and_then (try_fold (day_sale c) (day_empty c, \<lparr>dm_cashiers = [], dm_payments = [], dm_products = []\<rparr>) sales)
       (\<lambda>(d, m).
     and_then (average_sale d) (\<lambda>average.
     Inr (d\<lparr>dy_average_sale := average,
            dy_by_cashier := bt_values (dm_cashiers m),
            dy_by_payment := bt_values (dm_payments m),
            dy_by_product := sort_key (\<lambda>r. (- minor (dp_revenue r), dp_name r)) (bt_values (dm_products m))\<rparr>)))"

definition day_units :: "day \<Rightarrow> quantity" where
  "day_units d = from_milli (foldl (\<lambda>sum r. saturate (sum + dp_quantity_milli r)) 0 (dy_by_product d))"

section \<open>Sums over rows\<close>

lemma add_money_Inr [res_simps]: "add_money a b = Inr m \<longleftrightarrow> checked_add a b = Inr m"
  by (simp add: add_money_def res_simps)

text \<open>An update of one entry moves a sum over the map by what it moves the row.\<close>

lemma at_entry_sum:
  fixes g :: "'v \<Rightarrow> int"
  assumes "at_entry k d f m = Inr m'" and "bt_ok m" and "g d = 0"
    and "\<And>r r'. f r = Inr r' \<Longrightarrow> g r' = g r + x"
  shows "bt_ok m' \<and> (\<Sum>r\<leftarrow>bt_values m'. g r) = (\<Sum>r\<leftarrow>bt_values m. g r) + x"
proof -
  from assms(1) obtain v where v: "f (case bt_get m k of None \<Rightarrow> d | Some v \<Rightarrow> v) = Inr v" "m' = bt_insert k v m"
    by (auto simp: at_entry_def res_simps)
  show ?thesis
  proof (cases "bt_get m k")
    case None
    have "(\<Sum>r\<leftarrow>bt_values (bt_insert k v m). g r) = (\<Sum>r\<leftarrow>bt_values m. g r) + g v"
      using None by (induction k v m rule: bt_insert.induct) (auto simp: bt_values_def split: if_splits)
    with v None assms(2,3) assms(4) [of d v] show ?thesis by simp
  next
    case (Some r)
    with v bt_sum_replace [OF assms(2) Some, of g v] assms(2) assms(4) [of r v] show ?thesis by simp
  qed
qed

lemma at_entry_fold_sum:
  fixes g :: "'v \<Rightarrow> int"
  assumes "try_fold (\<lambda>m x. at_entry (k x) (d x) (f x) m) m xs = Inr m'" and "bt_ok m"
    and "\<And>x. g (d x) = 0" and "\<And>x r r'. f x r = Inr r' \<Longrightarrow> g r' = g r + h x"
  shows "bt_ok m' \<and> (\<Sum>r\<leftarrow>bt_values m'. g r) = (\<Sum>r\<leftarrow>bt_values m. g r) + (\<Sum>x\<leftarrow>xs. h x)"
  using assms(1,2)
proof (induction xs arbitrary: m)
  case (Cons x xs)
  then obtain n where n: "at_entry (k x) (d x) (f x) m = Inr n"
    "try_fold (\<lambda>m x. at_entry (k x) (d x) (f x) m) n xs = Inr m'" by (auto simp: res_simps)
  have s: "bt_ok n \<and> (\<Sum>r\<leftarrow>bt_values n. g r) = (\<Sum>r\<leftarrow>bt_values m. g r) + h x"
    using at_entry_sum [where g = g and x = "h x", OF n(1) Cons.prems(2) assms(3) assms(4)] by blast
  with Cons.IH [OF n(2)] show ?case by simp
qed simp

lemma totals_sums:
  assumes "sale_totals s = Inr t"
  shows "minor (ot_total t) = minor (ot_net t) + minor (ot_tax t)"
    and "(\<Sum>l\<leftarrow>ot_lines t. minor (lt_total l)) = minor (ot_total t)"
    and "length (ot_lines t) = length (filter is_active (s_lines s))"
proof -
  from assms obtain ls ord where ls: "try_map to_tax_input (filter is_active (s_lines s)) = Inr ls"
    and c: "calculate ord = Inr t" and ord: "oi_lines ord = ls"
    by (auto simp: sale_totals_def res_simps Let_def order_input_new_def with_order_discount_def split: if_splits)
  from calculate_trace [OF c] obtain priced subtotal od shares groups
    where tr: "trace ord t priced subtotal od shares groups" by blast
  show "minor (ot_total t) = minor (ot_net t) + minor (ot_tax t)" by (rule trace_total [OF tr])
  show "(\<Sum>l\<leftarrow>ot_lines t. minor (lt_total l)) = minor (ot_total t)" using trace_sums [OF tr] by simp
  show "length (ot_lines t) = length (filter is_active (s_lines s))"
    using tr try_map_length [OF ls] ord by (simp add: trace_def)
qed

section \<open>What one sale adds\<close>

definition over_tenders :: "sale \<Rightarrow> nat" where
  "over_tenders s = length (filter (\<lambda>t. accepts_overtender (te_method t)) (s_tenders s))"

definition change_of :: "sale \<Rightarrow> int" where
  "change_of s = (case s_change_given s of None \<Rightarrow> 0 | Some c \<Rightarrow> minor c)"

definition product_revenue :: "sale \<Rightarrow> int" where
  "product_revenue s = (case sale_totals s of Inl _ \<Rightarrow> 0
     | Inr t \<Rightarrow> (\<Sum>x\<leftarrow>filter (\<lambda>x. is_active (fst x)) (zip (s_lines s) (ot_lines t)). minor (lt_total (snd x))))"

definition settled_minor :: "sale \<Rightarrow> int" where
  "settled_minor s = (case s_settled_total s of None \<Rightarrow> 0 | Some t \<Rightarrow> minor t)"

lemma tenders_sum:
  assumes "try_fold (count_tender c change) m ts = Inr m'" and "bt_ok m"
  shows "bt_ok m' \<and> (\<Sum>r\<leftarrow>bt_values m'. minor (py_taken r)) = (\<Sum>r\<leftarrow>bt_values m. minor (py_taken r))
    + (\<Sum>t\<leftarrow>ts. minor (te_amount t)) - int (length (filter (\<lambda>t. accepts_overtender (te_method t)) ts)) * minor change"
proof -
  have "bt_ok m' \<and> (\<Sum>r\<leftarrow>bt_values m'. minor (py_taken r)) = (\<Sum>r\<leftarrow>bt_values m. minor (py_taken r))
    + (\<Sum>t\<leftarrow>ts. minor (te_amount t) - (if accepts_overtender (te_method t) then minor change else 0))"
  proof (rule at_entry_fold_sum [OF assms(1) [unfolded count_tender_def [abs_def]] assms(2)])
    fix x r r'
    show "minor (py_taken r') = minor (py_taken r)
        + (minor (te_amount x) - (if accepts_overtender (te_method x) then minor change else 0))"
      if "and_then (add_money (py_taken r) (te_amount x)) (\<lambda>taken.
            and_then (if accepts_overtender (te_method x) \<and> \<not> is_zero change
               then map_err SaleMoney (checked_sub taken change) else Inr taken) (\<lambda>taken.
            Inr (r\<lparr>py_count := py_count r + 1, py_taken := taken\<rparr>))) = Inr r'"
      using that by (auto simp: res_simps checked_add_def checked_sub_def is_zero_def split: if_splits)
  qed simp
  moreover have "(\<Sum>t\<leftarrow>ts. minor (te_amount t) - (if accepts_overtender (te_method t) then minor change else 0))
      = (\<Sum>t\<leftarrow>ts. minor (te_amount t)) - int (length (filter (\<lambda>t. accepts_overtender (te_method t)) ts)) * minor change"
    by (induction ts) (auto simp: algebra_simps)
  ultimately show ?thesis by simp
qed

lemma lines_sum:
  assumes "try_fold (count_line c) m xs = Inr m'" and "bt_ok m"
  shows "bt_ok m' \<and> (\<Sum>r\<leftarrow>bt_values m'. minor (dp_revenue r)) = (\<Sum>r\<leftarrow>bt_values m. minor (dp_revenue r))
    + (\<Sum>x\<leftarrow>filter (\<lambda>x. is_active (fst x)) xs. minor (lt_total (snd x)))"
  using assms
proof (induction xs arbitrary: m)
  case (Cons x xs)
  obtain l computed where x: "x = (l, computed)" by (cases x)
  show ?case
  proof (cases "is_active l")
    case False
    with Cons x show ?thesis by (simp add: count_line_def res_simps)
  next
    case True
    from Cons.prems obtain n where n: "count_line c m x = Inr n" "try_fold (count_line c) n xs = Inr m'"
      by (auto simp: res_simps)
    from n(1) True x have entry: "count_product c m l computed = Inr n" by (simp add: count_line_def)
    have "bt_ok n \<and> (\<Sum>r\<leftarrow>bt_values n. minor (dp_revenue r)) = (\<Sum>r\<leftarrow>bt_values m. minor (dp_revenue r)) + minor (lt_total computed)"
      by (intro at_entry_sum [OF entry [unfolded count_product_def] Cons.prems(2)])
        (auto simp: res_simps checked_add_def split: if_splits)
    with Cons.IH [OF n(2)] True x show ?thesis by simp
  qed
qed simp

lemma cashier_sum:
  assumes "count_cashier c s paid totals m = Inr m'" and "bt_ok m"
  shows "bt_ok m'
    \<and> (\<Sum>r\<leftarrow>bt_values m'. minor (cr_takings r)) = (\<Sum>r\<leftarrow>bt_values m. minor (cr_takings r)) + minor paid
    \<and> (\<Sum>r\<leftarrow>bt_values m'. int (cr_sales r)) = (\<Sum>r\<leftarrow>bt_values m. int (cr_sales r)) + 1
    \<and> (\<Sum>r\<leftarrow>bt_values m'. int (cr_voids r)) = (\<Sum>r\<leftarrow>bt_values m. int (cr_voids r)) + int (void_count s)"
  using at_entry_sum [OF assms(1) [unfolded count_cashier_def] assms(2), of "\<lambda>r. minor (cr_takings r)" "minor paid"]
    at_entry_sum [OF assms(1) [unfolded count_cashier_def] assms(2), of "\<lambda>r. int (cr_sales r)" 1]
    at_entry_sum [OF assms(1) [unfolded count_cashier_def] assms(2), of "\<lambda>r. int (cr_voids r)" "int (void_count s)"]
  by (auto simp: res_simps checked_add_def split: if_splits)

section \<open>The whole day\<close>

definition day_inv :: "sale list \<Rightarrow> day \<times> day_maps \<Rightarrow> bool" where
  "day_inv ss acc = (case acc of (d, m) \<Rightarrow>
     bt_ok (dm_cashiers m) \<and> bt_ok (dm_payments m) \<and> bt_ok (dm_products m)
     \<and> dy_sales d = length ss \<and> dy_voids d = sum_list (map void_count ss)
     \<and> minor (dy_takings d) = (\<Sum>s\<leftarrow>ss. settled_minor s)
     \<and> minor (dy_takings d) = minor (dy_net d) + minor (dy_tax d)
     \<and> (\<Sum>r\<leftarrow>bt_values (dm_cashiers m). minor (cr_takings r)) = minor (dy_takings d)
     \<and> (\<Sum>r\<leftarrow>bt_values (dm_cashiers m). int (cr_sales r)) = int (dy_sales d)
     \<and> (\<Sum>r\<leftarrow>bt_values (dm_cashiers m). int (cr_voids r)) = int (dy_voids d)
     \<and> (\<Sum>r\<leftarrow>bt_values (dm_payments m). minor (py_taken r))
         = minor (dy_takings d) + (\<Sum>s\<leftarrow>ss. change_of s * (1 - int (over_tenders s)))
     \<and> (\<Sum>r\<leftarrow>bt_values (dm_products m). minor (dp_revenue r)) = (\<Sum>s\<leftarrow>ss. product_revenue s))"

lemma day_totals_Inr:
  assumes "day_totals d s paid totals = Inr d'"
  shows "dy_sales d' = dy_sales d + 1 \<and> dy_voids d' = dy_voids d + void_count s
    \<and> minor (dy_takings d') = minor (dy_takings d) + minor paid \<and> minor (dy_net d') = minor (dy_net d) + minor (ot_net totals)
    \<and> minor (dy_tax d') = minor (dy_tax d) + minor (ot_tax totals)"
  using assms by (auto simp: day_totals_def res_simps checked_add_def split: if_splits)

lemma tendered_sum: "tendered s = Inr paid \<Longrightarrow> minor paid = (\<Sum>t\<leftarrow>s_tenders s. minor (te_amount t))"
  by (auto simp: tendered_def res_simps comp_def dest!: try_sum_Inr(1))

lemma day_sale_inv:
  assumes inv: "day_inv ss (d, m)" and step: "day_sale c (d, m) s = Inr (d', m')"
    and s: "good_sale s" "s_status s = StatusCompleted"
  shows "day_inv (ss @ [s]) (d', m')"
proof -
  obtain t change at tot paid where f: "s_settled_total s = Some t" "s_change_given s = Some change"
    "sale_totals s = Inr tot" "ot_total tot = t" "tendered s = Inr paid" "minor paid = minor t + minor change"
    using completed_ok [OF s] by metis
  from step f obtain cashiers payments products where st: "day_totals d s t tot = Inr d'"
    "count_cashier c s t tot (dm_cashiers m) = Inr cashiers"
    "try_fold (count_tender c change) (dm_payments m) (s_tenders s) = Inr payments"
    "try_fold (count_line c) (dm_products m) (zip (s_lines s) (ot_lines tot)) = Inr products"
    "m' = \<lparr>dm_cashiers = cashiers, dm_payments = payments, dm_products = products\<rparr>"
    by (auto simp: day_sale_def res_simps Let_def)
  have ok: "bt_ok (dm_cashiers m)" "bt_ok (dm_payments m)" "bt_ok (dm_products m)"
    using inv by (simp_all add: day_inv_def)
  note parts = day_totals_Inr [OF st(1)] cashier_sum [OF st(2) ok(1)] tenders_sum [OF st(3) ok(2)] lines_sum [OF st(4) ok(3)]
  have "change_of s = minor change" "settled_minor s = minor t"
    "product_revenue s = (\<Sum>x\<leftarrow>filter (\<lambda>x. is_active (fst x)) (zip (s_lines s) (ot_lines tot)). minor (lt_total (snd x)))"
    using f by (simp_all add: change_of_def settled_minor_def product_revenue_def)
  then show ?thesis
    using inv parts st(5) totals_sums(1) [OF f(3)] tendered_sum [OF f(5)] f(4,6)
    by (simp add: day_inv_def over_tenders_def algebra_simps)
qed

lemma day_run_inv:
  assumes "try_fold (day_sale c) (day_empty c, \<lparr>dm_cashiers = [], dm_payments = [], dm_products = []\<rparr>) ss = Inr (d, m)"
    and "\<forall>s \<in> set ss. good_sale s \<and> s_status s = StatusCompleted"
  shows "day_inv ss (d, m)"
  using assms
proof (induction ss arbitrary: d m rule: rev_induct)
  case Nil
  then show ?case by (auto simp: day_inv_def day_empty_def money_zero_def from_minor_def bt_values_def)
next
  case (snoc s ss)
  then obtain d1 m1 where "try_fold (day_sale c) (day_empty c, \<lparr>dm_cashiers = [], dm_payments = [], dm_products = []\<rparr>) ss = Inr (d1, m1)"
    "day_sale c (d1, m1) s = Inr (d, m)" by (fastforce simp: try_fold_append res_simps)
  with snoc day_sale_inv show ?case by simp
qed

lemma sum_list_sort: "(\<Sum>x\<leftarrow>sort_key k xs. f x :: int) = (\<Sum>x\<leftarrow>xs. f x)"
  by (metis mset_map mset_sort sum_mset_sum_list)

lemma day_of_inv:
  assumes "book_replay es = Inr b" and "day_of (book_completed b) c = Inr d"
  obtains d0 m where "day_inv (book_completed b) (d0, m)" "dy_sales d = dy_sales d0" "dy_voids d = dy_voids d0"
    "dy_takings d = dy_takings d0" "dy_net d = dy_net d0" "dy_tax d = dy_tax d0"
    "dy_by_cashier d = bt_values (dm_cashiers m)" "dy_by_payment d = bt_values (dm_payments m)"
    "(\<Sum>r\<leftarrow>dy_by_product d. minor (dp_revenue r)) = (\<Sum>r\<leftarrow>bt_values (dm_products m). minor (dp_revenue r))"
proof -
  have good: "\<forall>s \<in> set (book_completed b). good_sale s \<and> s_status s = StatusCompleted"
    using book_replay_good [OF assms(1)]
    by (auto simp: book_completed_def book_iter_def bt_values_def good_book_def list_all_iff)
  from assms(2) obtain d0 m where "try_fold (day_sale c) (day_empty c, \<lparr>dm_cashiers = [], dm_payments = [], dm_products = []\<rparr>)
      (book_completed b) = Inr (d0, m)" and d: "map_ok (\<lambda>average. d0\<lparr>dy_average_sale := average,
            dy_by_cashier := bt_values (dm_cashiers m), dy_by_payment := bt_values (dm_payments m),
            dy_by_product := sort_key (\<lambda>r. (- minor (dp_revenue r), dp_name r)) (bt_values (dm_products m))\<rparr>) (average_sale d0) = Inr d"
    by (auto simp: day_of_def res_simps split: prod.splits)
  with day_run_inv good have "day_inv (book_completed b) (d0, m)" by blast
  with d show thesis by (intro that [of d0 m]) (auto simp: res_simps sum_list_sort)
qed

lemma sum_zip_snd: "length ys = length xs \<Longrightarrow> (\<Sum>x\<leftarrow>zip xs ys. f (snd x)) = (\<Sum>y\<leftarrow>ys. f y :: int)"
  by (induction rule: list_induct2) auto

lemma product_revenue_exact:
  assumes "good_sale s" "s_status s = StatusCompleted" "void_count s = 0"
  shows "product_revenue s = settled_minor s"
proof -
  obtain t c at tot paid where f: "s_settled_total s = Some t" "sale_totals s = Inr tot" "ot_total tot = t"
    using completed_ok [OF assms(1,2)] by metis
  have active: "\<forall>l \<in> set (s_lines s). is_active l"
    using assms(3) by (simp add: void_count_def filter_empty_conv)
  then have "length (ot_lines tot) = length (s_lines s)" using totals_sums(3) [OF f(2)] by simp
  moreover have "filter (\<lambda>x. is_active (fst x)) (zip (s_lines s) (ot_lines tot)) = zip (s_lines s) (ot_lines tot)"
    using active by (auto intro!: filter_True dest: set_zip_leftD)
  ultimately have "product_revenue s = (\<Sum>l\<leftarrow>ot_lines tot. minor (lt_total l))"
    using f(2) by (simp add: product_revenue_def sum_zip_snd [where f = "\<lambda>l. minor (lt_total l)"])
  with totals_sums(2) [OF f(2)] f show ?thesis by (simp add: settled_minor_def)
qed

text \<open>C36: the day counts every completed sale of the book, its takings are exactly what the sales settled at and exactly
  net plus tax, the cashiers' rows add up to all of it, and so do the products' rows on a day without voided lines.\<close>

theorem day_totals_exact:
  assumes "book_replay es = Inr b" and "day_of (book_completed b) c = Inr d"
  shows "dy_sales d = length (book_completed b)
    \<and> minor (dy_takings d) = (\<Sum>s\<leftarrow>book_completed b. settled_minor s)
    \<and> minor (dy_takings d) = minor (dy_net d) + minor (dy_tax d)
    \<and> (\<Sum>r\<leftarrow>dy_by_cashier d. minor (cr_takings r)) = minor (dy_takings d)
    \<and> (\<Sum>r\<leftarrow>dy_by_cashier d. int (cr_sales r)) = int (dy_sales d)
    \<and> (\<Sum>r\<leftarrow>dy_by_cashier d. int (cr_voids r)) = int (dy_voids d)
    \<and> (dy_voids d = 0 \<longrightarrow> (\<Sum>r\<leftarrow>dy_by_product d. minor (dp_revenue r)) = minor (dy_takings d))"
proof -
  obtain d0 m where inv: "day_inv (book_completed b) (d0, m)" and d: "dy_sales d = dy_sales d0" "dy_voids d = dy_voids d0"
    "dy_takings d = dy_takings d0" "dy_net d = dy_net d0" "dy_tax d = dy_tax d0"
    "dy_by_cashier d = bt_values (dm_cashiers m)"
    "(\<Sum>r\<leftarrow>dy_by_product d. minor (dp_revenue r)) = (\<Sum>r\<leftarrow>bt_values (dm_products m). minor (dp_revenue r))"
    using day_of_inv [OF assms] by metis
  have good: "\<forall>s \<in> set (book_completed b). good_sale s \<and> s_status s = StatusCompleted"
    using book_replay_good [OF assms(1)]
    by (auto simp: book_completed_def book_iter_def bt_values_def good_book_def list_all_iff)
  have "(\<Sum>s\<leftarrow>book_completed b. product_revenue s) = (\<Sum>s\<leftarrow>book_completed b. settled_minor s)"
    if "sum_list (map void_count (book_completed b)) = 0"
    using that good product_revenue_exact by (intro arg_cong [where f = sum_list] map_cong) (auto simp: sum_list_eq_0_iff)
  with inv d show ?thesis by (simp add: day_inv_def)
qed

text \<open>The rows by way of paying add up to the takings only when change is given on sales with one cash tender: a sale's
  change is taken off once for every tender that may give change.\<close>

theorem day_payments_change:
  assumes "book_replay es = Inr b" and "day_of (book_completed b) c = Inr d"
  shows "(\<Sum>r\<leftarrow>dy_by_payment d. minor (py_taken r))
    = minor (dy_takings d) - (\<Sum>s\<leftarrow>book_completed b. change_of s * (int (over_tenders s) - 1))"
proof -
  obtain d0 m where inv: "day_inv (book_completed b) (d0, m)" and d: "dy_takings d = dy_takings d0"
    "dy_by_payment d = bt_values (dm_payments m)"
    using day_of_inv [OF assms] by metis
  have "(\<Sum>s\<leftarrow>ss. change_of s * (1 - int (over_tenders s))) = - (\<Sum>s\<leftarrow>ss. change_of s * (int (over_tenders s) - 1))" for ss
    by (induction ss) (auto simp: algebra_simps)
  with inv d show ?thesis by (simp add: day_inv_def)
qed

section \<open>Two days\<close>

text \<open>One sale of 100.00, paid with two notes of 60.00 and 50.00 and 10.00 of change.\<close>

definition two_notes :: "sale_event list" where
  "two_notes = [sample_opening, sample_item 11 10000, TenderRecorded 1 21 Cash (taka 6000) None,
     TenderRecorded 1 22 Cash (taka 5000) None, Completed 1 (taka 10000) (taka 1000) \<lparr>millis = 77\<rparr>]"

text \<open>A sale whose first line is voided: its second line's 100.00 is counted for no product.\<close>

definition first_voided :: "sale_event list" where
  "first_voided = [sample_opening, sample_item 11 5000, sample_item 12 10000, LineVoided 1 11 Mistake 901,
     TenderRecorded 1 21 Cash (taka 10000) None, Completed 1 (taka 10000) (taka 0) \<lparr>millis = 77\<rparr>]"

definition day_after :: "sale_event list \<Rightarrow> sale_error + day" where
  "day_after es = and_then (book_replay es) (\<lambda>b. day_of (book_completed b) Bdt)"

lemma two_notes_day:
  "map_ok (\<lambda>d. (minor (dy_takings d), map (\<lambda>r. minor (py_taken r)) (dy_by_payment d))) (day_after two_notes) = Inr (10000, [9000])"
  by code_simp

lemma first_voided_day:
  "map_ok (\<lambda>d. (minor (dy_takings d), dy_by_product d)) (day_after first_voided) = Inr (10000, [])"
  by code_simp

lemma day_totals_exact_witness:
  "\<exists>d. day_after two_notes = Inr d \<and> dy_sales d = 1 \<and> minor (dy_takings d) = 10000
    \<and> (\<Sum>r\<leftarrow>dy_by_cashier d. minor (cr_takings r)) = 10000 \<and> (\<Sum>r\<leftarrow>dy_by_product d. minor (dp_revenue r)) = 10000"
proof -
  obtain b d where b: "book_replay two_notes = Inr b" "day_of (book_completed b) Bdt = Inr d" "minor (dy_takings d) = 10000"
    using two_notes_day by (auto simp: day_after_def res_simps)
  have "map_ok (\<lambda>d. (dy_sales d, dy_voids d)) (day_after two_notes) = Inr (1, 0)" by code_simp
  with b have "dy_sales d = 1" "dy_voids d = 0" by (auto simp: day_after_def res_simps)
  with day_totals_exact [OF b(1,2)] b show ?thesis by (intro exI [of _ d]) (simp add: day_after_def and_then_def)
qed

lemma day_payments_change_witness:
  "\<exists>b d. book_replay two_notes = Inr b \<and> day_of (book_completed b) Bdt = Inr d \<and> minor (dy_takings d) = 10000
    \<and> (\<Sum>r\<leftarrow>dy_by_payment d. minor (py_taken r)) = 10000 - (\<Sum>s\<leftarrow>book_completed b. change_of s * (int (over_tenders s) - 1))"
proof -
  obtain b d where b: "book_replay two_notes = Inr b" "day_of (book_completed b) Bdt = Inr d" "minor (dy_takings d) = 10000"
    using two_notes_day by (auto simp: day_after_def res_simps)
  from day_payments_change [OF b(1,2)] b show ?thesis by (intro exI [of _ b] exI [of _ d]) simp
qed

end
