(* ===== verification/Anomaly.thy ===== *)
theory Anomaly
  imports Sale Exceptions Display
begin

text \<open>
  What the log says that is worth asking about (\<open>crates/sahl-core/src/anomaly\<close>): self-approvals, rates of
  discounts and voids that stand out from everyone else's, and amounts just under an approval limit.
  The multiplication sign and the dash of the summaries are their code points.
\<close>

section \<open>Findings\<close>

datatype subject = Person uuid | WholeOutlet

record finding =
  fi_kind :: string
  fi_severity :: severity
  fi_subject :: subject
  fi_count :: nat
  fi_amount :: "money option"
  fi_summary :: utext

fun subject_person :: "subject \<Rightarrow> uuid option" where
  "subject_person (Person staff_id) = Some staff_id"
| "subject_person WholeOutlet = None"

definition finding_person :: "finding \<Rightarrow> uuid option" where
  "finding_person f = subject_person (fi_subject f)"

definition rank_findings :: "finding list \<Rightarrow> finding list" where
  "rank_findings fs = sort_key (\<lambda>f. (- severity_rank (fi_severity f), - int (fi_count f), fi_kind f)) fs"

section \<open>What the scan sees\<close>

record sensitivity =
  se_minimum_sales :: nat
  se_outlier_multiple :: int
  se_near_limit :: money
  se_near_limit_occurrences :: nat

definition starting_point :: "currency \<Rightarrow> sensitivity" where
  "starting_point c = \<lparr>se_minimum_sales = 20, se_outlier_multiple = 2,
     se_near_limit = from_minor (minor_per_major c) c, se_near_limit_occurrences = 3\<rparr>"

record activity =
  av_sales :: "sale list"
  av_audit :: "audit_entry list"
  av_roles :: "(uuid, role) btree"
  av_approval :: approval_policy
  av_currency :: currency

section \<open>Tallies\<close>

record tally =
  ta_part :: int
  ta_gross :: int
  ta_sales :: nat

definition no_tally :: tally where
  "no_tally = \<lparr>ta_part = 0, ta_gross = 0, ta_sales = 0\<rparr>"

definition tally_add :: "int \<Rightarrow> int \<Rightarrow> tally \<Rightarrow> tally" where
  "tally_add part gross t = \<lparr>ta_part = saturate (ta_part t + part), ta_gross = saturate (ta_gross t + gross),
     ta_sales = ta_sales t + 1\<rparr>"

definition tally_without :: "tally \<Rightarrow> tally \<Rightarrow> tally" where
  "tally_without t person = \<lparr>ta_part = saturate (ta_part t - ta_part person),
     ta_gross = saturate (ta_gross t - ta_gross person), ta_sales = ta_sales t - ta_sales person\<rparr>"

definition saturate128 :: "int \<Rightarrow> int" where
  "saturate128 x = max (- (2 ^ 127)) (min (2 ^ 127 - 1) x)"

definition stands_out :: "tally \<Rightarrow> tally \<Rightarrow> int \<Rightarrow> bool" where
  "stands_out person others multiple =
     (if ta_gross others = 0 \<or> ta_part others = 0 then ta_part person > 0
      else saturate128 (ta_part person * ta_gross others)
         > saturate128 (saturate128 (ta_part others * ta_gross person) * multiple))"

definition plural :: "nat \<Rightarrow> utext" where
  "plural n = (if n = 1 then [] else lit ''s'')"

text \<open>\<open>entry(k).or_default()\<close> and an update.\<close>

definition tally_for :: "uuid \<Rightarrow> int \<Rightarrow> int \<Rightarrow> (uuid, tally) btree \<Rightarrow> (uuid, tally) btree" where
  "tally_for who part gross m =
     bt_insert who (tally_add part gross (case bt_get m who of None \<Rightarrow> no_tally | Some t \<Rightarrow> t)) m"

definition bump :: "'k::linorder \<Rightarrow> ('k, nat) btree \<Rightarrow> ('k, nat) btree" where
  "bump k m = bt_insert k ((case bt_get m k of None \<Rightarrow> 0 | Some n \<Rightarrow> n) + 1) m"

text \<open>The loop of the two outlier detectors: what each sale adds is its part and its gross, if any.\<close>

definition tally_sales ::
    "(sale \<Rightarrow> (int \<times> int) option) \<Rightarrow> sale list \<Rightarrow> (uuid, tally) btree \<times> tally" where
  "tally_sales weigh_of sales = foldl (\<lambda>(m, outlet) s.
     case weigh_of s of
       None \<Rightarrow> (m, outlet)
     | Some (part, gross) \<Rightarrow> (tally_for (s_opened_by s) part gross m, tally_add part gross outlet)) ([], no_tally) sales"

definition outlier :: "sensitivity \<Rightarrow> tally \<Rightarrow> tally \<Rightarrow> bool" where
  "outlier se outlet t \<longleftrightarrow> \<not> (ta_sales t < se_minimum_sales se \<or> ta_part t = 0 \<or> ta_gross t = 0)
     \<and> stands_out t (tally_without outlet t) (se_outlier_multiple se)"

section \<open>The detectors\<close>

definition self_approvals :: "activity \<Rightarrow> finding list" where
  "self_approvals a =
     (let bypassed = unapproved (av_audit a) (bt_get (av_roles a)) (av_approval a);
          per_person = foldl (\<lambda>m e. bump (ae_actor e) m) [] bypassed
      in map (\<lambda>(who, n). \<lparr>fi_kind = ''self_approved'', fi_severity = Alert, fi_subject = Person who, fi_count = n,
           fi_amount = None,
           fi_summary = lit ''Approved their own action '' @ show_int (int n) @ lit '' time'' @ plural n
             @ lit '' without holding that authority''\<rparr>) per_person)"

definition discount_measure :: "sale \<Rightarrow> (int \<times> int) option" where
  "discount_measure s = (case sale_totals s of
     Inl _ \<Rightarrow> None | Inr t \<Rightarrow> Some (minor (ot_discount t), minor (ot_gross t)))"

definition discount_outliers :: "activity \<Rightarrow> sensitivity \<Rightarrow> finding list" where
  "discount_outliers a se =
     (let (per_person, outlet) = tally_sales discount_measure (av_sales a) in
      List.map_filter (\<lambda>(who, t).
        if \<not> outlier se outlet t then None
        else Some \<lparr>fi_kind = ''discount_rate_outlier'', fi_severity = Notable, fi_subject = Person who,
          fi_count = ta_sales t, fi_amount = Some (from_minor (ta_part t) (av_currency a)),
          fi_summary = lit ''Discounted more than '' @ show_int (se_outlier_multiple se) @ [215]
            @ lit '' what everyone else did, across '' @ show_int (int (ta_sales t)) @ lit '' sales''\<rparr>) per_person)"

definition void_measure :: "sale \<Rightarrow> (int \<times> int) option" where
  "void_measure s = Some (int (void_count s), int (length (s_lines s)))"

definition void_outliers :: "activity \<Rightarrow> sensitivity \<Rightarrow> finding list" where
  "void_outliers a se =
     (let (per_person, outlet) = tally_sales void_measure (av_sales a) in
      List.map_filter (\<lambda>(who, t).
        if \<not> outlier se outlet t then None
        else Some \<lparr>fi_kind = ''void_rate_outlier'', fi_severity = Notable, fi_subject = Person who,
          fi_count = nat (ta_part t), fi_amount = None,
          fi_summary = lit ''Voided '' @ show_int (ta_part t) @ lit '' line'' @ plural (nat (ta_part t)) @ lit '' out of ''
            @ show_int (ta_gross t) @ lit '' '' @ [8212] @ lit '' more than '' @ show_int (se_outlier_multiple se) @ [215]
            @ lit '' what everyone else did''\<rparr>) per_person)"

definition limit_of :: "approval_policy \<Rightarrow> string \<Rightarrow> money option" where
  "limit_of policy k =
     (if k = ''sale.order_discounted'' then Some (ap_discount_limit policy)
      else if k = ''sale.line_voided'' then Some (ap_void_limit policy) else None)"

definition just_under :: "approval_policy \<Rightarrow> money \<Rightarrow> audit_entry \<Rightarrow> bool" where
  "just_under policy width e =
     (case limit_of policy (ae_kind e) of
        None \<Rightarrow> False
      | Some limit \<Rightarrow>
          \<not> is_zero limit \<and> is_self_approved e
          \<and> (case ae_amount e of
               None \<Rightarrow> False
             | Some amount \<Rightarrow> minor amount > saturate (minor limit - minor width) \<and> minor amount \<le> minor limit))"

definition near_limit :: "activity \<Rightarrow> sensitivity \<Rightarrow> finding list" where
  "near_limit a se =
     (let per_person = foldl (\<lambda>m e. bump (ae_actor e, ae_kind e) m) []
            (filter (just_under (av_approval a) (se_near_limit se)) (av_audit a))
      in map (\<lambda>((who, k), n). \<lparr>fi_kind = ''near_approval_limit'', fi_severity = Notable, fi_subject = Person who,
           fi_count = n,
           fi_amount = Some (if k = ''sale.line_voided'' then ap_void_limit (av_approval a)
                             else ap_discount_limit (av_approval a)),
           fi_summary = show_int (int n) @ lit '' '' @ (if k = ''sale.line_voided'' then lit ''voids'' else lit ''discounts'')
             @ lit '' just under the amount that would have needed approval''\<rparr>)
         (filter (\<lambda>(_, n). n \<ge> se_near_limit_occurrences se) per_person))"

definition anomaly_scan :: "activity \<Rightarrow> sensitivity \<Rightarrow> finding list" where
  "anomaly_scan a se =
     rank_findings (self_approvals a @ discount_outliers a se @ void_outliers a se @ near_limit a se)"

section \<open>The rates that stand out\<close>

lemma saturate128_less:
  assumes "\<bar>x\<bar> \<le> 2 ^ 126"
  shows "saturate128 y < saturate128 x \<longleftrightarrow> y < x"
proof -
  have "saturate128 x = x" using assms by (auto simp: saturate128_def)
  then show ?thesis using assms by (auto simp: saturate128_def)
qed

lemma i64_product: "in_i64 a \<Longrightarrow> in_i64 b \<Longrightarrow> \<bar>a * b\<bar> \<le> 2 ^ 126"
proof -
  assume "in_i64 a" "in_i64 b"
  then have "\<bar>a\<bar> \<le> 2 ^ 63" "\<bar>b\<bar> \<le> 2 ^ 63" by (auto simp: in_i64_def)
  then have "\<bar>a\<bar> * \<bar>b\<bar> \<le> 2 ^ 63 * 2 ^ 63" by (intro mult_mono) auto
  then show ?thesis by (simp add: abs_mult)
qed

text \<open>The comparison is exact at every size: no product that matters saturates.\<close>

lemma stands_out_iff:
  assumes "in_i64 (ta_part p)" "in_i64 (ta_gross p)" "in_i64 (ta_part q)" "in_i64 (ta_gross q)"
  shows "stands_out p q k \<longleftrightarrow> (if ta_gross q = 0 \<or> ta_part q = 0 then ta_part p > 0
    else ta_part q * ta_gross p * k < ta_part p * ta_gross q)"
proof -
  have "saturate128 (ta_part q * ta_gross p) = ta_part q * ta_gross p"
    using i64_product [OF assms(3,2)] by (auto simp: saturate128_def)
  then show ?thesis
    using saturate128_less [OF i64_product [OF assms(1,4)]] by (simp add: stands_out_def)
qed

definition measured :: "(sale \<Rightarrow> (int \<times> int) option) \<Rightarrow> sale list \<Rightarrow> (uuid \<times> int \<times> int) list" where
  "measured f sales = List.map_filter (\<lambda>s. map_option (\<lambda>pg. (s_opened_by s, pg)) (f s)) sales"

definition sum_tally :: "(uuid \<times> int \<times> int) list \<Rightarrow> tally" where
  "sum_tally ms = \<lparr>ta_part = \<Sum>x\<leftarrow>ms. fst (snd x), ta_gross = \<Sum>x\<leftarrow>ms. snd (snd x), ta_sales = length ms\<rparr>"

definition small :: "(uuid \<times> int \<times> int) list \<Rightarrow> bool" where
  "small ms \<longleftrightarrow> (\<Sum>x\<leftarrow>ms. \<bar>fst (snd x)\<bar>) < 2 ^ 63 \<and> (\<Sum>x\<leftarrow>ms. \<bar>snd (snd x)\<bar>) < 2 ^ 63"

lemma abs_sum_le: "\<bar>\<Sum>x\<leftarrow>xs. f x\<bar> \<le> (\<Sum>x\<leftarrow>xs. \<bar>f x :: int\<bar>)"
  by (induction xs) auto

lemma abs_sum_filter: "(\<Sum>x\<leftarrow>filter P xs. \<bar>f x :: int\<bar>) \<le> (\<Sum>x\<leftarrow>xs. \<bar>f x\<bar>)"
  by (induction xs) auto

lemma abs_sum_filter_less:
  assumes "(\<Sum>x\<leftarrow>ms. \<bar>f x :: int\<bar>) < n"
  shows "\<bar>\<Sum>x\<leftarrow>filter P ms. f x\<bar> < n"
  using assms abs_sum_le [of f "filter P ms"] abs_sum_filter [of f P ms] by linarith

lemma small_i64:
  assumes "small ms"
  shows "in_i64 (ta_part (sum_tally (filter P ms)))" and "in_i64 (ta_gross (sum_tally (filter P ms)))"
proof -
  have "\<bar>ta_part (sum_tally (filter P ms))\<bar> < 2 ^ 63" "\<bar>ta_gross (sum_tally (filter P ms))\<bar> < 2 ^ 63"
    using assms by (simp_all add: small_def sum_tally_def abs_sum_filter_less)
  then show "in_i64 (ta_part (sum_tally (filter P ms)))" "in_i64 (ta_gross (sum_tally (filter P ms)))"
    by (auto simp: in_i64_def abs_less_iff)
qed

lemma small_snoc: "small (ms @ [m]) \<Longrightarrow> small ms"
  by (cases m) (auto simp: small_def)

lemma tally_sales_measured:
  assumes "small (measured f sales)"
  shows "bt_ok (fst (tally_sales f sales))
    \<and> (\<forall>who. bt_get (fst (tally_sales f sales)) who = (let mine = filter (\<lambda>x. fst x = who) (measured f sales) in
          if mine = [] then None else Some (sum_tally mine)))
    \<and> snd (tally_sales f sales) = sum_tally (measured f sales)"
  using assms
proof (induction sales rule: rev_induct)
  case Nil
  then show ?case by (simp add: tally_sales_def measured_def List.map_filter_simps sum_tally_def no_tally_def)
next
  case (snoc s sales)
  obtain m outlet where mo: "tally_sales f sales = (m, outlet)" by fastforce
  show ?case
  proof (cases "f s")
    case None
    then have "measured f (sales @ [s]) = measured f sales"
      by (simp add: measured_def map_filter_def)
    with None snoc show ?thesis by (simp add: tally_sales_def split_beta)
  next
    case (Some pg)
    obtain part gross where pg: "pg = (part, gross)" by (cases pg)
    have ms: "measured f (sales @ [s]) = measured f sales @ [(s_opened_by s, part, gross)]"
      using Some pg by (simp add: measured_def map_filter_def)
    have small: "small (measured f sales)" using snoc.prems small_snoc by (simp add: ms)
    note ih = snoc.IH [OF small, unfolded mo fst_conv snd_conv]
    have add: "tally_add part gross (sum_tally (filter P (measured f sales)))
        = sum_tally (filter P (measured f sales) @ [(s_opened_by s, part, gross)])"
      if "P (s_opened_by s, part, gross)" for P
      using small_i64 [OF snoc.prems, of P] that by (auto simp: ms tally_add_def sum_tally_def)
    have run: "tally_sales f (sales @ [s]) = (tally_for (s_opened_by s) part gross m, tally_add part gross outlet)"
      using Some pg mo by (simp add: tally_sales_def)
    have one: "tally_add part gross no_tally = sum_tally [(s_opened_by s, part, gross)]"
      if "filter (\<lambda>x. fst x = s_opened_by s) (measured f sales) = []"
      using add [of "\<lambda>x. fst x = s_opened_by s"] that by (simp add: sum_tally_def no_tally_def)
    show ?thesis
      using ih add [of "\<lambda>_. True"] add [of "\<lambda>x. fst x = s_opened_by s"] one
      by (auto simp: run ms tally_for_def Let_def split: option.splits if_splits)
  qed
qed

text \<open>Whether somebody stands out, in exact arithmetic over what was measured.\<close>

definition stands_apart :: "sensitivity \<Rightarrow> (uuid \<times> int \<times> int) list \<Rightarrow> uuid \<Rightarrow> bool" where
  "stands_apart se ms who =
     (let mine = sum_tally (filter (\<lambda>x. fst x = who) ms); others = sum_tally (filter (\<lambda>x. fst x \<noteq> who) ms)
      in ta_sales mine \<ge> max 1 (se_minimum_sales se) \<and> ta_part mine \<noteq> 0 \<and> ta_gross mine \<noteq> 0
         \<and> (if ta_gross others = 0 \<or> ta_part others = 0 then ta_part mine > 0
            else ta_part others * ta_gross mine * se_outlier_multiple se < ta_part mine * ta_gross others))"

lemma sum_list_partition:
  "(\<Sum>x\<leftarrow>xs. f x :: int) = (\<Sum>x\<leftarrow>filter P xs. f x) + (\<Sum>x\<leftarrow>filter (\<lambda>x. \<not> P x) xs. f x)"
  by (induction xs) auto

lemma others_tally:
  assumes "small ms"
  shows "tally_without (sum_tally ms) (sum_tally (filter P ms)) = sum_tally (filter (\<lambda>x. \<not> P x) ms)"
proof -
  have part: "ta_part (sum_tally ms) = ta_part (sum_tally (filter P ms)) + ta_part (sum_tally (filter (\<lambda>x. \<not> P x) ms))"
    unfolding sum_tally_def tally.simps by (rule sum_list_partition)
  have gross: "ta_gross (sum_tally ms) = ta_gross (sum_tally (filter P ms)) + ta_gross (sum_tally (filter (\<lambda>x. \<not> P x) ms))"
    unfolding sum_tally_def tally.simps by (rule sum_list_partition)
  have sales: "ta_sales (sum_tally ms) = ta_sales (sum_tally (filter P ms)) + ta_sales (sum_tally (filter (\<lambda>x. \<not> P x) ms))"
    unfolding sum_tally_def tally.simps using sum_length_filter_compl [of P ms] by simp
  show ?thesis
    using small_i64 [OF assms, of "\<lambda>x. \<not> P x"] by (simp add: tally_without_def part gross sales)
qed

lemma outlier_iff:
  assumes "small ms" and "filter (\<lambda>x. fst x = who) ms \<noteq> []"
  shows "outlier se (sum_tally ms) (sum_tally (filter (\<lambda>x. fst x = who) ms)) \<longleftrightarrow> stands_apart se ms who"
proof -
  have "ta_sales (sum_tally (filter (\<lambda>x. fst x = who) ms)) \<ge> 1" using assms(2) by (simp add: sum_tally_def Suc_le_eq)
  then show ?thesis
    by (auto simp: outlier_def stands_apart_def Let_def others_tally [OF assms(1)]
        stands_out_iff [OF small_i64 [OF assms(1)] small_i64 [OF assms(1)]])
qed

text \<open>The people a detector names, given the tallies of its loop.\<close>

lemma named_outliers:
  assumes "small (measured f sales)"
  shows "(\<exists>t. (who, t) \<in> set (fst (tally_sales f sales)) \<and> outlier se (snd (tally_sales f sales)) t)
    \<longleftrightarrow> stands_apart se (measured f sales) who"
proof -
  note ts = tally_sales_measured [OF assms]
  have ok: "bt_ok (fst (tally_sales f sales))"
    and got: "bt_get (fst (tally_sales f sales)) who = (let mine = filter (\<lambda>x. fst x = who) (measured f sales) in
          if mine = [] then None else Some (sum_tally mine))"
    and outlet: "snd (tally_sales f sales) = sum_tally (measured f sales)" using ts by auto
  have entry: "(who, t) \<in> set (fst (tally_sales f sales)) \<longleftrightarrow> bt_get (fst (tally_sales f sales)) who = Some t" for t
    using ok by (rule bt_entry_iff)
  show ?thesis
  proof (cases "filter (\<lambda>x. fst x = who) (measured f sales) = []")
    case True
    then have "\<not> stands_apart se (measured f sales) who" by (simp add: stands_apart_def sum_tally_def)
    with True got show ?thesis by (simp add: entry Let_def)
  next
    case False
    with got outlier_iff [OF assms False] show ?thesis by (simp add: entry outlet Let_def)
  qed
qed

text \<open>C37: as long as no total of the log leaves 64 bits, the discount and void detectors name exactly the people with
  enough sales whose share is more than the configured multiple of everyone else's, compared without rounding.\<close>

theorem outliers_exact:
  assumes "small (measured discount_measure (av_sales a))" and "small (measured void_measure (av_sales a))"
  shows "fi_subject ` set (discount_outliers a se) = Person ` {who. stands_apart se (measured discount_measure (av_sales a)) who}
    \<and> fi_subject ` set (void_outliers a se) = Person ` {who. stands_apart se (measured void_measure (av_sales a)) who}"
proof -
  have "fi_subject ` set (discount_outliers a se) = Person ` {who. \<exists>t. (who, t) \<in> set (fst (tally_sales discount_measure (av_sales a)))
      \<and> outlier se (snd (tally_sales discount_measure (av_sales a))) t}"
    by (force simp: discount_outliers_def map_filter_def split_beta split: if_splits)
  moreover have "fi_subject ` set (void_outliers a se) = Person ` {who. \<exists>t. (who, t) \<in> set (fst (tally_sales void_measure (av_sales a)))
      \<and> outlier se (snd (tally_sales void_measure (av_sales a))) t}"
    by (force simp: void_outliers_def map_filter_def split_beta split: if_splits)
  ultimately show ?thesis by (simp add: named_outliers [OF assms(1)] named_outliers [OF assms(2)])
qed

text \<open>One sale of one person, with one of its two lines voided, and nobody to compare with.\<close>

definition lone_voider :: activity where
  "lone_voider = \<lparr>av_sales = [projr (sale_replay sample_events)], av_audit = [], av_roles = [],
     av_approval = strictest Bdt, av_currency = Bdt\<rparr>"

lemma outliers_exact_witness:
  "Person 900 \<in> fi_subject ` set (void_outliers lone_voider (starting_point Bdt\<lparr>se_minimum_sales := 1\<rparr>))
    \<and> discount_outliers lone_voider (starting_point Bdt\<lparr>se_minimum_sales := 1\<rparr>) = []"
proof -
  have s: "small (measured discount_measure (av_sales lone_voider))" "small (measured void_measure (av_sales lone_voider))"
    and v: "stands_apart (starting_point Bdt\<lparr>se_minimum_sales := 1\<rparr>) (measured void_measure (av_sales lone_voider)) 900"
    and d: "discount_outliers lone_voider (starting_point Bdt\<lparr>se_minimum_sales := 1\<rparr>) = []" by code_simp+
  from outliers_exact [OF s, of "starting_point Bdt\<lparr>se_minimum_sales := 1\<rparr>"] v d show ?thesis by blast
qed

text \<open>Approvals somebody gave themselves without the authority for it are all counted, each against its actor.\<close>

lemma bump_count:
  assumes "bt_ok m"
  shows "bt_ok (foldl (\<lambda>m e. bump (f e) m) m es)
    \<and> (\<forall>k. bt_get (foldl (\<lambda>m e. bump (f e) m) m es) k =
        (let n = (case bt_get m k of None \<Rightarrow> 0 | Some n \<Rightarrow> n) + length (filter (\<lambda>e. f e = k) es)
         in if bt_get m k = None \<and> n = 0 then None else Some n))"
  using assms
proof (induction es arbitrary: m)
  case (Cons e es)
  have "bt_ok (bump (f e) m)" using Cons.prems by (simp add: bump_def)
  from Cons.IH [OF this] show ?case by (auto simp: bump_def Let_def split: option.splits)
qed (auto simp: Let_def split: option.splits)

lemma bump_entries:
  "(k, n) \<in> set (foldl (\<lambda>m e. bump (f e) m) [] es) \<longleftrightarrow> n = length (filter (\<lambda>e. f e = k) es) \<and> n > 0"
  using bump_count [of "[]" f es] by (auto simp: bt_entry_iff Let_def split: if_splits)

theorem approval_findings_exact:
  "(\<lambda>f. (fi_subject f, fi_count f)) ` set (self_approvals a) =
     {(Person who, n) | who n. n > 0
        \<and> n = length (filter (\<lambda>e. ae_actor e = who) (unapproved (av_audit a) (bt_get (av_roles a)) (av_approval a)))}
   \<and> (\<lambda>f. (fi_subject f, fi_count f)) ` set (near_limit a se) =
     {(Person who, n) | who n. \<exists>k. n \<ge> max 1 (se_near_limit_occurrences se)
        \<and> n = length (filter (\<lambda>e. ae_actor e = who \<and> ae_kind e = k)
            (filter (just_under (av_approval a) (se_near_limit se)) (av_audit a)))}"
proof (intro conjI)
  let ?un = "unapproved (av_audit a) (bt_get (av_roles a)) (av_approval a)"
  have "(\<lambda>f. (fi_subject f, fi_count f)) ` set (self_approvals a)
      = (\<lambda>(who, n). (Person who, n)) ` set (foldl (\<lambda>m e. bump (ae_actor e) m) [] ?un)"
    by (simp add: self_approvals_def Let_def image_image split_beta)
  also have "\<dots> = {(Person who, n) | who n. n > 0 \<and> n = length (filter (\<lambda>e. ae_actor e = who) ?un)}"
    using bump_entries [where f = ae_actor and es = ?un] by (auto simp: image_iff)
  finally show "(\<lambda>f. (fi_subject f, fi_count f)) ` set (self_approvals a)
      = {(Person who, n) | who n. n > 0 \<and> n = length (filter (\<lambda>e. ae_actor e = who) ?un)}" .
  let ?near = "filter (just_under (av_approval a) (se_near_limit se)) (av_audit a)"
  let ?m = "foldl (\<lambda>m e. bump (ae_actor e, ae_kind e) m) [] ?near"
  have "(\<lambda>f. (fi_subject f, fi_count f)) ` set (near_limit a se)
      = (\<lambda>((who, k), n). (Person who, n)) ` {x \<in> set ?m. snd x \<ge> se_near_limit_occurrences se}"
    by (simp add: near_limit_def Let_def image_image split_beta)
  also have "\<dots> = {(Person who, n) | who n. \<exists>k. n \<ge> max 1 (se_near_limit_occurrences se)
        \<and> n = length (filter (\<lambda>e. ae_actor e = who \<and> ae_kind e = k) ?near)}"
    using bump_entries [where f = "\<lambda>e. (ae_actor e, ae_kind e)" and es = ?near] by (fastforce simp: image_iff)
  finally show "(\<lambda>f. (fi_subject f, fi_count f)) ` set (near_limit a se)
      = {(Person who, n) | who n. \<exists>k. n \<ge> max 1 (se_near_limit_occurrences se)
        \<and> n = length (filter (\<lambda>e. ae_actor e = who \<and> ae_kind e = k) ?near)}" .
qed

end
