(* ===== verification/Screens.thy ===== *)
theory Screens
  imports Till DayReport Anomaly
begin

text \<open>
  The reports of a till (\<open>day\<close> and \<open>anomalies\<close> of \<open>crates/sahl-terminal/src/terminal.rs\<close>), over the book it
  rebuilt and the log it stored.
\<close>

definition till_day :: "terminal \<Rightarrow> terminal_error + day" where
  "till_day t = and_then (till_currency t) (\<lambda>c. map_err TermSale (day_of (book_completed (tm_book t)) c))"

text \<open>The roles of everyone the log names, whether they still work here or not.\<close>

definition named_roles :: "directory \<Rightarrow> audit_entry list \<Rightarrow> sale list \<Rightarrow> (uuid, role) btree" where
  "named_roles staff audit sales = bt_collect (List.map_filter
     (\<lambda>who. map_option (\<lambda>r. (who, r)) (role_of staff who)) (map ae_actor audit @ map s_opened_by sales))"

definition till_activity :: "wire \<Rightarrow> terminal \<Rightarrow> activity" where
  "till_activity wr t =
     (let audit = till_audit_entries wr t; sales = book_completed (tm_book t) in
      \<lparr>av_sales = sales, av_audit = audit, av_roles = named_roles (tm_staff t) audit sales,
       av_approval = till_approval_policy t,
       av_currency = (case tm_outlet t of None \<Rightarrow> Bdt | Some oc \<Rightarrow> oc_currency oc)\<rparr>)"

definition till_anomalies :: "wire \<Rightarrow> terminal \<Rightarrow> finding list" where
  "till_anomalies wr t = (let a = till_activity wr t in anomaly_scan a (starting_point (av_currency a)))"

end
