(* ===== verification/Paper.thy ===== *)
theory Paper
  imports Invoicing
begin

text \<open>
  What goes to the printer (\<open>crates/sahl-escpos/src\<close>): the control sequences, the column arithmetic, the receipt and
  the kitchen ticket, as lists of bytes.  A \<open>u8\<close> is a number below 256.
\<close>

section \<open>Control sequences\<close>

definition esc :: nat where
  "esc = 27"

definition gs :: nat where
  "gs = 29"

definition initialize :: "nat list" where
  "initialize = [esc, 64]"

datatype align = AlignLeft | AlignCenter | AlignRight

definition align_bytes :: "align \<Rightarrow> nat list" where
  "align_bytes a = [esc, 97, case a of AlignLeft \<Rightarrow> 0 | AlignCenter \<Rightarrow> 1 | AlignRight \<Rightarrow> 2]"

definition emphasis :: "bool \<Rightarrow> nat list" where
  "emphasis on = [esc, 69, if on then 1 else 0]"

text \<open>The two flags are different bits, so their disjunction is their sum.\<close>

definition char_size :: "bool \<Rightarrow> bool \<Rightarrow> nat list" where
  "char_size double_width double_height =
     [gs, 33, (if double_width then 32 else 0) + (if double_height then 16 else 0)]"

definition feed :: "nat \<Rightarrow> nat list" where
  "feed lines = [esc, 100, lines]"

definition paper_cut :: "nat list" where
  "paper_cut = [gs, 86, 66, 0]"

datatype drawer_pin = PinTwo | PinFive

definition open_drawer :: "drawer_pin \<Rightarrow> nat list" where
  "open_drawer pin = [esc, 112, case pin of PinTwo \<Rightarrow> 0 | PinFive \<Rightarrow> 1, 25, 25]"

definition code_page :: "nat \<Rightarrow> nat list" where
  "code_page page = [esc, 116, page]"

definition code_page_cp437 :: nat where
  "code_page_cp437 = 0"

datatype qr_error = QrEmpty | QrTooLong nat

definition qr_command :: "nat list \<Rightarrow> nat \<Rightarrow> qr_error + nat list" where
  "qr_command payload module_size =
     (if payload = [] then Inl QrEmpty
      else if int (length payload) + 3 > 65535 then Inl (QrTooLong (length payload))
      else if int (length payload) > 7089 then Inl (QrTooLong (length payload))
      else
        let described = length payload + 3; sz = max 1 (min 16 module_size) in
        Inr ([gs, 40, 107, 4, 0, 49, 65, 50, 0] @ [gs, 40, 107, 3, 0, 49, 67, sz] @ [gs, 40, 107, 3, 0, 49, 69, 49]
             @ [gs, 40, 107, described mod 256, described div 256, 49, 80, 48] @ payload
             @ [gs, 40, 107, 3, 0, 49, 81, 48]))"

datatype raster_error = RasterEmpty | WidthNotByteAligned nat | LengthMismatch nat nat | RasterTooLarge

text \<open>The dimensions and lengths are \<open>u32\<close>, the fields of the header \<open>u16\<close>.\<close>

definition raster :: "nat \<Rightarrow> nat \<Rightarrow> nat list \<Rightarrow> raster_error + nat list" where
  "raster width_px height_px bits =
     (if width_px = 0 \<or> height_px = 0 then Inl RasterEmpty
      else if width_px mod 8 \<noteq> 0 then Inl (WidthNotByteAligned width_px)
      else
        let bytes_per_row = width_px div 8 in
        if int bytes_per_row * int height_px > 4294967295 then Inl RasterTooLarge
        else if int (length bits) > 4294967295 then Inl RasterTooLarge
        else if bytes_per_row * height_px \<noteq> length bits then Inl (LengthMismatch (bytes_per_row * height_px) (length bits))
        else if int bytes_per_row > 65535 \<or> int height_px > 65535 then Inl RasterTooLarge
        else Inr ([gs, 118, 48, 0, bytes_per_row mod 256, bytes_per_row div 256, height_px mod 256, height_px div 256]
                  @ bits))"

section \<open>Layout\<close>

datatype paper_width = Mm58 | Mm80

fun paper_columns :: "paper_width \<Rightarrow> nat" where
  "paper_columns Mm58 = 32"
| "paper_columns Mm80 = 48"

fun paper_dots :: "paper_width \<Rightarrow> nat" where
  "paper_dots Mm58 = 384"
| "paper_dots Mm80 = 576"

text \<open>8230 is the ellipsis.\<close>

definition columns :: "utext \<Rightarrow> utext \<Rightarrow> nat \<Rightarrow> utext" where
  "columns label amount width =
     (let amount_width = length amount in
      if amount_width \<ge> width then take width amount
      else
        let room = width - amount_width - 1; label_width = length label in
        if label_width > room then take (room - 1) label @ [8230, 32] @ amount
        else label @ replicate (width - label_width - amount_width) 32 @ amount)"

definition centered :: "utext \<Rightarrow> nat \<Rightarrow> utext" where
  "centered text width =
     (if length text \<ge> width then take width text else replicate ((width - length text) div 2) 32 @ text)"

definition rule_line :: "nat \<Rightarrow> int \<Rightarrow> utext" where
  "rule_line width character = replicate width character"

definition amount_text :: "money \<Rightarrow> utext" where
  "amount_text m =
     (let places = exponent (currency m); digits = show_digits \<bar>minor m\<bar>;
          padded = replicate (places + 1 - length digits) 48 @ digits;
          split = length padded - places; sign = (if minor m < 0 then lit ''-'' else []) in
      if places = 0 then sign @ take split padded
      else sign @ take split padded @ lit ''.'' @ drop split padded)"

text \<open>Thousandths with trailing zeros trimmed; the remainder's sign is dropped.\<close>

definition trim_zeros :: "utext \<Rightarrow> utext" where
  "trim_zeros s = rev (dropWhile (\<lambda>c. c = 48) (rev s))"

definition quantity_text :: "quantity \<Rightarrow> utext" where
  "quantity_text q =
     (if milli q smod milli_per_unit = 0 then show_int (milli q sdiv milli_per_unit)
      else trim_zeros (show_int (milli q sdiv milli_per_unit) @ lit ''.''
             @ pad_zero 3 (show_digits \<bar>milli q smod milli_per_unit\<bar>)))"

definition quantity_label :: "quantity \<Rightarrow> utext" where
  "quantity_label q =
     (if milli q smod milli_per_unit = 0 then show_int (milli q sdiv milli_per_unit)
      else
        let whole = milli q sdiv milli_per_unit; fraction = \<bar>milli q smod milli_per_unit\<bar> in
        trim_zeros (show_int whole @ lit ''.'' @ pad_zero 3 (show_digits fraction)))"

definition print_line :: "utext \<Rightarrow> nat list" where
  "print_line text = map (\<lambda>c. if c < 128 then nat c else 63) text @ [10]"

section \<open>A receipt\<close>

record receipt_line =
  rl_name :: utext
  rl_quantity :: quantity
  rl_unit_price :: money
  rl_total :: money
  rl_voided :: bool

record receipt_tax_group =
  rg_label :: utext
  rg_taxable_base :: money
  rg_tax :: money

record receipt_data =
  rd_shop_name :: utext
  rd_shop_address :: "utext option"
  rd_tax_registration :: "utext option"
  rd_invoice_number :: utext
  rd_printed_at :: utext
  rd_currency_label :: utext
  rd_lines :: "receipt_line list"
  rd_tax_groups :: "receipt_tax_group list"
  rd_discount :: "money option"
  rd_net :: money
  rd_tax :: money
  rd_total :: money
  rd_tenders :: "(utext \<times> money) list"
  rd_change :: "money option"
  rd_footer :: "utext option"
  rd_qr :: "utext option"

definition item_rows :: "nat \<Rightarrow> receipt_line \<Rightarrow> utext list" where
  "item_rows width l =
     (let left = lit ''  '' @ quantity_text (rl_quantity l) @ lit '' x '' @ amount_text (rl_unit_price l) in
      if rl_voided l then [rl_name l @ lit '' (VOID)'', columns left (lit ''0.00'') width]
      else [rl_name l, columns left (amount_text (rl_total l)) width])"

text \<open>\<open>filter(|v| !v.is_zero())\<close> on an optional amount.\<close>

definition nonzero :: "money option \<Rightarrow> money list" where
  "nonzero m = (case m of None \<Rightarrow> [] | Some v \<Rightarrow> (if is_zero v then [] else [v]))"

definition total_rows :: "nat \<Rightarrow> receipt_data \<Rightarrow> nat list" where
  "total_rows width d =
     concat (map (\<lambda>v. print_line (columns (lit ''Discount'') (lit ''-'' @ amount_text v) width)) (nonzero (rd_discount d)))
     @ print_line (columns (lit ''Subtotal'') (amount_text (rd_net d)) width)
     @ concat (map (\<lambda>g. print_line (columns (rg_label g) (amount_text (rg_tax g)) width)) (rd_tax_groups d))
     @ emphasis True
     @ print_line (columns (lit ''TOTAL '' @ rd_currency_label d) (amount_text (rd_total d)) width)
     @ emphasis False
     @ concat (map (\<lambda>(label, v). print_line (columns label (amount_text v) width)) (rd_tenders d))
     @ concat (map (\<lambda>v. print_line (columns (lit ''Change'') (amount_text v) width)) (nonzero (rd_change d)))"

definition header_rows :: "nat \<Rightarrow> receipt_data \<Rightarrow> nat list" where
  "header_rows width d =
     align_bytes AlignCenter @ emphasis True @ char_size True True @ print_line (rd_shop_name d)
     @ char_size False False @ emphasis False
     @ (case rd_shop_address d of None \<Rightarrow> [] | Some a \<Rightarrow> print_line a)
     @ (case rd_tax_registration d of None \<Rightarrow> [] | Some r \<Rightarrow> print_line (lit ''VAT Reg: '' @ r))
     @ align_bytes AlignLeft @ print_line (rule_line width 45)
     @ print_line (lit ''Invoice: '' @ rd_invoice_number d)
     @ print_line (lit ''Date:    '' @ rd_printed_at d)
     @ print_line (rule_line width 45)"

definition footer_rows :: "nat \<Rightarrow> receipt_data \<Rightarrow> nat list" where
  "footer_rows width d =
     print_line (rule_line width 45) @ align_bytes AlignCenter
     @ (case rd_qr d of None \<Rightarrow> [] | Some payload \<Rightarrow>
          (case qr_command (as_bytes payload) 5 of Inl _ \<Rightarrow> [] | Inr bytes \<Rightarrow> bytes @ print_line []))
     @ (case rd_footer d of None \<Rightarrow> [] | Some f \<Rightarrow> print_line f)
     @ feed 3 @ paper_cut"

definition render :: "receipt_data \<Rightarrow> paper_width \<Rightarrow> bool \<Rightarrow> nat list" where
  "render d paper drawer =
     (let width = paper_columns paper in
      initialize @ code_page code_page_cp437 @ header_rows width d
      @ concat (map (\<lambda>l. concat (map print_line (item_rows width l))) (rd_lines d))
      @ print_line (rule_line width 45) @ total_rows width d @ footer_rows width d
      @ (if drawer then open_drawer PinTwo else []))"

definition drawer_only :: "nat list" where
  "drawer_only = open_drawer PinTwo"

section \<open>A kitchen ticket\<close>

record printed_item =
  kl_name :: utext
  kl_quantity :: quantity
  kl_modifiers :: "utext list"

record kitchen_data =
  kd_station :: utext
  kd_is_cancellation :: bool
  kd_table_label :: "utext option"
  kd_covers :: "nat option"
  kd_round :: nat
  kd_printed_at :: utext
  kd_lines :: "printed_item list"

definition item_block :: "printed_item \<Rightarrow> nat list" where
  "item_block l =
     emphasis True @ char_size False True @ print_line (quantity_label (kl_quantity l) @ lit '' x '' @ kl_name l)
     @ char_size False False @ emphasis False
     @ concat (map (\<lambda>m. print_line (lit ''    - '' @ m)) (kl_modifiers l))"

definition render_kitchen :: "kitchen_data \<Rightarrow> paper_width \<Rightarrow> nat list" where
  "render_kitchen d paper =
     (let width = paper_columns paper in
      initialize @ code_page code_page_cp437 @ align_bytes AlignCenter @ emphasis True @ char_size True True
      @ (if kd_is_cancellation d then print_line (lit ''*** CANCEL ***'') else [])
      @ print_line (kd_station d) @ char_size False False
      @ (case kd_table_label d of None \<Rightarrow> [] | Some t \<Rightarrow>
           char_size True True @ print_line (lit ''TABLE '' @ t) @ char_size False False)
      @ emphasis False @ align_bytes AlignLeft @ print_line (rule_line width 61)
      @ print_line (lit ''Round '' @ show_int (int (kd_round d))
          @ (case kd_covers d of None \<Rightarrow> [] | Some c \<Rightarrow> lit ''   '' @ show_int (int c) @ lit '' covers''))
      @ print_line (kd_printed_at d) @ print_line (rule_line width 61)
      @ concat (map item_block (kd_lines d))
      @ print_line (rule_line width 61) @ feed 3 @ paper_cut)"

section \<open>One way to write an amount\<close>

lemma two_digits:
  assumes "0 \<le> r" "r < 100"
  shows "pad_zero 2 (show_digits r) = [48 + r div 10, 48 + r mod 10]"
proof (cases "r < 10")
  case True
  with assms show ?thesis by (simp add: show_digits.simps [of r] pad_zero_def numeral_2_eq_2)
next
  case False
  then have "show_digits r = [48 + r div 10, 48 + r mod 10]"
    using assms by (simp add: show_digits.simps [of r] show_digits.simps [of "r div 10"])
  then show ?thesis by (simp add: pad_zero_def)
qed

lemma show_digits_hundreds:
  assumes "100 \<le> n"
  shows "show_digits n = show_digits (n div 100) @ [48 + n div 10 mod 10, 48 + n mod 10]"
proof -
  have "n div 10 div 10 = n div 100" by (simp add: zdiv_zmult2_eq [symmetric])
  then show ?thesis using assms by (simp add: show_digits.simps [of n] show_digits.simps [of "n div 10"])
qed

lemma padded_amount:
  assumes "0 \<le> n"
  shows "replicate (3 - length (show_digits n)) 48 @ show_digits n
    = show_digits (n div 100) @ [48 + n div 10 mod 10, 48 + n mod 10]"
proof -
  consider "n < 10" | "10 \<le> n" "n < 100" | "100 \<le> n" by linarith
  then show ?thesis
  proof cases
    case 1
    with assms show ?thesis by (simp add: show_digits.simps numeral_3_eq_3)
  next
    case 2
    then have "show_digits n = [48 + n div 10, 48 + n mod 10]"
      by (simp add: show_digits.simps [of n] show_digits.simps [of "n div 10"])
    with 2 show ?thesis by (simp add: show_digits.simps [of 0])
  next
    case 3
    have "show_digits (n div 100) \<noteq> []" by simp
    then have "1 \<le> length (show_digits (n div 100))" by (cases "show_digits (n div 100)") auto
    then show ?thesis by (simp add: show_digits_hundreds [OF 3])
  qed
qed

text \<open>The receipt and the QR code, written by two crates, show every amount alike.\<close>

theorem amount_text_decimal: "amount_text m = decimal m"
proof -
  have c: "minor_per_major (currency m) = 100" "exponent (currency m) = 2"
    by (cases "currency m"; simp add: minor_per_major_def)+
  have "n mod 100 = 10 * (n div 10 mod 10) + n mod 10" for n :: int using zmod_zmult2_eq [of 10 n 10] by simp
  then have r: "n mod 100 div 10 = n div 10 mod 10" "n mod 100 mod 10 = n mod 10" for n :: int by simp_all
  have three: "exponent (currency m) + 1 = 3" by (simp add: c)
  have padded: "replicate (3 - length (show_digits \<bar>minor m\<bar>)) 48 @ show_digits \<bar>minor m\<bar>
      = show_digits (\<bar>minor m\<bar> div 100) @ [48 + \<bar>minor m\<bar> div 10 mod 10, 48 + \<bar>minor m\<bar> mod 10]"
    by (rule padded_amount) simp
  have frac: "pad_zero 2 (show_digits (\<bar>minor m\<bar> mod 100)) = [48 + \<bar>minor m\<bar> div 10 mod 10, 48 + \<bar>minor m\<bar> mod 10]"
    by (simp add: two_digits r)
  have halves: "take (length (w @ [a, b]) - 2) (w @ [a, b]) = w" "drop (length (w @ [a, b]) - 2) (w @ [a, b]) = [a, b]"
    for w and a b :: int by simp_all
  show ?thesis
    unfolding amount_text_def decimal_def Let_def three padded unfolding c frac halves by (rule refl)
qed

section \<open>What fits the paper\<close>

lemma amount_text_length:
  assumes "wf_money m"
  shows "length (amount_text m) \<le> 22"
proof -
  have c: "minor_per_major (currency m) = 100" "exponent (currency m) = 2"
    by (cases "currency m"; simp add: minor_per_major_def)+
  have "\<bar>minor m\<bar> div 100 < 10 ^ Suc 17" using assms by (auto simp: wf_money_def in_i64_def)
  then have "length (show_digits (\<bar>minor m\<bar> div 100)) \<le> 18" using show_digits_length [of "\<bar>minor m\<bar> div 100" 17] by simp
  moreover have "length (pad_zero 2 (show_digits (\<bar>minor m\<bar> mod 100))) = 2" by (rule pad_zero_length) simp_all
  moreover have "length (amount_text m) = (if minor m < 0 then 1 else 0) + length (show_digits (\<bar>minor m\<bar> div 100))
      + 1 + length (pad_zero 2 (show_digits (\<bar>minor m\<bar> mod 100)))"
    unfolding amount_text_decimal decimal_def c Let_def lit_def by simp
  ultimately show ?thesis by (simp split: if_splits)
qed

lemma columns_length: "length amount + 2 \<le> width \<Longrightarrow> length (columns label amount width) = width"
  by (auto simp: columns_def Let_def)

text \<open>Every row of a receipt that carries an amount is exactly as wide as the paper, whatever the labels and however
  large the amounts, so no price wraps.\<close>

theorem priced_rows_fit:
  assumes "wf_money m" and "wf_money (rl_total l)"
  shows "length (columns label (amount_text m) (paper_columns p)) = paper_columns p
    \<and> length (columns label (lit ''-'' @ amount_text m) (paper_columns p)) = paper_columns p
    \<and> length (item_rows (paper_columns p) l ! 1) = paper_columns p"
  using amount_text_length [OF assms(1)] amount_text_length [OF assms(2)]
  by (cases p) (auto simp: columns_length item_rows_def Let_def lit_def)

definition sample_receipt_line :: receipt_line where
  "sample_receipt_line = \<lparr>rl_name = [82], rl_quantity = \<lparr>milli = 1500\<rparr>, rl_unit_price = \<lparr>minor = 10000, currency = Bdt\<rparr>,
     rl_total = \<lparr>minor = 10000, currency = Bdt\<rparr>, rl_voided = False\<rparr>"

lemma priced_rows_fit_witness:
  "length (item_rows 32 sample_receipt_line ! 1) = 32
    \<and> length (columns (replicate 99 65) (amount_text \<lparr>minor = - (2 ^ 63), currency = Bdt\<rparr>) 32) = 32"
  using priced_rows_fit [of "\<lparr>minor = - (2 ^ 63), currency = Bdt\<rparr>" sample_receipt_line "replicate 99 65" Mm58]
  by (simp add: wf_money_def in_i64_def sample_receipt_line_def)

section \<open>What the printer is told\<close>

text \<open>A QR command stores exactly the payload it was given, with a length field that says so, and a raster command sends
  as many bytes as its two size fields describe; neither emits anything but bytes.\<close>

theorem printer_commands_exact:
  assumes "\<forall>b \<in> set payload. b < 256"
  shows "(qr_command payload sz = Inr bytes \<longrightarrow>
      (\<forall>b \<in> set bytes. b < 256) \<and> bytes ! 28 + 256 * bytes ! 29 = length payload + 3
      \<and> take (length payload) (drop 33 bytes) = payload)
    \<and> (raster w h payload = Inr bytes \<longrightarrow>
      (\<forall>b \<in> set bytes. b < 256) \<and> w mod 8 = 0 \<and> bytes ! 4 + 256 * bytes ! 5 = w div 8 \<and> bytes ! 6 + 256 * bytes ! 7 = h
      \<and> drop 8 bytes = payload \<and> length payload = (bytes ! 4 + 256 * bytes ! 5) * (bytes ! 6 + 256 * bytes ! 7))"
proof (intro conjI impI)
  assume q: "qr_command payload sz = Inr bytes"
  show "\<forall>b \<in> set bytes. b < 256" "bytes ! 28 + 256 * bytes ! 29 = length payload + 3"
    "take (length payload) (drop 33 bytes) = payload"
    using q assms by (auto simp: qr_command_def Let_def gs_def split: if_splits)
next
  assume r: "raster w h payload = Inr bytes"
  show "\<forall>b \<in> set bytes. b < 256" "w mod 8 = 0" "bytes ! 4 + 256 * bytes ! 5 = w div 8" "bytes ! 6 + 256 * bytes ! 7 = h"
    "drop 8 bytes = payload" "length payload = (bytes ! 4 + 256 * bytes ! 5) * (bytes ! 6 + 256 * bytes ! 7)"
    using r assms by (auto simp: raster_def Let_def gs_def split: if_splits)
qed

lemma printer_commands_exact_witness:
  "\<exists>bytes. qr_command [72, 73] 99 = Inr bytes \<and> bytes ! 28 + 256 * bytes ! 29 = 5 \<and> take 2 (drop 33 bytes) = [72, 73]"
proof -
  obtain bytes where b: "qr_command [72, 73] 99 = Inr bytes" by (auto simp: qr_command_def Let_def)
  with printer_commands_exact [of "[72, 73]" 99 bytes] show ?thesis by (intro exI [of _ bytes]) (simp add: numeral_2_eq_2)
qed

end
