(* ===== verification/Printing.thy ===== *)
theory Printing
  imports Screens Paper
begin

text \<open>
  The paper a till hands out for a sale (\<open>fiscal_document\<close> and \<open>receipt\<close> of \<open>crates/sahl-terminal/src/terminal.rs\<close>),
  rebuilt from the sale, its seal and the outlet's settings.  How a UUID prints is the parameter \<open>show_uuid\<close>.
\<close>

definition till_line :: "terminal \<Rightarrow> sale_line \<Rightarrow> fiscal_line" where
  "till_line t l = \<lparr>fl_description = l_name l,
     fl_unit = (case bt_get (tm_catalogue t) (l_product_id l) of None \<Rightarrow> lit ''pcs'' | Some p \<Rightarrow> unit_label (pr_unit p)),
     fl_quantity_milli = milli (l_quantity l)\<rparr>"

definition till_invoice :: "terminal \<Rightarrow> outlet_config \<Rightarrow> sale \<Rightarrow> invoice_seal \<Rightarrow> order_totals \<Rightarrow> invoice" where
  "till_invoice t oc s sealed totals =
     \<lparr>in_sale_id = s_id s, in_sequence = is_counter sealed, in_issued_at = is_issued_at sealed,
      in_seller = \<lparr>sr_name = oc_name oc,
        sr_registration = (case oc_tax_registration oc of None \<Rightarrow> [] | Some r \<Rightarrow> r), sr_address = oc_address oc\<rparr>,
      in_buyer = no_buyer, in_lines = map (till_line t) (filter is_active (s_lines s)), in_totals = totals,
      in_destination = None\<rparr>"

definition till_fiscal_document :: "'moment qr_tools \<Rightarrow> wire \<Rightarrow> terminal \<Rightarrow> uuid \<Rightarrow> terminal_error + document" where
  "till_fiscal_document qt wr t sale_id =
     and_then (till_sale t sale_id) (\<lambda>s.
     and_then (ok_or (NotInvoiced sale_id) (till_invoice_seal wr t sale_id)) (\<lambda>sealed.
     case tm_outlet t of
       None \<Rightarrow> Inr NoDocument
     | Some oc \<Rightarrow>
         and_then (map_err TermSale (sale_totals s)) (\<lambda>totals.
         let i = till_invoice t oc s sealed totals in
         map_err TermDocument
           (case oc_regime oc of
              RegimeBdMushak \<Rightarrow> issue_mushak i
            | RegimeZatca \<Rightarrow> issue_zatca qt i
            | RegimeNone \<Rightarrow> issue_none i))))"

section \<open>The receipt\<close>

fun wallet_label :: "wallet \<Rightarrow> utext" where
  "wallet_label Bkash = lit ''Bkash''"
| "wallet_label Nagad = lit ''Nagad''"
| "wallet_label Rocket = lit ''Rocket''"
| "wallet_label Upay = lit ''Upay''"
| "wallet_label StcPay = lit ''StcPay''"

fun tender_label :: "tender_method \<Rightarrow> utext" where
  "tender_label Cash = lit ''Cash''"
| "tender_label Card = lit ''Card''"
| "tender_label (MobileWallet w) = wallet_label w"
| "tender_label BankTransfer = lit ''Bank transfer''"
| "tender_label StoreCredit = lit ''Store credit''"

fun tax_group_label :: "tax_class \<Rightarrow> utext" where
  "tax_group_label (Standard r) = lit ''VAT '' @ show_rate r"
| "tax_group_label ZeroRated = lit ''Zero-rated''"
| "tax_group_label Exempt = lit ''Exempt''"

definition till_receipt_line :: "currency \<Rightarrow> sale_line \<Rightarrow> receipt_line" where
  "till_receipt_line c l = \<lparr>rl_name = l_name l, rl_quantity = l_quantity l, rl_unit_price = l_unit_price l,
     rl_total = (if is_active l then l_unit_price l else from_minor 0 c), rl_voided = \<not> is_active l\<rparr>"

definition till_receipt ::
    "(uuid \<Rightarrow> utext) \<Rightarrow> 'moment qr_tools \<Rightarrow> wire \<Rightarrow> terminal \<Rightarrow> uuid \<Rightarrow> utext \<Rightarrow> terminal_error + receipt_data" where
  "till_receipt show_uuid qt wr t sale_id printed_at =
     and_then (till_sale t sale_id) (\<lambda>s.
     map_ok (\<lambda>totals.
       \<lparr>rd_shop_name = (case tm_outlet t of None \<Rightarrow> lit ''Sahl'' | Some oc \<Rightarrow> oc_name oc),
        rd_shop_address = map_option oc_address (tm_outlet t),
        rd_tax_registration = Option.bind (tm_outlet t) oc_tax_registration,
        rd_invoice_number = (case till_invoice_seal wr t sale_id of None \<Rightarrow> show_uuid sale_id
                             | Some sealed \<Rightarrow> show_int (is_counter sealed)),
        rd_printed_at = printed_at,
        rd_currency_label = lit (code (currency (ot_total totals))),
        rd_lines = map (till_receipt_line (currency (ot_total totals))) (s_lines s),
        rd_tax_groups = map (\<lambda>g. \<lparr>rg_label = tax_group_label (tg_tax_class g),
          rg_taxable_base = tg_taxable_base g, rg_tax = tg_tax g\<rparr>) (ot_tax_groups totals),
        rd_discount = (if is_zero (ot_discount totals) then None else Some (ot_discount totals)),
        rd_net = ot_net totals, rd_tax = ot_tax totals, rd_total = ot_total totals,
        rd_tenders = map (\<lambda>x. (tender_label (te_method x), te_amount x)) (s_tenders s),
        rd_change = (case change_due s of Inl _ \<Rightarrow> None | Inr c \<Rightarrow> if is_zero c then None else Some c),
        rd_footer = None,
        rd_qr = (case till_fiscal_document qt wr t sale_id of Inr (ZatcaInvoice z) \<Rightarrow> Some (zi_qr z) | _ \<Rightarrow> None)\<rparr>)
      (map_err TermSale (sale_totals s)))"

section \<open>What the paper adds up to\<close>

lemma sale_totals_calculate: "sale_totals s = Inr t \<Longrightarrow> \<exists>ord. calculate ord = Inr t"
  by (auto simp: sale_totals_def res_simps Let_def split: if_splits)

lemma book_sale_good: "book_replay es = Inr b \<Longrightarrow> bt_get b k = Some s \<Longrightarrow> good_sale s"
  using book_replay_good by (fastforce simp: good_book_def list_all_iff dest: map_of_SomeD)

lemma group_totals:
  assumes "sale_totals s = Inr t"
  shows "(\<Sum>g\<leftarrow>ot_tax_groups t. minor (tg_taxable_base g)) = minor (ot_net t)"
    and "(\<Sum>g\<leftarrow>ot_tax_groups t. minor (tg_tax g)) = minor (ot_tax t)"
proof -
  obtain ord where "calculate ord = Inr t" using sale_totals_calculate [OF assms] by blast
  from calculate_trace [OF this] obtain priced subtotal od shares groups
    where tr: "trace ord t priced subtotal od shares groups" by blast
  have "ot_tax_groups t = sort_key (\<lambda>g. class_sort_key (tg_tax_class g)) groups" "fold_groups [] (ot_lines t) = Inr groups"
    using tr by (simp_all add: trace_def)
  with fold_groups_Inr [OF this(2)] trace_sums(3,4) [OF tr]
  show "(\<Sum>g\<leftarrow>ot_tax_groups t. minor (tg_taxable_base g)) = minor (ot_net t)"
    "(\<Sum>g\<leftarrow>ot_tax_groups t. minor (tg_tax g)) = minor (ot_tax t)" by (simp_all add: sum_list_sort)
qed

lemma completed_change:
  assumes "good_sale s" and "s_status s = StatusCompleted"
  shows "\<exists>t c. s_settled_total s = Some t \<and> s_change_given s = Some c \<and> 0 \<le> minor c
    \<and> change_due s = Inr c \<and> (\<Sum>x\<leftarrow>s_tenders s. minor (te_amount x)) = minor t + minor c"
proof -
  obtain t c at tot paid where f: "s_settled_total s = Some t" "s_change_given s = Some c" "0 \<le> minor c" "wf_money c"
    "currency c = s_currency s" "sale_totals s = Inr tot" "ot_total tot = t" "tendered s = Inr paid" "minor paid = minor t + minor c"
    using completed_ok [OF assms] by metis
  have cur: "currency paid = s_currency s" "currency t = s_currency s"
    using f(6,7,8) by (auto simp: tendered_def sale_totals_def res_simps Let_def with_order_discount_def order_input_new_def
        split: if_splits dest!: try_sum_Inr(2) calculate_trace trace_sums(6))
  have "balance_due s = Inr \<lparr>minor = - minor c, currency = s_currency s\<rparr>"
    using f cur by (auto simp: balance_due_def checked_sub_def assert_same_currency_def fit_def wf_money_def in_i64_def res_simps and_then_def)
  then have "change_due s = Inr c"
    using f by (auto simp: change_due_def is_negative_def checked_neg_def money_zero_def from_minor_def fit_def wf_money_def
        in_i64_def and_then_def money_eq_iff)
  with f tendered_sum [OF f(8)] show ?thesis by simp
qed

text \<open>C38: the receipt of a completed sale adds up: net and tax to the total, the tax groups to both, and what was tendered
  to the total and the change printed; it lists every line, voided ones included.\<close>

theorem receipt_adds_up:
  assumes "book_replay es = Inr (tm_book t)" and "book_get (tm_book t) sale_id = Some s" and "s_status s = StatusCompleted"
    and "till_receipt show_uuid qt wr t sale_id at = Inr r"
  shows "s_settled_total s = Some (rd_total r)
    \<and> minor (rd_net r) + minor (rd_tax r) = minor (rd_total r)
    \<and> (\<Sum>g\<leftarrow>rd_tax_groups r. minor (rg_taxable_base g)) = minor (rd_net r)
    \<and> (\<Sum>g\<leftarrow>rd_tax_groups r. minor (rg_tax g)) = minor (rd_tax r)
    \<and> (\<Sum>x\<leftarrow>rd_tenders r. minor (snd x))
        = minor (rd_total r) + (case rd_change r of None \<Rightarrow> 0 | Some c \<Rightarrow> minor c)
    \<and> map rl_name (rd_lines r) = map l_name (s_lines s)
    \<and> map rl_voided (rd_lines r) = map (\<lambda>l. \<not> is_active l) (s_lines s)"
proof -
  have good: "good_sale s" using book_sale_good [OF assms(1)] assms(2) by (simp add: book_get_def)
  obtain tot c where c: "s_settled_total s = Some tot" "s_change_given s = Some c" "change_due s = Inr c"
    "(\<Sum>x\<leftarrow>s_tenders s. minor (te_amount x)) = minor tot + minor c" using completed_change [OF good assms(3)] by blast
  from assms(2,4) obtain totals where totals: "sale_totals s = Inr totals"
    and r: "rd_net r = ot_net totals" "rd_tax r = ot_tax totals" "rd_total r = ot_total totals"
      "rd_tax_groups r = map (\<lambda>g. \<lparr>rg_label = tax_group_label (tg_tax_class g),
          rg_taxable_base = tg_taxable_base g, rg_tax = tg_tax g\<rparr>) (ot_tax_groups totals)"
      "rd_tenders r = map (\<lambda>x. (tender_label (te_method x), te_amount x)) (s_tenders s)"
      "rd_change r = (if is_zero c then None else Some c)"
      "rd_lines r = map (till_receipt_line (currency (ot_total totals))) (s_lines s)"
    by (auto simp: till_receipt_def till_sale_def res_simps c(3))
  have "ot_total totals = tot" using completed_ok [OF good assms(3)] c(1) totals by (metis option.inject sum.inject(2))
  then show ?thesis
    using c r group_totals [OF totals] totals_sums(1) [OF totals]
    by (simp add: comp_def till_receipt_line_def is_zero_def)
qed

text \<open>C39: a challan a till issues for a completed sale carries the number of the sale's own seal, one row per line that was
  not voided, in order, and totals what the sale settled at, split into its net and its VAT; above Tk 25,000 a till
  issues none, since it never records a buyer.\<close>

theorem challan_of_sale:
  assumes "book_replay es = Inr (tm_book t)" and "book_get (tm_book t) sale_id = Some s" and "s_status s = StatusCompleted"
    and "till_fiscal_document qt wr t sale_id = Inr (BdMushak63 m)"
  shows "(\<exists>sealed. till_invoice_seal wr t sale_id = Some sealed \<and> mu_invoice_number m = show_int (is_counter sealed))
    \<and> map ml_serial (mu_lines m) = [1..<length (mu_lines m) + 1]
    \<and> map ml_description (mu_lines m) = map l_name (filter is_active (s_lines s))
    \<and> map ml_quantity_milli (mu_lines m) = map (\<lambda>l. milli (l_quantity l)) (filter is_active (s_lines s))
    \<and> (\<exists>total. s_settled_total s = Some total \<and> minor (mu_total_with_tax m) = minor total)
    \<and> minor (mu_total_with_tax m) = (\<Sum>r\<leftarrow>mu_lines m. minor (ml_total_value r)) + (\<Sum>r\<leftarrow>mu_lines m. minor (ml_vat_amount r))
    \<and> minor (mu_total_with_tax m) \<le> 2500000"
proof -
  have good: "good_sale s" using book_sale_good [OF assms(1)] assms(2) by (simp add: book_get_def)
  from assms(2,4) obtain sealed oc totals where sealed: "till_invoice_seal wr t sale_id = Some sealed"
    and totals: "sale_totals s = Inr totals"
    and doc: "(case oc_regime oc of RegimeBdMushak \<Rightarrow> issue_mushak (till_invoice t oc s sealed totals)
      | RegimeZatca \<Rightarrow> issue_zatca qt (till_invoice t oc s sealed totals)
      | RegimeNone \<Rightarrow> issue_none (till_invoice t oc s sealed totals)) = Inr (BdMushak63 m)"
    by (auto simp: till_fiscal_document_def till_sale_def res_simps Let_def split: option.splits)
  then have m: "mushak_build (till_invoice t oc s sealed totals) = Inr m"
    by (cases "oc_regime oc") (auto simp: issue_mushak_def issue_zatca_def issue_none_def res_simps split: if_splits)
  let ?i = "till_invoice t oc s sealed totals"
  obtain ord where "calculate ord = Inr (in_totals ?i)"
    using sale_totals_calculate [OF totals] by (auto simp: till_invoice_def)
  note c = challan_rows [OF this m]
  have n: "length (mu_lines m) = length (filter is_active (s_lines s))"
    using c totals_sums(3) [OF totals] by (simp add: till_invoice_def)
  have rows: "ml_serial (mu_lines m ! k) = k + 1 \<and> ml_description (mu_lines m ! k) = l_name (filter is_active (s_lines s) ! k)
      \<and> ml_quantity_milli (mu_lines m ! k) = milli (l_quantity (filter is_active (s_lines s) ! k))" if "k < length (mu_lines m)" for k
    using c that n by (auto simp: till_invoice_def till_line_def Let_def)
  have number: "mu_invoice_number m = show_int (is_counter sealed)"
    using m by (auto simp: mushak_build_def Let_def res_simps till_invoice_def)
  have serials: "map ml_serial (mu_lines m) = [1..<length (mu_lines m) + 1]"
    using rows by (auto intro!: nth_equalityI simp del: upt_Suc)
  have names: "map ml_description (mu_lines m) = map l_name (filter is_active (s_lines s))"
    "map ml_quantity_milli (mu_lines m) = map (\<lambda>l. milli (l_quantity l)) (filter is_active (s_lines s))"
    using rows n by (auto intro!: nth_equalityI)
  obtain tot where tot: "s_settled_total s = Some tot" "ot_total totals = tot"
    using completed_ok [OF good assms(3)] totals by (metis sum.inject(2))
  have sums: "minor (mu_total_value m) = (\<Sum>r\<leftarrow>mu_lines m. minor (ml_total_value r))"
    "minor (mu_total_vat m) = (\<Sum>r\<leftarrow>mu_lines m. minor (ml_vat_amount r))"
    using challan_columns [OF m] by simp_all
  have "\<not> minor (ot_total totals) > 2500000"
    using challan_buyer [OF m] by (auto simp: till_invoice_def no_buyer_def blank_def)
  then have small: "minor (mu_total_with_tax m) \<le> 2500000" using c by (simp add: till_invoice_def)
  show ?thesis using sealed number serials names tot c sums small by (simp add: till_invoice_def)
qed

section \<open>One sale on paper\<close>

definition paper_outlet :: outlet_config where
  "paper_outlet = \<lparr>oc_outlet_id = 2, oc_name = [75], oc_profile = Retail, oc_currency = Bdt, oc_timezone = [90],
     oc_regime = RegimeBdMushak, oc_tax_registration = Some [48], oc_address = [68], oc_scale = None,
     oc_approval = strictest Bdt, oc_configured_at = \<lparr>millis = 0\<rparr>\<rparr>"

definition paper_till :: terminal where
  "paper_till = day_till\<lparr>tm_book := projr (book_replay short_sale), tm_outlet := Some paper_outlet\<rparr>"

lemma paper_till_book: "\<exists>s. book_replay short_sale = Inr (tm_book paper_till) \<and> book_get (tm_book paper_till) 1 = Some s
    \<and> s_status s = StatusCompleted \<and> minor (the (s_settled_total s)) = 10000"
proof -
  have "map_ok (\<lambda>b. map_option (\<lambda>s. (s_status s, minor (the (s_settled_total s)))) (book_get b 1)) (book_replay short_sale)
      = Inr (Some (StatusCompleted, 10000))" by code_simp
  then show ?thesis by (auto simp: paper_till_def res_simps eq_commute [of "Some _" "map_option _ _"])
qed

lemma challan_of_sale_witness:
  "\<exists>m. till_fiscal_document plain_tools day_wire paper_till 1 = Inr (BdMushak63 m) \<and> minor (mu_total_with_tax m) = 10000
    \<and> length (mu_lines m) = 1"
proof -
  have "(case till_fiscal_document plain_tools day_wire paper_till 1 of Inr (BdMushak63 m) \<Rightarrow> length (mu_lines m) = 1 | _ \<Rightarrow> False)"
    by code_simp
  then obtain m where m: "till_fiscal_document plain_tools day_wire paper_till 1 = Inr (BdMushak63 m)" "length (mu_lines m) = 1"
    by (auto split: sum.splits document.splits)
  obtain s where s: "book_replay short_sale = Inr (tm_book paper_till)" "book_get (tm_book paper_till) 1 = Some s"
    "s_status s = StatusCompleted" "minor (the (s_settled_total s)) = 10000" using paper_till_book by blast
  from challan_of_sale [OF s(1-3) m(1)] m s(4) show ?thesis by auto
qed

lemma receipt_adds_up_witness:
  "\<exists>r. till_receipt (\<lambda>_. []) plain_tools day_wire paper_till 1 [] = Inr r \<and> minor (rd_total r) = 10000
    \<and> minor (rd_net r) + minor (rd_tax r) = 10000 \<and> length (rd_lines r) = 1"
proof -
  have "is_ok (till_receipt (\<lambda>_. []) plain_tools day_wire paper_till 1 [])" by code_simp
  then obtain r where r: "till_receipt (\<lambda>_. []) plain_tools day_wire paper_till 1 [] = Inr r" by (auto simp: is_ok_iff)
  obtain s where s: "book_replay short_sale = Inr (tm_book paper_till)" "book_get (tm_book paper_till) 1 = Some s"
    "s_status s = StatusCompleted" "minor (the (s_settled_total s)) = 10000" using paper_till_book by blast
  have "map_ok (\<lambda>b. map_option (\<lambda>s. length (s_lines s)) (book_get b 1)) (book_replay short_sale) = Inr (Some 1)" by code_simp
  with s have "length (s_lines s) = 1" by (auto simp: paper_till_def res_simps)
  with receipt_adds_up [OF s(1-3) r] r s(4) show ?thesis by (intro exI [of _ r]) (auto dest: arg_cong [where f = length])
qed

text \<open>The receipt prices a line at its unit price whatever its quantity: three items of 100.00 print as 100.00 in a sale of
  300.00.\<close>

definition three_items :: "sale_event list" where
  "three_items = [sample_opening, LineAdded 1 11 511 [73] (taka 10000) \<lparr>milli = 3000\<rparr> (Standard \<lparr>basis_points = 1500\<rparr>) [],
     TenderRecorded 1 22 Cash (taka 30000) None, Completed 1 (taka 30000) (taka 0) \<lparr>millis = 77\<rparr>]"

lemma receipt_line_ignores_quantity:
  "map_ok (\<lambda>r. (map (\<lambda>l. minor (rl_total l)) (rd_lines r), minor (rd_total r)))
     (till_receipt (\<lambda>_. []) plain_tools day_wire (paper_till\<lparr>tm_book := projr (book_replay three_items)\<rparr>) 1 []) = Inr ([10000], 30000)"
  by code_simp

end
