(* ===== verification/Amounts.thy ===== *)
theory Amounts
  imports Tax
begin

text \<open>
  The type of a calculated order (\<open>crates/sahl-core/src/tax/engine.rs\<close>): every amount the engine hands out, of the order,
  of its lines and of its tax groups, is in the currency of the order and within 64 bits.
\<close>

definition typed :: "currency \<Rightarrow> money \<Rightarrow> bool" where
  "typed c m \<longleftrightarrow> currency m = c \<and> wf_money m"

definition line_amounts :: "line_totals \<Rightarrow> money list" where
  "line_amounts l = [lt_gross l, lt_discount l, lt_net l, lt_tax l, lt_total l]"

definition amounts_of :: "order_totals \<Rightarrow> money list" where
  "amounts_of t = [ot_gross t, ot_discount t, ot_net t, ot_tax t, ot_total t] @ concat (map line_amounts (ot_lines t))
     @ concat (map (\<lambda>g. [tg_taxable_base g, tg_tax g]) (ot_tax_groups t))"

lemma resolve_tax_wf:
  "resolve_tax taxable class mode r = Inr (net, tax) \<Longrightarrow> wf_money taxable \<Longrightarrow> wf_money net \<and> wf_money tax"
  by (auto simp: resolve_tax_def res_simps apply_rate_def Let_def wf_money_def dest!: mul_ratio_Inr(4) split: if_splits pricing_mode.splits)

lemma settled_wf:
  assumes "settled order gross d base share line l" and "wf_money gross" and "m \<in> set (line_amounts l)"
  shows "wf_money m"
proof -
  obtain taxable where t: "checked_sub base share = Inr taxable"
    "resolve_tax taxable (li_tax_class line) (oi_pricing_mode order) (oi_rounding order) = Inr (lt_net l, lt_tax l)"
    "checked_add d share = Inr (lt_discount l)" "checked_add (lt_net l) (lt_tax l) = Inr (lt_total l)" "lt_gross l = gross"
    using assms(1) by (auto simp: settled_def)
  have "wf_money (lt_net l) \<and> wf_money (lt_tax l)" by (rule resolve_tax_wf [OF t(2) wf_money_ops(2) [OF t(1)]])
  with t assms(2,3) wf_money_ops(1) [OF t(3)] wf_money_ops(1) [OF t(4)] show ?thesis by (auto simp: line_amounts_def)
qed

lemma accumulate_group_typed:
  assumes "accumulate_group gs class net tax = Inr gs'" and "typed c net" and "typed c tax"
    and "\<forall>g \<in> set gs. typed c (tg_taxable_base g) \<and> typed c (tg_tax g)"
  shows "\<forall>g \<in> set gs'. typed c (tg_taxable_base g) \<and> typed c (tg_tax g)"
  using assms
proof (induction gs arbitrary: gs')
  case Nil
  then show ?case by auto
next
  case (Cons g gs)
  show ?case
  proof (cases "tg_tax_class g = class")
    case True
    with Cons.prems show ?thesis by (auto simp: res_simps typed_def wf_money_def)
  next
    case False
    with Cons show ?thesis by (auto simp: res_simps)
  qed
qed

lemma fold_groups_typed:
  assumes "fold_groups gs ls = Inr gs'" and "\<forall>l \<in> set ls. typed c (lt_net l) \<and> typed c (lt_tax l)"
    and "\<forall>g \<in> set gs. typed c (tg_taxable_base g) \<and> typed c (tg_tax g)"
  shows "\<forall>g \<in> set gs'. typed c (tg_taxable_base g) \<and> typed c (tg_tax g)"
  using assms
proof (induction ls arbitrary: gs)
  case Nil
  then show ?case by (simp add: fold_groups_def)
next
  case (Cons l ls)
  then obtain g1 where "accumulate_group gs (lt_tax_class l) (lt_net l) (lt_tax l) = Inr g1" "fold_groups g1 ls = Inr gs'"
    by (auto simp: fold_groups_def res_simps)
  note g = this
  have "typed c (lt_net l)" "typed c (lt_tax l)" using Cons.prems(2) by simp_all
  from accumulate_group_typed [OF g(1) this Cons.prems(3)] g(2) Cons.prems(2) show ?case by (intro Cons.IH) simp_all
qed

text \<open>C5: whatever an order asks for, the amounts of its calculation are of one currency and fit where the code stores them.\<close>

theorem calculation_typed:
  assumes "calculate ord = Inr t"
  shows "\<forall>m \<in> set (amounts_of t). currency m = oi_currency ord \<and> in_i64 (minor m)"
proof -
  obtain priced subtotal od shares groups where tr: "trace ord t priced subtotal od shares groups"
    using calculate_trace [OF assms] by blast
  let ?c = "oi_currency ord"
  have sums: "try_sum (map lt_gross (ot_lines t)) ?c = Inr (ot_gross t)" "try_sum (map lt_discount (ot_lines t)) ?c = Inr (ot_discount t)"
    "try_sum (map lt_net (ot_lines t)) ?c = Inr (ot_net t)" "try_sum (map lt_tax (ot_lines t)) ?c = Inr (ot_tax t)"
    "try_sum (map lt_total (ot_lines t)) ?c = Inr (ot_total t)" "fold_groups [] (ot_lines t) = Inr groups"
    "set (ot_tax_groups t) = set groups" using tr by (simp_all add: trace_def)
  have whole: "\<forall>m \<in> {ot_gross t, ot_discount t, ot_net t, ot_tax t, ot_total t}. typed ?c m"
    using sums(1-5) [THEN try_sum_Inr(2)] sums(1-5) [THEN try_sum_wf] unfolding typed_def by blast
  have cur: "\<forall>m \<in> set (line_amounts l). currency m = ?c" if l: "l \<in> set (ot_lines t)" for l
  proof -
    have "currency (f l) = ?c" if "try_sum (map f (ot_lines t)) ?c = Inr s" for f s
      by (rule try_sum_Inr(3) [OF that]) (use l in simp)
    from this [OF sums(1)] this [OF sums(2)] this [OF sums(3)] this [OF sums(4)] this [OF sums(5)]
    show ?thesis by (simp add: line_amounts_def)
  qed
  have lines: "\<forall>m \<in> set (line_amounts l). typed ?c m" if l: "l \<in> set (ot_lines t)" for l
  proof
    fix m
    assume m: "m \<in> set (line_amounts l)"
    obtain i where i: "i < length (ot_lines t)" "ot_lines t ! i = l" using l by (auto simp: in_set_conv_nth)
    then have i': "i < length (oi_lines ord)" using tr by (simp add: trace_def)
    have p: "price_line ord (i, oi_lines ord ! i) = Inr (fst (priced ! i), fst (snd (priced ! i)), snd (snd (priced ! i)))"
      and s: "settled ord (fst (priced ! i)) (fst (snd (priced ! i))) (snd (snd (priced ! i))) (shares ! i) (oi_lines ord ! i) l"
      using trace_line(1,2) [OF tr i'] i by simp_all
    have "wf_money (fst (priced ! i))" using price_line_Inr(1) [OF p] by (auto simp: res_simps dest: mul_ratio_Inr(4))
    with settled_wf [OF s _ m] cur [OF l] m show "typed ?c m" by (simp add: typed_def)
  qed
  have "\<forall>g \<in> set groups. typed ?c (tg_taxable_base g) \<and> typed ?c (tg_tax g)"
    using lines by (intro fold_groups_typed [OF sums(6)]) (auto simp: line_amounts_def)
  with whole lines sums(7) show ?thesis by (auto simp: amounts_of_def typed_def wf_money_def)
qed

lemma calculation_typed_witness:
  "\<exists>t. calculate sample_order = Inr t \<and> (\<forall>m \<in> set (amounts_of t). currency m = Bdt \<and> in_i64 (minor m)) \<and> length (amounts_of t) > 5"
proof -
  have "map_ok (\<lambda>t. length (amounts_of t) > 5) (calculate sample_order) = Inr True" by code_simp
  then obtain t where t: "calculate sample_order = Inr t" "length (amounts_of t) > 5" by (auto simp: res_simps)
  with calculation_typed [OF t(1)] show ?thesis by (simp add: sample_order_def)
qed

end
