(* ===== verification/Policies.thy ===== *)
theory Policies
  imports Units BTree "HOL-Library.Product_Lexorder"
begin

text \<open>
  What happens to facts recorded apart (\<open>crates/sahl-core/src/policy/stock.rs\<close> and \<open>policy/catalogue.rs\<close>): stock
  movements merged from several tills, with the oversells they reveal, and concurrent edits of a product.
\<close>

section \<open>Stock\<close>

datatype movement_reason = MovedSale | MovedRefund | MovedReceived | MovedCounted | MovedWastage | MovedTransferIn | MovedTransferOut

record stock_movement =
  mv_product_id :: uuid
  mv_delta :: quantity
  mv_reason :: movement_reason
  mv_device_id :: uuid

datatype stock_verdict = Available | Short quantity

fun is_short :: "stock_verdict \<Rightarrow> bool" where
  "is_short (Short q) = True"
| "is_short Available = False"

definition stock_level_of :: "stock_movement list \<Rightarrow> uuid \<Rightarrow> money_error + quantity" where
  "stock_level_of movements product_id =
     try_fold (\<lambda>sum m. quantity_checked_add sum (mv_delta m)) quantity_zero
       (filter (\<lambda>m. mv_product_id m = product_id) movements)"

definition stock_check :: "quantity \<Rightarrow> quantity \<Rightarrow> stock_verdict" where
  "stock_check on_hand wanted =
     (let remaining = saturate (milli on_hand - milli wanted) in
      if remaining \<ge> 0 then Available else Short (from_milli (saturate \<bar>remaining\<bar>)))"

record oversell =
  ov_product_id :: uuid
  ov_shortfall :: quantity
  ov_devices :: "uuid list"

text \<open>\<open>entry(k).or_insert((0, vec![]))\<close>, the level added, and the device noted once if stock left.\<close>

definition move_stock ::
    "(uuid, int \<times> uuid list) btree \<Rightarrow> stock_movement \<Rightarrow> money_error + (uuid, int \<times> uuid list) btree" where
  "move_stock products m =
     (let (level, devices) = (case bt_get products (mv_product_id m) of None \<Rightarrow> (0, []) | Some e \<Rightarrow> e) in
      and_then (ok_or Overflow (fit in_i64 (level + milli (mv_delta m)))) (\<lambda>level.
      Inr (bt_insert (mv_product_id m)
        (level, if quantity_is_negative (mv_delta m) \<and> mv_device_id m \<notin> set devices
                then devices @ [mv_device_id m] else devices) products)))"

definition oversell_of :: "uuid \<times> int \<times> uuid list \<Rightarrow> oversell option" where
  "oversell_of entry =
     (let (product_id, level, devices) = entry in
      if level \<ge> 0 then None
      else Some \<lparr>ov_product_id = product_id, ov_shortfall = from_milli (saturate \<bar>level\<bar>), ov_devices = sort devices\<rparr>)"

definition detect_oversells :: "stock_movement list \<Rightarrow> money_error + oversell list" where
  "detect_oversells movements = map_ok (List.map_filter oversell_of) (try_fold move_stock [] movements)"

section \<open>Catalogue edits\<close>

record 'v catalogue_edit =
  ed_product_id :: uuid
  ed_server_seq :: int
  ed_device_id :: uuid
  ed_value :: 'v

definition resolve_edit :: "'v catalogue_edit \<Rightarrow> 'v catalogue_edit \<Rightarrow> 'v catalogue_edit" where
  "resolve_edit a b =
     (if ed_server_seq a > ed_server_seq b then a
      else if ed_server_seq a < ed_server_seq b then b
      else if ed_device_id a \<ge> ed_device_id b then a else b)"

definition take_edit :: "(uuid, 'v catalogue_edit) btree \<Rightarrow> 'v catalogue_edit \<Rightarrow> (uuid, 'v catalogue_edit) btree" where
  "take_edit winners e =
     bt_insert (ed_product_id e)
       (case bt_get winners (ed_product_id e) of None \<Rightarrow> e | Some held \<Rightarrow> resolve_edit held e) winners"

definition latest_per_product :: "'v catalogue_edit list \<Rightarrow> (uuid, 'v catalogue_edit) btree" where
  "latest_per_product edits = foldl take_edit [] edits"

section \<open>Oversells are exactly what the movements add up to\<close>

definition moved :: "stock_movement list \<Rightarrow> uuid \<Rightarrow> int" where
  "moved ms p = (\<Sum>m\<leftarrow>filter (\<lambda>m. mv_product_id m = p) ms. milli (mv_delta m))"

definition takers :: "stock_movement list \<Rightarrow> uuid \<Rightarrow> uuid set" where
  "takers ms p = set (map mv_device_id (filter (\<lambda>m. mv_product_id m = p \<and> milli (mv_delta m) < 0) ms))"

lemma moved_snoc: "moved (ms @ [m]) p = moved ms p + (if mv_product_id m = p then milli (mv_delta m) else 0)"
  by (simp add: moved_def)

lemma takers_snoc:
  "takers (ms @ [m]) p = (if mv_product_id m = p \<and> milli (mv_delta m) < 0 then insert (mv_device_id m) (takers ms p) else takers ms p)"
  by (auto simp: takers_def)

lemma no_moves:
  assumes "p \<notin> mv_product_id ` set ms"
  shows "moved ms p = 0" and "takers ms p = {}"
proof -
  have "filter (\<lambda>x. mv_product_id x = p) ms = []" using assms by (metis (mono_tags, lifting) filter_False image_eqI)
  then show "moved ms p = 0" by (simp add: moved_def)
  show "takers ms p = {}" using assms by (auto simp: takers_def)
qed

lemma move_stock_run:
  assumes "try_fold move_stock [] ms = Inr products"
  shows "bt_ok products
    \<and> (\<forall>p. bt_get products p = None \<longrightarrow> p \<notin> mv_product_id ` set ms)
    \<and> (\<forall>p level devices. bt_get products p = Some (level, devices) \<longrightarrow>
         level = moved ms p \<and> in_i64 level \<and> distinct devices \<and> set devices = takers ms p)"
  using assms
proof (induction ms arbitrary: products rule: rev_induct)
  case Nil
  then show ?case by simp
next
  case (snoc m ms)
  let ?k = "mv_product_id m"
  from snoc.prems obtain q where q: "try_fold move_stock [] ms = Inr q" "move_stock q m = Inr products"
    by (auto simp: try_fold_append res_simps)
  have ih: "bt_ok q" "\<And>p. bt_get q p = None \<Longrightarrow> p \<notin> mv_product_id ` set ms"
    "\<And>p level devices. bt_get q p = Some (level, devices) \<Longrightarrow>
       level = moved ms p \<and> in_i64 level \<and> distinct devices \<and> set devices = takers ms p"
    using snoc.IH [OF q(1)] by blast+
  obtain level devices where e: "(case bt_get q ?k of None \<Rightarrow> (0, []) | Some e \<Rightarrow> e) = (level, devices)"
    by (metis surj_pair)
  have here: "level = moved ms ?k \<and> distinct devices \<and> set devices = takers ms ?k"
  proof (cases "bt_get q ?k")
    case None
    with e no_moves [OF ih(2) [OF None]] show ?thesis by simp
  next
    case (Some x)
    with e ih(3) [of ?k level devices] show ?thesis by simp
  qed
  define devs where "devs = (if milli (mv_delta m) < 0 \<and> mv_device_id m \<notin> set devices
    then devices @ [mv_device_id m] else devices)"
  from q(2) e have p: "products = bt_insert ?k (level + milli (mv_delta m), devs) q" and r: "in_i64 (level + milli (mv_delta m))"
    by (auto simp: move_stock_def res_simps Let_def quantity_is_negative_def devs_def)
  have devs: "distinct devs" "set devs = takers (ms @ [m]) ?k"
    using here by (auto simp: devs_def takers_snoc)
  have "level = moved (ms @ [m]) k \<and> in_i64 level \<and> distinct ds \<and> set ds = takers (ms @ [m]) k"
    if "bt_get products k = Some (level, ds)" for k level ds
    using that here r devs ih(3) [of k level ds] by (cases "k = ?k") (auto simp: p moved_snoc takers_snoc)
  moreover have "k \<notin> mv_product_id ` set (ms @ [m])" if "bt_get products k = None" for k
    using that ih(2) [of k] by (cases "k = ?k") (auto simp: p)
  moreover have "bt_ok products" using ih(1) p by simp
  ultimately show ?case by blast
qed

lemma oversold_ids:
  "map ov_product_id (List.map_filter oversell_of xs) = map fst (filter (\<lambda>e. fst (snd e) < 0) xs)"
  by (induction xs) (auto simp: map_filter_simps oversell_of_def)

text \<open>The oversells are exactly the products whose movements add up to less than nothing, in order, each once, with how
  far below and with exactly the devices stock left from.\<close>

theorem oversells_exact:
  assumes "detect_oversells ms = Inr os"
  shows "sorted (map ov_product_id os) \<and> distinct (map ov_product_id os)
    \<and> set (map ov_product_id os) = {p. moved ms p < 0}
    \<and> (\<forall>v \<in> set os. milli (ov_shortfall v) = saturate (- moved ms (ov_product_id v))
         \<and> sorted (ov_devices v) \<and> distinct (ov_devices v) \<and> set (ov_devices v) = takers ms (ov_product_id v))"
proof -
  obtain products where run: "try_fold move_stock [] ms = Inr products" and os: "os = List.map_filter oversell_of products"
    using assms by (auto simp: detect_oversells_def res_simps)
  have r: "bt_ok products" "\<And>p. bt_get products p = None \<Longrightarrow> p \<notin> mv_product_id ` set ms"
    and here: "\<And>p level devices. bt_get products p = Some (level, devices) \<Longrightarrow>
      level = moved ms p \<and> in_i64 level \<and> distinct devices \<and> set devices = takers ms p"
    using move_stock_run [OF run] by blast+
  have ids: "map ov_product_id os = map fst (filter (\<lambda>e. fst (snd e) < 0) products)"
    unfolding os by (rule oversold_ids)
  have "sorted_wrt (<) (map fst (filter (\<lambda>e. fst (snd e) < 0) products))"
    using r(1) by (simp add: bt_ok_def sorted_wrt_map sorted_wrt_filter)
  then have order: "sorted (map ov_product_id os)" "distinct (map ov_product_id os)"
    unfolding ids by (simp_all only: strict_sorted_iff)
  have entry: "(p, level, devices) \<in> set products \<longleftrightarrow> bt_get products p = Some (level, devices)" for p level devices
    using r(1) by (rule bt_entry_iff)
  have member: "p \<in> set (map ov_product_id os) \<longleftrightarrow> moved ms p < 0" for p
  proof -
    have "p \<in> set (map ov_product_id os) \<longleftrightarrow> (\<exists>level devices. (p, level, devices) \<in> set products \<and> level < 0)"
      unfolding ids by force
    also have "\<dots> \<longleftrightarrow> moved ms p < 0"
    proof (cases "bt_get products p")
      case None
      with no_moves(1) [OF r(2) [OF None]] show ?thesis by (simp add: entry)
    next
      case (Some e)
      then obtain level devices where e: "bt_get products p = Some (level, devices)" by (cases e) auto
      with here [OF e] show ?thesis by (simp add: entry)
    qed
    finally show ?thesis .
  qed
  then have members: "set (map ov_product_id os) = {p. moved ms p < 0}" by blast
  have "milli (ov_shortfall v) = saturate (- moved ms (ov_product_id v))
         \<and> sorted (ov_devices v) \<and> distinct (ov_devices v) \<and> set (ov_devices v) = takers ms (ov_product_id v)"
    if v: "v \<in> set os" for v
  proof -
    obtain p level devices where e: "(p, level, devices) \<in> set products" "level < 0"
      "v = \<lparr>ov_product_id = p, ov_shortfall = from_milli (saturate \<bar>level\<bar>), ov_devices = sort devices\<rparr>"
      using v by (auto simp: os map_filter_def oversell_of_def split: if_splits)
    with here [of p level devices] show ?thesis by (simp add: entry from_milli_def)
  qed
  with order members show ?thesis by (intro conjI ballI) simp_all
qed

text \<open>Two tills sell the last of what one of them received.\<close>

definition sold_apart :: "stock_movement list" where
  "sold_apart = [\<lparr>mv_product_id = 33, mv_delta = \<lparr>milli = 1000\<rparr>, mv_reason = MovedReceived, mv_device_id = 10\<rparr>,
     \<lparr>mv_product_id = 33, mv_delta = \<lparr>milli = - 1000\<rparr>, mv_reason = MovedSale, mv_device_id = 11\<rparr>,
     \<lparr>mv_product_id = 33, mv_delta = \<lparr>milli = - 1000\<rparr>, mv_reason = MovedSale, mv_device_id = 10\<rparr>]"

lemma oversells_exact_witness:
  "\<exists>os. detect_oversells sold_apart = Inr os \<and> set (map ov_product_id os) = {p. moved sold_apart p < 0}
    \<and> moved sold_apart 33 = - 1000 \<and> takers sold_apart 33 = {10, 11}"
proof -
  have "is_ok (detect_oversells sold_apart)" by code_simp
  then obtain os where "detect_oversells sold_apart = Inr os" by (auto simp: is_ok_iff)
  moreover have "moved sold_apart 33 = - 1000" by code_simp
  moreover have "takers sold_apart 33 = {10, 11}" by (auto simp: takers_def sold_apart_def)
  ultimately show ?thesis using oversells_exact [of sold_apart os] by blast
qed

section \<open>The latest edit wins, whatever the order\<close>

definition edit_rank :: "'v catalogue_edit \<Rightarrow> int \<times> uuid" where
  "edit_rank e = (ed_server_seq e, ed_device_id e)"

lemma resolve_edit_rank: "resolve_edit a b = (if edit_rank a < edit_rank b then b else a)"
  by (auto simp: resolve_edit_def edit_rank_def)

lemma latest_run:
  "bt_ok (latest_per_product es)
    \<and> (\<forall>p. bt_get (latest_per_product es) p = None \<longrightarrow> p \<notin> ed_product_id ` set es)
    \<and> (\<forall>p w. bt_get (latest_per_product es) p = Some w \<longrightarrow>
         w \<in> set es \<and> ed_product_id w = p \<and> (\<forall>e \<in> set es. ed_product_id e = p \<longrightarrow> edit_rank e \<le> edit_rank w))"
proof (induction es rule: rev_induct)
  case Nil
  then show ?case by (simp add: latest_per_product_def)
next
  case (snoc e es)
  define held where "held = (case bt_get (latest_per_product es) (ed_product_id e) of None \<Rightarrow> e | Some h \<Rightarrow> resolve_edit h e)"
  have run: "latest_per_product (es @ [e]) = bt_insert (ed_product_id e) held (latest_per_product es)"
    by (simp add: latest_per_product_def take_edit_def held_def)
  have ih: "bt_ok (latest_per_product es)" "\<And>p. bt_get (latest_per_product es) p = None \<Longrightarrow> p \<notin> ed_product_id ` set es"
    "\<And>p w. bt_get (latest_per_product es) p = Some w \<Longrightarrow>
       w \<in> set es \<and> ed_product_id w = p \<and> (\<forall>e \<in> set es. ed_product_id e = p \<longrightarrow> edit_rank e \<le> edit_rank w)"
    using snoc.IH by blast+
  have here: "held \<in> set (es @ [e]) \<and> ed_product_id held = ed_product_id e
      \<and> (\<forall>x \<in> set (es @ [e]). ed_product_id x = ed_product_id e \<longrightarrow> edit_rank x \<le> edit_rank held)"
  proof (cases "bt_get (latest_per_product es) (ed_product_id e)")
    case None
    then have "\<forall>x \<in> set es. ed_product_id x \<noteq> ed_product_id e" using ih(2) by (metis image_eqI)
    with None show ?thesis by (auto simp: held_def)
  next
    case (Some h)
    with ih(3) [OF Some] show ?thesis by (auto simp: held_def resolve_edit_rank dest: order.strict_implies_order)
  qed
  have "w \<in> set (es @ [e]) \<and> ed_product_id w = k \<and> (\<forall>x \<in> set (es @ [e]). ed_product_id x = k \<longrightarrow> edit_rank x \<le> edit_rank w)"
    if "bt_get (latest_per_product (es @ [e])) k = Some w" for k w
    using that here ih(3) [of k w] by (cases "k = ed_product_id e") (auto simp: run)
  moreover have "k \<notin> ed_product_id ` set (es @ [e])" if "bt_get (latest_per_product (es @ [e])) k = None" for k
    using that ih(2) [of k] by (cases "k = ed_product_id e") (auto simp: run)
  moreover have "bt_ok (latest_per_product (es @ [e]))" using ih(1) by (simp add: run)
  ultimately show ?case by blast
qed

definition wins :: "'v catalogue_edit list \<Rightarrow> uuid \<Rightarrow> 'v catalogue_edit \<Rightarrow> bool" where
  "wins es p w \<longleftrightarrow> w \<in> set es \<and> ed_product_id w = p \<and> (\<forall>e \<in> set es. ed_product_id e = p \<longrightarrow> edit_rank e \<le> edit_rank w)"

lemma wins_unique:
  assumes "inj_on (\<lambda>e. (ed_product_id e, edit_rank e)) (set es)" and "wins es p v" and "wins es p w"
  shows "v = w"
proof -
  have "edit_rank v = edit_rank w" using assms(2,3) by (intro antisym) (auto simp: wins_def)
  with assms show ?thesis by (auto simp: wins_def dest: inj_onD)
qed

lemma latest_iff:
  assumes "inj_on (\<lambda>e. (ed_product_id e, edit_rank e)) (set es)" and "set xs = set es"
  shows "bt_get (latest_per_product xs) p = Some w \<longleftrightarrow> wins es p w"
proof
  show "bt_get (latest_per_product xs) p = Some w \<Longrightarrow> wins es p w"
    using latest_run [of xs] assms(2) by (simp add: wins_def)
  assume w: "wins es p w"
  then have "p \<in> ed_product_id ` set xs" using assms(2) by (auto simp: wins_def)
  then obtain v where v: "bt_get (latest_per_product xs) p = Some v" using latest_run [of xs] by fastforce
  then have "wins es p v" using latest_run [of xs] assms(2) by (simp add: wins_def)
  with w v wins_unique [OF assms(1)] show "bt_get (latest_per_product xs) p = Some w" by blast
qed

text \<open>As long as the server gave no number twice to one device, the surviving edit of every product is the one with the
  highest number, and the edits may arrive in any order, repeated or not.\<close>

theorem latest_edit_wins:
  assumes "set es = set es'" and "inj_on (\<lambda>e. (ed_product_id e, edit_rank e)) (set es)"
  shows "latest_per_product es = latest_per_product es'
    \<and> (\<forall>w. bt_get (latest_per_product es) p = Some w \<longleftrightarrow>
          w \<in> set es \<and> ed_product_id w = p \<and> (\<forall>e \<in> set es. ed_product_id e = p \<longrightarrow> edit_rank e \<le> edit_rank w))"
proof -
  have all: "set xs = set es \<Longrightarrow> bt_get (latest_per_product xs) p = Some w \<longleftrightarrow> wins es p w" for xs p w
    by (rule latest_iff [OF assms(2)])
  have "bt_get (latest_per_product es) k = bt_get (latest_per_product es') k" for k
    using all [of es k] all [of es' k] assms(1) by (cases "bt_get (latest_per_product es) k"; cases "bt_get (latest_per_product es') k") auto
  then have "latest_per_product es = latest_per_product es'"
    using latest_run [of es] latest_run [of es'] by (intro bt_ext) auto
  with all [of es p] show ?thesis by (simp add: wins_def)
qed

lemma latest_edit_wins_witness:
  "latest_per_product [\<lparr>ed_product_id = 1, ed_server_seq = 20, ed_device_id = 11, ed_value = 5200 :: int\<rparr>,
      \<lparr>ed_product_id = 1, ed_server_seq = 10, ed_device_id = 10, ed_value = 4800\<rparr>]
    = latest_per_product [\<lparr>ed_product_id = 1, ed_server_seq = 10, ed_device_id = 10, ed_value = 4800\<rparr>,
      \<lparr>ed_product_id = 1, ed_server_seq = 20, ed_device_id = 11, ed_value = 5200\<rparr>]"
  by (rule latest_edit_wins [THEN conjunct1]) (auto simp: edit_rank_def)

text \<open>A number given twice to one device leaves the order to decide.\<close>

lemma equal_edits_depend_on_order:
  "resolve_edit \<lparr>ed_product_id = 1, ed_server_seq = 5, ed_device_id = 10, ed_value = 100 :: int\<rparr>
      \<lparr>ed_product_id = 1, ed_server_seq = 5, ed_device_id = 10, ed_value = 200\<rparr>
    \<noteq> resolve_edit \<lparr>ed_product_id = 1, ed_server_seq = 5, ed_device_id = 10, ed_value = 200\<rparr>
      \<lparr>ed_product_id = 1, ed_server_seq = 5, ed_device_id = 10, ed_value = 100\<rparr>"
  by (simp add: resolve_edit_def)

end
