(* ===== verification/Messaging.thy ===== *)
theory Messaging
  imports DayReport Inventory Display EventLog
begin

text \<open>
  What the shop tells people (\<open>crates/sahl-core/src/messaging\<close>): the channels with their labels and limits, the closing
  summary of a day and the alert of what runs low.
\<close>

section \<open>Channels\<close>

datatype channel = WhatsApp | Messenger | Sms | Email

fun channel_label :: "channel \<Rightarrow> string" where
  "channel_label WhatsApp = ''whatsapp''"
| "channel_label Messenger = ''messenger''"
| "channel_label Sms = ''sms''"
| "channel_label Email = ''email''"

fun needs_preapproved_template :: "channel \<Rightarrow> bool" where
  "needs_preapproved_template WhatsApp = True"
| "needs_preapproved_template Messenger = False"
| "needs_preapproved_template Sms = False"
| "needs_preapproved_template Email = False"

fun soft_limit :: "channel \<Rightarrow> nat" where
  "soft_limit Sms = 160"
| "soft_limit WhatsApp = 1024"
| "soft_limit Messenger = 1024"
| "soft_limit Email = 100000"

definition channel_from_label :: "string \<Rightarrow> string + channel" where
  "channel_from_label label =
     (if label = ''whatsapp'' then Inr WhatsApp
      else if label = ''messenger'' then Inr Messenger
      else if label = ''sms'' then Inr Sms
      else if label = ''email'' then Inr Email
      else Inl label)"

record recipient =
  rc_address :: utext
  rc_channel :: channel

datatype audience = AudienceOwner | AudienceCustomer

datatype message_kind = ClosingSummary | LowStock | DigitalReceipt | AnomalyFound

fun message_kind_label :: "message_kind \<Rightarrow> string" where
  "message_kind_label ClosingSummary = ''closing_summary''"
| "message_kind_label LowStock = ''low_stock''"
| "message_kind_label DigitalReceipt = ''digital_receipt''"
| "message_kind_label AnomalyFound = ''anomaly''"

record message =
  ms_outlet_id :: uuid
  ms_kind :: message_kind
  ms_audience :: audience
  ms_body :: utext

definition fits :: "message \<Rightarrow> channel \<Rightarrow> bool" where
  "fits m c \<longleftrightarrow> length (ms_body m) \<le> soft_limit c"

section \<open>Amounts and quantities in a message\<close>

definition message_amount :: "money \<Rightarrow> utext" where
  "message_amount m =
     (let places = exponent (currency m); per_major = \<bar>minor_per_major (currency m)\<bar>; magnitude = \<bar>minor m\<bar>;
          sign = (if minor m < 0 then lit ''-'' else []); major = magnitude div per_major; rest = magnitude mod per_major
      in if places = 0 then sign @ lit (code (currency m)) @ [32] @ show_int major
         else sign @ lit (code (currency m)) @ [32] @ show_int major @ [46] @ pad_zero places (show_int rest))"

definition message_quantity :: "quantity \<Rightarrow> utext" where
  "message_quantity q =
     (let whole = milli q div milli_per_unit; fraction = milli q mod milli_per_unit in
      if fraction = 0 then show_int whole
      else rev (dropWhile (\<lambda>c. c = 48) (rev (show_int whole @ [46] @ pad_zero 3 (show_int fraction)))))"

definition short_id :: "codec \<Rightarrow> uuid \<Rightarrow> utext" where
  "short_id cd u = take 8 (lit (cd_uuid cd u))"

definition plural_s :: "nat \<Rightarrow> utext" where
  "plural_s n = (if n = 1 then [] else [115])"

section \<open>The closing summary\<close>

text \<open>\<open>max_by_key\<close>: of several rows that took the most it is the last.\<close>

fun busiest :: "cashier_row \<Rightarrow> cashier_row list \<Rightarrow> cashier_row" where
  "busiest best [] = best"
| "busiest best (row # rows) = busiest (if minor (cr_takings best) \<le> minor (cr_takings row) then row else best) rows"

definition closing_summary :: "codec \<Rightarrow> uuid \<Rightarrow> utext \<Rightarrow> day \<Rightarrow> message" where
  "closing_summary cd outlet_id shop d =
     (let body = shop @ lit '': '' @ message_amount (dy_takings d) @ lit '' taken over '' @ show_int (int (dy_sales d))
            @ lit '' sale'' @ plural_s (dy_sales d) @ lit ''.'';
          body = (if minor (dy_discount d) \<noteq> 0 then body @ lit '' '' @ message_amount (dy_discount d) @ lit '' discounted.'' else body);
          body = (if dy_voids d > 0 then body @ lit '' '' @ show_int (int (dy_voids d)) @ lit '' line'' @ plural_s (dy_voids d)
                    @ lit '' voided.'' else body);
          body = (case dy_by_cashier d of
                    best # next # rows \<Rightarrow> body @ lit '' Busiest: '' @ short_id cd (cr_staff_id (busiest best (next # rows))) @ lit ''.''
                  | _ \<Rightarrow> body)
      in \<lparr>ms_outlet_id = outlet_id, ms_kind = ClosingSummary, ms_audience = AudienceOwner, ms_body = body\<rparr>)"

section \<open>What runs low\<close>

fun joined :: "utext \<Rightarrow> utext list \<Rightarrow> utext" where
  "joined sep [] = []"
| "joined sep [s] = s"
| "joined sep (s # t # ts) = s @ sep @ joined sep (t # ts)"

definition running_out :: "inventory_book \<Rightarrow> quantity \<Rightarrow> (uuid \<Rightarrow> utext option) \<Rightarrow> (utext \<times> quantity) list" where
  "running_out stock below name_of =
     sort_key (\<lambda>(name, on_hand). (milli on_hand, name))
       (List.map_filter (\<lambda>level. map_option (\<lambda>name. (name, bl_on_hand level)) (name_of (ba_product_id (bl_batch level))))
         (filter (\<lambda>level. milli (bl_on_hand level) \<le> milli below) (levels stock)))"

definition low_stock ::
    "uuid \<Rightarrow> utext \<Rightarrow> inventory_book \<Rightarrow> quantity \<Rightarrow> (uuid \<Rightarrow> utext option) \<Rightarrow> message option" where
  "low_stock outlet_id shop stock below name_of =
     (let out = running_out stock below name_of in
      if out = [] then None
      else
        let listed = map (\<lambda>(name, on_hand). name @ lit '' ('' @ message_quantity on_hand @ lit '')'') (take 5 out);
            body = shop @ lit '': running low '' @ [8212, 32] @ joined (lit '', '') listed;
            body = (if length out > length listed
                    then body @ lit '' and '' @ show_int (int (length out - length listed)) @ lit '' more'' else body)
        in Some \<lparr>ms_outlet_id = outlet_id, ms_kind = LowStock, ms_audience = AudienceOwner, ms_body = body @ lit ''.''\<rparr>)"

section \<open>Labels\<close>

text \<open>A channel is read back from its label, and from nothing else.\<close>

lemma channel_labels: "channel_from_label label = Inr c \<longleftrightarrow> label = channel_label c"
  by (cases c) (auto simp: channel_from_label_def)

section \<open>A summary fits one text message\<close>

lemma show_int_length:
  assumes "0 \<le> n" and "n < 10 ^ Suc k"
  shows "length (show_int n) \<le> Suc k"
  using show_digits_length [OF assms] assms(1) by (simp add: show_int_def)

lemma message_amount_length:
  assumes "\<bar>minor m\<bar> < 10 ^ 11"
  shows "length (message_amount m) \<le> 17"
proof -
  have "length (show_int (\<bar>minor m\<bar> div 100)) \<le> Suc 8"
    using assms by (intro show_int_length) (simp_all add: div_less_iff_less_mult)
  moreover have "length (show_int (\<bar>minor m\<bar> mod 100)) \<le> Suc 1" by (intro show_int_length) simp_all
  moreover have "length (lit (code (currency m))) = 3" "exponent (currency m) = 2"
    by (cases "currency m"; simp add: lit_def)+
  moreover have "length (lit ''-'') = 1" by (simp add: lit_def)
  ultimately show ?thesis by (auto simp: message_amount_def pad_zero_def Let_def abs_if split: if_splits)
qed

text \<open>A day's summary goes out as one SMS: for a shop with a name of up to forty characters, less than a hundred thousand
  sales and voids and amounts below a milliard, whatever of discounts, voids and cashiers it has to mention.\<close>

theorem summary_fits_sms:
  assumes "length shop \<le> 40" and "\<bar>minor (dy_takings d)\<bar> < 10 ^ 11" and "\<bar>minor (dy_discount d)\<bar> < 10 ^ 11"
    and "dy_sales d < 10 ^ 5" and "dy_voids d < 10 ^ 5"
  shows "fits (closing_summary cd outlet shop d) Sms"
proof -
  have n: "length (show_int (int (dy_sales d))) \<le> Suc 4" "length (show_int (int (dy_voids d))) \<le> Suc 4"
    using assms(4,5) by (intro show_int_length; simp)+
  have a: "length (message_amount (dy_takings d)) \<le> 17" "length (message_amount (dy_discount d)) \<le> 17"
    using assms(2,3) by (simp_all add: message_amount_length)
  have p: "length (plural_s k) \<le> 1" for k by (simp add: plural_s_def)
  have s: "length (short_id cd u) \<le> 8" for u by (simp add: short_id_def)
  have l: "length (lit t) = length t" for t by (simp add: lit_def)
  define tail where "tail = (case dy_by_cashier d of best # next # rows \<Rightarrow>
      lit '' Busiest: '' @ short_id cd (cr_staff_id (busiest best (next # rows))) @ lit ''.'' | _ \<Rightarrow> [])"
  have tail: "length tail \<le> 19" using s by (auto simp: tail_def l split: list.split)
  have body: "ms_body (closing_summary cd outlet shop d) =
      shop @ lit '': '' @ message_amount (dy_takings d) @ lit '' taken over '' @ show_int (int (dy_sales d))
        @ lit '' sale'' @ plural_s (dy_sales d) @ lit ''.''
      @ (if minor (dy_discount d) \<noteq> 0 then lit '' '' @ message_amount (dy_discount d) @ lit '' discounted.'' else [])
      @ (if dy_voids d > 0 then lit '' '' @ show_int (int (dy_voids d)) @ lit '' line'' @ plural_s (dy_voids d) @ lit '' voided.'' else [])
      @ tail"
    by (simp add: closing_summary_def Let_def tail_def split: list.split)
  have "length (if minor (dy_discount d) \<noteq> 0 then lit '' '' @ message_amount (dy_discount d) @ lit '' discounted.'' else []) \<le> 30"
    using a by (simp add: l)
  moreover have "length (if dy_voids d > 0 then lit '' '' @ show_int (int (dy_voids d)) @ lit '' line'' @ plural_s (dy_voids d)
      @ lit '' voided.'' else []) \<le> 20"
    using n p [of "dy_voids d"] by (simp add: l)
  ultimately show ?thesis using assms(1) n a p [of "dy_sales d"] tail by (simp add: fits_def body l)
qed

definition shop_day :: day where
  "shop_day = (day_empty Bdt)\<lparr>dy_takings := taka 123450, dy_sales := 37, dy_discount := taka 500, dy_voids := 3,
     dy_by_cashier := [\<lparr>cr_staff_id = 202, cr_sales = 1, cr_takings = taka 2000, cr_discount = taka 0, cr_voids = 0\<rparr>,
       \<lparr>cr_staff_id = 203, cr_sales = 3, cr_takings = taka 8000, cr_discount = taka 0, cr_voids = 0\<rparr>]\<rparr>"

lemma summary_fits_sms_witness:
  "busiest (dy_by_cashier shop_day ! 0) (tl (dy_by_cashier shop_day)) = dy_by_cashier shop_day ! 1
    \<and> fits (closing_summary sample_codec 1 (lit ''Karim Store'') shop_day) Sms"
proof
  show "busiest (dy_by_cashier shop_day ! 0) (tl (dy_by_cashier shop_day)) = dy_by_cashier shop_day ! 1"
    by (simp add: shop_day_def taka_def)
  show "fits (closing_summary sample_codec 1 (lit ''Karim Store'') shop_day) Sms"
    by (rule summary_fits_sms) (simp_all add: shop_day_def lit_def taka_def)
qed

section \<open>What the alert lists\<close>

text \<open>The list is of batches, the emptiest first: a product whose first batch is used up is announced as running out however
  much of it lies in the next.\<close>

theorem running_out_exact:
  "(name, q) \<in> set (running_out stock below name_of) \<longleftrightarrow>
     (\<exists>level \<in> set (levels stock). milli (bl_on_hand level) \<le> milli below \<and> name_of (ba_product_id (bl_batch level)) = Some name
        \<and> bl_on_hand level = q)"
  by (auto simp: running_out_def map_filter_def) (force split: option.splits)+

text \<open>Rice with its old batch sold out and forty kilos in the new one is running low.\<close>

definition two_batches :: "inventory_event list" where
  "two_batches = [BatchReceived 101 1 None None \<lparr>milli = 1000\<rparr> (taka 100) None \<lparr>millis = 1\<rparr> 9,
     BatchReceived 102 1 None None \<lparr>milli = 40000\<rparr> (taka 100) None \<lparr>millis = 2\<rparr> 9, StockIssued 101 \<lparr>milli = 1000\<rparr> IssueSale None \<lparr>millis = 3\<rparr> 7]"

lemma depleted_batch_runs_low:
  "map_ok (\<lambda>b. (low_stock 9 [83] b \<lparr>milli = 5000\<rparr> (\<lambda>p. Some [82]) \<noteq> None, map (milli \<circ> snd) (running_out b \<lparr>milli = 5000\<rparr> (\<lambda>p. Some [82])),
      sum_list (map (milli \<circ> bl_on_hand) (for_product b 1)))) (inventory_replay two_batches) = Inr (True, [0], 40000)"
  by code_simp

end
