(* ===== verification/Schedule.thy ===== *)
theory Schedule
  imports Till "HOL-Library.Word"
begin

unbundle bit_operations_syntax

text \<open>
  The pace of the till's background sync (\<open>crates/sahl-terminal/src/sync/backoff.rs\<close> and \<open>scheduler.rs\<close>): how long to
  wait after each round, and what the screen is told meanwhile.  A \<open>Duration\<close> is its number of nanoseconds; the jitter's
  seed is a 64-bit word.
\<close>

section \<open>Durations\<close>

definition nanos_per_milli :: int where
  "nanos_per_milli = 1000000"

definition nanos_per_sec :: int where
  "nanos_per_sec = 1000000000"

definition max_duration :: int where
  "max_duration = 18446744073709551615 * nanos_per_sec + 999999999"

definition from_secs :: "int \<Rightarrow> int" where
  "from_secs s = s * nanos_per_sec"

definition saturating_duration :: "int \<Rightarrow> int" where
  "saturating_duration d = max 0 (min max_duration d)"

section \<open>Backoff\<close>

record backoff =
  bo_base :: int
  bo_max :: int
  bo_attempt :: int
  bo_seed :: "64 word"

definition idle_pause :: int where
  "idle_pause = from_secs 30"

definition backoff_new :: "int \<Rightarrow> int \<Rightarrow> 64 word \<Rightarrow> backoff" where
  "backoff_new base limit seed = \<lparr>bo_base = base, bo_max = limit, bo_attempt = 0, bo_seed = seed\<rparr>"

definition backoff_standard :: "64 word \<Rightarrow> backoff" where
  "backoff_standard seed = backoff_new (from_secs 1) (from_secs 300) seed"

definition backoff_reset :: "backoff \<Rightarrow> backoff" where
  "backoff_reset b = b\<lparr>bo_attempt := 0\<rparr>"

definition xorshift :: "64 word \<Rightarrow> 64 word" where
  "xorshift s =
     (let s = s XOR push_bit 13 s; s = s XOR drop_bit 7 s in
      s XOR push_bit 17 s)"

definition jitter :: "backoff \<Rightarrow> int \<Rightarrow> backoff \<times> int" where
  "jitter b span =
     (if span = 0 then (b, 0)
      else
        let seed = xorshift (bo_seed b);
            span_millis = max 1 (case fit in_u64 (span div nanos_per_milli) of Some m \<Rightarrow> m | None \<Rightarrow> 2 ^ 64 - 1)
        in (b\<lparr>bo_seed := seed\<rparr>, uint seed mod span_millis * nanos_per_milli))"

definition next_delay :: "backoff \<Rightarrow> backoff \<times> int" where
  "next_delay b =
     (let factor = 2 ^ nat (min (bo_attempt b) 30);
          raw = saturating_duration (bo_base b * factor);
          capped = min raw (bo_max b);
          b = b\<lparr>bo_attempt := min (bo_attempt b + 1) (2 ^ 32 - 1)\<rparr>;
          half = capped div 2;
          spread = saturating_duration (capped - half);
          (b, drawn) = jitter b spread
      in (b, saturating_duration (half + drawn)))"

section \<open>The background loop\<close>

datatype sync_status = UpToDate nat | Retrying nat int | Stopped utext

datatype pause = AtOnce | Sleep int | Ends

definition after_round ::
    "(sync_client_error \<Rightarrow> utext) \<Rightarrow> backoff \<Rightarrow> sync_client_error + sync_outcome \<Rightarrow> nat \<Rightarrow> backoff \<times> sync_status \<times> pause" where
  "after_round show_error b answer held =
     (case answer of
        Inr result \<Rightarrow> (backoff_reset b, UpToDate held, if so_more_pending result then AtOnce else Sleep idle_pause)
      | Inl e \<Rightarrow>
          if is_terminal_failure e then (b, Stopped (show_error e), Ends)
          else let (b, delay) = next_delay b in (b, Retrying held (bo_attempt b), Sleep delay))"

text \<open>What the world around the thread does at a round: what the cashier did to the till since the last one, whether the loop
  was still asked to run, whether the till's lock could be had, the clock, and what the cashier did between the round and
  the count of what is left to send.\<close>

record moment =
  mo_till :: "terminal \<Rightarrow> terminal"
  mo_running :: bool
  mo_lock :: bool
  mo_now :: int
  mo_after :: "terminal \<Rightarrow> terminal"

fun sync_thread ::
    "codec \<Rightarrow> wire \<Rightarrow> 't transport \<Rightarrow> (sync_client_error \<Rightarrow> utext) \<Rightarrow> backoff \<Rightarrow> terminal \<times> 't \<Rightarrow> moment list
     \<Rightarrow> (terminal \<times> 't) \<times> (sync_status \<times> pause) list" where
  "sync_thread cd wr tp show_error b s [] = (s, [])"
| "sync_thread cd wr tp show_error b s (m # ms) =
     (let t = mo_till m (fst s) in
      if \<not> mo_running m then ((t, snd s), [])
      else if \<not> mo_lock m then ((t, snd s), [(Stopped (lit ''the till is in an inconsistent state''), Ends)])
      else
        let ((t, net), answer) = till_sync cd wr tp t (snd s) (mo_now m);
            s = (mo_after m t, net);
            (b, status, p) = after_round show_error b answer (till_unsynced_count (fst s))
        in if p = Ends then (s, [(status, p)])
           else let (s, reports) = sync_thread cd wr tp show_error b s ms in (s, (status, p) # reports))"

text \<open>The sleep goes in slices, with \<open>running i\<close> the flag as read before sleep_slice \<open>i\<close>.\<close>

definition sleep_slice :: int where
  "sleep_slice = 250 * nanos_per_milli"

function sleep_from :: "(nat \<Rightarrow> bool) \<Rightarrow> int \<Rightarrow> nat \<Rightarrow> int \<Rightarrow> int" where
  "sleep_from running whole i slept =
     (if slept < whole \<and> running i then sleep_from running whole (i + 1) (slept + min sleep_slice (whole - slept)) else slept)"
  by pat_completeness auto
termination
  by (relation "measure (\<lambda>(_, whole, _, slept). nat (whole - slept))")
    (auto simp: sleep_slice_def nanos_per_milli_def)

declare sleep_from.simps [simp del]

definition sleep_interruptibly :: "(nat \<Rightarrow> bool) \<Rightarrow> int \<Rightarrow> int" where
  "sleep_interruptibly running whole = sleep_from running whole 0 0"

section \<open>The seed\<close>

lemma xor_zero_iff: "s XOR t = 0 \<longleftrightarrow> s = t" for s t :: "64 word"
  by (simp add: bit_eq_iff bit_xor_iff)

lemma push_fixpoint:
  fixes s :: "64 word"
  assumes "s = push_bit n s" and "0 < n"
  shows "s = 0"
proof -
  have "s = push_bit (k * n) s" for k
    by (induction k) (use assms(1) in \<open>simp_all add: push_bit_push_bit [symmetric]\<close>)
  then have "s = push_bit (64 * n) s" .
  also have "\<dots> = 0" using assms(2) by (intro bit_word_eqI) (simp add: bit_simps)
  finally show ?thesis .
qed

lemma drop_fixpoint:
  fixes s :: "64 word"
  assumes "s = drop_bit n s" and "0 < n"
  shows "s = 0"
proof -
  have "s = drop_bit (k * n) s" for k
    by (induction k) (use assms(1) in \<open>simp_all add: drop_bit_drop_bit [symmetric]\<close>)
  then have "s = drop_bit (64 * n) s" .
  also have "\<dots> = 0" using assms(2) by (intro bit_word_eqI) (auto simp: bit_simps dest: bit_imp_le_length)
  finally show ?thesis .
qed

text \<open>A seed other than zero never becomes zero; zero stays zero, and draws no spread at all.\<close>

lemma xorshift_zero: "xorshift 0 = 0"
  by (simp add: xorshift_def)

lemma xorshift_nonzero: "s \<noteq> 0 \<Longrightarrow> xorshift s \<noteq> 0"
proof
  assume s: "s \<noteq> 0" and zero: "xorshift s = 0"
  define t where "t = s XOR push_bit 13 s"
  define u where "u = t XOR drop_bit 7 t"
  have "t \<noteq> 0" using s push_fixpoint [of s 13] unfolding t_def xor_zero_iff by force
  then have "u \<noteq> 0" using drop_fixpoint [of t 7] unfolding u_def xor_zero_iff by force
  moreover have "u XOR push_bit 17 u = 0" using zero by (simp only: xorshift_def Let_def t_def u_def)
  ultimately show False using push_fixpoint [of u 17] unfolding xor_zero_iff by force
qed

lemma zero_seed_never_spreads: "bo_seed b = 0 \<Longrightarrow> snd (jitter b span) = 0 \<and> bo_seed (fst (jitter b span)) = 0"
  by (simp add: jitter_def Let_def xorshift_zero)

section \<open>Delays\<close>

definition good_backoff :: "backoff \<Rightarrow> bool" where
  "good_backoff b \<longleftrightarrow> 0 \<le> bo_base b \<and> 0 \<le> bo_max b \<and> bo_max b \<le> max_duration \<and> 0 \<le> bo_attempt b"

text \<open>What the wait is capped at after so many failures.\<close>

definition delay_cap :: "backoff \<Rightarrow> int" where
  "delay_cap b = min (saturating_duration (bo_base b * 2 ^ nat (min (bo_attempt b) 30))) (bo_max b)"

lemma jitter_bounds:
  assumes "0 \<le> span" and "jitter b span = (b', d)"
  shows "0 \<le> d \<and> d \<le> span \<and> bo_base b' = bo_base b \<and> bo_max b' = bo_max b \<and> bo_attempt b' = bo_attempt b"
proof (cases "span = 0")
  case True
  with assms(2) show ?thesis by (simp add: jitter_def)
next
  case False
  let ?m = "max 1 (case fit in_u64 (span div nanos_per_milli) of Some m \<Rightarrow> m | None \<Rightarrow> 2 ^ 64 - 1)"
  have d: "d = uint (xorshift (bo_seed b)) mod ?m * nanos_per_milli" and b': "b' = b\<lparr>bo_seed := xorshift (bo_seed b)\<rparr>"
    using assms(2) False by (auto simp: jitter_def Let_def)
  have m: "?m = 1 \<or> ?m \<le> span div nanos_per_milli"
    using assms(1) by (auto simp: fit_def in_u64_def nanos_per_milli_def max_def split: option.splits if_splits)
  have pos: "0 \<le> uint (xorshift (bo_seed b)) mod ?m" and less: "uint (xorshift (bo_seed b)) mod ?m < ?m" by simp_all
  from m have "uint (xorshift (bo_seed b)) mod ?m \<le> span div nanos_per_milli"
  proof
    assume "?m = 1"
    then show ?thesis using assms(1) by (simp add: nanos_per_milli_def)
  next
    assume "?m \<le> span div nanos_per_milli"
    with less show ?thesis by linarith
  qed
  then have "d \<le> span" unfolding d by (simp add: nanos_per_milli_def)
  with pos b' show ?thesis by (simp add: d nanos_per_milli_def)
qed

lemma next_delay_bounds:
  assumes "good_backoff b" and "next_delay b = (b', d)"
  shows "delay_cap b div 2 \<le> d \<and> d \<le> delay_cap b \<and> good_backoff b'
    \<and> bo_base b' = bo_base b \<and> bo_max b' = bo_max b \<and> bo_attempt b' = min (bo_attempt b + 1) (2 ^ 32 - 1)"
proof -
  define c where "c = delay_cap b"
  define b1 where "b1 = b\<lparr>bo_attempt := min (bo_attempt b + 1) (2 ^ 32 - 1)\<rparr>"
  have c: "0 \<le> c" "c \<le> max_duration"
    using assms(1) by (auto simp: c_def delay_cap_def good_backoff_def saturating_duration_def max_duration_def nanos_per_sec_def)
  have fits: "saturating_duration x = x" if "0 \<le> x" "x \<le> c" for x
    using that c(2) by (simp add: saturating_duration_def)
  obtain b2 drawn where j: "jitter b1 (c - c div 2) = (b2, drawn)" by (metis surj_pair)
  have "next_delay b = (let (b, drawn) = jitter b1 (saturating_duration (c - c div 2)) in (b, saturating_duration (c div 2 + drawn)))"
    unfolding next_delay_def Let_def b1_def c_def delay_cap_def ..
  also have "saturating_duration (c - c div 2) = c - c div 2" using c(1) by (intro fits) linarith+
  finally have d: "b' = b2" "d = saturating_duration (c div 2 + drawn)" using j assms(2) by simp_all
  have "0 \<le> c - c div 2" using c(1) by linarith
  then have drawn: "0 \<le> drawn \<and> drawn \<le> c - c div 2 \<and> bo_base b' = bo_base b1 \<and> bo_max b' = bo_max b1 \<and> bo_attempt b' = bo_attempt b1"
    using j d(1) by (intro jitter_bounds) simp_all
  moreover have "d = c div 2 + drawn" unfolding d(2) using c(1) drawn by (intro fits) linarith+
  ultimately show ?thesis using assms(1) by (auto simp: c_def b1_def good_backoff_def)
qed

section \<open>The pace of the thread\<close>

text \<open>What the wait after the next failure is capped at, with the standard schedule and \<open>r\<close> failures in a row before it.\<close>

definition standard_cap :: "nat \<Rightarrow> int" where
  "standard_cap r = min (from_secs (2 ^ min r 30)) (from_secs 300)"

lemma standard_cap_bounds: "from_secs 1 \<le> standard_cap r \<and> standard_cap r \<le> from_secs 300"
  by (simp add: standard_cap_def from_secs_def nanos_per_sec_def)

text \<open>Reports as the backoff means them, after \<open>r\<close> failures in a row: a success waits not at all or the idle half
  minute and forgets the failures, a failure counts itself and waits between half its cap and the cap, and a stop is the
  last word.\<close>

fun paced :: "nat \<Rightarrow> (sync_status \<times> pause) list \<Rightarrow> bool" where
  "paced r [] = True"
| "paced r ((UpToDate n, p) # reports) = ((p = AtOnce \<or> p = Sleep idle_pause) \<and> paced 0 reports)"
| "paced r ((Retrying n k, p) # reports) =
     (k = min (int r + 1) (2 ^ 32 - 1)
      \<and> (case p of Sleep d \<Rightarrow> standard_cap r div 2 \<le> d \<and> d \<le> standard_cap r | _ \<Rightarrow> False)
      \<and> paced (Suc r) reports)"
| "paced r ((Stopped why, p) # reports) = (p = Ends \<and> reports = [])"

definition standard_after :: "nat \<Rightarrow> backoff \<Rightarrow> bool" where
  "standard_after r b \<longleftrightarrow> bo_base b = from_secs 1 \<and> bo_max b = from_secs 300 \<and> bo_attempt b = min (int r) (2 ^ 32 - 1)"

lemma standard_good: "standard_after r b \<Longrightarrow> good_backoff b"
  by (auto simp: standard_after_def good_backoff_def from_secs_def max_duration_def nanos_per_sec_def)

lemma standard_delay_cap:
  assumes "standard_after r b"
  shows "delay_cap b = standard_cap r"
proof -
  have n: "nat (min (bo_attempt b) 30) = min r 30" using assms by (simp add: standard_after_def min_def)
  have "(2 :: int) ^ min r 30 \<le> 2 ^ 30" by (intro power_increasing) simp_all
  then have "saturating_duration (from_secs (2 ^ min r 30)) = from_secs (2 ^ min r 30)"
    by (simp add: saturating_duration_def from_secs_def max_duration_def nanos_per_sec_def)
  with assms n show ?thesis by (simp add: delay_cap_def standard_cap_def standard_after_def from_secs_def mult.commute)
qed

lemma standard_reset: "standard_after r b \<Longrightarrow> standard_after 0 (backoff_reset b)"
  by (simp add: standard_after_def backoff_reset_def)

lemma standard_next:
  assumes "standard_after r b" and "next_delay b = (b', d)"
  shows "standard_after (Suc r) b' \<and> standard_cap r div 2 \<le> d \<and> d \<le> standard_cap r"
  using next_delay_bounds [OF standard_good [OF assms(1)] assms(2)] assms(1)
  by (simp add: standard_delay_cap standard_after_def min_def)

text \<open>One round's report, and the backoff it leaves.\<close>

lemma after_round_paced:
  assumes "standard_after r b" and "after_round show_error b answer held = (b', status, p)"
  shows "(p = Ends \<longrightarrow> paced r [(status, p)])
    \<and> (p \<noteq> Ends \<longrightarrow> (\<exists>r'. standard_after r' b' \<and> (\<forall>reports. paced r' reports \<longrightarrow> paced r ((status, p) # reports))))"
proof (cases answer)
  case (Inr result)
  with assms standard_reset [OF assms(1)] show ?thesis by (auto simp: after_round_def intro!: exI [of _ 0] split: if_splits)
next
  case (Inl e)
  show ?thesis
  proof (cases "is_terminal_failure e")
    case True
    with Inl assms(2) show ?thesis by (auto simp: after_round_def)
  next
    case False
    obtain b1 d where n: "next_delay b = (b1, d)" by (metis surj_pair)
    with Inl False assms(2) have "b' = b1 \<and> status = Retrying held (bo_attempt b1) \<and> p = Sleep d"
      by (auto simp: after_round_def)
    moreover have "bo_attempt b1 = min (int r + 1) (2 ^ 32 - 1)"
      using standard_next [OF assms(1) n] by (simp add: standard_after_def)
    ultimately show ?thesis using standard_next [OF assms(1) n] by (auto intro!: exI [of _ "Suc r"])
  qed
qed

lemma sync_thread_run:
  assumes "standard_after r b"
  shows "paced r (snd (sync_thread cd wr tp show_error b s ms))"
  using assms
proof (induction ms arbitrary: r b s)
  case Nil
  then show ?case by simp
next
  case (Cons m ms)
  obtain t net answer where sy: "till_sync cd wr tp (mo_till m (fst s)) (snd s) (mo_now m) = ((t, net), answer)" by (metis surj_pair)
  define s1 where "s1 = (mo_after m t, net)"
  obtain b1 status p where ar: "after_round show_error b answer (till_unsynced_count (fst s1)) = (b1, status, p)" by (metis surj_pair)
  obtain s2 reports where rest: "sync_thread cd wr tp show_error b1 s1 ms = (s2, reports)" by (metis surj_pair)
  have "paced r (snd (sync_thread cd wr tp show_error b s (m # ms)))" if "mo_running m" "mo_lock m"
  proof (cases "p = Ends")
    case True
    with that sy ar s1_def after_round_paced [OF Cons.prems ar] show ?thesis by simp
  next
    case False
    then obtain r' where "standard_after r' b1" "\<And>xs. paced r' xs \<Longrightarrow> paced r ((status, p) # xs)"
      using after_round_paced [OF Cons.prems ar] by blast
    with False that sy ar s1_def rest Cons.IH [of r' b1 s1] show ?thesis by simp
  qed
  note going = this
  show ?case
  proof (cases "mo_running m \<and> mo_lock m")
    case True
    then show ?thesis by (intro going) simp_all
  next
    case False
    then show ?thesis by (cases "mo_running m") (simp_all add: Let_def)
  qed
qed

text \<open>C29: whatever the network answers and the cashier does meanwhile, the thread keeps the pace: the n-th failure in a row is
  reported as the n-th and waits between half of \<open>2^(n-1)\<close> seconds, or of five minutes if that is less, and the whole of it.\<close>

theorem sync_keeps_pace:
  "paced 0 (snd (sync_thread cd wr tp show_error (backoff_standard seed) (t, net) ms))"
  by (rule sync_thread_run) (simp add: standard_after_def backoff_standard_def backoff_new_def)

section \<open>Sleeping\<close>

text \<open>Left alone the sleep lasts exactly as long as asked; told to stop before sleep_slice \<open>n\<close> it is over within \<open>n\<close> slices.\<close>

lemma sleep_from_bounds:
  assumes "slept \<le> whole"
  shows "slept \<le> sleep_from running whole i slept \<and> sleep_from running whole i slept \<le> whole
    \<and> ((\<forall>j. running j) \<longrightarrow> sleep_from running whole i slept = whole)
    \<and> (\<forall>k. \<not> running (i + k) \<longrightarrow> sleep_from running whole i slept \<le> slept + int k * sleep_slice)"
  using assms
proof (induction running whole i slept rule: sleep_from.induct)
  case (1 running whole i slept)
  have s: "0 < sleep_slice" by (simp add: sleep_slice_def nanos_per_milli_def)
  show ?case
  proof (cases "slept < whole \<and> running i")
    case False
    with "1.prems" s show ?thesis by (subst (1 2 3 4) sleep_from.simps) auto
  next
    case True
    let ?next = "slept + min sleep_slice (whole - slept)"
    have step: "sleep_from running whole i slept = sleep_from running whole (i + 1) ?next"
      using True by (subst sleep_from.simps) simp
    have le: "?next \<le> whole" by linarith
    have ih: "?next \<le> sleep_from running whole (i + 1) ?next \<and> sleep_from running whole (i + 1) ?next \<le> whole"
      "(\<forall>j. running j) \<longrightarrow> sleep_from running whole (i + 1) ?next = whole"
      "\<And>k. \<not> running (i + 1 + k) \<Longrightarrow> sleep_from running whole (i + 1) ?next \<le> ?next + int k * sleep_slice"
      using "1.IH" [OF True le] by blast+
    have "sleep_from running whole (i + 1) ?next \<le> slept + int k * sleep_slice" if "\<not> running (i + k)" for k
    proof (cases k)
      case 0
      with that True show ?thesis by simp
    next
      case (Suc j)
      have "sleep_from running whole (i + 1) ?next \<le> ?next + int j * sleep_slice" using that Suc by (intro ih(3)) simp
      also have "\<dots> \<le> slept + int k * sleep_slice" by (simp add: Suc algebra_simps)
      finally show ?thesis .
    qed
    then have "\<forall>k. \<not> running (i + k) \<longrightarrow> sleep_from running whole i slept \<le> slept + int k * sleep_slice" unfolding step by blast
    moreover have "slept \<le> ?next" using s True by simp
    then have "slept \<le> sleep_from running whole i slept" using ih(1) unfolding step by linarith
    ultimately show ?thesis using ih(1,2) unfolding step by blast
  qed
qed

theorem sleep_is_interrupted:
  "0 \<le> whole \<Longrightarrow> sleep_interruptibly running whole \<le> whole
    \<and> ((\<forall>j. running j) \<longrightarrow> sleep_interruptibly running whole = whole)
    \<and> (\<not> running n \<longrightarrow> sleep_interruptibly running whole \<le> int n * sleep_slice)"
  using sleep_from_bounds [of 0 whole running 0] by (simp add: sleep_interruptibly_def)

end
