(* ===== verification/Access.thy ===== *)
theory Access
  imports Invoicing Ingest
begin

text \<open>
  Who may talk to the server (\<open>crates/sahl-server/src/device\<close>, \<open>routes/auth.rs\<close>, \<open>routes/enroll.rs\<close> and the payload
  that \<open>crates/sahl-terminal/src/sync/http.rs\<close> signs): the enrollment of a terminal against a single-use token, and the
  signature every later request carries.  Ed25519, base64, hexadecimal and the text of a UUID are parameters.
\<close>

section \<open>What a request signs\<close>

record keys =
  ky_from_bytes :: "nat list \<Rightarrow> bool"
  ky_is_weak :: "nat list \<Rightarrow> bool"
  ky_verify_strict :: "nat list \<Rightarrow> nat list \<Rightarrow> nat list \<Rightarrow> bool"
  ky_sign :: "nat list \<Rightarrow> nat list \<Rightarrow> nat list"
  ky_base64 :: "utext \<Rightarrow> nat list option"
  ky_encode64 :: "nat list \<Rightarrow> utext"
  ky_unhex :: "utext \<Rightarrow> nat list option"
  ky_parse_uuid :: "utext \<Rightarrow> uuid option"

definition signing_domain :: utext where
  "signing_domain = lit ''sahl-request-v1''"

record signed_request =
  sq_device_id :: uuid
  sq_method :: utext
  sq_path :: utext
  sq_timestamp_millis :: int
  sq_body :: "nat list"

definition to_ascii_uppercase :: "utext \<Rightarrow> utext" where
  "to_ascii_uppercase s = map (\<lambda>c. if 97 \<le> c \<and> c \<le> 122 then c - 32 else c) s"

definition signing_text :: "codec \<Rightarrow> signed_request \<Rightarrow> utext" where
  "signing_text cd r =
     signing_domain @ [10] @ to_ascii_uppercase (sq_method r) @ [10] @ sq_path r @ [10] @ lit (cd_uuid cd (sq_device_id r))
       @ [10] @ show_int (sq_timestamp_millis r) @ [10] @ lit (cd_hex cd (cd_sha256 cd (sq_body r)))"

definition signing_payload :: "codec \<Rightarrow> signed_request \<Rightarrow> nat list" where
  "signing_payload cd r = as_bytes (signing_text cd r)"

section \<open>Verifying a signature\<close>

datatype signature_error =
    SignatureRevoked uuid
  | SignatureMalformedKey uuid
  | MalformedSignature
  | TimestampOutOfWindow int int
  | SignatureRejected uuid

record device_credentials =
  dc_device_id :: uuid
  dc_public_key :: "nat list"
  dc_revoked :: bool

definition verify_request ::
    "codec \<Rightarrow> keys \<Rightarrow> signed_request \<Rightarrow> device_credentials \<Rightarrow> nat list \<Rightarrow> int \<Rightarrow> int \<Rightarrow> signature_error + unit" where
  "verify_request cd ky request credentials signature_bytes server_now max_skew_seconds =
     (if dc_revoked credentials then Inl (SignatureRevoked (dc_device_id credentials))
      else
        let skew = saturate \<bar>saturate (server_now - sq_timestamp_millis request)\<bar>;
            allowed = saturate (max_skew_seconds * 1000)
        in
        if skew > allowed then Inl (TimestampOutOfWindow (skew div 1000) max_skew_seconds)
        else if \<not> ky_from_bytes ky (dc_public_key credentials) then Inl (SignatureMalformedKey (dc_device_id credentials))
        else if length signature_bytes \<noteq> 64 then Inl MalformedSignature
        else if ky_verify_strict ky (dc_public_key credentials) (signing_payload cd request) signature_bytes then Inr ()
        else Inl (SignatureRejected (dc_device_id credentials)))"

section \<open>Authenticating a request\<close>

datatype auth_failure = MissingHeaders | MalformedHeaders | AuthUnknownDevice | AuthRevoked | BadSignature | AuthUnavailable

text \<open>A header's value, when it is visible ASCII and can be read as text, or not.\<close>

datatype header_value = Readable utext | Unreadable

type_synonym headers = "string \<Rightarrow> header_value option"

definition header_device :: string where
  "header_device = ''x-sahl-device''"

definition header_timestamp :: string where
  "header_timestamp = ''x-sahl-timestamp''"

definition header_signature :: string where
  "header_signature = ''x-sahl-signature''"

definition header :: "headers \<Rightarrow> string \<Rightarrow> auth_failure + utext" where
  "header hs name =
     (case hs name of
        None \<Rightarrow> Inl MissingHeaders
      | Some Unreadable \<Rightarrow> Inl MalformedHeaders
      | Some (Readable s) \<Rightarrow> Inr s)"

text \<open>\<open>SELECT device_tenant($1)\<close> is a scalar query: a device that does not exist is one row holding NULL, which does
  not decode as a UUID, and that decoding error is \<open>Unavailable\<close>.\<close>

definition tenant_of :: "server \<Rightarrow> uuid \<Rightarrow> auth_failure + uuid" where
  "tenant_of sv device_id =
     (case bt_get (sv_devices sv) device_id of None \<Rightarrow> Inl AuthUnavailable | Some d \<Rightarrow> Inr (dr_tenant_id d))"

definition authenticate ::
    "codec \<Rightarrow> keys \<Rightarrow> server \<Rightarrow> headers \<Rightarrow> utext \<Rightarrow> utext \<Rightarrow> nat list \<Rightarrow> int \<Rightarrow> int \<Rightarrow> auth_failure + device_record" where
  "authenticate cd ky sv hs method path body now max_skew_seconds =
     and_then (header hs header_device) (\<lambda>d.
     and_then (ok_or MalformedHeaders (ky_parse_uuid ky d)) (\<lambda>device_id.
     and_then (header hs header_timestamp) (\<lambda>ts.
     and_then (ok_or MalformedHeaders (parse_int in_i64 ts)) (\<lambda>timestamp.
     and_then (header hs header_signature) (\<lambda>sg.
     and_then (ok_or MalformedHeaders (ky_unhex ky sg)) (\<lambda>signature.
     and_then (tenant_of sv device_id) (\<lambda>tenant.
     and_then (map_err (\<lambda>_. AuthUnknownDevice) (load_device sv device_id)) (\<lambda>device.
     if dr_revoked device then Inl AuthRevoked
     else
       let request = \<lparr>sq_device_id = device_id, sq_method = method, sq_path = path, sq_timestamp_millis = timestamp,
                      sq_body = body\<rparr>;
           credentials = \<lparr>dc_device_id = device_id, dc_public_key = dr_public_key device, dc_revoked = dr_revoked device\<rparr>
       in map_ok (\<lambda>_. device)
            (map_err (\<lambda>_. BadSignature) (verify_request cd ky request credentials signature now max_skew_seconds))))))))))"

section \<open>Enrollment\<close>

datatype enrollment_error = TokenExpired | AlreadyConsumed | EnrollMalformedKey | Entropy utext

definition digest_token :: "codec \<Rightarrow> utext \<Rightarrow> nat list" where
  "digest_token cd plaintext = cd_sha256 cd (as_bytes (trim plaintext))"

record minted_token =
  mt_plaintext :: utext
  mt_digest :: "nat list"

text \<open>\<open>drawn\<close> is what the operating system's random source answers for 32 bytes.\<close>

definition mint_token :: "codec \<Rightarrow> keys \<Rightarrow> utext + nat list \<Rightarrow> enrollment_error + minted_token" where
  "mint_token cd ky drawn =
     map_ok (\<lambda>bytes. \<lparr>mt_plaintext = ky_encode64 ky bytes, mt_digest = digest_token cd (ky_encode64 ky bytes)\<rparr>)
       (map_err Entropy drawn)"

record stored_token =
  sk_expires_at_millis :: int
  sk_consumed :: bool

definition check_token_usable :: "stored_token \<Rightarrow> int \<Rightarrow> enrollment_error + unit" where
  "check_token_usable token now =
     (if sk_consumed token then Inl AlreadyConsumed
      else if now \<ge> sk_expires_at_millis token then Inl TokenExpired else Inr ())"

definition parse_public_key :: "keys \<Rightarrow> utext \<Rightarrow> enrollment_error + nat list" where
  "parse_public_key ky encoded =
     and_then (ok_or EnrollMalformedKey (ky_base64 ky (trim encoded))) (\<lambda>bytes.
     if length bytes \<noteq> 32 \<or> \<not> ky_from_bytes ky bytes \<or> ky_is_weak ky bytes then Inl EnrollMalformedKey else Inr bytes)"

record enroll_request =
  er_token :: utext
  er_public_key :: utext
  er_label :: utext

datatype enroll_answer = Enrolled uuid uuid uuid | EnrollRefused | EnrollUnavailable

text \<open>The tokens table, and the device table of \<open>Ingest\<close> with the labels it leaves out.\<close>

record enrollment_token =
  et_id :: uuid
  et_tenant_id :: uuid
  et_outlet_id :: uuid
  et_token_hash :: "nat list"
  et_expires_at_millis :: int
  et_consumed_by :: "uuid option"

record desk =
  dk_tokens :: "enrollment_token list"
  dk_server :: server
  dk_labels :: "(uuid, utext) btree"

text \<open>A request that passed the checks and is about to open its transaction.\<close>

record enroll_ticket =
  tk_token_id :: uuid
  tk_tenant_id :: uuid
  tk_outlet_id :: uuid
  tk_public_key :: "nat list"
  tk_label :: utext

definition enroll_check :: "codec \<Rightarrow> keys \<Rightarrow> desk \<Rightarrow> enroll_request \<Rightarrow> int \<Rightarrow> enroll_answer + enroll_ticket" where
  "enroll_check cd ky desk request now =
     and_then (map_err (\<lambda>_. EnrollRefused) (parse_public_key ky (er_public_key request))) (\<lambda>public_key.
     if trim (er_label request) = [] then Inl EnrollRefused
     else
       case find (\<lambda>t. et_token_hash t = digest_token cd (er_token request)) (dk_tokens desk) of
         None \<Rightarrow> Inl EnrollRefused
       | Some t \<Rightarrow>
           map_err (\<lambda>_. EnrollRefused)
             (map_ok (\<lambda>_. \<lparr>tk_token_id = et_id t, tk_tenant_id = et_tenant_id t, tk_outlet_id = et_outlet_id t,
                           tk_public_key = public_key, tk_label = trim (er_label request)\<rparr>)
               (check_token_usable \<lparr>sk_expires_at_millis = et_expires_at_millis t, sk_consumed = et_consumed_by t \<noteq> None\<rparr> now)))"

text \<open>The transaction: the token is consumed if nobody has in the meantime, and the device is created under the drawn
  id; a second device of that id violates the primary key and the transaction is rolled back.\<close>

definition enroll_commit :: "desk \<Rightarrow> enroll_ticket \<Rightarrow> uuid \<Rightarrow> desk \<times> enroll_answer" where
  "enroll_commit desk ticket device_id =
     (case update_first (\<lambda>t. et_id t = tk_token_id ticket \<and> et_consumed_by t = None)
             (\<lambda>t. t\<lparr>et_consumed_by := Some device_id\<rparr>) (dk_tokens desk) of
        None \<Rightarrow> (desk, EnrollRefused)
      | Some tokens \<Rightarrow>
          if bt_get (sv_devices (dk_server desk)) device_id \<noteq> None then (desk, EnrollUnavailable)
          else
            let device = \<lparr>dr_device_id = device_id, dr_tenant_id = tk_tenant_id ticket, dr_outlet_id = tk_outlet_id ticket,
                          dr_public_key = tk_public_key ticket, dr_revoked = False, dr_tip = tip_genesis\<rparr>
            in (desk\<lparr>dk_tokens := tokens,
                     dk_server := (dk_server desk)\<lparr>sv_devices := bt_insert device_id device (sv_devices (dk_server desk))\<rparr>,
                     dk_labels := bt_insert device_id (tk_label ticket) (dk_labels desk)\<rparr>,
                Enrolled device_id (tk_tenant_id ticket) (tk_outlet_id ticket)))"

definition enroll :: "codec \<Rightarrow> keys \<Rightarrow> desk \<Rightarrow> enroll_request \<Rightarrow> int \<Rightarrow> uuid \<Rightarrow> desk \<times> enroll_answer" where
  "enroll cd ky desk request now device_id =
     (case enroll_check cd ky desk request now of
        Inl answer \<Rightarrow> (desk, answer)
      | Inr ticket \<Rightarrow> enroll_commit desk ticket device_id)"

text \<open>\<open>sahl-server issue-token\<close> (\<open>main.rs\<close>): a token for an outlet, valid for the seconds asked, or for a quarter of an
  hour where they do not fit an \<open>i32\<close>.  A second row with its id or its digest violates a constraint.\<close>

definition issue_token ::
    "(uuid \<Rightarrow> uuid option) \<Rightarrow> desk \<Rightarrow> minted_token \<Rightarrow> uuid \<Rightarrow> uuid \<Rightarrow> int \<Rightarrow> int \<Rightarrow> desk option" where
  "issue_token outlet_tenant desk minted token_id outlet now ttl_seconds =
     (case outlet_tenant outlet of
        None \<Rightarrow> None
      | Some tenant \<Rightarrow>
          if list_ex (\<lambda>t. et_id t = token_id \<or> et_token_hash t = mt_digest minted) (dk_tokens desk) then None
          else
            let ttl = (case fit in_i32 ttl_seconds of Some s \<Rightarrow> s | None \<Rightarrow> 900) in
            Some (desk\<lparr>dk_tokens := dk_tokens desk @ [\<lparr>et_id = token_id, et_tenant_id = tenant, et_outlet_id = outlet,
               et_token_hash = mt_digest minted, et_expires_at_millis = now + ttl * 1000, et_consumed_by = None\<rparr>]\<rparr>))"

section \<open>Distinct requests sign distinct bytes\<close>

text \<open>A Unicode scalar value, as far as UTF-8 tells them apart.\<close>

definition scalar :: "int \<Rightarrow> bool" where
  "scalar c \<longleftrightarrow> 0 \<le> c \<and> c < 1114112"

text \<open>The character a UTF-8 text starts with, and the bytes after it.\<close>

definition first_char :: "nat list \<Rightarrow> int \<times> nat list" where
  "first_char bs =
     (let b = int (hd bs); tail = (\<lambda>i. int (bs ! i) - 128) in
      if b < 128 then (b, drop 1 bs)
      else if b < 224 then ((b - 192) * 64 + tail 1, drop 2 bs)
      else if b < 240 then ((b - 224) * 4096 + tail 2 + 64 * tail 1, drop 3 bs)
      else ((b - 240) * 262144 + 4096 * tail 1 + 64 * tail 2 + tail 3, drop 4 bs))"

lemma first_char_forms:
  "0 \<le> a \<Longrightarrow> a < 128 \<Longrightarrow> first_char (nat a # xs) = (a, xs)"
  "0 \<le> a \<Longrightarrow> a < 32 \<Longrightarrow> 0 \<le> r \<Longrightarrow> first_char (nat (192 + a) # nat (128 + r) # xs) = (a * 64 + r, xs)"
  "0 \<le> a \<Longrightarrow> a < 16 \<Longrightarrow> 0 \<le> q \<Longrightarrow> 0 \<le> r \<Longrightarrow>
     first_char (nat (224 + a) # nat (128 + q) # nat (128 + r) # xs) = (a * 4096 + r + 64 * q, xs)"
  "0 \<le> a \<Longrightarrow> 0 \<le> p \<Longrightarrow> 0 \<le> q \<Longrightarrow> 0 \<le> r \<Longrightarrow>
     first_char (nat (240 + a) # nat (128 + p) # nat (128 + q) # nat (128 + r) # xs) = (a * 262144 + 4096 * p + 64 * q + r, xs)"
  by (simp_all add: first_char_def Let_def eval_nat_numeral)

lemma base_64:
  "(c div 64) * 64 + c mod 64 = c"
  "(c div 4096) * 4096 + c mod 64 + 64 * (c div 64 mod 64) = c"
  "(c div 262144) * 262144 + 4096 * (c div 4096 mod 64) + 64 * (c div 64 mod 64) + c mod 64 = c" for c :: int
proof -
  show "(c div 64) * 64 + c mod 64 = c" by simp
  have "c div 64 = 64 * (c div 4096) + c div 64 mod 64" using div_mult_mod_eq [of "c div 64" 64] by (simp add: zdiv_zmult2_eq [symmetric])
  then show two: "(c div 4096) * 4096 + c mod 64 + 64 * (c div 64 mod 64) = c" using div_mult_mod_eq [of c 64] by linarith
  have "c div 4096 = 64 * (c div 262144) + c div 4096 mod 64"
    using div_mult_mod_eq [of "c div 4096" 64] by (simp add: zdiv_zmult2_eq [symmetric])
  with two show "(c div 262144) * 262144 + 4096 * (c div 4096 mod 64) + 64 * (c div 64 mod 64) + c mod 64 = c" by linarith
qed

lemma first_char_utf8:
  assumes "scalar c"
  shows "first_char (utf8_char c @ xs) = (c, xs)"
proof -
  have c: "0 \<le> c" using assms by (simp add: scalar_def)
  then have d: "0 \<le> c div 64" "0 \<le> c div 4096" "0 \<le> c div 262144" by (simp_all add: pos_imp_zdiv_nonneg_iff)
  have m: "0 \<le> x mod 64" for x :: int by simp
  consider "c < 128" | "128 \<le> c" "c < 2048" | "2048 \<le> c" "c < 65536" | "65536 \<le> c" by linarith
  then show ?thesis
  proof cases
    case 1
    with c show ?thesis by (simp add: utf8_char_def first_char_forms(1))
  next
    case 2
    then have "c div 64 < 32" by (simp add: div_less_iff_less_mult)
    from first_char_forms(2) [OF d(1) this m] 2 show ?thesis by (simp add: utf8_char_def base_64)
  next
    case 3
    then have "c div 4096 < 16" by (simp add: div_less_iff_less_mult)
    from first_char_forms(3) [OF d(2) this m m] 3 show ?thesis by (simp add: utf8_char_def base_64)
  next
    case 4
    from first_char_forms(4) [OF d(3) m m m] 4 show ?thesis by (simp add: utf8_char_def base_64)
  qed
qed

lemma utf8_char_prefix:
  assumes "scalar c" and "scalar d" and "utf8_char c @ xs = utf8_char d @ ys"
  shows "c = d \<and> xs = ys"
proof -
  have "(c, xs) = first_char (utf8_char c @ xs)" by (rule first_char_utf8 [OF assms(1), symmetric])
  also have "\<dots> = first_char (utf8_char d @ ys)" by (rule arg_cong [OF assms(3)])
  also have "\<dots> = (d, ys)" by (rule first_char_utf8 [OF assms(2)])
  finally show ?thesis by blast
qed

lemma as_bytes_append: "as_bytes (s @ t) = as_bytes s @ as_bytes t"
  by (simp add: as_bytes_def)

lemma as_bytes_inject:
  "list_all scalar s \<Longrightarrow> list_all scalar t \<Longrightarrow> as_bytes s = as_bytes t \<longleftrightarrow> s = t"
proof (induction s arbitrary: t)
  case Nil
  have "utf8_char c \<noteq> []" for c by (simp add: utf8_char_def)
  then show ?case by (cases t) (auto simp: as_bytes_def)
next
  case (Cons c s)
  have ne: "utf8_char c \<noteq> []" for c by (simp add: utf8_char_def)
  show ?case
  proof (cases t)
    case Nil
    with ne show ?thesis by (auto simp: as_bytes_def)
  next
    case (Cons d u)
    then have "utf8_char c @ as_bytes s = utf8_char d @ as_bytes u \<Longrightarrow> c = d \<and> as_bytes s = as_bytes u"
      using Cons.prems by (intro utf8_char_prefix) simp_all
    with Cons Cons.prems Cons.IH [of u] show ?thesis by (auto simp: as_bytes_def)
  qed
qed

lemma field_split:
  "d \<notin> set a \<Longrightarrow> d \<notin> set b \<Longrightarrow> a @ d # xs = b @ d # ys \<longleftrightarrow> a = b \<and> xs = ys"
proof (induction a arbitrary: b)
  case Nil
  then show ?case by (cases b) auto
next
  case (Cons x a)
  then show ?case by (cases b) auto
qed

lemma show_int_inject: "show_int m = show_int n \<longleftrightarrow> m = n"
proof
  have head: "hd (show_digits k) \<noteq> 45" if "0 \<le> k" for k
    using show_digits_digits [OF that] show_digits_not_Nil [of k]
    by (cases "show_digits k") (auto simp: is_ascii_digit_def)
  have minus: "lit ''-'' = [45]" by (simp add: lit_def)
  have same: "k = l" if "0 \<le> k" "0 \<le> l" "show_digits k = show_digits l" for k l
    using show_digits_value that by metis
  assume eq: "show_int m = show_int n"
  have form: "(k < 0 \<longrightarrow> show_int k = 45 # show_digits (- k)) \<and> (\<not> k < 0 \<longrightarrow> show_int k = show_digits k)" for k
    by (simp add: show_int_def minus)
  show "m = n"
  proof (cases "m < 0")
    case m: True
    show ?thesis
    proof (cases "n < 0")
      case True
      with m eq form [of m] form [of n] same [of "- m" "- n"] show ?thesis by simp
    next
      case False
      with m eq form [of m] form [of n] have "show_digits n = 45 # show_digits (- m)" by simp
      with head [of n] False show ?thesis by simp
    qed
  next
    case m: False
    show ?thesis
    proof (cases "n < 0")
      case True
      with m eq form [of m] form [of n] have "show_digits m = 45 # show_digits (- n)" by simp
      with head [of m] m show ?thesis by simp
    next
      case False
      with m eq form [of m] form [of n] same [of m n] show ?thesis by simp
    qed
  qed
qed simp

lemma parse_show_int: "R n \<Longrightarrow> parse_int R (show_int n) = Some n"
proof (cases "n < 0")
  case True
  then have d: "list_all is_ascii_digit (show_digits (- n))" "digits_value (show_digits (- n)) = - n"
    by (simp_all add: show_digits_digits show_digits_value)
  assume "R n"
  with True d show ?thesis by (simp add: show_int_def lit_def parse_int_def fit_def)
next
  case False
  then have d: "list_all is_ascii_digit (show_digits n)" "digits_value (show_digits n) = n"
    by (simp_all add: show_digits_digits show_digits_value)
  assume "R n"
  with False d show ?thesis by (simp add: show_int_def parse_int_digits fit_def)
qed

text \<open>Characters that can stand in a field of the payload: no line feed.\<close>

definition plain :: "utext \<Rightarrow> bool" where
  "plain s \<longleftrightarrow> list_all scalar s \<and> 10 \<notin> set s"

lemma show_int_plain: "plain (show_int n)"
proof -
  have "plain (show_digits k)" if "0 \<le> k" for k
    using show_digits_digits [OF that] by (auto simp: plain_def list_all_iff is_ascii_digit_def scalar_def)
  then show ?thesis by (simp add: show_int_def lit_def plain_def scalar_def)
qed

lemma upper_plain: "plain s \<Longrightarrow> plain (to_ascii_uppercase s)"
  by (auto simp: plain_def to_ascii_uppercase_def list_all_iff scalar_def)

lemma lit_scalar: "list_all scalar (lit s)"
proof -
  have "scalar (of_char c)" for c
    using of_char_mod_256 [of c, where ?'a = int] pos_mod_bound [of 256 "of_char c :: int"] pos_mod_sign [of 256 "of_char c :: int"]
    unfolding scalar_def by linarith
  then show ?thesis by (simp add: lit_def list_all_iff)
qed

lemma lit_inject: "lit s = lit t \<longleftrightarrow> s = t"
  by (auto simp: lit_def inj_map_eq_map inj_on_def)

text \<open>What is known of the texts of identifiers and digests: they differ where these do and hold no line feed.\<close>

definition plain_codec :: "codec \<Rightarrow> bool" where
  "plain_codec cd \<longleftrightarrow> inj (cd_uuid cd) \<and> inj (cd_hex cd) \<and> (\<forall>u. plain (lit (cd_uuid cd u)))"

definition plain_request :: "signed_request \<Rightarrow> bool" where
  "plain_request r \<longleftrightarrow> plain (sq_method r) \<and> plain (sq_path r)"

lemma signing_text_scalar:
  "plain_codec cd \<Longrightarrow> plain_request r \<Longrightarrow> list_all scalar (signing_text cd r)"
  using upper_plain [of "sq_method r"] show_int_plain [of "sq_timestamp_millis r"]
  by (simp add: signing_text_def plain_codec_def plain_request_def plain_def lit_scalar signing_domain_def) (simp add: scalar_def)

text \<open>Requests that sign the same bytes are the same request, but for the case of the method and a digest of another body.\<close>

lemma signing_payload_inject:
  assumes "plain_codec cd" and "plain_request r" and "plain_request q" and "signing_payload cd r = signing_payload cd q"
  shows "to_ascii_uppercase (sq_method r) = to_ascii_uppercase (sq_method q) \<and> sq_path r = sq_path q
    \<and> sq_device_id r = sq_device_id q \<and> sq_timestamp_millis r = sq_timestamp_millis q
    \<and> cd_sha256 cd (sq_body r) = cd_sha256 cd (sq_body q)"
proof -
  have "signing_text cd r = signing_text cd q"
    using assms signing_text_scalar by (simp add: signing_payload_def as_bytes_inject)
  then have t: "to_ascii_uppercase (sq_method r) @ 10 # sq_path r @ 10 # lit (cd_uuid cd (sq_device_id r)) @ 10
      # show_int (sq_timestamp_millis r) @ 10 # lit (cd_hex cd (cd_sha256 cd (sq_body r)))
    = to_ascii_uppercase (sq_method q) @ 10 # sq_path q @ 10 # lit (cd_uuid cd (sq_device_id q)) @ 10
      # show_int (sq_timestamp_millis q) @ 10 # lit (cd_hex cd (cd_sha256 cd (sq_body q)))"
    by (simp add: signing_text_def)
  have n: "10 \<notin> set (to_ascii_uppercase (sq_method x))" "10 \<notin> set (sq_path x)" if "plain_request x" for x
    using that upper_plain [of "sq_method x"] by (simp_all add: plain_request_def plain_def)
  have u: "10 \<notin> set (lit (cd_uuid cd x))" for x using assms(1) by (simp add: plain_codec_def plain_def)
  have i: "10 \<notin> set (show_int k)" for k using show_int_plain [of k] by (simp add: plain_def)
  show ?thesis
    using t n [OF assms(2)] n [OF assms(3)] u i assms(1)
    by (simp add: field_split lit_inject show_int_inject plain_codec_def inj_eq)
qed

text \<open>A line feed in the method moves the border to the path.\<close>

lemma line_feeds_shift_the_fields:
  "signing_payload cd \<lparr>sq_device_id = d, sq_method = [65, 10, 66], sq_path = [67], sq_timestamp_millis = t, sq_body = b\<rparr>
    = signing_payload cd \<lparr>sq_device_id = d, sq_method = [65], sq_path = [66, 10, 67], sq_timestamp_millis = t, sq_body = b\<rparr>"
  by (simp add: signing_payload_def signing_text_def to_ascii_uppercase_def)

section \<open>What an accepted request proves\<close>

lemma verify_request_ok:
  "verify_request cd ky r c sg now max_skew = Inr () \<longleftrightarrow>
     \<not> dc_revoked c \<and> saturate \<bar>saturate (now - sq_timestamp_millis r)\<bar> \<le> saturate (max_skew * 1000)
     \<and> ky_from_bytes ky (dc_public_key c) \<and> length sg = 64 \<and> ky_verify_strict ky (dc_public_key c) (signing_payload cd r) sg"
  by (simp add: verify_request_def Let_def not_le)

lemma authenticate_ok:
  "authenticate cd ky sv hs method path body now max_skew = Inr device \<longleftrightarrow>
     (\<exists>d id ts t sg signature. header hs header_device = Inr d \<and> ky_parse_uuid ky d = Some id
       \<and> header hs header_timestamp = Inr ts \<and> parse_int in_i64 ts = Some t
       \<and> header hs header_signature = Inr sg \<and> ky_unhex ky sg = Some signature
       \<and> bt_get (sv_devices sv) id = Some device \<and> \<not> dr_revoked device
       \<and> verify_request cd ky \<lparr>sq_device_id = id, sq_method = method, sq_path = path, sq_timestamp_millis = t, sq_body = body\<rparr>
           \<lparr>dc_device_id = id, dc_public_key = dr_public_key device, dc_revoked = False\<rparr> signature now max_skew = Inr ())"
  by (force simp: authenticate_def tenant_of_def load_device_def Let_def res_simps split: option.splits if_splits)

text \<open>The window of a request's clock, as the server's configuration bounds it.\<close>

lemma fresh:
  assumes "saturate \<bar>saturate x\<bar> \<le> saturate (max_skew * 1000)" and "0 \<le> max_skew" and "max_skew \<le> 3600"
  shows "\<bar>x\<bar> \<le> max_skew * 1000"
  using assms by (auto simp: saturate_def split: if_splits)

text \<open>A key that verifies nothing but what its terminal signed: what Ed25519 promises while the private key stays there.\<close>

definition signs_only :: "codec \<Rightarrow> keys \<Rightarrow> nat list \<Rightarrow> signed_request set \<Rightarrow> bool" where
  "signs_only cd ky key signed \<longleftrightarrow> (\<forall>m s. ky_verify_strict ky key m s \<longrightarrow> m \<in> signing_payload cd ` signed)"

text \<open>C26: an accepted request is one its device signed: this method at this path, for this device, at a time within the
  window, with a body of this digest, and the device is enrolled and not revoked.\<close>

theorem accepted_was_signed:
  assumes "authenticate cd ky sv hs method path body now max_skew = Inr device"
    and "signs_only cd ky (dr_public_key device) signed"
    and "plain_codec cd" and "plain method" and "plain path" and "\<forall>r \<in> signed. plain_request r"
    and "0 \<le> max_skew" and "max_skew \<le> 3600"
  shows "\<exists>r \<in> signed. to_ascii_uppercase (sq_method r) = to_ascii_uppercase method \<and> sq_path r = path
    \<and> cd_sha256 cd (sq_body r) = cd_sha256 cd body \<and> \<bar>now - sq_timestamp_millis r\<bar> \<le> max_skew * 1000
    \<and> bt_get (sv_devices sv) (sq_device_id r) = Some device \<and> \<not> dr_revoked device"
proof -
  obtain id t signature where dev: "bt_get (sv_devices sv) id = Some device" "\<not> dr_revoked device"
    and v: "verify_request cd ky \<lparr>sq_device_id = id, sq_method = method, sq_path = path, sq_timestamp_millis = t, sq_body = body\<rparr>
      \<lparr>dc_device_id = id, dc_public_key = dr_public_key device, dc_revoked = False\<rparr> signature now max_skew = Inr ()"
    using assms(1) by (auto simp: authenticate_ok)
  let ?q = "\<lparr>sq_device_id = id, sq_method = method, sq_path = path, sq_timestamp_millis = t, sq_body = body\<rparr>"
  from v have "ky_verify_strict ky (dr_public_key device) (signing_payload cd ?q) signature"
    and skew: "saturate \<bar>saturate (now - t)\<bar> \<le> saturate (max_skew * 1000)"
    by (simp_all add: verify_request_ok)
  then obtain r where r: "r \<in> signed" "signing_payload cd ?q = signing_payload cd r"
    using assms(2) by (auto simp: signs_only_def)
  have "plain_request ?q" using assms(4,5) by (simp add: plain_request_def)
  from signing_payload_inject [OF assms(3) this _ r(2)] assms(6) r(1) fresh [OF skew assms(7,8)] dev
  show ?thesis by (intro bexI [OF _ r(1)]) auto
qed

text \<open>Texts of identifiers and digests that can be read back: a run of \<open>a\<close> per number, closed by a \<open>b\<close>.\<close>

fun read_unary :: "nat \<Rightarrow> utext \<Rightarrow> nat list" where
  "read_unary k [] = []"
| "read_unary k (c # s) = (if c = 97 then read_unary (Suc k) s else k # read_unary 0 s)"

definition plain_texts :: codec where
  "plain_texts = sample_codec\<lparr>cd_uuid := (\<lambda>u. replicate u CHR ''a''),
     cd_hex := (\<lambda>h. concat (map (\<lambda>n. replicate n CHR ''a'' @ ''b'') h))\<rparr>"

lemma read_unary_run: "read_unary k (lit (replicate n CHR ''a'' @ CHR ''b'' # t)) = (k + n) # read_unary 0 (lit t)"
  by (induction n arbitrary: k) (simp_all add: lit_def)

lemma read_hex: "read_unary 0 (lit (cd_hex plain_texts b)) = b"
proof (induction b)
  case (Cons n b)
  then show ?case by (simp add: plain_texts_def read_unary_run)
qed (simp add: plain_texts_def lit_def)

lemma plain_texts_plain: "plain_codec plain_texts"
proof -
  have "inj (cd_hex plain_texts)" by (rule inj_on_inverseI) (rule read_hex)
  moreover have "inj (cd_uuid plain_texts)" 
    by (rule inj_on_inverseI [where g = length]) (simp add: plain_texts_def)
  moreover have "plain (lit (cd_uuid plain_texts u))" for u
    by (simp add: plain_texts_def plain_def lit_def list_all_iff scalar_def)
  ultimately show ?thesis by (simp add: plain_codec_def)
qed

text \<open>A device that signs one pull, and a server that knows it.\<close>

definition signed_pull :: signed_request where
  "signed_pull = \<lparr>sq_device_id = 3, sq_method = [71, 69, 84], sq_path = [47, 112], sq_timestamp_millis = 1000, sq_body = []\<rparr>"

definition one_signature :: "nat list" where
  "one_signature = replicate 64 7"

definition one_key :: keys where
  "one_key = \<lparr>ky_from_bytes = (\<lambda>_. True), ky_is_weak = (\<lambda>_. False),
     ky_verify_strict = (\<lambda>_ m s. m = signing_payload plain_texts signed_pull \<and> s = one_signature),
     ky_sign = (\<lambda>_ _. one_signature), ky_base64 = (\<lambda>_. Some (replicate 32 1)), ky_encode64 = (\<lambda>_. []),
     ky_unhex = (\<lambda>_. Some (one_signature)), ky_parse_uuid = (\<lambda>_. Some 3)\<rparr>"

definition enrolled_three :: device_record where
  "enrolled_three = \<lparr>dr_device_id = 3, dr_tenant_id = 1, dr_outlet_id = 2, dr_public_key = replicate 32 1,
     dr_revoked = False, dr_tip = tip_genesis\<rparr>"

definition one_device_server :: server where
  "one_device_server = \<lparr>sv_devices = [(3, enrolled_three)], sv_events = [], sv_next_seq = 1\<rparr>"

lemma accepted_was_signed_witness:
  "\<exists>r \<in> {signed_pull}. to_ascii_uppercase (sq_method r) = to_ascii_uppercase [71, 69, 84] \<and> sq_path r = [47, 112]
    \<and> cd_sha256 plain_texts (sq_body r) = cd_sha256 plain_texts [] \<and> \<bar>1500 - sq_timestamp_millis r\<bar> \<le> 300 * 1000
    \<and> bt_get (sv_devices one_device_server) (sq_device_id r) = Some enrolled_three \<and> \<not> dr_revoked enrolled_three"
proof (rule accepted_was_signed)
  show "authenticate plain_texts one_key one_device_server (\<lambda>_. Some (Readable [49, 48, 48, 48])) [71, 69, 84] [47, 112] [] 1500 300
    = Inr enrolled_three"
  proof -
    have "parse_int in_i64 [49, 48, 48, 48] = Some 1000" by code_simp
    moreover have "\<lparr>sq_device_id = 3, sq_method = [71, 69, 84], sq_path = [47, 112], sq_timestamp_millis = 1000, sq_body = []\<rparr> = signed_pull"
      by (simp add: signed_pull_def)
    moreover have "ky_verify_strict one_key k (signing_payload plain_texts signed_pull) (one_signature)" for k
      by (simp add: one_key_def)
    moreover have "ky_from_bytes one_key k" "ky_parse_uuid one_key u = Some 3" "ky_unhex one_key u = Some (one_signature)" for k u
      by (simp_all add: one_key_def)
    moreover have "bt_get (sv_devices one_device_server) 3 = Some enrolled_three" "\<not> dr_revoked enrolled_three"
      by (simp_all add: one_device_server_def enrolled_three_def)
    moreover have "length one_signature = 64" by (simp add: one_signature_def)
    ultimately show ?thesis
      unfolding authenticate_ok verify_request_ok header_def by (simp add: saturate_def)
  qed
  show "signs_only plain_texts one_key (dr_public_key enrolled_three) {signed_pull}" by (simp add: signs_only_def one_key_def)
  show "plain_codec plain_texts" by (rule plain_texts_plain)
qed (simp_all add: plain_def plain_request_def signed_pull_def scalar_def)

section \<open>A token enrolls one device\<close>

text \<open>The desk with the requests between their checks and their transactions.  Requests interleave as they like; a
  transaction may be lost; owners issue tokens; and the server goes on serving its devices, which changes no identity.\<close>

definition same_identities :: "server \<Rightarrow> server \<Rightarrow> bool" where
  "same_identities sv sv' \<longleftrightarrow> (\<forall>d. map_option (\<lambda>r. (dr_tenant_id r, dr_outlet_id r, dr_public_key r)) (bt_get (sv_devices sv') d)
     = map_option (\<lambda>r. (dr_tenant_id r, dr_outlet_id r, dr_public_key r)) (bt_get (sv_devices sv) d))"

inductive enrolling :: "codec \<Rightarrow> keys \<Rightarrow> server \<Rightarrow> desk \<Rightarrow> enroll_ticket list \<Rightarrow> bool"
  for cd ky sv where
  opened: "enrolling cd ky sv \<lparr>dk_tokens = [], dk_server = sv, dk_labels = labels\<rparr> []"
| issued: "enrolling cd ky sv desk tickets \<Longrightarrow> issue_token outlets desk minted token_id outlet now ttl = Some desk'
    \<Longrightarrow> enrolling cd ky sv desk' tickets"
| checked: "enrolling cd ky sv desk tickets \<Longrightarrow> enroll_check cd ky desk request now = Inr ticket
    \<Longrightarrow> enrolling cd ky sv desk (ticket # tickets)"
| committed: "enrolling cd ky sv desk tickets \<Longrightarrow> ticket \<in> set tickets \<Longrightarrow> enroll_commit desk ticket device_id = (desk', answer)
    \<Longrightarrow> enrolling cd ky sv desk' (remove1 ticket tickets)"
| lost: "enrolling cd ky sv desk tickets \<Longrightarrow> enrolling cd ky sv desk (remove1 ticket tickets)"
| served: "enrolling cd ky sv desk tickets \<Longrightarrow> same_identities (dk_server desk) sv'
    \<Longrightarrow> enrolling cd ky sv (desk\<lparr>dk_server := sv'\<rparr>) tickets"

text \<open>What a ticket copied from its token is still there, and every device new since the start was let in by exactly one.\<close>

definition ticket_ok :: "desk \<Rightarrow> enroll_ticket \<Rightarrow> bool" where
  "ticket_ok desk k \<longleftrightarrow> (\<exists>t \<in> set (dk_tokens desk). et_id t = tk_token_id k \<and> et_tenant_id t = tk_tenant_id k
     \<and> et_outlet_id t = tk_outlet_id k)"

definition desk_ok :: "server \<Rightarrow> desk \<Rightarrow> bool" where
  "desk_ok sv desk \<longleftrightarrow> distinct (map et_id (dk_tokens desk))
     \<and> (\<forall>d r. bt_get (sv_devices (dk_server desk)) d = Some r \<longrightarrow> bt_get (sv_devices sv) d = None \<longrightarrow>
          (\<exists>t \<in> set (dk_tokens desk). et_consumed_by t = Some d \<and> et_tenant_id t = dr_tenant_id r \<and> et_outlet_id t = dr_outlet_id r))
     \<and> (\<forall>t \<in> set (dk_tokens desk). \<forall>d. et_consumed_by t = Some d \<longrightarrow>
          bt_get (sv_devices (dk_server desk)) d \<noteq> None \<and> bt_get (sv_devices sv) d = None)
     \<and> (\<forall>t \<in> set (dk_tokens desk). \<forall>u \<in> set (dk_tokens desk). et_consumed_by t \<noteq> None \<longrightarrow> et_consumed_by t = et_consumed_by u \<longrightarrow> t = u)
     \<and> (\<forall>d. bt_get (sv_devices sv) d \<noteq> None \<longrightarrow> bt_get (sv_devices (dk_server desk)) d \<noteq> None)"

lemma desk_okD:
  assumes "desk_ok sv desk"
  shows "distinct (map et_id (dk_tokens desk))"
    and "bt_get (sv_devices (dk_server desk)) d = Some r \<Longrightarrow> bt_get (sv_devices sv) d = None \<Longrightarrow>
          \<exists>t \<in> set (dk_tokens desk). et_consumed_by t = Some d \<and> et_tenant_id t = dr_tenant_id r \<and> et_outlet_id t = dr_outlet_id r"
    and "t \<in> set (dk_tokens desk) \<Longrightarrow> et_consumed_by t = Some d \<Longrightarrow>
          bt_get (sv_devices (dk_server desk)) d \<noteq> None \<and> bt_get (sv_devices sv) d = None"
    and "t \<in> set (dk_tokens desk) \<Longrightarrow> u \<in> set (dk_tokens desk) \<Longrightarrow> et_consumed_by t \<noteq> None \<Longrightarrow>
          et_consumed_by t = et_consumed_by u \<Longrightarrow> t = u"
    and "bt_get (sv_devices sv) d \<noteq> None \<Longrightarrow> bt_get (sv_devices (dk_server desk)) d \<noteq> None"
  using assms unfolding desk_ok_def by blast+

lemma same_identities_get:
  assumes "same_identities sv sv'"
  shows "bt_get (sv_devices sv') d = Some r' \<Longrightarrow> \<exists>r. bt_get (sv_devices sv) d = Some r
      \<and> dr_tenant_id r' = dr_tenant_id r \<and> dr_outlet_id r' = dr_outlet_id r"
    and "bt_get (sv_devices sv') d = None \<longleftrightarrow> bt_get (sv_devices sv) d = None"
  using assms by (auto simp: same_identities_def dest!: spec [of _ d]) (cases "bt_get (sv_devices sv) d"; auto)+

lemma enroll_check_ticket: "enroll_check cd ky desk request now = Inr ticket \<Longrightarrow> ticket_ok desk ticket"
proof -
  have found: "t \<in> set ts" if "find P ts = Some t" for P :: "enrollment_token \<Rightarrow> bool" and t ts
    using that by (auto simp: find_Some_iff)
  assume "enroll_check cd ky desk request now = Inr ticket"
  then obtain t where "find (\<lambda>t. et_token_hash t = digest_token cd (er_token request)) (dk_tokens desk) = Some t"
    "tk_token_id ticket = et_id t" "tk_tenant_id ticket = et_tenant_id t" "tk_outlet_id ticket = et_outlet_id t"
    by (cases "find (\<lambda>t. et_token_hash t = digest_token cd (er_token request)) (dk_tokens desk)")
      (auto simp: enroll_check_def res_simps split: if_splits)
  with found show ?thesis by (auto simp: ticket_ok_def)
qed

lemma enroll_commit_cases:
  assumes "enroll_commit desk ticket dev = (desk', answer)"
  obtains "desk' = desk" "\<forall>d t u. answer \<noteq> Enrolled d t u"
  | before t after where "dk_tokens desk = before @ t # after" "et_id t = tk_token_id ticket" "et_consumed_by t = None"
      "dk_tokens desk' = before @ t\<lparr>et_consumed_by := Some dev\<rparr> # after" "bt_get (sv_devices (dk_server desk)) dev = None"
      "\<And>d. bt_get (sv_devices (dk_server desk')) d =
         (if d = dev then Some \<lparr>dr_device_id = dev, dr_tenant_id = tk_tenant_id ticket, dr_outlet_id = tk_outlet_id ticket,
                               dr_public_key = tk_public_key ticket, dr_revoked = False, dr_tip = tip_genesis\<rparr>
          else bt_get (sv_devices (dk_server desk)) d)"
      "answer = Enrolled dev (tk_tenant_id ticket) (tk_outlet_id ticket)"
proof (cases "update_first (\<lambda>t. et_id t = tk_token_id ticket \<and> et_consumed_by t = None)
    (\<lambda>t. t\<lparr>et_consumed_by := Some dev\<rparr>) (dk_tokens desk)")
  case None
  with assms that(1) show ?thesis by (auto simp: enroll_commit_def)
next
  case (Some tokens)
  show ?thesis
  proof (cases "bt_get (sv_devices (dk_server desk)) dev")
    case None
    from update_first_split [OF Some] obtain before t after where
      "dk_tokens desk = before @ t # after" "tokens = before @ t\<lparr>et_consumed_by := Some dev\<rparr> # after"
      "et_id t = tk_token_id ticket" "et_consumed_by t = None" by blast
    with assms Some None that(2) show ?thesis by (auto simp: enroll_commit_def Let_def)
  next
    case (Some r)
    with assms \<open>update_first _ _ _ = _\<close> that(1) show ?thesis by (auto simp: enroll_commit_def)
  qed
qed

lemma enroll_commit_ok:
  assumes "desk_ok sv desk" and "ticket_ok desk ticket" and "enroll_commit desk ticket dev = (desk', answer)"
  shows "desk_ok sv desk' \<and> (\<forall>k. ticket_ok desk k \<longrightarrow> ticket_ok desk' k)"
proof (rule enroll_commit_cases [OF assms(3)])
  assume "desk' = desk"
  with assms show ?thesis by simp
next
  fix before t after
  assume tokens: "dk_tokens desk = before @ t # after" "dk_tokens desk' = before @ t\<lparr>et_consumed_by := Some dev\<rparr> # after"
    and t: "et_id t = tk_token_id ticket" "et_consumed_by t = None" and fresh: "bt_get (sv_devices (dk_server desk)) dev = None"
    and devices: "\<And>d. bt_get (sv_devices (dk_server desk')) d =
         (if d = dev then Some \<lparr>dr_device_id = dev, dr_tenant_id = tk_tenant_id ticket, dr_outlet_id = tk_outlet_id ticket,
                               dr_public_key = tk_public_key ticket, dr_revoked = False, dr_tip = tip_genesis\<rparr>
          else bt_get (sv_devices (dk_server desk)) d)"
  have ids: "distinct (map et_id (dk_tokens desk))" using assms(1) by (simp add: desk_ok_def)
  have scope: "et_tenant_id t = tk_tenant_id ticket" "et_outlet_id t = tk_outlet_id ticket"
  proof -
    obtain x where x: "x \<in> set (dk_tokens desk)" "et_id x = et_id t" "et_tenant_id x = tk_tenant_id ticket"
      "et_outlet_id x = tk_outlet_id ticket" using assms(2) t(1) by (auto simp: ticket_ok_def)
    have "inj_on et_id (set (dk_tokens desk))" using ids by (simp add: distinct_map)
    then have "x = t" by (rule inj_onD) (use x tokens(1) in auto)
    with x show "et_tenant_id t = tk_tenant_id ticket" "et_outlet_id t = tk_outlet_id ticket" by simp_all
  qed
  let ?u = "t\<lparr>et_consumed_by := Some dev\<rparr>"
  have set': "x \<in> set (dk_tokens desk') \<longleftrightarrow> x = ?u \<or> x \<in> set before \<union> set after" for x by (auto simp: tokens)
  have set: "x \<in> set (dk_tokens desk) \<longleftrightarrow> x = t \<or> x \<in> set before \<union> set after" for x by (auto simp: tokens)
  have new: "bt_get (sv_devices sv) dev = None" using assms(1) fresh by (auto simp: desk_ok_def)
  have used: "et_consumed_by x \<noteq> Some dev" if "x \<in> set before \<union> set after" for x
    using desk_okD(3) [OF assms(1), of x dev] fresh that by (auto simp: tokens)
  have "distinct (map et_id (dk_tokens desk'))" using ids by (simp add: tokens)
  moreover have "\<exists>x \<in> set (dk_tokens desk'). et_consumed_by x = Some d \<and> et_tenant_id x = dr_tenant_id r \<and> et_outlet_id x = dr_outlet_id r"
    if "bt_get (sv_devices (dk_server desk')) d = Some r" "bt_get (sv_devices sv) d = None" for d r
  proof (cases "d = dev")
    case True
    with that(1) scope show ?thesis by (intro bexI [of _ ?u]) (auto simp: devices set')
  next
    case False
    with that obtain x where "x \<in> set (dk_tokens desk)" "et_consumed_by x = Some d" "et_tenant_id x = dr_tenant_id r"
      "et_outlet_id x = dr_outlet_id r" using desk_okD(2) [OF assms(1), of d r] by (auto simp: devices)
    with t(2) show ?thesis by (intro bexI [of _ x]) (auto simp: set set')
  qed
  moreover have "bt_get (sv_devices (dk_server desk')) d \<noteq> None \<and> bt_get (sv_devices sv) d = None"
    if "x \<in> set (dk_tokens desk')" "et_consumed_by x = Some d" for x d
    using that new desk_okD(3) [OF assms(1), of x d] by (cases "x = ?u") (auto simp: devices set set')
  moreover have "x = y" if "x \<in> set (dk_tokens desk')" "y \<in> set (dk_tokens desk')" "et_consumed_by x \<noteq> None"
    "et_consumed_by x = et_consumed_by y" for x y
    using that used [of x] used [of y] desk_okD(4) [OF assms(1), of x y] by (auto simp: set set')
  moreover have "bt_get (sv_devices (dk_server desk')) d \<noteq> None" if "bt_get (sv_devices sv) d \<noteq> None" for d
    using that assms(1) by (auto simp: devices desk_ok_def)
  ultimately have "desk_ok sv desk'" unfolding desk_ok_def by blast
  moreover have "ticket_ok desk' k" if "ticket_ok desk k" for k
    using that by (auto simp: ticket_ok_def tokens)
  ultimately show ?thesis by blast
qed

lemma issue_token_ok:
  assumes "desk_ok sv desk" and "issue_token outlets desk minted token_id outlet now ttl = Some desk'"
  shows "desk_ok sv desk' \<and> (\<forall>k. ticket_ok desk k \<longrightarrow> ticket_ok desk' k)"
proof -
  obtain t where t: "dk_tokens desk' = dk_tokens desk @ [t]" "et_consumed_by t = None" "et_id t \<notin> et_id ` set (dk_tokens desk)"
    and s: "dk_server desk' = dk_server desk"
  proof -
    assume *: "\<And>t. dk_tokens desk' = dk_tokens desk @ [t] \<Longrightarrow> et_consumed_by t = None \<Longrightarrow>
      et_id t \<notin> et_id ` set (dk_tokens desk) \<Longrightarrow> dk_server desk' = dk_server desk \<Longrightarrow> thesis"
    have "token_id \<notin> et_id ` set (dk_tokens desk)"
      using assms(2) by (auto simp: issue_token_def list_ex_iff split: option.splits if_splits)
    with assms(2) * show thesis by (auto simp: issue_token_def Let_def split: option.splits if_splits)
  qed
  have set: "x \<in> set (dk_tokens desk') \<longleftrightarrow> x = t \<or> x \<in> set (dk_tokens desk)" for x using t(1) by auto
  have "distinct (map et_id (dk_tokens desk'))" using assms(1) t(1,3) by (simp add: desk_ok_def)
  moreover have "\<exists>x \<in> set (dk_tokens desk'). et_consumed_by x = Some d \<and> et_tenant_id x = dr_tenant_id r \<and> et_outlet_id x = dr_outlet_id r"
    if "bt_get (sv_devices (dk_server desk)) d = Some r" "bt_get (sv_devices sv) d = None" for d r
    using desk_okD(2) [OF assms(1) that] t(1) by auto
  moreover have "bt_get (sv_devices (dk_server desk)) d \<noteq> None \<and> bt_get (sv_devices sv) d = None"
    if "x \<in> set (dk_tokens desk')" "et_consumed_by x = Some d" for x d
  proof -
    have "x \<in> set (dk_tokens desk)" using that t(2) by (auto simp: set)
    with assms(1) that(2) show ?thesis unfolding desk_ok_def by blast
  qed
  moreover have "x = y" if "x \<in> set (dk_tokens desk')" "y \<in> set (dk_tokens desk')" "et_consumed_by x \<noteq> None"
    "et_consumed_by x = et_consumed_by y" for x y
  proof -
    have "x \<in> set (dk_tokens desk)" "y \<in> set (dk_tokens desk)" using that t(2) by (auto simp: set)
    with assms(1) that(3,4) show ?thesis unfolding desk_ok_def by blast
  qed
  moreover have "bt_get (sv_devices (dk_server desk)) d \<noteq> None" if "bt_get (sv_devices sv) d \<noteq> None" for d
    using assms(1) that unfolding desk_ok_def by blast
  ultimately have "desk_ok sv desk'" unfolding desk_ok_def s by blast
  moreover have "ticket_ok desk' k" if "ticket_ok desk k" for k using that t(1) by (auto simp: ticket_ok_def)
  ultimately show ?thesis by blast
qed

text \<open>Serving changes nothing the desk's invariant looks at.\<close>

lemma served_ok:
  assumes "desk_ok sv desk" and "same_identities (dk_server desk) sv'"
  shows "desk_ok sv (desk\<lparr>dk_server := sv'\<rparr>)"
proof -
  note same = same_identities_get [OF assms(2)]
  have "\<exists>x \<in> set (dk_tokens desk). et_consumed_by x = Some d \<and> et_tenant_id x = dr_tenant_id r \<and> et_outlet_id x = dr_outlet_id r"
    if "bt_get (sv_devices sv') d = Some r" "bt_get (sv_devices sv) d = None" for d r
  proof -
    from same(1) [OF that(1)] obtain q where q: "bt_get (sv_devices (dk_server desk)) d = Some q"
      "dr_tenant_id r = dr_tenant_id q" "dr_outlet_id r = dr_outlet_id q" by blast
    with assms(1) that(2) show ?thesis unfolding desk_ok_def q(2,3) by blast
  qed
  moreover have "t = u" if "t \<in> set (dk_tokens desk)" "u \<in> set (dk_tokens desk)" "et_consumed_by t \<noteq> None"
    "et_consumed_by t = et_consumed_by u" for t u using desk_okD(4) [OF assms(1) that] .
  moreover have "bt_get (sv_devices sv') d \<noteq> None \<and> bt_get (sv_devices sv) d = None"
    if "t \<in> set (dk_tokens desk)" "et_consumed_by t = Some d" for t d
    using desk_okD(3) [OF assms(1) that] same(2) by simp
  moreover have "bt_get (sv_devices sv') d \<noteq> None" if "bt_get (sv_devices sv) d \<noteq> None" for d
    using desk_okD(5) [OF assms(1) that] same(2) by simp
  ultimately show ?thesis using desk_okD(1) [OF assms(1)] unfolding desk_ok_def by (simp del: not_None_eq) metis
qed

lemma enrolling_ok:
  "enrolling cd ky sv desk tickets \<Longrightarrow> desk_ok sv desk \<and> (\<forall>k \<in> set tickets. ticket_ok desk k)"
proof (induction rule: enrolling.induct)
  case (opened labels)
  then show ?case by (simp add: desk_ok_def)
next
  case issued
  then show ?case using issue_token_ok by blast
next
  case checked
  then show ?case using enroll_check_ticket by auto
next
  case committed
  then show ?case using enroll_commit_ok by (meson notin_set_remove1)
next
  case lost
  then show ?case by (meson notin_set_remove1)
next
  case (served desk tickets sv')
  then show ?case using served_ok [of sv desk sv'] by (simp add: ticket_ok_def)
qed

text \<open>C27: however the requests, the owners and the server interleave, every device that was not there at the start was let in
  by exactly one token, is of that token's tenant and outlet, and no token let in two.\<close>

theorem one_device_per_token:
  assumes "enrolling cd ky sv desk tickets"
  shows "(\<forall>d r. bt_get (sv_devices (dk_server desk)) d = Some r \<and> bt_get (sv_devices sv) d = None \<longrightarrow>
        (\<exists>t. {u \<in> set (dk_tokens desk). et_consumed_by u = Some d} = {t}
           \<and> et_tenant_id t = dr_tenant_id r \<and> et_outlet_id t = dr_outlet_id r))
    \<and> (\<forall>t \<in> set (dk_tokens desk). \<forall>d. et_consumed_by t = Some d \<longrightarrow> bt_get (sv_devices sv) d = None)"
proof -
  have ok: "desk_ok sv desk" using enrolling_ok [OF assms] by blast
  have "\<exists>t. {u \<in> set (dk_tokens desk). et_consumed_by u = Some d} = {t} \<and> et_tenant_id t = dr_tenant_id r \<and> et_outlet_id t = dr_outlet_id r"
    if r: "bt_get (sv_devices (dk_server desk)) d = Some r" "bt_get (sv_devices sv) d = None" for d r
  proof -
    from ok r obtain t where t: "t \<in> set (dk_tokens desk)" "et_consumed_by t = Some d"
      "et_tenant_id t = dr_tenant_id r" "et_outlet_id t = dr_outlet_id r" unfolding desk_ok_def by blast
    moreover have "{u \<in> set (dk_tokens desk). et_consumed_by u = Some d} = {t}"
      using ok t(1,2) unfolding desk_ok_def by auto
    ultimately show ?thesis by blast
  qed
  moreover have "\<forall>t \<in> set (dk_tokens desk). \<forall>d. et_consumed_by t = Some d \<longrightarrow> bt_get (sv_devices sv) d = None"
    using ok unfolding desk_ok_def by blast
  ultimately show ?thesis by blast
qed

text \<open>Two terminals redeem the token at once: both pass the checks, one is enrolled.\<close>

definition race_token :: minted_token where
  "race_token = \<lparr>mt_plaintext = [65, 66], mt_digest = digest_token sample_codec [65, 66]\<rparr>"

definition race_request :: enroll_request where
  "race_request = \<lparr>er_token = [32, 65, 66, 10], er_public_key = [67], er_label = [84, 49]\<rparr>"

definition race_keys :: keys where
  "race_keys = \<lparr>ky_from_bytes = (\<lambda>_. True), ky_is_weak = (\<lambda>_. False), ky_verify_strict = (\<lambda>_ _ _. False),
     ky_sign = (\<lambda>_ _. []), ky_base64 = (\<lambda>_. Some (replicate 32 1)), ky_encode64 = (\<lambda>_. []),
     ky_unhex = (\<lambda>_. None), ky_parse_uuid = (\<lambda>_. None)\<rparr>"

definition race_server :: server where
  "race_server = \<lparr>sv_devices = [], sv_events = [], sv_next_seq = 1\<rparr>"

definition race_desk :: desk where
  "race_desk = the (issue_token (\<lambda>_. Some 1) \<lparr>dk_tokens = [], dk_server = race_server, dk_labels = []\<rparr> race_token 50 2 0 900)"

definition race_ticket :: enroll_ticket where
  "race_ticket = \<lparr>tk_token_id = 50, tk_tenant_id = 1, tk_outlet_id = 2, tk_public_key = replicate 32 1, tk_label = [84, 49]\<rparr>"

definition race_winner :: desk where
  "race_winner = fst (enroll_commit race_desk race_ticket 7)"

lemma one_device_per_token_witness:
  "snd (enroll_commit race_desk race_ticket 7) = Enrolled 7 1 2 \<and> snd (enroll_commit race_winner race_ticket 8) = EnrollRefused
    \<and> (\<exists>t. {u \<in> set (dk_tokens race_winner). et_consumed_by u = Some 7} = {t} \<and> et_tenant_id t = 1 \<and> et_outlet_id t = 2)"
proof -
  have issued: "issue_token (\<lambda>_. Some 1) \<lparr>dk_tokens = [], dk_server = race_server, dk_labels = []\<rparr> race_token 50 2 0 900 = Some race_desk"
    by code_simp
  have check: "enroll_check sample_codec race_keys race_desk race_request 1000 = Inr race_ticket" by code_simp
  have first: "enroll_commit race_desk race_ticket 7 = (race_winner, Enrolled 7 1 2)" by code_simp
  have "enrolling sample_codec race_keys race_server race_desk []" by (rule enrolling.issued [OF enrolling.opened issued])
  then have "enrolling sample_codec race_keys race_server race_desk [race_ticket]" using check by (rule enrolling.checked)
  then have "enrolling sample_codec race_keys race_server race_desk [race_ticket, race_ticket]" using check by (rule enrolling.checked)
  from enrolling.committed [OF this _ first]
  have "enrolling sample_codec race_keys race_server race_winner [race_ticket]" by simp
  note run = one_device_per_token [OF this]
  have row: "bt_get (sv_devices (dk_server race_winner)) 7 = Some \<lparr>dr_device_id = 7, dr_tenant_id = 1, dr_outlet_id = 2,
      dr_public_key = replicate 32 1, dr_revoked = False, dr_tip = tip_genesis\<rparr>" by code_simp
  have "bt_get (sv_devices race_server) 7 = None" by code_simp
  with run row have "\<exists>t. {u \<in> set (dk_tokens race_winner). et_consumed_by u = Some 7} = {t} \<and> et_tenant_id t = 1 \<and> et_outlet_id t = 2"
    by fastforce
  moreover have "snd (enroll_commit race_winner race_ticket 8) = EnrollRefused" by code_simp
  ultimately show ?thesis using first by simp
qed

end
