(* ===== verification/Gateway.thy ===== *)
theory Gateway
  imports Access Replication "HOL-Library.Countable"
begin

text \<open>
  Sync over HTTP: the endpoints of the server (\<open>crates/sahl-server/src/routes/sync.rs\<close>) and the till's transport
  (\<open>crates/sahl-terminal/src/sync/http.rs\<close>), which between them say exactly what a direct call would.
  The web framework's own limit on a body (2 MB, which the code does not change) is left out.
\<close>

section \<open>Requests and responses\<close>

text \<open>What serde writes and reads of the messages.\<close>

record json_forms =
  jf_push :: "push_request \<Rightarrow> nat list option"
  jf_read_push :: "nat list \<Rightarrow> push_request option"
  jf_push_response :: "push_response \<Rightarrow> nat list"
  jf_read_push_response :: "nat list \<Rightarrow> push_response option"
  jf_pull_response :: "pull_response \<Rightarrow> nat list"
  jf_read_pull_response :: "nat list \<Rightarrow> pull_response option"
  jf_rejection :: "sync_rejection \<Rightarrow> nat list"
  jf_read_rejection :: "nat list \<Rightarrow> sync_rejection option"

record http_request =
  hq_path_and_query :: utext
  hq_query :: "utext option"
  hq_headers :: headers
  hq_body :: "nat list"

record http_response =
  hr_status :: nat
  hr_body :: "nat list"

definition push_path :: utext where
  "push_path = lit ''/v1/sync/push''"

definition pull_path :: utext where
  "pull_path = lit ''/v1/sync/pull''"

section \<open>The server\<close>

definition unauthorised :: "json_forms \<Rightarrow> http_response" where
  "unauthorised jf = \<lparr>hr_status = 401, hr_body = jf_rejection jf NotAuthorised\<rparr>"

definition rejected :: "json_forms \<Rightarrow> sync_rejection \<Rightarrow> http_response" where
  "rejected jf r = \<lparr>hr_status = (if is_retryable r then 503 else 422), hr_body = jf_rejection jf r\<rparr>"

definition serve_push ::
    "codec \<Rightarrow> keys \<Rightarrow> json_forms \<Rightarrow> int \<Rightarrow> server \<Rightarrow> http_request \<Rightarrow> int \<Rightarrow> server \<times> http_response" where
  "serve_push cd ky jf max_skew_seconds sv req now =
     (case authenticate cd ky sv (hq_headers req) (lit ''POST'') push_path (hq_body req) now max_skew_seconds of
        Inl failure \<Rightarrow> (sv, unauthorised jf)
      | Inr device \<Rightarrow>
          (case jf_read_push jf (hq_body req) of
             None \<Rightarrow> (sv, rejected jf InvalidPush)
           | Some request \<Rightarrow>
               if pq_device_id request \<noteq> dr_device_id device then (sv, rejected jf InvalidPush)
               else case push_validate request of
                 Inl e \<Rightarrow> (sv, rejected jf (from_sync_error e))
               | Inr _ \<Rightarrow>
                   (case ingest_push cd sv device (pq_events request) of
                      Inl e \<Rightarrow> (sv, rejected jf (rejection e))
                    | Inr (sv', response) \<Rightarrow> (sv', \<lparr>hr_status = 200, hr_body = jf_push_response jf response\<rparr>))))"

fun find_map :: "('a \<Rightarrow> 'b option) \<Rightarrow> 'a list \<Rightarrow> 'b option" where
  "find_map f [] = None"
| "find_map f (x # xs) = (case f x of Some y \<Rightarrow> Some y | None \<Rightarrow> find_map f xs)"

definition param :: "utext \<Rightarrow> utext \<Rightarrow> utext option" where
  "param query key =
     find_map (\<lambda>pair. Option.bind (split_once 61 pair) (\<lambda>(name, v). if name = key then Some v else None))
       (split_any [38] [] query)"

definition serve_pull ::
    "codec \<Rightarrow> keys \<Rightarrow> json_forms \<Rightarrow> int \<Rightarrow> server \<Rightarrow> http_request \<Rightarrow> int \<Rightarrow> http_response" where
  "serve_pull cd ky jf max_skew_seconds sv req now =
     (case authenticate cd ky sv (hq_headers req) (lit ''GET'') (hq_path_and_query req) [] now max_skew_seconds of
        Inl failure \<Rightarrow> unauthorised jf
      | Inr device \<Rightarrow>
          let query = (case hq_query req of Some q \<Rightarrow> q | None \<Rightarrow> []);
              cursor = (case Option.bind (param query (lit ''cursor'')) (parse_int in_i64) of Some c \<Rightarrow> c | None \<Rightarrow> 0);
              limit = min (case Option.bind (param query (lit ''limit'')) (parse_int in_u64) of Some l \<Rightarrow> nat l | None \<Rightarrow> 200) 500
          in \<lparr>hr_status = 200, hr_body = jf_pull_response jf (ingest_pull sv device cursor limit)\<rparr>)"

section \<open>The till\<close>

record http_client =
  hc_device_id :: uuid
  hc_key :: "nat list"

definition client_payload :: "codec \<Rightarrow> http_client \<Rightarrow> utext \<Rightarrow> utext \<Rightarrow> int \<Rightarrow> nat list \<Rightarrow> nat list" where
  "client_payload cd hc method path timestamp body =
     as_bytes (signing_domain @ [10] @ to_ascii_uppercase method @ [10] @ path @ [10] @ lit (cd_uuid cd (hc_device_id hc))
       @ [10] @ show_int timestamp @ [10] @ lit (cd_hex cd (cd_sha256 cd body)))"

definition client_headers ::
    "codec \<Rightarrow> keys \<Rightarrow> http_client \<Rightarrow> utext \<Rightarrow> utext \<Rightarrow> nat list \<Rightarrow> int \<Rightarrow> (string \<times> utext) list" where
  "client_headers cd ky hc method path body timestamp =
     (let signature = ky_sign ky (hc_key hc) (client_payload cd hc method path timestamp body) in
      [(header_device, lit (cd_uuid cd (hc_device_id hc))),
       (header_timestamp, show_int timestamp),
       (header_signature, lit (cd_hex cd signature))])"

definition sent :: "(string \<times> utext) list \<Rightarrow> headers" where
  "sent hs name = map_option Readable (map_of hs name)"

definition decode_answer :: "json_forms \<Rightarrow> (nat list \<Rightarrow> 'a option) \<Rightarrow> http_response \<Rightarrow> sync_rejection + 'a" where
  "decode_answer jf read response =
     (let status = hr_status response in
      if 200 \<le> status \<and> status < 300 then ok_or InvalidPush (read (hr_body response))
      else if status = 401 then Inl NotAuthorised
      else if 500 \<le> status \<and> status < 600 then Inl Unavailable
      else Inl (case jf_read_rejection jf (hr_body response) of Some r \<Rightarrow> r | None \<Rightarrow> InvalidPush))"

definition push_http :: "codec \<Rightarrow> keys \<Rightarrow> json_forms \<Rightarrow> http_client \<Rightarrow> event_envelope list \<Rightarrow> int \<Rightarrow> http_request option" where
  "push_http cd ky jf hc events timestamp =
     map_option (\<lambda>body. \<lparr>hq_path_and_query = push_path, hq_query = None,
         hq_headers = sent (client_headers cd ky hc (lit ''POST'') push_path body timestamp), hq_body = body\<rparr>)
       (jf_push jf \<lparr>pq_device_id = hc_device_id hc, pq_events = events\<rparr>)"

definition pull_query :: "int \<Rightarrow> nat \<Rightarrow> utext" where
  "pull_query cursor limit = lit ''cursor='' @ show_int cursor @ lit ''&limit='' @ show_int (int limit)"

definition pull_http :: "codec \<Rightarrow> keys \<Rightarrow> http_client \<Rightarrow> int \<Rightarrow> nat \<Rightarrow> int \<Rightarrow> http_request" where
  "pull_http cd ky hc cursor limit timestamp =
     (let path = pull_path @ lit ''?'' @ pull_query cursor limit in
      \<lparr>hq_path_and_query = path, hq_query = Some (pull_query cursor limit),
       hq_headers = sent (client_headers cd ky hc (lit ''GET'') path [] timestamp), hq_body = []\<rparr>)"

text \<open>The transport of the till over a network that delivers, with the till's clock at \<open>here\<close> and the server's at \<open>there\<close>.\<close>

definition http :: "codec \<Rightarrow> keys \<Rightarrow> json_forms \<Rightarrow> http_client \<Rightarrow> int \<Rightarrow> int \<Rightarrow> int \<Rightarrow> server transport" where
  "http cd ky jf hc max_skew here there =
     \<lparr>tp_push = (\<lambda>sv events. case push_http cd ky jf hc events here of
          None \<Rightarrow> (sv, Inl InvalidPush)
        | Some req \<Rightarrow> let (sv', response) = serve_push cd ky jf max_skew sv req there in
            (sv', decode_answer jf (jf_read_push_response jf) response)),
      tp_pull = (\<lambda>sv cursor limit.
        (sv, decode_answer jf (jf_read_pull_response jf)
               (serve_pull cd ky jf max_skew sv (pull_http cd ky hc cursor limit here) there)))\<rparr>"

section \<open>Over HTTP as directly\<close>

definition faithful_json :: "json_forms \<Rightarrow> bool" where
  "faithful_json jf \<longleftrightarrow> (\<forall>r. \<exists>b. jf_push jf r = Some b \<and> jf_read_push jf b = Some r)
     \<and> (\<forall>r. jf_read_push_response jf (jf_push_response jf r) = Some r)
     \<and> (\<forall>r. jf_read_pull_response jf (jf_pull_response jf r) = Some r)
     \<and> (\<forall>r. jf_read_rejection jf (jf_rejection jf r) = Some r)"

text \<open>A till whose public key the server holds, under keys and texts that read back what was written.\<close>

definition key_pair :: "codec \<Rightarrow> keys \<Rightarrow> nat list \<Rightarrow> nat list \<Rightarrow> bool" where
  "key_pair cd ky secret public \<longleftrightarrow> ky_from_bytes ky public
     \<and> (\<forall>m. length (ky_sign ky secret m) = 64 \<and> ky_verify_strict ky public m (ky_sign ky secret m))
     \<and> (\<forall>b. ky_unhex ky (lit (cd_hex cd b)) = Some b) \<and> (\<forall>u. ky_parse_uuid ky (lit (cd_uuid cd u)) = Some u)"

definition knows_till :: "codec \<Rightarrow> keys \<Rightarrow> http_client \<Rightarrow> server \<Rightarrow> bool" where
  "knows_till cd ky hc sv \<longleftrightarrow> (\<exists>dev. bt_get (sv_devices sv) (hc_device_id hc) = Some dev \<and> dr_device_id dev = hc_device_id hc
     \<and> \<not> dr_revoked dev \<and> key_pair cd ky (hc_key hc) (dr_public_key dev))"

lemma sent_headers:
  "header (sent (client_headers cd ky hc method path body t)) header_device = Inr (lit (cd_uuid cd (hc_device_id hc)))"
  "header (sent (client_headers cd ky hc method path body t)) header_timestamp = Inr (show_int t)"
  "header (sent (client_headers cd ky hc method path body t)) header_signature
     = Inr (lit (cd_hex cd (ky_sign ky (hc_key hc) (client_payload cd hc method path t body))))"
  by (simp_all add: sent_def client_headers_def header_def header_device_def header_timestamp_def header_signature_def Let_def)

text \<open>The server accepts what the till signs, as long as the clocks are within the window.\<close>

lemma signed_is_accepted:
  assumes "bt_get (sv_devices sv) (hc_device_id hc) = Some dev" and "\<not> dr_revoked dev"
    and "key_pair cd ky (hc_key hc) (dr_public_key dev)" and "in_i64 here" and "0 \<le> max_skew"
    and "\<bar>there - here\<bar> \<le> max_skew * 1000" and "max_skew \<le> 3600"
  shows "authenticate cd ky sv (sent (client_headers cd ky hc method path body here)) method path body there max_skew = Inr dev"
proof -
  have "saturate \<bar>saturate (there - here)\<bar> \<le> saturate (max_skew * 1000)"
    using assms(5-7) by (simp add: saturate_def)
  then show ?thesis
    using assms(1-4)
    by (simp add: authenticate_ok sent_headers parse_show_int key_pair_def verify_request_ok signing_payload_def
        signing_text_def client_payload_def)
qed

lemma decode_rejected: "faithful_json jf \<Longrightarrow> decode_answer jf read (rejected jf r) = Inl r"
  by (cases r) (auto simp: decode_answer_def rejected_def faithful_json_def Let_def)

lemma split_any_none: "set s \<inter> set ds = {} \<Longrightarrow> split_any ds acc s = [acc @ s]"
  by (induction s arbitrary: acc) auto

lemma split_any_at: "set s \<inter> set ds = {} \<Longrightarrow> d \<in> set ds \<Longrightarrow> split_any ds acc (s @ d # t) = (acc @ s) # split_any ds [] t"
  by (induction s arbitrary: acc) auto

lemma split_at_first: "d \<notin> set s \<Longrightarrow> split_once d (s @ d # t) = Some (s, t)"
  by (induction s) (auto simp: split_once_def)

lemma show_int_chars: "set (show_int n) \<subseteq> {45} \<union> {48..57}"
proof -
  have "\<forall>c \<in> set (show_digits k). 48 \<le> c \<and> c \<le> 57" if "0 \<le> k" for k
    using show_digits_digits [OF that] by (auto simp: list_all_iff is_ascii_digit_def)
  from this [of n] this [of "- n"] show ?thesis by (auto simp: show_int_def lit_def)
qed

lemma pull_params:
  "param (pull_query cursor limit) (lit ''cursor'') = Some (show_int cursor)"
  "param (pull_query cursor limit) (lit ''limit'') = Some (show_int (int limit))"
proof -
  have n: "38 \<notin> set (show_int k)" "61 \<notin> set (show_int k)" for k using show_int_chars [of k] by auto
  let ?c = "lit ''cursor''" and ?l = "lit ''limit''"
  have l: "?c = [99, 117, 114, 115, 111, 114]" "?l = [108, 105, 109, 105, 116]" by (simp_all add: lit_def)
  have q: "pull_query cursor limit = (?c @ 61 # show_int cursor) @ 38 # (?l @ 61 # show_int (int limit))"
    by (simp add: pull_query_def lit_def)
  have "set (?c @ 61 # show_int cursor) \<inter> set [38] = {}" "set (?l @ 61 # show_int (int limit)) \<inter> set [38] = {}"
    using n by (simp_all add: l)
  then have "split_any [38] [] (pull_query cursor limit) = [?c @ 61 # show_int cursor, ?l @ 61 # show_int (int limit)]"
    unfolding q by (subst split_any_at) (simp_all add: split_any_none)
  moreover have "split_once 61 (?c @ 61 # show_int cursor) = Some (?c, show_int cursor)"
    "split_once 61 (?l @ 61 # show_int (int limit)) = Some (?l, show_int (int limit))"
    by (rule split_at_first, simp add: l)+
  ultimately show "param (pull_query cursor limit) ?c = Some (show_int cursor)"
    "param (pull_query cursor limit) ?l = Some (show_int (int limit))"
    by (simp_all add: param_def) (simp add: l)
qed

lemma http_push_direct:
  assumes "knows_till cd ky hc sv" and "faithful_json jf" and "in_i64 here" and "0 \<le> max_skew"
    and "\<bar>there - here\<bar> \<le> max_skew * 1000" and "max_skew \<le> 3600"
  shows "tp_push (http cd ky jf hc max_skew here there) sv events = tp_push (direct cd (hc_device_id hc)) sv events"
proof -
  from assms(1) obtain dev where dev: "bt_get (sv_devices sv) (hc_device_id hc) = Some dev" "dr_device_id dev = hc_device_id hc"
    "\<not> dr_revoked dev" "key_pair cd ky (hc_key hc) (dr_public_key dev)" by (auto simp: knows_till_def)
  from assms(2) obtain b where b: "jf_push jf \<lparr>pq_device_id = hc_device_id hc, pq_events = events\<rparr> = Some b"
    "jf_read_push jf b = Some \<lparr>pq_device_id = hc_device_id hc, pq_events = events\<rparr>" unfolding faithful_json_def by blast
  have auth: "authenticate cd ky sv (sent (client_headers cd ky hc (lit ''POST'') push_path b here)) (lit ''POST'') push_path b there max_skew
    = Inr dev" by (rule signed_is_accepted [OF dev(1,3,4) assms(3-6)])
  have ok: "decode_answer jf (jf_read_push_response jf) \<lparr>hr_status = 200, hr_body = jf_push_response jf r\<rparr> = Inr r" for r
    using assms(2) by (simp add: decode_answer_def faithful_json_def ok_or_def)
  show ?thesis
    using b auth dev(1,2) ok
    by (simp add: decode_rejected [OF assms(2)] http_def push_http_def serve_push_def direct_def handle_push_def load_device_def ok_or_def
        split: sum.splits prod.splits)
qed

lemma http_pull_direct:
  assumes "knows_till cd ky hc sv" and "faithful_json jf" and "in_i64 here" and "0 \<le> max_skew"
    and "\<bar>there - here\<bar> \<le> max_skew * 1000" and "max_skew \<le> 3600" and "in_i64 cursor" and "in_u64 (int limit)"
  shows "tp_pull (http cd ky jf hc max_skew here there) sv cursor limit = tp_pull (direct cd (hc_device_id hc)) sv cursor limit"
proof -
  from assms(1) obtain dev where dev: "bt_get (sv_devices sv) (hc_device_id hc) = Some dev"
    "\<not> dr_revoked dev" "key_pair cd ky (hc_key hc) (dr_public_key dev)" by (auto simp: knows_till_def)
  note auth = signed_is_accepted [OF dev assms(3-6)]
  have ok: "decode_answer jf (jf_read_pull_response jf) \<lparr>hr_status = 200, hr_body = jf_pull_response jf r\<rparr> = Inr r" for r
    using assms(2) by (simp add: decode_answer_def faithful_json_def ok_or_def)
  show ?thesis
    using assms(7,8) dev(1) ok
    by (simp add: http_def pull_http_def serve_pull_def direct_def handle_pull_def load_device_def ok_or_def auth Let_def
        pull_params parse_show_int)
qed

text \<open>A push leaves the till known.\<close>

lemma enrolled_after_push:
  assumes "knows_till cd ky hc sv"
  shows "knows_till cd ky hc (fst (handle_push cd sv (hc_device_id hc) req))"
proof -
  from assms obtain dev where dev: "bt_get (sv_devices sv) (hc_device_id hc) = Some dev" "dr_device_id dev = hc_device_id hc"
    "\<not> dr_revoked dev" "key_pair cd ky (hc_key hc) (dr_public_key dev)" by (auto simp: knows_till_def)
  let ?sv = "fst (handle_push cd sv (hc_device_id hc) req)"
  have "?sv = sv \<or> (\<exists>resp. ingest_push cd sv dev (pq_events req) = Inr (?sv, resp))"
    using dev(1) by (auto simp: handle_push_def load_device_def ok_or_def split: sum.splits prod.splits)
  then show ?thesis
  proof (elim disjE exE)
    fix resp
    assume push: "ingest_push cd sv dev (pq_events req) = Inr (?sv, resp)"
    obtain tip where "sv_devices ?sv = sv_devices sv
        \<or> sv_devices ?sv = bt_insert (dr_device_id dev) (dev\<lparr>dr_tip := tip\<rparr>) (sv_devices sv)"
      using ingest_push_frame [OF push] by blast
    then show ?thesis using dev by (auto simp: knows_till_def)
  qed (use assms in simp)
qed

text \<open>C25: a whole round over HTTP, with the clocks within the window, is the round of a direct call: signing, authenticating,
  writing and reading change nothing.\<close>

theorem sync_over_http:
  assumes "knows_till cd ky hc sv" and "faithful_json jf" and "in_i64 here" and "0 \<le> max_skew"
    and "\<bar>there - here\<bar> \<le> max_skew * 1000" and "max_skew \<le> 3600" and "in_i64 (es_cursor st)"
  shows "sync_once cd (http cd ky jf hc max_skew here there) st sv now = sync_once cd (direct cd (hc_device_id hc)) st sv now"
proof -
  let ?http = "http cd ky jf hc max_skew here there" and ?direct = "direct cd (hc_device_id hc)"
  note push = http_push_direct [OF assms(1-6)]
  obtain st' sv' r where run: "push_pending ?direct st sv now = ((st', sv'), r)" by (metis surj_pair)
  have same: "push_pending ?http st sv now = push_pending ?direct st sv now"
    by (simp add: push_pending_def Let_def push)
  have "knows_till cd ky hc sv'"
    using run assms(1) enrolled_after_push [OF assms(1)]
    by (auto simp: push_pending_def direct_def Let_def split: if_splits prod.splits sum.splits) (metis fst_conv)+
  moreover have "es_cursor st' = es_cursor st"
    using run by (auto simp: push_pending_def mark_synced_def Let_def split: if_splits prod.splits sum.splits)
  ultimately have "tp_pull ?http sv' (es_cursor st') pull_page = tp_pull ?direct sv' (es_cursor st') pull_page"
    using assms by (intro http_pull_direct) (simp_all add: pull_page_def in_u64_def)
  then have "pull_new cd ?http st' sv' = pull_new cd ?direct st' sv'" by (simp add: pull_new_def)
  with same run show ?thesis by (simp add: sync_once_def split: sum.splits)
qed

section \<open>A till that is enrolled\<close>

text \<open>Keys of one terminal, and messages written as numbers.\<close>

definition shop_keys :: keys where
  "shop_keys = \<lparr>ky_from_bytes = (\<lambda>_. True), ky_is_weak = (\<lambda>_. False), ky_verify_strict = (\<lambda>_ m s. s = take 64 (m @ replicate 64 0)),
     ky_sign = (\<lambda>_ m. take 64 (m @ replicate 64 0)), ky_base64 = (\<lambda>_. None), ky_encode64 = (\<lambda>_. []),
     ky_unhex = (\<lambda>s. Some (read_unary 0 s)), ky_parse_uuid = (\<lambda>s. Some (length s))\<rparr>"

lemma shop_key_pair: "key_pair plain_texts shop_keys secret public"
  by (simp add: key_pair_def read_hex shop_keys_def min_def) (simp add: plain_texts_def lit_def)

instance json :: countable
  by countable_datatype

definition envelope_key :: "event_envelope \<Rightarrow> nat" where
  "envelope_key e = to_nat (en_event_id e, en_tenant_id e, en_outlet_id e, en_device_id e, en_device_seq e,
     millis (en_occurred_at e), en_kind e, en_payload e, en_prev_hash e, en_hash e)"

lemma envelope_key_inj: "inj envelope_key"
  by (rule injI) (simp add: envelope_key_def timestamp.equality event_envelope.equality)

definition push_key :: "push_request \<Rightarrow> nat" where
  "push_key r = to_nat (pq_device_id r, map envelope_key (pq_events r))"

definition push_response_key :: "push_response \<Rightarrow> nat" where
  "push_response_key r = to_nat (ps_accepted r, ps_skipped r, ct_device_seq (ps_tip r), ct_hash (ps_tip r), ps_high_water r)"

definition pull_response_key :: "pull_response \<Rightarrow> nat" where
  "pull_response_key r = to_nat (map envelope_key (pp_events r), pp_cursor r, pp_has_more r)"

lemma message_keys_inj: "inj push_key" "inj push_response_key" "inj pull_response_key"
  by (rule injI, simp add: push_key_def push_response_key_def pull_response_key_def inj_map_eq_map [OF envelope_key_inj]
      chain_tip.equality push_request.equality push_response.equality pull_response.equality)+

fun rejection_number :: "sync_rejection \<Rightarrow> nat" where
  "rejection_number NotAuthorised = 0"
| "rejection_number InvalidPush = 1"
| "rejection_number ForkedPush = 2"
| "rejection_number GapPush = 3"
| "rejection_number Unavailable = 4"

definition numbered_json :: json_forms where
  "numbered_json = \<lparr>jf_push = (\<lambda>r. Some [push_key r]), jf_read_push = (\<lambda>b. Some (inv push_key (hd b))),
     jf_push_response = (\<lambda>r. [push_response_key r]), jf_read_push_response = (\<lambda>b. Some (inv push_response_key (hd b))),
     jf_pull_response = (\<lambda>r. [pull_response_key r]), jf_read_pull_response = (\<lambda>b. Some (inv pull_response_key (hd b))),
     jf_rejection = (\<lambda>r. [rejection_number r]),
     jf_read_rejection = (\<lambda>b. get [NotAuthorised, InvalidPush, ForkedPush, GapPush, Unavailable] (hd b))\<rparr>"

lemma numbered_json_faithful: "faithful_json numbered_json"
proof -
  have "get [NotAuthorised, InvalidPush, ForkedPush, GapPush, Unavailable] (rejection_number r) = Some r" for r
    by (cases r) (simp_all add: get_def)
  then show ?thesis by (simp add: faithful_json_def numbered_json_def inv_f_f message_keys_inj)
qed

text \<open>The till of device 3 with an event to push, a second behind the server's clock.\<close>

definition one_event_store :: "event_envelope \<Rightarrow> event_store" where
  "one_event_store e = (store_open 3)\<lparr>es_rows := [\<lparr>rw_event = e, rw_local = True, rw_synced_at = None, rw_server_seq = None\<rparr>]\<rparr>"

lemma sync_over_http_witness:
  "\<forall>e. unsynced (one_event_store e) = [e]
    \<and> sync_once plain_texts (http plain_texts shop_keys numbered_json \<lparr>hc_device_id = 3, hc_key = [1]\<rparr> 300 1000 2000)
          (one_event_store e) one_device_server 7
        = sync_once plain_texts (direct plain_texts 3) (one_event_store e) one_device_server 7"
proof (intro allI conjI)
  fix e
  show "unsynced (one_event_store e) = [e]" by (simp add: unsynced_def one_event_store_def is_unsynced_def)
  have "knows_till plain_texts shop_keys \<lparr>hc_device_id = 3, hc_key = [1]\<rparr> one_device_server"
    by (simp add: knows_till_def one_device_server_def enrolled_three_def shop_key_pair)
  moreover have "in_i64 (es_cursor (one_event_store e))" by (simp add: one_event_store_def store_open_def in_i64_def)
  ultimately show "sync_once plain_texts (http plain_texts shop_keys numbered_json \<lparr>hc_device_id = 3, hc_key = [1]\<rparr> 300 1000 2000)
          (one_event_store e) one_device_server 7
        = sync_once plain_texts (direct plain_texts 3) (one_event_store e) one_device_server 7"
    using sync_over_http [of plain_texts shop_keys "\<lparr>hc_device_id = 3, hc_key = [1]\<rparr>" one_device_server numbered_json 1000 300 2000
        "one_event_store e" 7] numbered_json_faithful by (simp add: in_i64_def)
qed

end
