(* ===== verification/Dashboard.thy ===== *)
theory Dashboard
  imports Access DayReport Staff
begin

text \<open>
  What an owner reads from a phone (\<open>crates/sahl-server/src/routes/reports.rs\<close>): a bearer token, the outlets it may see
  and the day of one of them, replayed from the events the server holds.  Row-level security shows a transaction the
  rows of its own tenant only.  Rows that tie in the order of a query keep the order they are stored in.
\<close>

section \<open>Readers\<close>

record dashboard_token =
  dt_tenant_id :: uuid
  dt_outlet_id :: "uuid option"
  dt_token_hash :: "nat list"
  dt_revoked :: bool

record reader =
  ra_tenant_id :: uuid
  ra_outlet_id :: "uuid option"

definition strip_prefix :: "utext \<Rightarrow> utext \<Rightarrow> utext option" where
  "strip_prefix p s = (if take (length p) s = p then Some (drop (length p) s) else None)"

definition reader_of :: "codec \<Rightarrow> dashboard_token list \<Rightarrow> headers \<Rightarrow> nat + reader" where
  "reader_of cd tokens hs =
     (case hs ''authorization'' of
        Some (Readable v) \<Rightarrow>
          (case strip_prefix (lit ''Bearer '') v of
             None \<Rightarrow> Inl 401
           | Some presented \<Rightarrow>
               (case find (\<lambda>t. dt_token_hash t = digest_token cd presented) tokens of
                  None \<Rightarrow> Inl 401
                | Some t \<Rightarrow>
                    if dt_revoked t then Inl 401
                    else Inr \<lparr>ra_tenant_id = dt_tenant_id t, ra_outlet_id = dt_outlet_id t\<rparr>))
      | _ \<Rightarrow> Inl 401)"

section \<open>Outlets\<close>

record outlet_row =
  ol_id :: uuid
  ol_name :: utext

text \<open>\<open>collate\<close> is the order of names in the database.\<close>

definition serve_outlets ::
    "codec \<Rightarrow> (utext \<Rightarrow> 'k::linorder) \<Rightarrow> dashboard_token list \<Rightarrow> (uuid \<times> outlet_row) list \<Rightarrow> headers \<Rightarrow> nat + outlet_row list" where
  "serve_outlets cd collate tokens outlets hs =
     map_ok (\<lambda>reader.
        filter (\<lambda>row. case ra_outlet_id reader of Some only \<Rightarrow> only = ol_id row | None \<Rightarrow> True)
          (sort_key (collate \<circ> ol_name) (map snd (filter (\<lambda>(tenant, row). tenant = ra_tenant_id reader) outlets))))
       (reader_of cd tokens hs)"

section \<open>A day\<close>

record day_query =
  dq_outlet :: "uuid option"
  dq_from :: "int option"
  dq_to :: "int option"

record staff_row =
  sw_id :: uuid
  sw_name :: string

record day_report =
  dd_day :: day
  dd_staff :: "staff_row list"

definition outlet_events :: "server \<Rightarrow> uuid \<Rightarrow> uuid \<Rightarrow> event_envelope list" where
  "outlet_events sv tenant outlet =
     filter (\<lambda>e. en_tenant_id e = tenant \<and> en_outlet_id e = outlet) (map fst (sv_events sv))"

definition in_order :: "event_envelope list \<Rightarrow> event_envelope list" where
  "in_order es = sort_key (\<lambda>e. (millis (en_occurred_at e), en_device_seq e)) es"

definition sale_rows :: "event_envelope list \<Rightarrow> int \<Rightarrow> int \<Rightarrow> event_envelope list" where
  "sale_rows es lo hi =
     in_order (filter (\<lambda>e. take 5 (en_kind e) = ''sale.'' \<and> lo \<le> millis (en_occurred_at e) \<and> millis (en_occurred_at e) \<le> hi) es)"

definition staff_rows :: "event_envelope list \<Rightarrow> event_envelope list" where
  "staff_rows es = in_order (filter (\<lambda>e. take 6 (en_kind e) = ''staff.'') es)"

definition asked_outlet :: "reader \<Rightarrow> day_query \<Rightarrow> nat + uuid" where
  "asked_outlet reader query =
     (case (ra_outlet_id reader, dq_outlet query) of
        (Some only, Some asked) \<Rightarrow> if only \<noteq> asked then Inl 403 else Inr only
      | (Some only, None) \<Rightarrow> Inr only
      | (None, Some asked) \<Rightarrow> Inr asked
      | (None, None) \<Rightarrow> Inl 400)"

definition reported_day ::
    "(json \<Rightarrow> sale_event option) \<Rightarrow> (json \<Rightarrow> staff_event option) \<Rightarrow> event_envelope list \<Rightarrow> int \<Rightarrow> int \<Rightarrow> nat + day_report" where
  "reported_day read_sale read_staff es lo hi =
     and_then (map_err (\<lambda>_. 422) (book_replay (List.map_filter (read_sale \<circ> en_payload) (sale_rows es lo hi)))) (\<lambda>book.
     let directory = (case directory_replay (List.map_filter (read_staff \<circ> en_payload) (staff_rows es)) of
            Inl _ \<Rightarrow> directory_new | Inr d \<Rightarrow> d);
         sales = book_completed book
     in case sales of
          [] \<Rightarrow> Inr \<lparr>dd_day = day_empty Bdt, dd_staff = []\<rparr>
        | s # _ \<Rightarrow>
            map_ok (\<lambda>d. \<lparr>dd_day = d, dd_staff = map (\<lambda>row. \<lparr>sw_id = cr_staff_id row,
                sw_name = (case bt_get directory (cr_staff_id row) of None \<Rightarrow> ''Unknown'' | Some m \<Rightarrow> sm_name m)\<rparr>) (dy_by_cashier d)\<rparr>)
              (map_err (\<lambda>_. 422) (day_of sales (s_currency s))))"

definition serve_day ::
    "codec \<Rightarrow> (json \<Rightarrow> sale_event option) \<Rightarrow> (json \<Rightarrow> staff_event option) \<Rightarrow> server \<Rightarrow> dashboard_token list \<Rightarrow> headers \<Rightarrow> day_query
     \<Rightarrow> nat + day_report" where
  "serve_day cd read_sale read_staff sv tokens hs query =
     and_then (reader_of cd tokens hs) (\<lambda>reader.
     and_then (asked_outlet reader query) (\<lambda>outlet.
     reported_day read_sale read_staff (outlet_events sv (ra_tenant_id reader) outlet)
       (case dq_from query of Some v \<Rightarrow> v | None \<Rightarrow> - (2 ^ 63)) (case dq_to query of Some v \<Rightarrow> v | None \<Rightarrow> 2 ^ 63 - 1)))"

section \<open>A token reads what it may\<close>

definition may_read :: "reader \<Rightarrow> uuid \<Rightarrow> bool" where
  "may_read reader outlet \<longleftrightarrow> (case ra_outlet_id reader of Some only \<Rightarrow> outlet = only | None \<Rightarrow> True)"

lemma asked_outlet_readable: "asked_outlet reader query = Inr outlet \<Longrightarrow> may_read reader outlet"
  by (auto simp: asked_outlet_def may_read_def split: option.splits if_splits)

text \<open>C28: whatever two servers hold apart from it, the answer depends on the events of the token's tenant at outlets the token
  may read only; nothing else flows into a report.\<close>

theorem report_reads_its_scope:
  assumes "reader_of cd tokens hs = Inr reader"
    and "\<And>outlet. may_read reader outlet \<Longrightarrow>
      outlet_events sv (ra_tenant_id reader) outlet = outlet_events sv' (ra_tenant_id reader) outlet"
  shows "serve_day cd read_sale read_staff sv tokens hs query = serve_day cd read_sale read_staff sv' tokens hs query"
proof (cases "asked_outlet reader query")
  case (Inl status)
  with assms(1) show ?thesis by (simp add: serve_day_def)
next
  case (Inr outlet)
  with assms(1) assms(2) [OF asked_outlet_readable [OF Inr]] show ?thesis by (simp add: serve_day_def)
qed

section \<open>The day of the log\<close>

text \<open>The takings of a reported day are what its completed sales settled, read in the order of their times.\<close>

lemma reported_day_exact:
  assumes "reported_day read_sale read_staff es lo hi = Inr report"
  shows "\<exists>book. book_replay (List.map_filter (read_sale \<circ> en_payload) (sale_rows es lo hi)) = Inr book
    \<and> dy_sales (dd_day report) = length (book_completed book)
    \<and> minor (dy_takings (dd_day report)) = (\<Sum>s\<leftarrow>book_completed book. settled_minor s)"
proof -
  from assms obtain book where book: "book_replay (List.map_filter (read_sale \<circ> en_payload) (sale_rows es lo hi)) = Inr book"
    by (auto simp: reported_day_def res_simps)
  show ?thesis
  proof (cases "book_completed book")
    case Nil
    with assms book show ?thesis by (auto simp: reported_day_def day_empty_def money_zero_def)
  next
    case (Cons s ss)
    with assms book obtain d where d: "day_of (book_completed book) (s_currency s) = Inr d" "dd_day report = d"
      by (auto simp: reported_day_def res_simps)
    obtain d0 m where "day_inv (book_completed book) (d0, m)" "dy_sales d = dy_sales d0" "dy_takings d = dy_takings d0"
      using day_of_inv [OF book d(1)] by metis
    with d(2) book show ?thesis by (auto simp: day_inv_def)
  qed
qed

section \<open>A sale across the border of two days\<close>

text \<open>A sale opened at 10, with its line, and paid and completed at 77.\<close>

definition night_events :: "(sale_event \<times> int) list" where
  "night_events = [(sample_opening, 10), (sample_item 11 10000, 10), (TenderRecorded 1 21 Cash (taka 10000) None, 77),
     (Completed 1 (taka 10000) (taka 0) \<lparr>millis = 77\<rparr>, 77)]"

definition night_server :: server where
  "night_server = \<lparr>sv_devices = [], sv_events = map (\<lambda>i. (\<lparr>en_event_id = i, en_tenant_id = 1, en_outlet_id = 2, en_device_id = 3,
     en_device_seq = int i + 1, en_occurred_at = \<lparr>millis = snd (night_events ! i)\<rparr>, en_kind = ''sale.event'',
     en_payload = JInt (int i), en_prev_hash = [], en_hash = []\<rparr>, int i + 1)) [0..<4], sv_next_seq = 5\<rparr>"

definition night_read :: "json \<Rightarrow> sale_event option" where
  "night_read j = (case j of JInt i \<Rightarrow> Some (fst (night_events ! nat i)) | _ \<Rightarrow> None)"

definition night_token :: dashboard_token where
  "night_token = \<lparr>dt_tenant_id = 1, dt_outlet_id = Some 2, dt_token_hash = digest_token sample_codec [65, 66], dt_revoked = False\<rparr>"

definition night_headers :: headers where
  "night_headers = (\<lambda>name. if name = ''authorization'' then Some (Readable (lit ''Bearer AB'')) else None)"

definition night_day :: "int option \<Rightarrow> int option \<Rightarrow> nat + day_report" where
  "night_day lo hi = serve_day sample_codec night_read (\<lambda>_. None) night_server [night_token] night_headers
     \<lparr>dq_outlet = None, dq_from = lo, dq_to = hi\<rparr>"

text \<open>Over all time the day has its one sale; from an hour between opening and payment on, there is no report at all.\<close>

lemma night_whole: "map_ok (\<lambda>r. minor (dy_takings (dd_day r))) (night_day None None) = Inr 10000"
  by code_simp

lemma night_split: "night_day (Some 50) None = Inl 422"
  by code_simp

lemma report_reads_its_scope_witness:
  "reader_of sample_codec [night_token] night_headers = Inr \<lparr>ra_tenant_id = 1, ra_outlet_id = Some 2\<rparr>
    \<and> serve_day sample_codec night_read (\<lambda>_. None) night_server [night_token] night_headers \<lparr>dq_outlet = None, dq_from = None, dq_to = None\<rparr>
      = serve_day sample_codec night_read (\<lambda>_. None)
          (night_server\<lparr>sv_events := sv_events night_server @ map (\<lambda>(e, n). (e\<lparr>en_outlet_id := 5\<rparr>, n)) (sv_events night_server)\<rparr>)
          [night_token] night_headers \<lparr>dq_outlet = None, dq_from = None, dq_to = None\<rparr>"
proof -
  have r: "reader_of sample_codec [night_token] night_headers = Inr \<lparr>ra_tenant_id = 1, ra_outlet_id = Some 2\<rparr>" by code_simp
  moreover have "outlet_events night_server 1 2 = outlet_events (night_server\<lparr>sv_events := sv_events night_server
      @ map (\<lambda>(e, n). (e\<lparr>en_outlet_id := 5\<rparr>, n)) (sv_events night_server)\<rparr>) 1 2" by code_simp
  ultimately show ?thesis
    by (intro conjI report_reads_its_scope [OF r]) (simp_all add: may_read_def)
qed

end
