(* ===== verification/Settings.thy ===== *)
theory Settings
  imports Text
begin

text \<open>
  The server's configuration (\<open>crates/sahl-server/src/config.rs\<close>): every setting is required, read from the environment
  and validated before a request is served.  A \<open>Duration\<close> is its number of seconds; a socket address is read by a
  parameter.
\<close>

datatype config_error = MissingVariable string | NotUnicode string | InvalidVariable string utext

record 'a config =
  cf_database_url :: utext
  cf_database_max_connections :: int
  cf_bind_address :: 'a
  cf_enrollment_token_ttl :: int
  cf_signature_max_skew :: int

text \<open>A variable of the environment: unset, set to a text, or set to bytes that are none.\<close>

datatype env_value = Unset | NotText | Value utext

definition required :: "(string \<Rightarrow> env_value) \<Rightarrow> string \<Rightarrow> config_error + utext" where
  "required env name =
     (case env name of
        Value v \<Rightarrow> if trim v = [] then Inl (MissingVariable name) else Inr v
      | Unset \<Rightarrow> Inl (MissingVariable name)
      | NotText \<Rightarrow> Inl (NotUnicode name))"

definition required_parsed :: "(string \<Rightarrow> env_value) \<Rightarrow> (utext \<Rightarrow> utext + 'v) \<Rightarrow> string \<Rightarrow> config_error + 'v" where
  "required_parsed env parse name =
     and_then (required env name) (\<lambda>raw. map_err (InvalidVariable name) (parse (trim raw)))"

definition has_prefix :: "utext \<Rightarrow> utext \<Rightarrow> bool" where
  "has_prefix p s \<longleftrightarrow> take (length p) s = p"

definition config_validate :: "'a config \<Rightarrow> config_error + unit" where
  "config_validate c =
     (if \<not> has_prefix (lit ''postgres://'') (cf_database_url c) \<and> \<not> has_prefix (lit ''postgresql://'') (cf_database_url c)
      then Inl (InvalidVariable ''DATABASE_URL'' (lit ''must be a postgres:// connection string''))
      else if cf_database_max_connections c = 0
      then Inl (InvalidVariable ''SAHL_DB_MAX_CONNECTIONS'' (lit ''must be at least 1''))
      else if cf_enrollment_token_ttl c = 0
      then Inl (InvalidVariable ''SAHL_ENROLLMENT_TOKEN_TTL_SECONDS'' (lit ''must be greater than zero''))
      else if cf_signature_max_skew c = 0 \<or> cf_signature_max_skew c > 3600
      then Inl (InvalidVariable ''SAHL_SIGNATURE_MAX_SKEW_SECONDS'' (lit ''must be between 1 and 3600 seconds''))
      else Inr ())"

text \<open>\<open>why\<close> is the text of the standard library's parse errors.\<close>

definition parsed :: "(int \<Rightarrow> bool) \<Rightarrow> (utext \<Rightarrow> utext) \<Rightarrow> utext \<Rightarrow> utext + int" where
  "parsed R why s = ok_or (why s) (parse_int R s)"

definition config_from_env ::
    "(string \<Rightarrow> env_value) \<Rightarrow> (utext \<Rightarrow> utext) \<Rightarrow> (utext \<Rightarrow> utext + 'a) \<Rightarrow> config_error + 'a config" where
  "config_from_env env why parse_address =
     and_then (required env ''DATABASE_URL'') (\<lambda>url.
     and_then (required_parsed env (parsed in_u32 why) ''SAHL_DB_MAX_CONNECTIONS'') (\<lambda>connections.
     and_then (required_parsed env parse_address ''SAHL_BIND_ADDRESS'') (\<lambda>address.
     and_then (required_parsed env (parsed in_u64 why) ''SAHL_ENROLLMENT_TOKEN_TTL_SECONDS'') (\<lambda>ttl.
     and_then (required_parsed env (parsed in_u64 why) ''SAHL_SIGNATURE_MAX_SKEW_SECONDS'') (\<lambda>skew.
     let config = \<lparr>cf_database_url = url, cf_database_max_connections = connections, cf_bind_address = address,
                   cf_enrollment_token_ttl = ttl, cf_signature_max_skew = skew\<rparr>
     in map_ok (\<lambda>_. config) (config_validate config))))))"

text \<open>The window \<open>main.rs\<close> hands to the router.\<close>

definition served_skew :: "'a config \<Rightarrow> int" where
  "served_skew c = (case fit in_i64 (cf_signature_max_skew c) of Some s \<Rightarrow> s | None \<Rightarrow> 300)"

text \<open>A server that starts has a window of at most an hour, which is the bound its authentication needs.\<close>

lemma parsed_range: "parsed R why s = Inr n \<Longrightarrow> R n"
  by (auto simp: parsed_def parse_int_def ok_or_def fit_def Let_def split: list.splits option.splits if_splits)

lemma required_parsed_range: "required_parsed env (parsed R why) name = Inr n \<Longrightarrow> R n"
  by (auto simp: required_parsed_def res_simps dest: parsed_range)

lemma started_window:
  assumes "config_from_env env why parse_address = Inr c"
  shows "0 < served_skew c \<and> served_skew c \<le> 3600 \<and> 0 < cf_database_max_connections c \<and> 0 < cf_enrollment_token_ttl c"
proof -
  from assms have v: "config_validate c = Inr ()" and r: "in_u32 (cf_database_max_connections c)"
    "in_u64 (cf_enrollment_token_ttl c)" "in_u64 (cf_signature_max_skew c)"
    by (auto simp: config_from_env_def Let_def res_simps dest: required_parsed_range)
  from v have "cf_database_max_connections c \<noteq> 0" "cf_enrollment_token_ttl c \<noteq> 0" "cf_signature_max_skew c \<noteq> 0"
    "cf_signature_max_skew c \<le> 3600"
    by (simp_all add: config_validate_def split: if_splits)
  with r show ?thesis by (simp add: served_skew_def fit_def in_u32_def in_u64_def in_i64_def)
qed

end
