(* ===== verification/Views.thy ===== *)
theory Views
  imports Printing
begin

text \<open>
  What the webview is given (\<open>crates/sahl-terminal/src/commands/view.rs\<close>): the records a screen draws, each
  built from the aggregate it shows, every amount an integer of minor units.
\<close>

section \<open>A sale\<close>

record modifier_view =
  vm_name :: utext
  vm_price_delta_minor :: int

record line_view =
  vl_id :: uuid
  vl_name :: utext
  vl_quantity_milli :: int
  vl_unit_price_minor :: int
  vl_total_minor :: int
  vl_tax_minor :: int
  vl_voided :: bool
  vl_modifiers :: "modifier_view list"

record tax_group_view =
  vg_basis_points :: int
  vg_class :: string
  vg_taxable_base_minor :: int
  vg_tax_minor :: int

record tender_view =
  vt_id :: uuid
  vt_method :: string
  vt_amount_minor :: int

record sale_view =
  vs_id :: uuid
  vs_status :: string
  vs_currency :: string
  vs_lines :: "line_view list"
  vs_tax_groups :: "tax_group_view list"
  vs_tenders :: "tender_view list"
  vs_gross_minor :: int
  vs_discount_minor :: int
  vs_net_minor :: int
  vs_tax_minor :: int
  vs_total_minor :: int
  vs_tendered_minor :: int
  vs_balance_due_minor :: int
  vs_change_due_minor :: int
  vs_void_count :: nat
  vs_needs_drawer :: bool

fun class_label :: "tax_class \<Rightarrow> string" where
  "class_label (Standard _) = ''standard''"
| "class_label ZeroRated = ''zero_rated''"
| "class_label Exempt = ''exempt''"

text \<open>A wallet is shown by its lowercased debug name.\<close>

fun method_label :: "tender_method \<Rightarrow> string" where
  "method_label Cash = ''cash''"
| "method_label Card = ''card''"
| "method_label (MobileWallet w) = (case w of
     Bkash \<Rightarrow> ''bkash'' | Nagad \<Rightarrow> ''nagad'' | Rocket \<Rightarrow> ''rocket'' | Upay \<Rightarrow> ''upay'' | StcPay \<Rightarrow> ''stcpay'')"
| "method_label BankTransfer = ''bank_transfer''"
| "method_label StoreCredit = ''store_credit''"

definition modifiers_of :: "sale_line \<Rightarrow> modifier_view list" where
  "modifiers_of l = map (\<lambda>m. \<lparr>vm_name = mo_name m, vm_price_delta_minor = minor (mo_price_delta m)\<rparr>) (l_modifiers l)"

definition empty_line :: "sale_line \<Rightarrow> line_view" where
  "empty_line l =
     \<lparr>vl_id = l_id l, vl_name = l_name l, vl_quantity_milli = milli (l_quantity l),
      vl_unit_price_minor = minor (l_unit_price l), vl_total_minor = 0, vl_tax_minor = 0,
      vl_voided = \<not> is_active l, vl_modifiers = modifiers_of l\<rparr>"

definition priced_line :: "sale_line \<Rightarrow> line_totals \<Rightarrow> line_view" where
  "priced_line l t =
     \<lparr>vl_id = l_id l, vl_name = l_name l, vl_quantity_milli = milli (l_quantity l),
      vl_unit_price_minor = minor (l_unit_price l), vl_total_minor = minor (lt_total t), vl_tax_minor = minor (lt_tax t),
      vl_voided = False, vl_modifiers = modifiers_of l\<rparr>"

text \<open>The totals are handed out to the active lines in turn.\<close>

fun line_views :: "sale_line list \<Rightarrow> line_totals list \<Rightarrow> line_view list" where
  "line_views [] _ = []"
| "line_views (l # ls) ts =
     (if \<not> is_active l then empty_line l # line_views ls ts
      else case ts of
        [] \<Rightarrow> empty_line l # line_views ls []
      | t # ts \<Rightarrow> priced_line l t # line_views ls ts)"

definition tenders_of :: "sale \<Rightarrow> tender_view list" where
  "tenders_of s = map (\<lambda>x. \<lparr>vt_id = te_id x, vt_method = method_label (te_method x), vt_amount_minor = minor (te_amount x)\<rparr>)
     (s_tenders s)"

fun status_view :: "sale_status \<Rightarrow> string" where
  "status_view StatusOpen = ''open''"
| "status_view StatusCompleted = ''completed''"
| "status_view StatusAbandoned = ''abandoned''"

text \<open>\<open>Iterator::sum\<close> over \<open>i64\<close> has no check in a release build.\<close>

definition sum_i64 :: "int list \<Rightarrow> int" where
  "sum_i64 xs = (sum_list xs + 2 ^ 63) mod 2 ^ 64 - 2 ^ 63"

definition minor_or_zero :: "'e + money \<Rightarrow> int" where
  "minor_or_zero r = (case r of Inl _ \<Rightarrow> 0 | Inr m \<Rightarrow> minor m)"

definition group_view :: "tax_group \<Rightarrow> tax_group_view" where
  "group_view g =
     \<lparr>vg_basis_points = basis_points (Tax.rate_of (tg_tax_class g)), vg_class = class_label (tg_tax_class g),
      vg_taxable_base_minor = minor (tg_taxable_base g), vg_tax_minor = minor (tg_tax g)\<rparr>"

definition view_sale :: "sale \<Rightarrow> sale_error + sale_view" where
  "view_sale s =
     (case sale_totals s of
        Inl _ \<Rightarrow> Inr
          \<lparr>vs_id = s_id s, vs_status = status_view (s_status s), vs_currency = code (s_currency s),
           vs_lines = map empty_line (s_lines s), vs_tax_groups = [], vs_tenders = tenders_of s,
           vs_gross_minor = 0, vs_discount_minor = 0, vs_net_minor = 0, vs_tax_minor = 0, vs_total_minor = 0,
           vs_tendered_minor = sum_i64 (map (\<lambda>x. minor (te_amount x)) (s_tenders s)),
           vs_balance_due_minor = 0, vs_change_due_minor = 0,
           vs_void_count = void_count s, vs_needs_drawer = needs_drawer s\<rparr>
      | Inr totals \<Rightarrow> Inr
          \<lparr>vs_id = s_id s, vs_status = status_view (s_status s), vs_currency = code (s_currency s),
           vs_lines = line_views (s_lines s) (ot_lines totals),
           vs_tax_groups = map group_view (ot_tax_groups totals), vs_tenders = tenders_of s,
           vs_gross_minor = minor (ot_gross totals), vs_discount_minor = minor (ot_discount totals),
           vs_net_minor = minor (ot_net totals), vs_tax_minor = minor (ot_tax totals),
           vs_total_minor = minor (ot_total totals),
           vs_tendered_minor = minor_or_zero (tendered s),
           vs_balance_due_minor = minor_or_zero (balance_due s),
           vs_change_due_minor = minor_or_zero (change_due s),
           vs_void_count = void_count s, vs_needs_drawer = needs_drawer s\<rparr>)"

section \<open>A shift\<close>

record shift_view =
  vh_id :: uuid
  vh_cashier :: uuid
  vh_is_final :: bool
  vh_currency :: string
  vh_opening_float_minor :: int
  vh_takings_minor :: int
  vh_cash_from_sales_minor :: int
  vh_net_movements_minor :: int
  vh_expected_cash_minor :: int
  vh_counted_cash_minor :: "int option"
  vh_variance :: "string option"
  vh_variance_minor :: "int option"
  vh_sale_count :: nat
  vh_void_count :: nat
  vh_count_attempts :: nat

fun variance_label :: "variance \<Rightarrow> string" where
  "variance_label Balanced = ''balanced''"
| "variance_label (Short _) = ''short''"
| "variance_label (Over _) = ''over''"

definition view_shift :: "shift_report \<Rightarrow> currency \<Rightarrow> shift_view" where
  "view_shift r c =
     \<lparr>vh_id = sr_shift_id r, vh_cashier = sr_cashier r, vh_is_final = sr_is_final r, vh_currency = code c,
      vh_opening_float_minor = minor (sr_opening_float r), vh_takings_minor = minor (sr_takings r),
      vh_cash_from_sales_minor = minor (sr_cash_from_sales r), vh_net_movements_minor = minor (sr_net_movements r),
      vh_expected_cash_minor = minor (sr_expected_cash r),
      vh_counted_cash_minor = map_option minor (sr_counted_cash r),
      vh_variance = map_option variance_label (sr_variance r),
      vh_variance_minor = map_option (\<lambda>v. minor (magnitude v)) (sr_variance r),
      vh_sale_count = sr_sale_count r, vh_void_count = sr_void_count r, vh_count_attempts = sr_count_attempts r\<rparr>"

definition blind_shift :: "shift_view \<Rightarrow> shift_view" where
  "blind_shift v = v\<lparr>vh_expected_cash_minor := 0, vh_cash_from_sales_minor := 0, vh_net_movements_minor := 0,
     vh_takings_minor := 0, vh_counted_cash_minor := None, vh_variance := None, vh_variance_minor := None\<rparr>"

section \<open>The stock\<close>

record batch_view =
  vb_id :: uuid
  vb_product_id :: uuid
  vb_lot :: "string option"
  vb_expires_at :: "int option"
  vb_received_at :: int
  vb_on_hand_milli :: int
  vb_unit_cost_minor :: "int option"
  vb_negative :: bool

record variance_view =
  vv_batch_id :: uuid
  vv_expected_milli :: int
  vv_counted_milli :: int
  vv_delta_milli :: int
  vv_at :: int
  vv_counted_by :: uuid

record stock_view =
  vk_batches :: "batch_view list"
  vk_variances :: "variance_view list"
  vk_currency :: string

definition view_batch :: "inventory_book \<Rightarrow> batch_level \<Rightarrow> batch_view" where
  "view_batch b l =
     \<lparr>vb_id = ba_id (bl_batch l), vb_product_id = ba_product_id (bl_batch l), vb_lot = ba_lot (bl_batch l),
      vb_expires_at = map_option millis (ba_expires_at (bl_batch l)),
      vb_received_at = millis (ba_received_at (bl_batch l)), vb_on_hand_milli = milli (bl_on_hand l),
      vb_unit_cost_minor = map_option minor (unit_cost b (ba_id (bl_batch l))),
      vb_negative = quantity_is_negative (bl_on_hand l)\<rparr>"

definition view_variance :: "count_variance \<Rightarrow> variance_view" where
  "view_variance v =
     \<lparr>vv_batch_id = cv_batch_id v, vv_expected_milli = milli (cv_expected v), vv_counted_milli = milli (cv_counted v),
      vv_delta_milli = milli (cv_delta v), vv_at = millis (cv_at v), vv_counted_by = cv_counted_by v\<rparr>"

definition view_stock :: "inventory_book \<Rightarrow> currency \<Rightarrow> stock_view" where
  "view_stock b c = \<lparr>vk_batches = map (view_batch b) (levels b), vk_variances = map view_variance (ib_variances b),
     vk_currency = code c\<rparr>"

definition blind_stock :: "stock_view \<Rightarrow> stock_view" where
  "blind_stock v = v\<lparr>vk_batches := map (\<lambda>b. b\<lparr>vb_on_hand_milli := 0, vb_negative := False\<rparr>) (vk_batches v),
     vk_variances := []\<rparr>"

section \<open>Staff and orders\<close>

record staff_view =
  vf_id :: uuid
  vf_name :: string
  vf_role :: string
  vf_active :: bool

definition view_staff :: "staff_member \<Rightarrow> staff_view" where
  "view_staff m = \<lparr>vf_id = sm_id m, vf_name = sm_name m, vf_role = role_label (sm_role m), vf_active = sm_active m\<rparr>"

record order_line_view =
  wl_line_id :: uuid
  wl_product_id :: uuid
  wl_ordered_milli :: int
  wl_received_milli :: int
  wl_outstanding_milli :: int
  wl_unit_cost_minor :: int
  wl_received_value_minor :: int
  wl_price_changed :: bool

record order_view =
  wo_id :: uuid
  wo_supplier :: string
  wo_reference :: "string option"
  wo_expected_at :: "int option"
  wo_placed_at :: int
  wo_status :: string
  wo_close_reason :: "string option"
  wo_ordered_value_minor :: int
  wo_received_value_minor :: int
  wo_lines :: "order_line_view list"
  wo_currency :: string

fun close_label :: "close_reason \<Rightarrow> string" where
  "close_label Complete = ''complete''"
| "close_label ShortShipped = ''short_shipped''"
| "close_label Cancelled = ''cancelled''"

fun order_status_label :: "order_status \<Rightarrow> string" where
  "order_status_label Awaiting = ''awaiting''"
| "order_status_label PartlyReceived = ''partly_received''"
| "order_status_label FullyReceived = ''fully_received''"
| "order_status_label (StatusClosed _) = ''closed''"

definition order_line_view :: "uuid list \<Rightarrow> line_progress \<Rightarrow> money_error + order_line_view" where
  "order_line_view changed p =
     map_ok (\<lambda>out.
       \<lparr>wl_line_id = ol_line_id (lp_line p), wl_product_id = ol_product_id (lp_line p),
        wl_ordered_milli = milli (ol_quantity (lp_line p)), wl_received_milli = milli (lp_received p),
        wl_outstanding_milli = milli out, wl_unit_cost_minor = minor (ol_unit_cost (lp_line p)),
        wl_received_value_minor = minor (lp_received_value p),
        wl_price_changed = (ol_line_id (lp_line p) \<in> set changed)\<rparr>)
     (lp_outstanding p)"

definition view_order :: "purchase_order \<Rightarrow> currency \<Rightarrow> money_error + order_view" where
  "view_order o' c =
     and_then (status_of_order o') (\<lambda>st.
     and_then (price_discrepancies o') (\<lambda>found.
     and_then (try_map (order_line_view (map (\<lambda>p. ol_line_id (lp_line p)) found)) (order_lines o')) (\<lambda>ls.
     and_then (ordered_value o') (\<lambda>ord.
     map_ok (\<lambda>recv.
       \<lparr>wo_id = po_order_id o', wo_supplier = po_supplier o', wo_reference = po_reference o',
        wo_expected_at = map_option millis (po_expected_at o'), wo_placed_at = millis (po_placed_at o'),
        wo_status = order_status_label st,
        wo_close_reason = (case st of StatusClosed reason \<Rightarrow> Some (close_label reason) | _ \<Rightarrow> None),
        wo_ordered_value_minor = minor ord, wo_received_value_minor = minor recv, wo_lines = ls,
        wo_currency = code c\<rparr>)
     (received_value o')))))"

section \<open>What the sell screen shows\<close>

lemma line_views_ids: "map vl_id (line_views ls ts) = map l_id ls \<and> map vl_voided (line_views ls ts) = map (\<lambda>l. \<not> is_active l) ls"
  by (induction ls ts rule: line_views.induct) (auto simp: empty_line_def priced_line_def split: list.split)

lemma line_views_sums:
  "length ts = length (filter is_active ls) \<Longrightarrow> (\<Sum>v\<leftarrow>line_views ls ts. vl_total_minor v) = (\<Sum>t\<leftarrow>ts. minor (lt_total t))"
  by (induction ls ts rule: line_views.induct) (auto simp: empty_line_def priced_line_def split: list.split)

text \<open>Every line of a sale is on its screen, the voided ones marked and without an amount, and the amounts of the lines
  add up to the total.\<close>

theorem sell_screen_adds_up:
  assumes "view_sale s = Inr v"
  shows "map vl_id (vs_lines v) = map l_id (s_lines s) \<and> map vl_voided (vs_lines v) = map (\<lambda>l. \<not> is_active l) (s_lines s)
    \<and> (\<Sum>l\<leftarrow>vs_lines v. vl_total_minor l) = vs_total_minor v"
proof (cases "sale_totals s")
  case (Inl e)
  have "sum_list (map (\<lambda>l. vl_total_minor (empty_line l)) ls) = 0" for ls by (induction ls) (simp_all add: empty_line_def)
  with assms Inl show ?thesis by (auto simp: view_sale_def empty_line_def comp_def)
next
  case (Inr t)
  with assms line_views_ids line_views_sums [OF totals_sums(3) [OF Inr]] totals_sums(2) [OF Inr]
  show ?thesis by (auto simp: view_sale_def)
qed

end
