(* ===== verification/Commands.thy ===== *)
theory Commands
  imports Views
begin

text \<open>
  The commands a screen sends to sell, count the drawer and book stock
  (\<open>crates/sahl-terminal/src/commands/mod.rs\<close>).  Each takes the till as it stands and what the machine
  supplies, and returns the till as it leaves it with a view or the code of a refusal.  The sentence
  that goes with a code, and the refusal of a till whose lock another command poisoned, are not modelled;
  no round of sync falls between two locks of one command.
\<close>

section \<open>What the machine supplies\<close>

text \<open>The n-th reading of the clock, the n-th generated id and whether the n-th write succeeds; the salt of a new PIN,
  how text is lowercased and a UUID shown, and what the printer says to the n-th job (\<open>None\<close> when it prints).\<close>

record 'phc desk =
  dk_codec :: codec
  dk_wire :: wire
  dk_argon :: "'phc argon"
  dk_io :: "nat \<Rightarrow> bool"
  dk_now :: "nat \<Rightarrow> timestamp"
  dk_id :: "nat \<Rightarrow> uuid"
  dk_salt :: string
  dk_lower :: "utext \<Rightarrow> utext"
  dk_show :: "uuid \<Rightarrow> utext"
  dk_print :: "nat \<Rightarrow> nat list \<Rightarrow> utext option"

section \<open>Refusals\<close>

type_synonym refusal = string

fun error_code :: "terminal_error \<Rightarrow> refusal" where
  "error_code (CorruptLog _) = ''corrupt_log''"
| "error_code (UnknownSale _) = ''unknown_sale''"
| "error_code (TicketHeld _ _) = ''ticket_held''"
| "error_code (TermStore _) = ''storage''"
| "error_code (TermEvent _) = ''event''"
| "error_code (TermSale _) = ''rejected''"
| "error_code (TermShift _) = ''rejected''"
| "error_code (TermInventory _) = ''rejected''"
| "error_code (TermOutlet _) = ''rejected''"
| "error_code (TermDocument _) = ''rejected''"
| "error_code (TermCatalogue _) = ''rejected''"
| "error_code (TermFloor _) = ''rejected''"
| "error_code (TermScale _) = ''bad_scan''"
| "error_code (TermWeigh _) = ''rejected''"
| "error_code TermDenied = ''denied''"
| "error_code TermNotConfigured = ''not_configured''"
| "error_code (NotInvoiced _) = ''not_invoiced''"
| "error_code (TermDirectory _) = ''rejected''"
| "error_code (TermPurchase _) = ''rejected''"
| "error_code (TermFiscal _) = ''rejected''"
| "error_code (UnknownOrder _) = ''unknown_order''"
| "error_code NotAuthorized = ''not_authorized''"
| "error_code NoApprover = ''no_approver''"
| "error_code NoOpenShift = ''no_open_shift''"
| "error_code ShiftAlreadyOpen = ''shift_already_open''"

abbreviation told :: "terminal_error + 'a \<Rightarrow> refusal + 'a" where
  "told \<equiv> map_err error_code"

definition refused :: "refusal \<Rightarrow> 'e + 'a \<Rightarrow> refusal + 'a" where
  "refused c r = map_err (\<lambda>_. c) r"

text \<open>\<open>?\<close> on a check before anything is written, and on a recorder's result, after which the view is read off the
  till as it stands.\<close>

definition checked :: "'e + 'b \<Rightarrow> terminal \<Rightarrow> ('b \<Rightarrow> terminal \<times> ('e + 'v)) \<Rightarrow> terminal \<times> ('e + 'v)" where
  "checked c t k = (case c of Inl e \<Rightarrow> (t, Inl e) | Inr b \<Rightarrow> k b)"

definition answering ::
    "terminal \<times> (terminal_error + 'a) \<Rightarrow> (terminal \<Rightarrow> refusal + 'v) \<Rightarrow> terminal \<times> (refusal + 'v)" where
  "answering r view = (fst r, and_then (told (snd r)) (\<lambda>_. view (fst r)))"

section \<open>Who acts, and in which currency\<close>

definition cmd_authorize :: "'phc desk \<Rightarrow> terminal \<Rightarrow> permission \<Rightarrow> nat list \<Rightarrow> refusal + uuid" where
  "cmd_authorize dk t p pin = told (till_approve (dk_argon dk) t p pin)"

definition outlet_currency :: "terminal \<Rightarrow> refusal + currency" where
  "outlet_currency t = ok_or ''not_configured'' (map_option oc_currency (tm_outlet t))"

definition sale_currency :: "terminal \<Rightarrow> uuid \<Rightarrow> refusal + currency" where
  "sale_currency t sale_id = map_ok s_currency (told (till_sale t sale_id))"

definition signed_in :: "'phc desk \<Rightarrow> terminal \<Rightarrow> refusal + uuid" where
  "signed_in dk t = ok_or ''not_signed_in'' (map_option ss_staff_id (current_session t (dk_now dk 0)))"

definition line_worth :: "terminal \<Rightarrow> uuid \<Rightarrow> uuid \<Rightarrow> refusal + money" where
  "line_worth t sale_id line_id =
     and_then (told (till_sale t sale_id)) (\<lambda>s.
     and_then (ok_or ''unknown_line'' (find (\<lambda>l. l_id l = line_id) (s_lines s))) (\<lambda>l.
     refused ''rejected'' (line_value l)))"

definition authorize_at_limit ::
    "'phc desk \<Rightarrow> terminal \<Rightarrow> permission \<Rightarrow> (role \<Rightarrow> approval_policy \<Rightarrow> authorization) \<Rightarrow> nat list \<Rightarrow> refusal + uuid" where
  "authorize_at_limit dk t p verdict pin = told (authorize_for (dk_argon dk) t p verdict pin (dk_now dk 0))"

section \<open>Selling\<close>

definition sale_answer :: "terminal \<Rightarrow> uuid \<Rightarrow> refusal + sale_view" where
  "sale_answer t sale_id = and_then (told (till_sale t sale_id)) (\<lambda>s. refused ''rejected'' (view_sale s))"

text \<open>\<open>apply\<close>, with the id and the clock reading it takes.\<close>

definition cmd_apply :: "'phc desk \<Rightarrow> nat \<Rightarrow> nat \<Rightarrow> terminal \<Rightarrow> sale_event \<Rightarrow> terminal \<times> (refusal + sale_view)" where
  "cmd_apply dk i k t ev =
     answering (record_sale (dk_codec dk) (dk_wire dk) (dk_io dk 0) t ev (dk_id dk i) (dk_now dk k))
       (\<lambda>t. sale_answer t (event_sale_id ev))"

definition cmd_open_sale :: "'phc desk \<Rightarrow> terminal \<Rightarrow> terminal \<times> (refusal + sale_view)" where
  "cmd_open_sale dk t =
     checked (signed_in dk t) t (\<lambda>cashier_id.
     checked (outlet_currency t) t (\<lambda>c.
     cmd_apply dk 1 1 t (Opened (dk_id dk 0) cashier_id c TaxInclusive HalfUp)))"

definition read_tax_class :: "string \<Rightarrow> int \<Rightarrow> refusal + tax_class" where
  "read_tax_class treatment points =
     (if treatment = ''standard'' then Inr (standard points)
      else if treatment = ''zero_rated'' then Inr ZeroRated
      else if treatment = ''exempt'' then Inr Exempt
      else Inl ''bad_tax_class'')"

definition same_supply :: "uuid \<Rightarrow> money \<Rightarrow> tax_class \<Rightarrow> modifier list \<Rightarrow> sale_line \<Rightarrow> bool" where
  "same_supply product_id price tc modifiers l \<longleftrightarrow>
     l_product_id l = product_id \<and> l_unit_price l = price \<and> l_tax_class l = tc \<and> l_modifiers l = modifiers
     \<and> l_discount l = DiscountNone"

text \<open>The new line is recorded with \<open>modifiers: Vec::new()\<close>, whatever was chosen.\<close>

definition cmd_add_line ::
    "'phc desk \<Rightarrow> terminal \<Rightarrow> uuid \<Rightarrow> uuid \<Rightarrow> utext \<Rightarrow> int \<Rightarrow> int \<Rightarrow> int \<Rightarrow> string \<Rightarrow> uuid list
      \<Rightarrow> terminal \<times> (refusal + sale_view)" where
  "cmd_add_line dk t sale_id product_id name price_minor quantity_milli points treatment chosen =
     checked (sale_currency t sale_id) t (\<lambda>c.
     let price = from_minor price_minor c; q = from_milli quantity_milli in
     checked (read_tax_class treatment points) t (\<lambda>tc.
     checked (told (resolve_modifiers t product_id chosen)) t (\<lambda>modifiers.
     checked (told (till_sale t sale_id)) t (\<lambda>s.
     case find (same_supply product_id price tc modifiers) (filter is_active (s_lines s)) of
       Some l \<Rightarrow>
         checked (refused ''rejected'' (quantity_checked_add (l_quantity l) q)) t (\<lambda>merged.
         cmd_apply dk 0 0 t (LineQuantityChanged sale_id (l_id l) merged))
     | None \<Rightarrow> cmd_apply dk 1 0 t (LineAdded sale_id (dk_id dk 0) product_id name price q tc [])))))"

definition cmd_change_quantity :: "'phc desk \<Rightarrow> terminal \<Rightarrow> uuid \<Rightarrow> uuid \<Rightarrow> int \<Rightarrow> terminal \<times> (refusal + sale_view)" where
  "cmd_change_quantity dk t sale_id line_id quantity_milli =
     cmd_apply dk 0 0 t (LineQuantityChanged sale_id line_id (from_milli quantity_milli))"

definition read_void_reason :: "string \<Rightarrow> refusal + void_reason" where
  "read_void_reason r =
     (if r = ''mistake'' then Inr Mistake
      else if r = ''customer_changed'' then Inr CustomerChanged
      else if r = ''damaged'' then Inr Damaged
      else if r = ''unavailable'' then Inr void_reason.Unavailable
      else Inl ''bad_reason'')"

definition cmd_void_line ::
    "'phc desk \<Rightarrow> terminal \<Rightarrow> uuid \<Rightarrow> uuid \<Rightarrow> string \<Rightarrow> nat list \<Rightarrow> terminal \<times> (refusal + sale_view)" where
  "cmd_void_line dk t sale_id line_id reason pin =
     checked (read_void_reason reason) t (\<lambda>why.
     checked (line_worth t sale_id line_id) t (\<lambda>worth.
     checked (authorize_at_limit dk t VoidLine (\<lambda>r policy. authorize_void r worth policy) pin) t (\<lambda>authorized_by.
     cmd_apply dk 0 1 t (LineVoided sale_id line_id why authorized_by))))"

definition read_discount :: "currency \<Rightarrow> int option \<Rightarrow> int option \<Rightarrow> refusal + discount" where
  "read_discount c amount_minor points =
     (case (amount_minor, points) of
        (Some m, None) \<Rightarrow> Inr (Amount (from_minor m c))
      | (None, Some p) \<Rightarrow> Inr (Percentage (from_basis_points p))
      | _ \<Rightarrow> Inl ''bad_discount'')"

definition discount_verdict :: "discount \<Rightarrow> role \<Rightarrow> approval_policy \<Rightarrow> authorization" where
  "discount_verdict d r policy =
     (case d of
        Percentage p \<Rightarrow> authorize_discount_rate r p policy
      | Amount m \<Rightarrow> authorize_discount r m policy
      | DiscountNone \<Rightarrow> Denied)"

definition cmd_discount_order ::
    "'phc desk \<Rightarrow> terminal \<Rightarrow> uuid \<Rightarrow> int option \<Rightarrow> int option \<Rightarrow> nat list \<Rightarrow> terminal \<times> (refusal + sale_view)" where
  "cmd_discount_order dk t sale_id amount_minor points pin =
     checked (sale_currency t sale_id) t (\<lambda>c.
     checked (read_discount c amount_minor points) t (\<lambda>d.
     checked (if d = DiscountNone then Inl ''bad_discount''
              else authorize_at_limit dk t ApplyDiscount (discount_verdict d) pin) t (\<lambda>authorized_by.
     cmd_apply dk 0 1 t (OrderDiscounted sale_id d authorized_by))))"

definition read_method :: "string \<Rightarrow> refusal + tender_method" where
  "read_method m =
     (if m = ''cash'' then Inr Cash
      else if m = ''card'' then Inr Card
      else if m = ''bkash'' then Inr (MobileWallet Bkash)
      else if m = ''nagad'' then Inr (MobileWallet Nagad)
      else if m = ''rocket'' then Inr (MobileWallet Rocket)
      else if m = ''upay'' then Inr (MobileWallet Upay)
      else if m = ''stc_pay'' then Inr (MobileWallet StcPay)
      else if m = ''bank_transfer'' then Inr BankTransfer
      else if m = ''store_credit'' then Inr StoreCredit
      else Inl ''bad_tender'')"

definition cmd_record_tender ::
    "'phc desk \<Rightarrow> terminal \<Rightarrow> uuid \<Rightarrow> string \<Rightarrow> int \<Rightarrow> string option \<Rightarrow> terminal \<times> (refusal + sale_view)" where
  "cmd_record_tender dk t sale_id m amount_minor refno =
     checked (sale_currency t sale_id) t (\<lambda>c.
     checked (read_method m) t (\<lambda>method.
     cmd_apply dk 1 0 t (TenderRecorded sale_id (dk_id dk 0) method (from_minor amount_minor c) refno)))"

text \<open>Total and change are the till's own.\<close>

definition cmd_complete_sale :: "'phc desk \<Rightarrow> terminal \<Rightarrow> uuid \<Rightarrow> terminal \<times> (refusal + sale_view)" where
  "cmd_complete_sale dk t sale_id =
     checked (signed_in dk t) t (\<lambda>cashier_id.
     checked (told (till_sale t sale_id)) t (\<lambda>s.
     checked (refused ''rejected'' (sale_totals s)) t (\<lambda>totals.
     checked (refused ''rejected'' (change_due s)) t (\<lambda>change.
     answering (till_complete_sale (dk_codec dk) (dk_wire dk) (dk_io dk 0) t
         (Completed sale_id (ot_total totals) change (dk_now dk 1)) (map char_of (till_regime t)) cashier_id
         (dk_now dk 2) (dk_id dk 0) (dk_id dk 1))
       (\<lambda>t. sale_answer t sale_id)))))"

definition cmd_abandon_sale :: "'phc desk \<Rightarrow> terminal \<Rightarrow> uuid \<Rightarrow> terminal \<times> (refusal + sale_view)" where
  "cmd_abandon_sale dk t sale_id =
     checked (signed_in dk t) t (\<lambda>abandoned_by. cmd_apply dk 0 1 t (Abandoned sale_id abandoned_by))"

definition cmd_get_sale :: "terminal \<Rightarrow> uuid \<Rightarrow> refusal + sale_view" where
  "cmd_get_sale t sale_id = sale_answer t sale_id"

record till_status =
  ws_takings_minor :: int
  ws_currency :: string
  ws_unsynced_count :: nat
  ws_open_sales :: nat

definition cmd_till_status :: "terminal \<Rightarrow> refusal + till_status" where
  "cmd_till_status t = told
     (and_then (till_currency t) (\<lambda>c.
      map_ok (\<lambda>m. \<lparr>ws_takings_minor = minor m, ws_currency = code c,
                   ws_unsynced_count = till_unsynced_count t, ws_open_sales = length (book_open (tm_book t))\<rparr>)
        (till_takings t c)))"

section \<open>The drawer\<close>

definition with_shift :: "(terminal \<Rightarrow> terminal \<times> (terminal_error + 'a)) \<Rightarrow> terminal \<Rightarrow> terminal \<times> (refusal + shift_view)" where
  "with_shift act t = answering (act t) (\<lambda>t.
     told (and_then (till_currency t) (\<lambda>c. map_ok (\<lambda>r. view_shift r c) (till_shift_report t))))"

definition no_act :: "terminal \<Rightarrow> terminal \<times> (terminal_error + unit)" where
  "no_act t = (t, Inr ())"

definition shift_event_of ::
    "'phc desk \<Rightarrow> nat \<Rightarrow> nat \<Rightarrow> (uuid \<Rightarrow> currency \<Rightarrow> shift_event) \<Rightarrow> terminal \<Rightarrow> terminal \<times> (terminal_error + event_envelope)" where
  "shift_event_of dk i k ev t =
     checked (map_ok sh_id (ok_or NoOpenShift (tm_shift t))) t (\<lambda>shift_id.
     checked (till_currency t) t (\<lambda>c.
     record_shift (dk_codec dk) (dk_wire dk) (dk_io dk 0) t (ev shift_id c) (dk_id dk i) (dk_now dk k)))"

definition cmd_open_shift :: "'phc desk \<Rightarrow> terminal \<Rightarrow> int \<Rightarrow> terminal \<times> (refusal + shift_view)" where
  "cmd_open_shift dk t opening_float_minor =
     checked (signed_in dk t) t (\<lambda>cashier_id.
     with_shift (\<lambda>t.
       checked (till_currency t) t (\<lambda>c.
       record_shift (dk_codec dk) (dk_wire dk) (dk_io dk 0) t
         (ShiftOpened (dk_id dk 0) cashier_id c (from_minor opening_float_minor c) (dk_now dk 1))
         (dk_id dk 1) (dk_now dk 2))) t)"

definition read_cash_reason :: "string \<Rightarrow> refusal + cash_movement_reason" where
  "read_cash_reason r =
     (if r = ''float_top_up'' then Inr FloatTopUp
      else if r = ''skim'' then Inr Skim
      else if r = ''petty_cash'' then Inr PettyCash
      else if r = ''refund'' then Inr MovedRefund
      else if r = ''correction'' then Inr Correction
      else Inl ''unknown_reason'')"

definition cmd_move_cash ::
    "'phc desk \<Rightarrow> terminal \<Rightarrow> int \<Rightarrow> string \<Rightarrow> string option \<Rightarrow> nat list \<Rightarrow> terminal \<times> (refusal + shift_view)" where
  "cmd_move_cash dk t amount_minor reason note pin =
     checked (read_cash_reason reason) t (\<lambda>why.
     checked (cmd_authorize dk t MoveCash pin) t (\<lambda>authorized_by.
     with_shift (shift_event_of dk 1 1 (\<lambda>shift_id c.
       CashMoved shift_id (dk_id dk 0) (from_minor amount_minor c) why note authorized_by (dk_now dk 0))) t))"

definition cmd_count_drawer :: "'phc desk \<Rightarrow> terminal \<Rightarrow> int \<Rightarrow> terminal \<times> (refusal + shift_view)" where
  "cmd_count_drawer dk t counted_minor =
     checked (signed_in dk t) t (\<lambda>counted_by.
     with_shift (shift_event_of dk 0 2 (\<lambda>shift_id c.
       DrawerCounted shift_id (from_minor counted_minor c) counted_by (dk_now dk 1))) t)"

definition cmd_shift_report :: "terminal \<Rightarrow> refusal + shift_view" where
  "cmd_shift_report t = snd (with_shift no_act t)"

definition cmd_blind_count_sheet :: "terminal \<Rightarrow> refusal + shift_view" where
  "cmd_blind_count_sheet t = map_ok blind_shift (snd (with_shift no_act t))"

definition cmd_close_shift :: "'phc desk \<Rightarrow> terminal \<Rightarrow> int \<Rightarrow> terminal \<times> (refusal + shift_view)" where
  "cmd_close_shift dk t closing_cash_minor =
     checked (signed_in dk t) t (\<lambda>closed_by.
     with_shift (shift_event_of dk 0 2 (\<lambda>shift_id c.
       ShiftClosed shift_id closed_by (from_minor closing_cash_minor c) (dk_now dk 1))) t)"

section \<open>The stock\<close>

definition with_stock :: "(terminal \<Rightarrow> terminal \<times> (terminal_error + 'a)) \<Rightarrow> terminal \<Rightarrow> terminal \<times> (refusal + stock_view)" where
  "with_stock act t = answering (act t) (\<lambda>t. told (map_ok (view_stock (tm_stock t)) (till_currency t)))"

definition cmd_receive_stock ::
    "'phc desk \<Rightarrow> terminal \<Rightarrow> uuid \<Rightarrow> string option \<Rightarrow> int option \<Rightarrow> int \<Rightarrow> int \<Rightarrow> string option
      \<Rightarrow> terminal \<times> (refusal + stock_view)" where
  "cmd_receive_stock dk t product_id lot expires_at quantity_milli unit_cost_minor supplier =
     checked (signed_in dk t) t (\<lambda>received_by.
     with_stock (\<lambda>t.
       checked (till_currency t) t (\<lambda>c.
       record_stock (dk_codec dk) (dk_wire dk) (dk_io dk 0) t
         (BatchReceived (dk_id dk 0) product_id lot (map_option from_millis expires_at) (from_milli quantity_milli)
            (from_minor unit_cost_minor c) supplier (dk_now dk 1) received_by)
         (dk_id dk 1) (dk_now dk 2))) t)"

definition cmd_count_stock :: "'phc desk \<Rightarrow> terminal \<Rightarrow> uuid \<Rightarrow> int \<Rightarrow> terminal \<times> (refusal + stock_view)" where
  "cmd_count_stock dk t batch_id counted_milli =
     checked (signed_in dk t) t (\<lambda>counted_by.
     with_stock (\<lambda>t.
       record_stock (dk_codec dk) (dk_wire dk) (dk_io dk 0) t
         (BatchCounted batch_id (from_milli counted_milli) (dk_now dk 1) counted_by) (dk_id dk 0) (dk_now dk 2)) t)"

definition read_issue_reason :: "string \<Rightarrow> refusal + issue_reason" where
  "read_issue_reason r =
     (if r = ''wastage'' then Inr Wastage
      else if r = ''transfer_out'' then Inr TransferOut
      else if r = ''return_to_supplier'' then Inr ReturnToSupplier
      else if r = ''internal'' then Inr Internal
      else Inl ''unknown_reason'')"

definition cmd_issue_stock :: "'phc desk \<Rightarrow> terminal \<Rightarrow> uuid \<Rightarrow> int \<Rightarrow> string \<Rightarrow> terminal \<times> (refusal + stock_view)" where
  "cmd_issue_stock dk t batch_id quantity_milli reason =
     checked (signed_in dk t) t (\<lambda>issued_by.
     checked (read_issue_reason reason) t (\<lambda>why.
     with_stock (\<lambda>t.
       record_stock (dk_codec dk) (dk_wire dk) (dk_io dk 0) t
         (StockIssued batch_id (from_milli quantity_milli) why None (dk_now dk 1) issued_by) (dk_id dk 0) (dk_now dk 2)) t))"

definition cmd_stock_position :: "terminal \<Rightarrow> refusal + stock_view" where
  "cmd_stock_position t = snd (with_stock no_act t)"

definition cmd_blind_stock_sheet :: "terminal \<Rightarrow> refusal + stock_view" where
  "cmd_blind_stock_sheet t = map_ok blind_stock (snd (with_stock no_act t))"

end
