(* ===== verification/Answers.thy ===== *)
theory Answers
  imports Commands Split Import
begin

text \<open>
  What the commands that only read answer (\<open>crates/sahl-terminal/src/commands/mod.rs\<close>): the catalogue, the staff,
  the orders, the outlet's settings, the floor, the open tickets, a scan, a split bill, the kitchen's tickets,
  an import before it is written, and the day's figures and feeds.
\<close>

section \<open>The catalogue\<close>

record option_view =
  wv_id :: uuid
  wv_name :: utext
  wv_price_delta_minor :: int

record group_choices_view =
  wg_id :: uuid
  wg_name :: utext
  wg_min :: nat
  wg_max :: nat
  wg_options :: "option_view list"

record product_view =
  wp_id :: uuid
  wp_name :: utext
  wp_sku :: "utext option"
  wp_barcodes :: "utext list"
  wp_price_minor :: int
  wp_unit :: utext
  wp_divisible :: bool
  wp_tax_basis_points :: int
  wp_tax_treatment :: string
  wp_category :: "utext option"
  wp_active :: bool
  wp_station :: "utext option"
  wp_option_groups :: "group_choices_view list"

definition view_group :: "modifier_group \<Rightarrow> group_choices_view" where
  "view_group g =
     \<lparr>wg_id = mg_id g, wg_name = mg_name g, wg_min = mg_min g, wg_max = mg_max g,
      wg_options = map (\<lambda>op. \<lparr>wv_id = mp_id op, wv_name = mp_name op, wv_price_delta_minor = minor (mp_price_delta op)\<rparr>)
        (mg_options g)\<rparr>"

text \<open>\<open>(tax_treatment, tax_basis_points)\<close>.\<close>

fun treatment_of :: "tax_class \<Rightarrow> string \<times> int" where
  "treatment_of (Standard r) = (''standard'', basis_points r)"
| "treatment_of ZeroRated = (''zero_rated'', 0)"
| "treatment_of Exempt = (''exempt'', 0)"

definition view_product :: "product \<Rightarrow> product_view" where
  "view_product p =
     \<lparr>wp_id = pr_id p, wp_name = pr_name p, wp_sku = pr_sku p, wp_barcodes = pr_barcodes p,
      wp_price_minor = minor (pr_price p), wp_unit = unit_label (pr_unit p), wp_divisible = is_divisible (pr_unit p),
      wp_tax_basis_points = snd (treatment_of (pr_tax_class p)), wp_tax_treatment = fst (treatment_of (pr_tax_class p)),
      wp_category = pr_category p, wp_active = pr_active p, wp_station = map_option station_label (pr_station p),
      wp_option_groups = map view_group (pr_option_groups p)\<rparr>"

definition cmd_sellable_products :: "terminal \<Rightarrow> product_view list" where
  "cmd_sellable_products t = map view_product (sellable (tm_catalogue t))"

definition cmd_all_products :: "terminal \<Rightarrow> product_view list" where
  "cmd_all_products t = map view_product (all_products (tm_catalogue t))"

record scan_view =
  wn_product :: product_view
  wn_quantity_milli :: int
  wn_price_minor :: "int option"

definition cmd_scan :: "terminal \<Rightarrow> utext \<Rightarrow> refusal + scan_view option" where
  "cmd_scan t barcode =
     map_ok (\<lambda>found. Option.bind found (\<lambda>sn.
       map_option (\<lambda>p. \<lparr>wn_product = view_product p, wn_quantity_milli = milli (sn_quantity sn),
           wn_price_minor = map_option minor (sn_price sn)\<rparr>)
         (bt_get (tm_catalogue t) (sn_product_id sn))))
     (told (till_scan t barcode))"

section \<open>Staff, orders and the outlet\<close>

definition cmd_staff_list :: "terminal \<Rightarrow> staff_view list" where
  "cmd_staff_list t = map view_staff (active_members (tm_staff t))"

definition cmd_current_session :: "'phc desk \<Rightarrow> terminal \<Rightarrow> staff_view option" where
  "cmd_current_session dk t =
     Option.bind (current_session t (dk_now dk 0)) (\<lambda>s. map_option view_staff (bt_get (tm_staff t) (ss_staff_id s)))"

definition order_views :: "terminal \<Rightarrow> refusal + order_view list" where
  "order_views t = try_map (\<lambda>o'. and_then (told (till_currency t)) (\<lambda>c. refused ''rejected'' (view_order o' c)))
     (till_orders t)"

definition cmd_order_list :: "terminal \<Rightarrow> refusal + order_view list" where
  "cmd_order_list t = snd (answering (no_act t) order_views)"

record scale_format_view =
  wf_prefix :: utext
  wf_item_digits :: nat
  wf_embedded :: string
  wf_value_digits :: nat
  wf_value_decimals :: nat
  wf_filler_digits :: nat

definition view_scale :: "scale_format \<Rightarrow> scale_format_view" where
  "view_scale f =
     \<lparr>wf_prefix = sf_prefix f, wf_item_digits = sf_item_digits f,
      wf_embedded = (case sf_embedded f of EmbeddedWeight \<Rightarrow> ''weight'' | EmbeddedPrice \<Rightarrow> ''price''),
      wf_value_digits = sf_value_digits f, wf_value_decimals = sf_value_decimals f, wf_filler_digits = sf_filler_digits f\<rparr>"

fun capability_label :: "capability \<Rightarrow> string" where
  "capability_label OpenTickets = ''open_tickets''"
| "capability_label TableService = ''table_service''"
| "capability_label KitchenRouting = ''kitchen_routing''"
| "capability_label LineModifiers = ''line_modifiers''"
| "capability_label CourseFiring = ''course_firing''"
| "capability_label SplitBills = ''split_bills''"
| "capability_label WeighedItems = ''weighed_items''"
| "capability_label ScaleIntegration = ''scale_integration''"
| "capability_label BatchExpiry = ''batch_expiry''"
| "capability_label CashDrawer = ''cash_drawer''"

record outlet_view =
  wd_outlet_id :: uuid
  wd_name :: utext
  wd_profile :: string
  wd_currency :: string
  wd_timezone :: utext
  wd_regime :: utext
  wd_tax_registration :: "utext option"
  wd_address :: utext
  wd_configured_at :: int
  wd_capabilities :: "string list"
  wd_scale :: "scale_format_view option"
  wd_discount_limit_minor :: int
  wd_discount_rate_basis_points :: int
  wd_void_limit_minor :: int

definition cmd_outlet_config :: "terminal \<Rightarrow> outlet_view option" where
  "cmd_outlet_config t = map_option (\<lambda>oc.
     \<lparr>wd_outlet_id = oc_outlet_id oc, wd_name = oc_name oc, wd_profile = profile_label (oc_profile oc),
      wd_currency = code (oc_currency oc), wd_timezone = oc_timezone oc, wd_regime = regime_label (oc_regime oc),
      wd_tax_registration = oc_tax_registration oc, wd_address = oc_address oc,
      wd_configured_at = millis (oc_configured_at oc),
      wd_capabilities = map capability_label (capabilities (oc_profile oc)),
      wd_scale = map_option view_scale (oc_scale oc),
      wd_discount_limit_minor = minor (ap_discount_limit (oc_approval oc)),
      wd_discount_rate_basis_points = basis_points (ap_discount_rate_limit (oc_approval oc)),
      wd_void_limit_minor = minor (ap_void_limit (oc_approval oc))\<rparr>) (tm_outlet t)"

section \<open>Tables and tickets\<close>

definition total_shown :: "sale \<Rightarrow> int option" where
  "total_shown s = (case sale_totals s of Inl _ \<Rightarrow> None | Inr totals \<Rightarrow> Some (minor (ot_total totals)))"

record table_view =
  wt_id :: uuid
  wt_label :: utext
  wt_section :: "utext option"
  wt_seats :: nat
  wt_active :: bool
  wt_sale_id :: "uuid option"
  wt_running_total_minor :: "int option"
  wt_covers :: "nat option"

definition view_table :: "terminal \<Rightarrow> table \<Rightarrow> table_view" where
  "view_table t tb =
     (let sale_id = bt_get (occupied_tables t) (tb_id tb);
          s = Option.bind sale_id (book_get (tm_book t)) in
      \<lparr>wt_id = tb_id tb, wt_label = tb_label tb, wt_section = tb_section tb, wt_seats = tb_seats tb,
       wt_active = tb_active tb, wt_sale_id = sale_id, wt_running_total_minor = Option.bind s total_shown,
       wt_covers = map_option se_covers (Option.bind s s_seating)\<rparr>)"

definition cmd_floor_plan :: "'phc desk \<Rightarrow> terminal \<Rightarrow> bool \<Rightarrow> table_view list" where
  "cmd_floor_plan dk t include_removed = map (view_table t)
     (if include_removed then all_tables (dk_lower dk) (tm_floor t) else in_service (dk_lower dk) (tm_floor t))"

record ticket_view =
  wk_sale_id :: uuid
  wk_line_count :: nat
  wk_total_minor :: "int option"
  wk_table_label :: "utext option"
  wk_covers :: "nat option"
  wk_held_elsewhere :: bool

definition view_ticket :: "terminal \<Rightarrow> timestamp \<Rightarrow> sale \<Rightarrow> ticket_view" where
  "view_ticket t now s =
     \<lparr>wk_sale_id = s_id s, wk_line_count = length (filter is_active (s_lines s)), wk_total_minor = total_shown s,
      wk_table_label = Option.bind (s_seating s) (\<lambda>seat. map_option tb_label (floor_get (tm_floor t) (se_table_id seat))),
      wk_covers = map_option se_covers (s_seating s),
      wk_held_elsewhere = (case may_write s (di_device_id (tm_identity t)) now of Held _ \<Rightarrow> True | _ \<Rightarrow> False)\<rparr>"

text \<open>Fullest first, a ticket without totals as one of nothing.\<close>

definition cmd_open_tickets :: "'phc desk \<Rightarrow> terminal \<Rightarrow> ticket_view list" where
  "cmd_open_tickets dk t =
     sort_key (\<lambda>v. (- (case wk_total_minor v of None \<Rightarrow> 0 | Some m \<Rightarrow> m), wk_sale_id v))
       (map (view_ticket t (dk_now dk 0)) (book_open (tm_book t)))"

section \<open>Splitting a bill\<close>

definition cmd_split_bill :: "terminal \<Rightarrow> uuid \<Rightarrow> nat \<Rightarrow> uuid list list \<Rightarrow> refusal + (int \<times> int \<times> uuid list) list" where
  "cmd_split_bill t sale_id ways line_assignment =
     and_then (told (till_sale t sale_id)) (\<lambda>s.
     and_then (refused ''rejected'' (sale_totals s)) (\<lambda>totals.
     map_ok (map (\<lambda>p. (sp_number p, minor (sp_amount p), sp_line_ids p)))
       (if line_assignment = [] then refused ''rejected'' (evenly (ot_total totals) ways)
        else refused ''bad_split''
          (by_lines (filter is_active (s_lines s)) (map lt_total (ot_lines totals)) line_assignment))))"

section \<open>The kitchen's tickets\<close>

record kitchen_line_view =
  we_name :: utext
  we_quantity_milli :: int
  we_modifiers :: "utext list"

record kitchen_ticket_view =
  wc_station :: utext
  wc_kind :: string
  wc_table_label :: "utext option"
  wc_covers :: "nat option"
  wc_round :: nat
  wc_lines :: "kitchen_line_view list"

definition view_kitchen_ticket :: "kitchen_ticket \<Rightarrow> kitchen_ticket_view" where
  "view_kitchen_ticket k =
     \<lparr>wc_station = station_label (kt_station k),
      wc_kind = (case kt_kind k of Order \<Rightarrow> ''order'' | Cancellation \<Rightarrow> ''cancellation''),
      wc_table_label = kt_table_label k, wc_covers = kt_covers k, wc_round = kt_round k,
      wc_lines = map (\<lambda>l. \<lparr>we_name = tl_name l, we_quantity_milli = tl_quantity_milli l, we_modifiers = tl_modifiers l\<rparr>)
        (kt_lines k)\<rparr>"

definition cmd_pending_kitchen :: "terminal \<Rightarrow> uuid \<Rightarrow> refusal + kitchen_ticket_view list" where
  "cmd_pending_kitchen t sale_id = map_ok (map view_kitchen_ticket) (told (pending_kitchen t sale_id))"

section \<open>Printing a receipt\<close>

definition read_paper :: "string \<Rightarrow> refusal + paper_width" where
  "read_paper w =
     (if w = ''mm58'' then Inr Mm58 else if w = ''mm80'' then Inr Mm80 else Inl ''bad_paper'')"

record print_outcome =
  wb_printed :: bool
  wb_reason :: "utext option"
  wb_bytes :: nat

definition cmd_print_receipt ::
    "'phc desk \<Rightarrow> 'moment qr_tools \<Rightarrow> terminal \<Rightarrow> uuid \<Rightarrow> utext \<Rightarrow> string \<Rightarrow> bool \<Rightarrow> refusal + print_outcome" where
  "cmd_print_receipt dk qt t sale_id printed_at paper drawer =
     and_then (read_paper paper) (\<lambda>width.
     map_ok (\<lambda>data.
       let job = render data width drawer; r = dk_print dk 0 job in
       \<lparr>wb_printed = (r = None), wb_reason = r, wb_bytes = length job\<rparr>)
     (told (till_receipt (dk_show dk) qt (dk_wire dk) t sale_id printed_at)))"

section \<open>An import before it is written\<close>

record import_preview =
  wi_products :: "imported_product list"
  wi_problems :: "import_problem list"
  wi_duplicates :: "utext list"

definition cmd_preview_import :: "'phc desk \<Rightarrow> terminal \<Rightarrow> utext \<Rightarrow> bool \<Rightarrow> refusal + import_preview" where
  "cmd_preview_import dk t text tab_separated =
     and_then (told (till_currency t)) (\<lambda>c.
     map_ok (\<lambda>imp.
       let existing = map (\<lambda>p. dk_lower dk (pr_name p)) (all_products (tm_catalogue t)) in
       \<lparr>wi_products = imp_products imp, wi_problems = imp_problems imp,
        wi_duplicates = map im_name (filter (\<lambda>row. dk_lower dk (im_name row) \<in> set existing) (imp_products imp))\<rparr>)
     (refused ''bad_file''
       (from_delimited text (if tab_separated then 9 else 44) c (import_default_rate (tm_catalogue t)))))"

section \<open>The day and the feeds\<close>

definition name_of :: "'phc desk \<Rightarrow> terminal \<Rightarrow> uuid \<Rightarrow> utext" where
  "name_of dk t who = (case bt_get (tm_staff t) who of
     None \<Rightarrow> lit ''Unknown ('' @ dk_show dk who @ lit '')'' | Some m \<Rightarrow> lit (sm_name m))"

fun severity_label :: "severity \<Rightarrow> string" where
  "severity_label Routine = ''routine''"
| "severity_label Notable = ''notable''"
| "severity_label Alert = ''alert''"

record day_view =
  wy_currency :: string
  wy_sales :: nat
  wy_takings_minor :: int
  wy_net_minor :: int
  wy_tax_minor :: int
  wy_discount_minor :: int
  wy_average_sale_minor :: int
  wy_voids :: nat
  wy_by_cashier :: "(utext \<times> nat \<times> int \<times> int \<times> nat) list"
  wy_by_payment :: "(utext \<times> nat \<times> int) list"
  wy_by_product :: "(utext \<times> int \<times> int) list"

definition cmd_day_report :: "'phc desk \<Rightarrow> terminal \<Rightarrow> refusal + day_view" where
  "cmd_day_report dk t = map_ok (\<lambda>d.
     \<lparr>wy_currency = code (dy_currency d), wy_sales = dy_sales d, wy_takings_minor = minor (dy_takings d),
      wy_net_minor = minor (dy_net d), wy_tax_minor = minor (dy_tax d), wy_discount_minor = minor (dy_discount d),
      wy_average_sale_minor = minor (dy_average_sale d), wy_voids = dy_voids d,
      wy_by_cashier = map (\<lambda>r. (name_of dk t (cr_staff_id r), cr_sales r, minor (cr_takings r), minor (cr_discount r),
        cr_voids r)) (dy_by_cashier d),
      wy_by_payment = map (\<lambda>r. (tender_label (py_method r), py_count r, minor (py_taken r))) (dy_by_payment d),
      wy_by_product = map (\<lambda>r. (dp_name r, dp_quantity_milli r, minor (dp_revenue r))) (dy_by_product d)\<rparr>)
     (told (till_day t))"

record finding_view =
  wu_kind :: string
  wu_severity :: string
  wu_person :: "utext option"
  wu_count :: nat
  wu_amount_minor :: "int option"
  wu_summary :: utext

definition cmd_anomaly_feed :: "'phc desk \<Rightarrow> terminal \<Rightarrow> finding_view list" where
  "cmd_anomaly_feed dk t = map (\<lambda>f.
     \<lparr>wu_kind = fi_kind f, wu_severity = severity_label (fi_severity f),
      wu_person = map_option (name_of dk t) (finding_person f), wu_count = fi_count f,
      wu_amount_minor = map_option minor (fi_amount f), wu_summary = fi_summary f\<rparr>)
     (till_anomalies (dk_wire dk) t)"

record audit_view =
  wx_at :: int
  wx_severity :: string
  wx_kind :: string
  wx_actor :: uuid
  wx_actor_name :: utext
  wx_approved_by :: "uuid option"
  wx_approved_by_name :: "utext option"
  wx_amount_minor :: "int option"
  wx_summary :: string
  wx_unapproved :: bool

definition cmd_audit_feed :: "'phc desk \<Rightarrow> terminal \<Rightarrow> audit_view list" where
  "cmd_audit_feed dk t =
     (let entries = ranked (till_audit_entries (dk_wire dk) t);
          flagged = map (\<lambda>e. (millis (ae_at e), ae_kind e, ae_actor e))
            (unapproved entries (role_of (tm_staff t)) (till_approval_policy t)) in
      map (\<lambda>e.
        \<lparr>wx_at = millis (ae_at e), wx_severity = severity_label (ae_severity e), wx_kind = ae_kind e,
         wx_actor = ae_actor e, wx_actor_name = name_of dk t (ae_actor e), wx_approved_by = ae_approved_by e,
         wx_approved_by_name = map_option (name_of dk t) (ae_approved_by e),
         wx_amount_minor = map_option minor (ae_amount e), wx_summary = ae_summary e,
         wx_unapproved = ((millis (ae_at e), ae_kind e, ae_actor e) \<in> set flagged)\<rparr>) entries)"

end
