(* ===== verification/Backoffice.thy ===== *)
theory Backoffice
  imports Answers
begin

text \<open>
  The remaining commands that write (\<open>crates/sahl-terminal/src/commands/mod.rs\<close>): signing in and out, enrolling
  staff, orders with suppliers, the outlet's settings, the catalogue and its import, the floor, and the
  kitchen.
\<close>

section \<open>What a form field holds\<close>

definition trim_string :: "string \<Rightarrow> string" where
  "trim_string s = map char_of (trim (lit s))"

definition non_empty :: "utext \<Rightarrow> utext option" where
  "non_empty v = (let w = trim v in if w = [] then None else Some w)"

definition non_empty_string :: "string \<Rightarrow> string option" where
  "non_empty_string v = (let w = trim_string v in if w = [] then None else Some w)"

section \<open>Staff\<close>

definition cmd_sign_in :: "'phc desk \<Rightarrow> terminal \<Rightarrow> uuid \<Rightarrow> nat list \<Rightarrow> terminal \<times> (refusal + staff_view)" where
  "cmd_sign_in dk t staff_id pin =
     (let (t', r) = till_sign_in (dk_argon dk) t staff_id pin (dk_now dk 0) in
      (t', and_then (told r) (\<lambda>s. ok_or ''not_authorized'' (map_option view_staff (bt_get (tm_staff t') (ss_staff_id s))))))"

definition cmd_sign_out :: "terminal \<Rightarrow> terminal \<times> (refusal + unit)" where
  "cmd_sign_out t = (till_sign_out t, Inr ())"

definition cmd_reset_till :: "terminal \<Rightarrow> terminal \<times> (refusal + unit)" where
  "cmd_reset_till t = (till_erase_everything t, Inr ())"

definition read_role :: "string \<Rightarrow> refusal + role" where
  "read_role r =
     (if r = ''cashier'' then Inr Cashier
      else if r = ''manager'' then Inr Manager
      else if r = ''owner'' then Inr Owner
      else Inl ''bad_role'')"

text \<open>Nobody can approve the first person, who has to be an owner.\<close>

definition enroller :: "'phc desk \<Rightarrow> terminal \<Rightarrow> role \<Rightarrow> nat list \<Rightarrow> refusal + uuid" where
  "enroller dk t r pin =
     (if tm_staff t = [] then (if r \<noteq> Owner then Inl ''first_must_be_owner'' else Inr nobody)
      else told (till_approve (dk_argon dk) t ManageStaff pin))"

definition cmd_enrol_staff ::
    "'phc desk \<Rightarrow> terminal \<Rightarrow> string \<Rightarrow> string \<Rightarrow> nat list \<Rightarrow> nat list \<Rightarrow> terminal \<times> (refusal + staff_view list)" where
  "cmd_enrol_staff dk t name role new_pin pin =
     checked (read_role role) t (\<lambda>r.
     checked (enroller dk t r pin) t (\<lambda>enrolled_by.
     checked (refused ''bad_pin'' (hash_pin (dk_argon dk) new_pin (dk_salt dk))) t (\<lambda>pin_hash.
     answering (record_staff (dk_codec dk) (dk_wire dk) (dk_io dk 0) t
         (Enrolled (dk_id dk 0) (trim_string name) r pin_hash (dk_now dk 0) enrolled_by) (dk_id dk 1) (dk_now dk 1))
       (\<lambda>t. Inr (cmd_staff_list t)))))"

section \<open>Orders\<close>

definition with_orders ::
    "(terminal \<Rightarrow> terminal \<times> (terminal_error + 'a)) \<Rightarrow> terminal \<Rightarrow> terminal \<times> (refusal + order_view list)" where
  "with_orders act t = answering (act t) order_views"

record order_line_input =
  oi_product_id :: uuid
  oi_quantity_milli :: int
  oi_unit_cost_minor :: int

definition new_order_lines :: "'phc desk \<Rightarrow> currency \<Rightarrow> order_line_input list \<Rightarrow> order_line list" where
  "new_order_lines dk c ls = map (\<lambda>(n, l).
     \<lparr>ol_line_id = dk_id dk n, ol_product_id = oi_product_id l, ol_quantity = from_milli (oi_quantity_milli l),
      ol_unit_cost = from_minor (oi_unit_cost_minor l) c\<rparr>) (enumerate 0 ls)"

definition cmd_place_order ::
    "'phc desk \<Rightarrow> terminal \<Rightarrow> string \<Rightarrow> string option \<Rightarrow> int option \<Rightarrow> order_line_input list
      \<Rightarrow> terminal \<times> (refusal + order_view list)" where
  "cmd_place_order dk t supplier refno expected_at ls =
     checked (signed_in dk t) t (\<lambda>placed_by.
     checked (if trim_string supplier = [] then Inl ''bad_supplier'' else Inr ()) t (\<lambda>_.
     checked (outlet_currency t) t (\<lambda>c.
     with_orders (\<lambda>t.
       record_purchase (dk_codec dk) (dk_wire dk) (dk_io dk 0) t
         (Placed (dk_id dk (length ls)) (trim_string supplier) (Option.bind refno non_empty_string)
            (new_order_lines dk c ls) (map_option from_millis expected_at) (dk_now dk 1) placed_by)
         (dk_id dk (length ls + 1)) (dk_now dk 2)) t)))"

definition cmd_receive_against_order ::
    "'phc desk \<Rightarrow> terminal \<Rightarrow> uuid \<Rightarrow> uuid \<Rightarrow> int \<Rightarrow> int \<Rightarrow> string option \<Rightarrow> int option
      \<Rightarrow> terminal \<times> (refusal + order_view list)" where
  "cmd_receive_against_order dk t order_id line_id quantity_milli unit_cost_minor lot expires_at =
     checked (signed_in dk t) t (\<lambda>received_by.
     with_orders (\<lambda>t.
       checked (till_order t order_id) t (\<lambda>o'.
       checked (ok_or (UnknownOrder order_id) (order_line_of o' line_id)) t (\<lambda>p.
       checked (till_currency t) t (\<lambda>c.
       let cost = from_minor unit_cost_minor c; q = from_milli quantity_milli in
       record_receipt (dk_codec dk) (dk_wire dk) (dk_io dk 0) t
         (LineReceived order_id line_id (dk_id dk 0) q cost (dk_now dk 1) received_by)
         (BatchReceived (dk_id dk 0) (ol_product_id (lp_line p)) lot (map_option from_millis expires_at) q cost
            (Some (po_supplier o')) (dk_now dk 2) received_by)
         (dk_now dk 3) (dk_id dk 1) (dk_id dk 2))))) t)"

definition read_close_reason :: "string \<Rightarrow> refusal + close_reason" where
  "read_close_reason r =
     (if r = ''complete'' then Inr Complete
      else if r = ''short_shipped'' then Inr ShortShipped
      else if r = ''cancelled'' then Inr Cancelled
      else Inl ''unknown_reason'')"

definition cmd_close_order :: "'phc desk \<Rightarrow> terminal \<Rightarrow> uuid \<Rightarrow> string \<Rightarrow> terminal \<times> (refusal + order_view list)" where
  "cmd_close_order dk t order_id reason =
     checked (signed_in dk t) t (\<lambda>closed_by.
     checked (read_close_reason reason) t (\<lambda>why.
     with_orders (\<lambda>t.
       record_purchase (dk_codec dk) (dk_wire dk) (dk_io dk 0) t
         (OrderClosed order_id why (dk_now dk 1) closed_by) (dk_id dk 0) (dk_now dk 2)) t))"

section \<open>The outlet's settings\<close>

record scale_input =
  si_prefix :: utext
  si_item_digits :: nat
  si_embedded :: embedded
  si_value_digits :: nat
  si_value_decimals :: nat
  si_filler_digits :: nat

definition into_format :: "scale_input \<Rightarrow> scale_error + scale_format" where
  "into_format i = format_new (trim (si_prefix i)) (si_item_digits i) (si_embedded i) (si_value_digits i)
     (si_value_decimals i) (si_filler_digits i)"

record approval_input =
  ai_discount_limit_minor :: int
  ai_discount_rate_basis_points :: int
  ai_void_limit_minor :: int

definition into_policy :: "approval_input \<Rightarrow> currency \<Rightarrow> approval_policy" where
  "into_policy i c =
     \<lparr>ap_discount_limit = from_minor (ai_discount_limit_minor i) c,
      ap_discount_rate_limit = from_basis_points (ai_discount_rate_basis_points i),
      ap_void_limit = from_minor (ai_void_limit_minor i) c\<rparr>"

definition read_profile :: "string \<Rightarrow> refusal + profile" where
  "read_profile p =
     (if p = ''retail'' then Inr Retail
      else if p = ''cafe'' then Inr Cafe
      else if p = ''grocery'' then Inr Grocery
      else Inl ''bad_profile'')"

definition configurer :: "'phc desk \<Rightarrow> terminal \<Rightarrow> nat list \<Rightarrow> refusal + uuid" where
  "configurer dk t pin =
     (if tm_staff t = [] then Inr nobody else told (till_approve (dk_argon dk) t ManageStaff pin))"

definition cmd_configure_outlet ::
    "'phc desk \<Rightarrow> terminal \<Rightarrow> utext \<Rightarrow> string \<Rightarrow> string \<Rightarrow> utext \<Rightarrow> utext \<Rightarrow> utext option \<Rightarrow> utext \<Rightarrow> scale_input option
      \<Rightarrow> approval_input option \<Rightarrow> nat list \<Rightarrow> terminal \<times> (refusal + outlet_view option)" where
  "cmd_configure_outlet dk t name profile money_code timezone regime registration address scale approval pin =
     checked (read_profile profile) t (\<lambda>p.
     checked (refused ''bad_currency'' (from_code money_code)) t (\<lambda>c.
     checked (refused ''bad_regime'' (regime_from_label regime)) t (\<lambda>reg.
     checked (configurer dk t pin) t (\<lambda>configured_by.
     checked (told (map_err TermScale (transpose (map_option into_format scale)))) t (\<lambda>f.
     answering (record_outlet (dk_codec dk) (dk_wire dk) (dk_io dk 0) t
         (Configured (di_outlet_id (tm_identity t))
            \<lparr>os_name = trim name, os_profile = p, os_currency = c, os_timezone = trim timezone, os_regime = reg,
             os_tax_registration = Option.bind registration non_empty, os_address = trim address, os_scale = f,
             os_approval = Some (case approval of None \<Rightarrow> strictest c | Some i \<Rightarrow> into_policy i c)\<rparr>
            (dk_now dk 0) configured_by)
         (dk_id dk 0) (dk_now dk 1))
       (\<lambda>t. Inr (cmd_outlet_config t)))))))"

section \<open>The catalogue\<close>

record option_input =
  mi_id :: "uuid option"
  mi_name :: utext
  mi_price_delta_minor :: int

record group_input =
  gi_id :: "uuid option"
  gi_name :: utext
  gi_min :: nat
  gi_max :: nat
  gi_options :: "option_input list"

text \<open>\<open>id.unwrap_or_else(new_id)\<close>, where \<open>n\<close> ids have been generated.\<close>

fun take_id :: "'phc desk \<Rightarrow> uuid option \<Rightarrow> nat \<Rightarrow> uuid \<times> nat" where
  "take_id dk (Some u) n = (u, n)"
| "take_id dk None n = (dk_id dk n, n + 1)"

fun new_options :: "'phc desk \<Rightarrow> currency \<Rightarrow> option_input list \<Rightarrow> nat \<Rightarrow> modifier_option list \<times> nat" where
  "new_options dk c [] n = ([], n)"
| "new_options dk c (i # is) n =
     (let (u, n) = take_id dk (mi_id i) n; (ops, n) = new_options dk c is n in
      (\<lparr>mp_id = u, mp_name = trim (mi_name i), mp_price_delta = from_minor (mi_price_delta_minor i) c\<rparr> # ops, n))"

fun new_groups :: "'phc desk \<Rightarrow> currency \<Rightarrow> group_input list \<Rightarrow> nat \<Rightarrow> modifier_group list \<times> nat" where
  "new_groups dk c [] n = ([], n)"
| "new_groups dk c (i # is) n =
     (let (u, n) = take_id dk (gi_id i) n; (ops, n) = new_options dk c (gi_options i) n;
          (gs, n) = new_groups dk c is n in
      (\<lparr>mg_id = u, mg_name = trim (gi_name i), mg_min = gi_min i, mg_max = gi_max i, mg_options = ops\<rparr> # gs, n))"

definition read_station :: "utext option \<Rightarrow> refusal + station option" where
  "read_station st =
     (case Option.bind st non_empty of None \<Rightarrow> Inr None
      | Some label \<Rightarrow> map_ok Some (refused ''bad_station'' (station_from_label label)))"

definition record_product ::
    "'phc desk \<Rightarrow> nat \<Rightarrow> terminal \<Rightarrow> catalogue_event \<Rightarrow> terminal \<times> (refusal + product_view list)" where
  "record_product dk i t ev =
     answering (record_catalogue (dk_codec dk) (dk_wire dk) (dk_io dk 0) t ev (dk_id dk i) (dk_now dk 1))
       (\<lambda>t. Inr (cmd_all_products t))"

definition cmd_save_product ::
    "'phc desk \<Rightarrow> terminal \<Rightarrow> uuid option \<Rightarrow> utext \<Rightarrow> utext option \<Rightarrow> utext list \<Rightarrow> int \<Rightarrow> utext \<Rightarrow> int \<Rightarrow> string
      \<Rightarrow> utext option \<Rightarrow> utext option \<Rightarrow> group_input list \<Rightarrow> nat list \<Rightarrow> terminal \<times> (refusal + product_view list)" where
  "cmd_save_product dk t product_id name sku barcodes price_minor unit_text points treatment category station groups pin =
     checked (refused ''bad_unit'' (unit_from_label unit_text)) t (\<lambda>u.
     checked (outlet_currency t) t (\<lambda>c.
     checked (read_tax_class treatment points) t (\<lambda>tc.
     checked (read_station station) t (\<lambda>st.
     let (gs, n) = new_groups dk c groups 0;
         details = \<lparr>pd_name = trim name, pd_sku = Option.bind sku non_empty,
           pd_barcodes = List.map_filter non_empty barcodes, pd_price = from_minor price_minor c, pd_unit = u,
           pd_tax_class = tc, pd_category = Option.bind category non_empty, pd_station = st, pd_option_groups = gs\<rparr> in
     checked (cmd_authorize dk t EditCatalogue pin) t (\<lambda>authorized_by.
     case product_id of
       Some p \<Rightarrow> record_product dk n t (ProductUpdated p details (dk_now dk 0) authorized_by)
     | None \<Rightarrow> record_product dk (n + 1) t (ProductAdded (dk_id dk n) details (dk_now dk 0) authorized_by))))))"

definition cmd_set_product_active ::
    "'phc desk \<Rightarrow> terminal \<Rightarrow> uuid \<Rightarrow> bool \<Rightarrow> nat list \<Rightarrow> terminal \<times> (refusal + product_view list)" where
  "cmd_set_product_active dk t product_id active pin =
     checked (cmd_authorize dk t EditCatalogue pin) t (\<lambda>authorized_by.
     record_product dk 0 t
       (if active then ProductRestored product_id (dk_now dk 0) authorized_by
        else ProductWithdrawn product_id (dk_now dk 0) authorized_by))"

definition row_details :: "currency \<Rightarrow> imported_product \<Rightarrow> refusal + product_details" where
  "row_details c row =
     and_then (refused ''bad_unit'' (unit_from_label (unit_label (im_unit row)))) (\<lambda>u.
     map_ok (\<lambda>tc.
       \<lparr>pd_name = im_name row, pd_sku = im_sku row, pd_barcodes = im_barcodes row,
        pd_price = from_minor (minor (im_price row)) c, pd_unit = u, pd_tax_class = tc, pd_category = im_category row,
        pd_station = None, pd_option_groups = []\<rparr>)
     (case treatment_of (im_tax_class row) of (name, points) \<Rightarrow> read_tax_class name points))"

text \<open>Row by row; the n-th takes two ids, two readings of the clock and one write.\<close>

fun write_rows ::
    "'phc desk \<Rightarrow> currency \<Rightarrow> uuid \<Rightarrow> nat \<Rightarrow> imported_product list \<Rightarrow> terminal \<Rightarrow> terminal \<times> (refusal + nat)" where
  "write_rows dk c added_by n [] t = (t, Inr n)"
| "write_rows dk c added_by n (row # rows) t =
     checked (row_details c row) t (\<lambda>details.
     let (t', r) = record_catalogue (dk_codec dk) (dk_wire dk) (dk_io dk n) t
           (ProductAdded (dk_id dk (2 * n)) details (dk_now dk (2 * n)) added_by)
           (dk_id dk (2 * n + 1)) (dk_now dk (2 * n + 1)) in
     checked (told r) t' (\<lambda>_. write_rows dk c added_by (n + 1) rows t'))"

definition cmd_commit_import ::
    "'phc desk \<Rightarrow> terminal \<Rightarrow> utext \<Rightarrow> bool \<Rightarrow> nat list \<Rightarrow> terminal \<times> (refusal + nat)" where
  "cmd_commit_import dk t text tab_separated pin =
     checked (cmd_authorize dk t EditCatalogue pin) t (\<lambda>added_by.
     checked (cmd_preview_import dk t text tab_separated) t (\<lambda>preview.
     if wi_problems preview \<noteq> [] then (t, Inl ''not_clean'')
     else checked (told (till_currency t)) t (\<lambda>c. write_rows dk c added_by 0 (wi_products preview) t)))"

section \<open>The floor\<close>

definition record_table ::
    "'phc desk \<Rightarrow> nat \<Rightarrow> terminal \<Rightarrow> floor_event \<Rightarrow> terminal \<times> (refusal + table_view list)" where
  "record_table dk i t ev =
     answering (record_floor (dk_codec dk) (dk_wire dk) (dk_io dk 0) t ev (dk_id dk i) (dk_now dk 1))
       (\<lambda>t. Inr (cmd_floor_plan dk t True))"

definition cmd_save_table ::
    "'phc desk \<Rightarrow> terminal \<Rightarrow> uuid option \<Rightarrow> utext \<Rightarrow> utext option \<Rightarrow> nat \<Rightarrow> nat list
      \<Rightarrow> terminal \<times> (refusal + table_view list)" where
  "cmd_save_table dk t table_id label section seats pin =
     (let details = \<lparr>td_label = trim label, td_section = Option.bind section non_empty, td_seats = seats\<rparr> in
      checked (cmd_authorize dk t EditCatalogue pin) t (\<lambda>authorized_by.
      case table_id of
        Some tb \<Rightarrow> record_table dk 0 t (TableUpdated tb details (dk_now dk 0) authorized_by)
      | None \<Rightarrow> record_table dk 1 t (TableAdded (dk_id dk 0) details (dk_now dk 0) authorized_by)))"

definition cmd_set_table_active ::
    "'phc desk \<Rightarrow> terminal \<Rightarrow> uuid \<Rightarrow> bool \<Rightarrow> nat list \<Rightarrow> terminal \<times> (refusal + table_view list)" where
  "cmd_set_table_active dk t table_id active pin =
     checked (cmd_authorize dk t EditCatalogue pin) t (\<lambda>authorized_by.
     checked (if \<not> active \<and> bt_get (occupied_tables t) table_id \<noteq> None then Inl ''table_occupied'' else Inr ()) t (\<lambda>_.
     record_table dk 0 t
       (if active then TableRestored table_id (dk_now dk 0) authorized_by
        else TableRemoved table_id (dk_now dk 0) authorized_by)))"

definition may_seat :: "terminal \<Rightarrow> uuid \<Rightarrow> uuid \<Rightarrow> refusal + unit" where
  "may_seat t sale_id table_id =
     (if floor_get (tm_floor t) table_id = None then Inl ''unknown_table''
      else case bt_get (occupied_tables t) table_id of
        Some sitting \<Rightarrow> (if sitting \<noteq> sale_id then Inl ''table_occupied'' else Inr ())
      | None \<Rightarrow> Inr ())"

definition cmd_seat_sale :: "'phc desk \<Rightarrow> terminal \<Rightarrow> uuid \<Rightarrow> uuid \<Rightarrow> nat \<Rightarrow> terminal \<times> (refusal + sale_view)" where
  "cmd_seat_sale dk t sale_id table_id seated =
     checked (signed_in dk t) t (\<lambda>seated_by.
     checked (may_seat t sale_id table_id) t (\<lambda>_.
     cmd_apply dk 0 2 t (Seated sale_id table_id seated (dk_now dk 1) seated_by)))"

section \<open>Open tickets\<close>

text \<open>A ticket that cannot be abandoned is passed over.\<close>

fun discard_all :: "'phc desk \<Rightarrow> uuid \<Rightarrow> nat \<Rightarrow> uuid list \<Rightarrow> terminal \<Rightarrow> terminal \<times> nat" where
  "discard_all dk by n [] t = (t, 0)"
| "discard_all dk by n (sale_id # rest) t =
     (let (t', r) = record_sale (dk_codec dk) (dk_wire dk) (dk_io dk n) t (Abandoned sale_id by)
            (dk_id dk n) (dk_now dk (n + 1));
          (t'', discarded) = discard_all dk by (n + 1) rest t' in
      (t'', if is_ok r then discarded + 1 else discarded))"

definition cmd_discard_empty_tickets :: "'phc desk \<Rightarrow> terminal \<Rightarrow> terminal \<times> (refusal + nat)" where
  "cmd_discard_empty_tickets dk t =
     checked (signed_in dk t) t (\<lambda>abandoned_by.
     let (t', discarded) = discard_all dk abandoned_by 0
           (map s_id (filter (\<lambda>s. filter is_active (s_lines s) = []) (book_open (tm_book t)))) t in
     (t', Inr discarded))"

section \<open>The kitchen\<close>

record fire_outcome =
  fo_tickets :: "kitchen_ticket_view list"
  fo_printed :: bool
  fo_reason :: "utext option"

definition escpos_ticket :: "kitchen_ticket \<Rightarrow> utext \<Rightarrow> kitchen_data" where
  "escpos_ticket k printed_at =
     \<lparr>kd_station = station_heading (kt_station k), kd_is_cancellation = (kt_kind k = Cancellation),
      kd_table_label = kt_table_label k, kd_covers = kt_covers k, kd_round = kt_round k, kd_printed_at = printed_at,
      kd_lines = map (\<lambda>l. \<lparr>kl_name = tl_name l, kl_quantity = from_milli (tl_quantity_milli l),
        kl_modifiers = tl_modifiers l\<rparr>) (kt_lines k)\<rparr>"

text \<open>What the printer had to say about each ticket; the last complaint is the one shown.\<close>

definition send_tickets :: "'phc desk \<Rightarrow> kitchen_ticket list \<Rightarrow> utext \<Rightarrow> paper_width \<Rightarrow> fire_outcome" where
  "send_tickets dk tickets printed_at width =
     (let complaints = List.map_filter (\<lambda>(n, k). dk_print dk n (render_kitchen (escpos_ticket k printed_at) width))
            (enumerate 0 tickets) in
      \<lparr>fo_tickets = map view_kitchen_ticket tickets, fo_printed = (complaints = []),
       fo_reason = (if complaints = [] then None else Some (last complaints))\<rparr>)"

definition cmd_fire_kitchen ::
    "'phc desk \<Rightarrow> terminal \<Rightarrow> uuid \<Rightarrow> utext \<Rightarrow> string \<Rightarrow> terminal \<times> (refusal + fire_outcome)" where
  "cmd_fire_kitchen dk t sale_id printed_at paper =
     checked (signed_in dk t) t (\<lambda>fired_by.
     checked (read_paper paper) t (\<lambda>width.
     checked (told (pending_kitchen t sale_id)) t (\<lambda>tickets.
     if tickets = [] then (t, Inr \<lparr>fo_tickets = [], fo_printed = True, fo_reason = None\<rparr>)
     else
       let line_ids = fired_line_ids tickets in
       answering
         (if line_ids = [] then no_act t
          else outcome (record_sale (dk_codec dk) (dk_wire dk) (dk_io dk 0) t
            (LinesFired sale_id line_ids (kt_round (hd tickets)) (dk_now dk 1) fired_by) (dk_id dk 0) (dk_now dk 2)))
         (\<lambda>_. Inr (send_tickets dk tickets printed_at width)))))"

end
