(* ===== verification/Conduct.thy ===== *)
theory Conduct
  imports Backoffice
begin

text \<open>
  What the commands of a screen do to a till, together: whom the events they record name, and that a till
  worked through them is one that lived, so that it starts again as it was.
\<close>

section \<open>The rows an action adds\<close>

definition adds :: "wire \<Rightarrow> (int \<times> uuid) set \<Rightarrow> (till_event \<Rightarrow> bool) \<Rightarrow> terminal \<Rightarrow> terminal \<Rightarrow> bool" where
  "adds wr K P t t' \<longleftrightarrow> (\<exists>rows. stored_log (tm_store t') = stored_log (tm_store t) @ rows
     \<and> (\<forall>e \<in> set rows. time_key e \<in> K \<and> (\<exists>ev. read_event wr (en_kind e) (en_payload e) = Some ev \<and> P ev)))"

lemma adds_same: "tm_store t' = tm_store t \<Longrightarrow> adds wr K P t t'"
  by (simp add: adds_def)

lemma adds_mono: "adds wr K P t t' \<Longrightarrow> K \<subseteq> L \<Longrightarrow> (\<And>ev. P ev \<Longrightarrow> Q ev) \<Longrightarrow> adds wr L Q t t'"
  unfolding adds_def by blast

lemma adds_trans: "adds wr K P t t' \<Longrightarrow> adds wr K P t' t'' \<Longrightarrow> adds wr K P t t''"
  unfolding adds_def by (elim exE conjE, rule_tac x = "rows @ rowsa" in exI) auto

lemma adds_adopting: "(\<And>u. tm_store (f u) = tm_store u) \<Longrightarrow> adds wr K P t (fst (adopting f r)) \<longleftrightarrow> adds wr K P t (fst r)"
  by (simp add: adds_def adopting_def split: sum.split)

lemma adds_decoded: "adds wr K P t t' \<Longrightarrow> \<exists>evs. decoded wr (tm_store t') = decoded wr (tm_store t) @ evs \<and> list_all P evs"
proof -
  assume "adds wr K P t t'"
  then obtain rows where r: "stored_log (tm_store t') = stored_log (tm_store t) @ rows"
    "\<forall>e \<in> set rows. \<exists>ev. read_event wr (en_kind e) (en_payload e) = Some ev \<and> P ev" by (auto simp: adds_def)
  have "list_all P (List.map_filter (\<lambda>e. read_event wr (en_kind e) (en_payload e)) rows)"
    using r(2) by (fastforce simp: List.map_filter_def list_all_iff)
  with r(1) show ?thesis by (auto simp: decoded_def map_filter_append)
qed

lemma seal_adds:
  assumes "faithful_wire wr" and "intact cd wr me t" and "next_key (tm_store t) i at"
  shows "adds wr {(millis at, i)} ((=) ev) t (fst (seal cd wr io t ev i at))"
proof (cases "append_event cd (tm_chain t) (till_header t i at) (event_kind ev) (wr_write wr ev)")
  case (Inr ce)
  let ?h = "till_header t i at"
  obtain c env where ap: "append_event cd (tm_chain t) ?h (event_kind ev) (wr_write wr ev) = Inr (c, env)"
    using Inr by (cases ce) auto
  show ?thesis
  proof (cases "append_within io (tm_store t) env")
    case (Inr st)
    have own: "own_log cd (di_device_id me) (tm_store t) (tm_chain t)"
      and k: "next_key (tm_store t) (eh_event_id ?h) (eh_occurred_at ?h)"
      using assms(2,3) by (simp_all add: intact_def till_header_def)
    note w = append_own_log(2) [OF own ap Inr k]
    have "read_event wr (en_kind env) (en_payload env) = Some ev" using w assms(1) by (auto simp: faithful_wire_def)
    with w ap Inr show ?thesis by (simp add: adds_def seal_def Let_def till_header_def)
  qed (simp add: seal_def ap adds_same)
qed (simp add: seal_def adds_same)

lemma seal_both_adds:
  assumes "faithful_wire wr" and "intact cd wr me t" and "next_key (tm_store t) i at" and "i < j"
  shows "adds wr {(millis at, i), (millis at, j)} (\<lambda>e. e = ev \<or> e = ev') t (fst (seal_both cd wr io t ev i ev' j at))"
proof (cases "append_event cd (tm_chain t) (till_header t i at) (event_kind ev) (wr_write wr ev)")
  case (Inr ce)
  let ?d = "di_device_id me"
  have own: "own_log cd ?d (tm_store t) (tm_chain t)" using assms(2) by (simp add: intact_def)
  obtain c1 e1 where a1: "append_event cd (tm_chain t) (till_header t i at) (event_kind ev) (wr_write wr ev) = Inr (c1, e1)"
    using Inr by (cases ce) auto
  note own1 = append_own_log(1) [OF own a1]
  show ?thesis
  proof (cases "append_event cd c1 (till_header t j at) (event_kind ev') (wr_write wr ev')")
    case (Inl e)
    with a1 show ?thesis by (simp add: seal_both_def till_header_def adds_same)
  next
    case (Inr ce)
    obtain c2 e2 where a2: "append_event cd c1 (till_header t j at) (event_kind ev') (wr_write wr ev') = Inr (c2, e2)"
      using Inr by (cases ce) auto
    show ?thesis
    proof (cases "store_append_all io (tm_store t) [e1, e2]")
      case (Inl e)
      with a1 a2 show ?thesis by (simp add: seal_both_def till_header_def Let_def adds_same)
    next
      case (Inr st)
      then obtain st1 where w: "append_within io (tm_store t) e1 = Inr st1" "append_within io st1 e2 = Inr st"
        by (auto simp: store_append_all_def res_simps)
      have w1: "own_log cd ?d st1 c1 \<and> stored_log st1 = stored_log (tm_store t) @ [e1] \<and> en_kind e1 = event_kind ev
          \<and> wr_write wr ev = Inr (en_payload e1) \<and> time_key e1 = (millis at, i)"
        using append_own_log(2) [OF own a1 w(1)] assms(3) by (simp add: till_header_def)
      then have "next_key st1 j at" using assms(3,4) by (auto simp: next_key_def list_all_iff intro: less_trans)
      then have w2: "stored_log st = stored_log st1 @ [e2] \<and> en_kind e2 = event_kind ev'
          \<and> wr_write wr ev' = Inr (en_payload e2) \<and> time_key e2 = (millis at, j)"
        using append_own_log(2) [OF _ a2 w(2), of ?d] w1 by (simp add: till_header_def)
      have "read_event wr (en_kind e1) (en_payload e1) = Some ev" "read_event wr (en_kind e2) (en_payload e2) = Some ev'"
        using w1 w2 assms(1) by (auto simp: faithful_wire_def)
      moreover have "tm_store (fst (seal_both cd wr io t ev i ev' j at)) = st"
        using a1 a2 Inr by (simp add: seal_both_def till_header_def Let_def)
      ultimately show ?thesis using w1 w2 by (simp add: adds_def)
    qed
  qed
qed (simp add: seal_both_def adds_same)

text \<open>What an action may write, and under which keys.\<close>

fun writes :: "till_action \<Rightarrow> till_event \<Rightarrow> bool" where
  "writes (RecordSale ev i at) e \<longleftrightarrow> e = SaleEv ev"
| "writes (RecordShift ev i at) e \<longleftrightarrow> e = ShiftEv ev"
| "writes (RecordStock ev i at) e \<longleftrightarrow> e = StockEv ev"
| "writes (RecordPurchase ev i at) e \<longleftrightarrow> e = PurchaseEv ev"
| "writes (RecordCatalogue ev i at) e \<longleftrightarrow> e = CatalogueEv ev"
| "writes (RecordFloor ev i at) e \<longleftrightarrow> e = FloorEv ev"
| "writes (RecordStaff ev i at) e \<longleftrightarrow> e = StaffEv ev"
| "writes (RecordOutlet ev i at) e \<longleftrightarrow> e = OutletEv ev"
| "writes (CompleteSale ev reg by at i j) e \<longleftrightarrow> e = SaleEv ev \<or> (\<exists>s c. e = FiscalEv (InvoiceIssued s c at by))"
| "writes (RecordReceipt ev stock at i j) e \<longleftrightarrow> e = PurchaseEv ev \<or> e = StockEv stock"

fun keys_of :: "till_action \<Rightarrow> (int \<times> uuid) set" where
  "keys_of (RecordSale ev i at) = {(millis at, i)}"
| "keys_of (RecordShift ev i at) = {(millis at, i)}"
| "keys_of (RecordStock ev i at) = {(millis at, i)}"
| "keys_of (RecordPurchase ev i at) = {(millis at, i)}"
| "keys_of (RecordCatalogue ev i at) = {(millis at, i)}"
| "keys_of (RecordFloor ev i at) = {(millis at, i)}"
| "keys_of (RecordStaff ev i at) = {(millis at, i)}"
| "keys_of (RecordOutlet ev i at) = {(millis at, i)}"
| "keys_of (CompleteSale ev reg by at i j) = {(millis at, i), (millis at, j)}"
| "keys_of (RecordReceipt ev stock at i j) = {(millis at, i), (millis at, j)}"

lemma record_adds:
  assumes "faithful_wire wr" and "intact cd wr me t" and "next_key (tm_store t) i at"
    and "\<And>c u. tm_store (f c u) = tm_store u" and "\<And>e. e = ev \<Longrightarrow> P e"
  shows "adds wr {(millis at, i)} P t
    (fst (case r of Inl e \<Rightarrow> (t, Inl (g e)) | Inr c \<Rightarrow> adopting (f c) (seal cd wr io t ev i at)))"
proof (cases r)
  case (Inr c)
  show ?thesis using adds_mono [OF seal_adds [OF assms(1-3)] subset_refl] assms(4,5) by (simp add: Inr adds_adopting)
qed (simp add: adds_same)

lemma perform_adds:
  assumes "faithful_wire wr" and "intact cd wr me t" and "fresh wr (tm_store t) a"
  shows "adds wr (keys_of a) (writes a) t (fst (perform cd wr io t a))"
proof -
  note rec = record_adds [OF assms(1,2)]
  show ?thesis
  proof (cases a)
    case (CompleteSale ev reg who at i j)
    then have k: "next_key (tm_store t) i at" "i < j" using assms(3) by simp_all
    show ?thesis
    proof (cases "invoice_candidate cd wr t ev reg at")
      case (Inr x)
      obtain b content chain s where x: "x = (b, content, chain, s)" by (cases x)
      let ?f = "\<lambda>t. t\<lparr>tm_book := b, tm_fiscal := chain\<rparr>"
      let ?r = "seal_both cd wr io t (SaleEv ev) i (FiscalEv (InvoiceIssued s content at who)) j at"
      have "adds wr (keys_of a) (writes a) t (fst ?r)"
        by (rule adds_mono [OF seal_both_adds [OF assms(1,2) k]]) (auto simp: CompleteSale)
      then have "adds wr (keys_of a) (writes a) t (fst (adopting ?f ?r))" by (subst adds_adopting) simp_all
      moreover have "fst (perform cd wr io t a) = fst (adopting ?f ?r)"
        by (simp add: CompleteSale till_complete_sale_def Inr x split_beta)
      ultimately show ?thesis by (simp only:)
    qed (simp add: CompleteSale till_complete_sale_def adds_same)
  next
    case (RecordReceipt ev stock at i j)
    then have k: "next_key (tm_store t) i at" "i < j" using assms(3) by simp_all
    let ?r = "seal_both cd wr io t (PurchaseEv ev) i (StockEv stock) j at"
    have "adds wr (keys_of a) (writes a) t (fst ?r)"
      by (rule adds_mono [OF seal_both_adds [OF assms(1,2) k]]) (auto simp: RecordReceipt)
    then show ?thesis unfolding RecordReceipt perform.simps outcome_fst record_receipt_def
      by (auto simp: adds_adopting adds_same simp del: writes.simps keys_of.simps split: sum.split)
  next
    case (RecordSale ev i at)
    with assms(3) show ?thesis
      by (simp only: perform.simps outcome_fst fresh.simps keys_of.simps record_sale_def) (rule rec, simp_all)
  next
    case (RecordShift ev i at)
    with assms(3) show ?thesis
      by (simp only: perform.simps outcome_fst fresh.simps keys_of.simps record_shift_def) (rule rec, simp_all)
  next
    case (RecordStock ev i at)
    with assms(3) show ?thesis
      by (simp only: perform.simps outcome_fst fresh.simps keys_of.simps record_stock_def) (rule rec, simp_all)
  next
    case (RecordPurchase ev i at)
    with assms(3) show ?thesis
      by (simp only: perform.simps outcome_fst fresh.simps keys_of.simps record_purchase_def) (rule rec, simp_all)
  next
    case (RecordCatalogue ev i at)
    with assms(3) show ?thesis
      by (simp only: perform.simps outcome_fst fresh.simps keys_of.simps record_catalogue_def) (rule rec, simp_all)
  next
    case (RecordFloor ev i at)
    with assms(3) show ?thesis
      by (simp only: perform.simps outcome_fst fresh.simps keys_of.simps record_floor_def) (rule rec, simp_all)
  next
    case (RecordStaff ev i at)
    with assms(3) show ?thesis
      by (simp only: perform.simps outcome_fst fresh.simps keys_of.simps record_staff_def) (rule rec, simp_all)
  next
    case (RecordOutlet ev i at)
    with assms(3) show ?thesis
      by (simp only: perform.simps outcome_fst fresh.simps keys_of.simps record_outlet_def) (rule rec, simp_all)
  qed
qed

section \<open>A machine whose clock and ids move on\<close>

definition moves_on :: "'phc desk \<Rightarrow> event_store \<Rightarrow> bool" where
  "moves_on dk st \<longleftrightarrow> strict_mono (dk_id dk) \<and> mono (\<lambda>k. millis (dk_now dk k))
     \<and> next_key st (dk_id dk 0) (dk_now dk 0) \<and> (\<forall>n. dk_id dk n \<notin> set (used_shifts (dk_wire dk) st))"

definition working :: "'phc desk \<Rightarrow> device_identity \<Rightarrow> terminal \<Rightarrow> bool" where
  "working dk me t \<longleftrightarrow> faithful_wire (dk_wire dk) \<and> lived (dk_codec dk) (dk_wire dk) me t
     \<and> strict_mono (dk_id dk) \<and> mono (\<lambda>k. millis (dk_now dk k))"

lemma next_key_later:
  assumes "strict_mono (dk_id dk)" and "mono (\<lambda>k. millis (dk_now dk k))"
    and "next_key st (dk_id dk i) (dk_now dk k)" and "i \<le> i'" and "k \<le> k'"
  shows "next_key st (dk_id dk i') (dk_now dk k')"
proof -
  have "dk_id dk i \<le> dk_id dk i'" "millis (dk_now dk k) \<le> millis (dk_now dk k')"
    using assms(1,2,4,5) by (simp_all add: strict_mono_less_eq monoD [of "\<lambda>k. millis (dk_now dk k)"])
  then have "(millis (dk_now dk k), dk_id dk i) \<le> (millis (dk_now dk k'), dk_id dk i')" by auto
  with assms(3) show ?thesis unfolding next_key_def list_all_iff by (blast intro: less_le_trans)
qed

lemma next_key_adds:
  assumes "adds wr {(millis (dk_now dk k), dk_id dk i)} P t t'" and "next_key (tm_store t) (dk_id dk i) (dk_now dk k)"
    and "strict_mono (dk_id dk)" and "mono (\<lambda>k. millis (dk_now dk k))" and "i < i'" and "k \<le> k'"
  shows "next_key (tm_store t') (dk_id dk i') (dk_now dk k')"
proof -
  have "next_key (tm_store t) (dk_id dk i') (dk_now dk k')" by (rule next_key_later [OF assms(3,4,2)]) (use assms(5,6) in simp_all)
  moreover have "dk_id dk i < dk_id dk i'" "millis (dk_now dk k) \<le> millis (dk_now dk k')"
    using assms(3-6) by (simp_all add: strict_mono_less monoD [of "\<lambda>k. millis (dk_now dk k)"])
  ultimately show ?thesis using assms(1) by (auto simp: adds_def next_key_def list_all_iff)
qed

text \<open>The till after a command is one that lived, and the events it gained are as they should be.\<close>

definition conducts :: "'phc desk \<Rightarrow> device_identity \<Rightarrow> (till_event \<Rightarrow> bool) \<Rightarrow> terminal \<Rightarrow> terminal \<Rightarrow> bool" where
  "conducts dk me P t t' \<longleftrightarrow> lived (dk_codec dk) (dk_wire dk) me t' \<and> adds (dk_wire dk) UNIV P t t'"

lemma conduct_here: "working dk me t \<Longrightarrow> conducts dk me P t t"
  by (simp add: conducts_def working_def adds_same)

lemma conduct_trans: "conducts dk me P t t' \<Longrightarrow> conducts dk me P t' t'' \<Longrightarrow> conducts dk me P t t''"
  using adds_trans by (auto simp: conducts_def)

lemma conduct_perform:
  assumes "working dk me t" and "fresh (dk_wire dk) (tm_store t) a" and "\<And>ev. writes a ev \<Longrightarrow> P ev"
  shows "conducts dk me P t (fst (perform (dk_codec dk) (dk_wire dk) io t a))"
proof -
  have w: "faithful_wire (dk_wire dk)" "lived (dk_codec dk) (dk_wire dk) me t" using assms(1) by (simp_all add: working_def)
  have "adds (dk_wire dk) UNIV P t (fst (perform (dk_codec dk) (dk_wire dk) io t a))"
    by (rule adds_mono [OF perform_adds [OF w(1) lived_intact [OF w] assms(2)]]) (use assms(3) in auto)
  with acts [OF w(2) assms(2) prod.collapse [symmetric]] show ?thesis by (simp add: conducts_def)
qed

lemma conduct_checked:
  "working dk me t \<Longrightarrow> (\<And>b. c = Inr b \<Longrightarrow> conducts dk me P t (fst (k b))) \<Longrightarrow> conducts dk me P t (fst (checked c t k))"
  by (cases c) (simp_all add: checked_def conduct_here)

lemma fst_answering [simp]: "fst (answering r v) = fst r"
  by (simp add: answering_def)

lemma ready_key:
  "working dk me t \<Longrightarrow> moves_on dk (tm_store t) \<Longrightarrow> next_key (tm_store t) (dk_id dk i) (dk_now dk k)"
  using next_key_later [of dk "tm_store t" 0 0 i k] by (simp add: working_def moves_on_def)

text \<open>One rule for each recorder.\<close>

lemma conduct_sale:
  "working dk me t \<Longrightarrow> next_key (tm_store t) (dk_id dk i) (dk_now dk k) \<Longrightarrow> P (SaleEv ev) \<Longrightarrow>
     conducts dk me P t (fst (record_sale (dk_codec dk) (dk_wire dk) io t ev (dk_id dk i) (dk_now dk k)))"
  using conduct_perform [of dk me t "RecordSale ev (dk_id dk i) (dk_now dk k)" P io] by simp

lemma conduct_stock:
  "working dk me t \<Longrightarrow> next_key (tm_store t) (dk_id dk i) (dk_now dk k) \<Longrightarrow> P (StockEv ev) \<Longrightarrow>
     conducts dk me P t (fst (record_stock (dk_codec dk) (dk_wire dk) io t ev (dk_id dk i) (dk_now dk k)))"
  using conduct_perform [of dk me t "RecordStock ev (dk_id dk i) (dk_now dk k)" P io] by simp

lemma conduct_purchase:
  "working dk me t \<Longrightarrow> next_key (tm_store t) (dk_id dk i) (dk_now dk k) \<Longrightarrow> P (PurchaseEv ev) \<Longrightarrow>
     conducts dk me P t (fst (record_purchase (dk_codec dk) (dk_wire dk) io t ev (dk_id dk i) (dk_now dk k)))"
  using conduct_perform [of dk me t "RecordPurchase ev (dk_id dk i) (dk_now dk k)" P io] by simp

lemma conduct_catalogue:
  "working dk me t \<Longrightarrow> next_key (tm_store t) (dk_id dk i) (dk_now dk k) \<Longrightarrow> P (CatalogueEv ev) \<Longrightarrow>
     conducts dk me P t (fst (record_catalogue (dk_codec dk) (dk_wire dk) io t ev (dk_id dk i) (dk_now dk k)))"
  using conduct_perform [of dk me t "RecordCatalogue ev (dk_id dk i) (dk_now dk k)" P io] by simp

lemma conduct_floor:
  "working dk me t \<Longrightarrow> next_key (tm_store t) (dk_id dk i) (dk_now dk k) \<Longrightarrow> P (FloorEv ev) \<Longrightarrow>
     conducts dk me P t (fst (record_floor (dk_codec dk) (dk_wire dk) io t ev (dk_id dk i) (dk_now dk k)))"
  using conduct_perform [of dk me t "RecordFloor ev (dk_id dk i) (dk_now dk k)" P io] by simp

lemma conduct_staff:
  "working dk me t \<Longrightarrow> next_key (tm_store t) (dk_id dk i) (dk_now dk k) \<Longrightarrow> P (StaffEv ev) \<Longrightarrow>
     conducts dk me P t (fst (record_staff (dk_codec dk) (dk_wire dk) io t ev (dk_id dk i) (dk_now dk k)))"
  using conduct_perform [of dk me t "RecordStaff ev (dk_id dk i) (dk_now dk k)" P io] by simp

lemma conduct_outlet:
  "working dk me t \<Longrightarrow> next_key (tm_store t) (dk_id dk i) (dk_now dk k) \<Longrightarrow> P (OutletEv ev) \<Longrightarrow>
     conducts dk me P t (fst (record_outlet (dk_codec dk) (dk_wire dk) io t ev (dk_id dk i) (dk_now dk k)))"
  using conduct_perform [of dk me t "RecordOutlet ev (dk_id dk i) (dk_now dk k)" P io] by simp

lemma conduct_shift:
  assumes "working dk me t" and "moves_on dk (tm_store t)" and "P (ShiftEv ev)"
    and "case ev of ShiftOpened sid _ _ _ _ \<Rightarrow> sid \<in> range (dk_id dk) | _ \<Rightarrow> True"
  shows "conducts dk me P t (fst (record_shift (dk_codec dk) (dk_wire dk) io t ev (dk_id dk i) (dk_now dk k)))"
proof -
  have "fresh (dk_wire dk) (tm_store t) (RecordShift ev (dk_id dk i) (dk_now dk k))"
    using ready_key [OF assms(1,2)] assms(2,4) by (auto simp: moves_on_def split: shift_event.splits)
  from conduct_perform [OF assms(1) this, of P] assms(3) show ?thesis by simp
qed

lemma conduct_complete:
  assumes "working dk me t" and "moves_on dk (tm_store t)" and "i < j" and "P (SaleEv ev)"
    and "\<And>s c. P (FiscalEv (InvoiceIssued s c (dk_now dk k) who))"
  shows "conducts dk me P t
    (fst (till_complete_sale (dk_codec dk) (dk_wire dk) io t ev reg who (dk_now dk k) (dk_id dk i) (dk_id dk j)))"
  using conduct_perform [of dk me t "CompleteSale ev reg who (dk_now dk k) (dk_id dk i) (dk_id dk j)" P io]
    ready_key [OF assms(1,2)] assms by (auto simp: working_def strict_mono_less)

lemma conduct_receipt:
  assumes "working dk me t" and "moves_on dk (tm_store t)" and "i < j" and "P (PurchaseEv ev)" and "P (StockEv stock)"
  shows "conducts dk me P t
    (fst (record_receipt (dk_codec dk) (dk_wire dk) io t ev stock (dk_now dk k) (dk_id dk i) (dk_id dk j)))"
  using conduct_perform [of dk me t "RecordReceipt ev stock (dk_now dk k) (dk_id dk i) (dk_id dk j)" P io]
    ready_key [OF assms(1,2)] assms by (auto simp: working_def strict_mono_less)

lemmas conduct_record = conduct_sale conduct_stock conduct_purchase conduct_catalogue conduct_floor conduct_staff
  conduct_outlet conduct_shift conduct_complete conduct_receipt

section \<open>Whom an event names, and who may be named\<close>

fun people_named :: "till_event \<Rightarrow> uuid list" where
  "people_named (SaleEv e) = (case e of
     Opened _ who _ _ _ \<Rightarrow> [who] | LineDiscounted _ _ _ who \<Rightarrow> [who] | LineVoided _ _ _ who \<Rightarrow> [who]
   | OrderDiscounted _ _ who \<Rightarrow> [who] | Seated _ _ _ _ who \<Rightarrow> [who] | LinesFired _ _ _ _ who \<Rightarrow> [who]
   | Abandoned _ who \<Rightarrow> [who] | _ \<Rightarrow> [])"
| "people_named (ShiftEv e) = (case e of
     ShiftOpened _ who _ _ _ \<Rightarrow> [who] | CashMoved _ _ _ _ _ who _ \<Rightarrow> [who] | DrawerCounted _ _ who _ \<Rightarrow> [who]
   | ShiftClosed _ who _ _ \<Rightarrow> [who])"
| "people_named (StockEv e) = (case e of
     BatchReceived _ _ _ _ _ _ _ _ who \<Rightarrow> [who] | StockIssued _ _ _ _ _ who \<Rightarrow> [who]
   | StockReturned _ _ _ _ _ who \<Rightarrow> [who] | BatchCounted _ _ _ who \<Rightarrow> [who])"
| "people_named (PurchaseEv e) = (case e of
     Placed _ _ _ _ _ _ who \<Rightarrow> [who] | LineReceived _ _ _ _ _ _ who \<Rightarrow> [who] | OrderClosed _ _ _ who \<Rightarrow> [who])"
| "people_named (CatalogueEv e) = (case e of
     ProductAdded _ _ _ who \<Rightarrow> [who] | ProductUpdated _ _ _ who \<Rightarrow> [who] | ProductWithdrawn _ _ who \<Rightarrow> [who]
   | ProductRestored _ _ who \<Rightarrow> [who])"
| "people_named (FloorEv e) = (case e of
     TableAdded _ _ _ who \<Rightarrow> [who] | TableUpdated _ _ _ who \<Rightarrow> [who] | TableRemoved _ _ who \<Rightarrow> [who]
   | TableRestored _ _ who \<Rightarrow> [who])"
| "people_named (StaffEv e) = (case e of
     Enrolled _ _ _ _ _ who \<Rightarrow> [who] | RoleChanged _ _ _ who \<Rightarrow> [who] | PinChanged _ _ _ who \<Rightarrow> [who]
   | Deactivated _ _ who \<Rightarrow> [who] | Reactivated _ _ who \<Rightarrow> [who])"
| "people_named (OutletEv (Configured _ _ _ who)) = [who]"
| "people_named (FiscalEv (InvoiceIssued _ _ _ who)) = [who]"

text \<open>The permission behind an event that takes more than being signed in.\<close>

fun needed :: "till_event \<Rightarrow> permission option" where
  "needed (SaleEv e) = (case e of
     LineVoided _ _ _ _ \<Rightarrow> Some VoidLine | OrderDiscounted _ _ _ \<Rightarrow> Some ApplyDiscount | _ \<Rightarrow> None)"
| "needed (ShiftEv e) = (case e of CashMoved _ _ _ _ _ _ _ \<Rightarrow> Some MoveCash | _ \<Rightarrow> None)"
| "needed (CatalogueEv _) = Some EditCatalogue"
| "needed (FloorEv _) = Some EditCatalogue"
| "needed (StaffEv _) = Some ManageStaff"
| "needed (OutletEv _) = Some ManageStaff"
| "needed _ = None"

text \<open>What a role may record alone: what needs no permission, and a void or discount within the outlet's limits.\<close>

definition unaided :: "terminal \<Rightarrow> till_event \<Rightarrow> role \<Rightarrow> bool" where
  "unaided t ev r \<longleftrightarrow> needed ev = None
     \<or> (case ev of
          SaleEv (LineVoided sale_id line_id _ _) \<Rightarrow>
            (case line_worth t sale_id line_id of
               Inl _ \<Rightarrow> False | Inr worth \<Rightarrow> authorize_void r worth (till_approval_policy t) = Allowed)
        | SaleEv (OrderDiscounted _ d _) \<Rightarrow> discount_verdict d r (till_approval_policy t) = Allowed
        | _ \<Rightarrow> False)"

definition at_the_till :: "'phc desk \<Rightarrow> terminal \<Rightarrow> uuid \<Rightarrow> bool" where
  "at_the_till dk t who \<longleftrightarrow> map_option ss_staff_id (current_session t (dk_now dk 0)) = Some who"

definition answers_for :: "'phc desk \<Rightarrow> terminal \<Rightarrow> nat list \<Rightarrow> till_event \<Rightarrow> uuid \<Rightarrow> bool" where
  "answers_for dk t pin ev who \<longleftrightarrow>
     (case bt_get (tm_staff t) who of
        None \<Rightarrow> tm_staff t = [] \<and> who = nobody \<and> needed ev = Some ManageStaff
      | Some m \<Rightarrow> sm_active m
          \<and> (at_the_till dk t who \<and> unaided t ev (sm_role m)
             \<or> (case needed ev of None \<Rightarrow> False | Some p \<Rightarrow> can (sm_role m) p)
               \<and> verify_pin (dk_argon dk) pin (sm_pin_hash m) = Inr True))"

definition attributed :: "'phc desk \<Rightarrow> terminal \<Rightarrow> nat list \<Rightarrow> till_event \<Rightarrow> bool" where
  "attributed dk t pin ev \<longleftrightarrow> list_all (answers_for dk t pin ev) (people_named ev)"

lemma told_Inr [simp]: "told r = Inr a \<longleftrightarrow> r = Inr a"
  by (cases r) auto

lemma session_answers:
  assumes "current_session t (dk_now dk 0) = Some s" and "unaided t ev (ss_role s)"
  shows "answers_for dk t pin ev (ss_staff_id s)"
  using current_session_Some [OF assms(1)] assms by (auto simp: answers_for_def at_the_till_def)

lemma signed_in_answers:
  assumes "signed_in dk t = Inr who" and "needed ev = None"
  shows "answers_for dk t pin ev who"
proof -
  obtain s where "current_session t (dk_now dk 0) = Some s" "who = ss_staff_id s"
    using assms(1) by (auto simp: signed_in_def res_simps)
  moreover have "unaided t ev r" for r using assms(2) by (simp add: unaided_def)
  ultimately show ?thesis using session_answers by blast
qed

lemma approver_answers:
  assumes "working dk me t" and "till_approve (dk_argon dk) t p pin = Inr who" and "needed ev = Some p"
  shows "answers_for dk t pin ev who"
proof -
  have "good_directory (tm_staff t)" using assms(1) lived_staff_good by (auto simp: working_def)
  from till_approve_Inr [OF this assms(2)] assms(3) show ?thesis by (auto simp: answers_for_def)
qed

lemma limit_answers:
  assumes "working dk me t" and "authorize_at_limit dk t p verdict pin = Inr who" and "needed ev = Some p"
    and "\<And>r. verdict r (till_approval_policy t) = Allowed \<Longrightarrow> unaided t ev r"
  shows "answers_for dk t pin ev who"
proof -
  have a: "authorize_for (dk_argon dk) t p verdict pin (dk_now dk 0) = Inr who"
    using assms(2) by (simp add: authorize_at_limit_def)
  show ?thesis
  proof (cases "current_session t (dk_now dk 0)")
    case None
    with a approver_answers [OF assms(1) _ assms(3)] show ?thesis by (simp add: authorize_for_def)
  next
    case (Some s)
    with a assms(4) approver_answers [OF assms(1) _ assms(3)] session_answers [OF Some] show ?thesis
      by (auto simp: authorize_for_def split: authorization.splits)
  qed
qed

section \<open>Each command\<close>

lemma fst_with [simp]:
  "fst (with_shift act t) = fst (act t)" "fst (with_stock act t) = fst (act t)" "fst (with_orders act t) = fst (act t)"
  by (simp_all add: with_shift_def with_stock_def with_orders_def)

lemma apply_conducts:
  assumes "working dk me t" and "moves_on dk (tm_store t)" and "attributed dk t pin (SaleEv ev)"
  shows "conducts dk me (attributed dk t pin) t (fst (cmd_apply dk i k t ev))"
  using conduct_sale [OF assms(1) ready_key [OF assms(1,2)]] assms(3) by (simp add: cmd_apply_def)

lemmas conduct_steps = conduct_checked conduct_here apply_conducts signed_in_answers

text \<open>The two commands that write in a loop.\<close>

lemma conducts_working: "working dk me t \<Longrightarrow> conducts dk me P t t' \<Longrightarrow> working dk me t'"
  by (simp add: working_def conducts_def)

lemma discard_conducts:
  assumes "working dk me t" and "next_key (tm_store t) (dk_id dk n) (dk_now dk (n + 1))"
    and "\<And>s. P (SaleEv (Abandoned s who))"
  shows "conducts dk me P t (fst (discard_all dk who n ids t))"
  using assms(1,2)
proof (induction ids arbitrary: n t)
  case (Cons sale_id rest)
  let ?a = "RecordSale (Abandoned sale_id who) (dk_id dk n) (dk_now dk (n + 1))"
  define t' where "t' = fst (record_sale (dk_codec dk) (dk_wire dk) (dk_io dk n) t (Abandoned sale_id who) (dk_id dk n) (dk_now dk (n + 1)))"
  have w: "faithful_wire (dk_wire dk)" "lived (dk_codec dk) (dk_wire dk) me t" "strict_mono (dk_id dk)"
    "mono (\<lambda>k. millis (dk_now dk k))" using Cons.prems(1) by (simp_all add: working_def)
  have "adds (dk_wire dk) (keys_of ?a) (writes ?a) t t'"
    using perform_adds [OF w(1) lived_intact [OF w(1,2)], of ?a "dk_io dk n"] Cons.prems(2) by (simp add: t'_def)
  then have key: "next_key (tm_store t') (dk_id dk (n + 1)) (dk_now dk (n + 1 + 1))"
    by (intro next_key_adds [OF _ Cons.prems(2) w(3,4)]) simp_all
  have step: "conducts dk me P t t'" unfolding t'_def by (rule conduct_sale) (use Cons.prems assms(3) in auto)
  from Cons.IH [OF conducts_working [OF Cons.prems(1) step] key] step show ?case
    by (auto simp: t'_def split_beta intro: conduct_trans)
qed (simp add: conduct_here)

lemma rows_conduct:
  assumes "working dk me t" and "next_key (tm_store t) (dk_id dk (2 * n + 1)) (dk_now dk (2 * n + 1))"
    and "\<And>p d at. P (CatalogueEv (ProductAdded p d at who))"
  shows "conducts dk me P t (fst (write_rows dk c who n rows t))"
  using assms(1,2)
proof (induction rows arbitrary: n t)
  case (Cons row rows)
  show ?case
  proof (cases "row_details c row")
    case (Inl e)
    with Cons.prems(1) show ?thesis by (simp add: checked_def conduct_here)
  next
    case (Inr details)
    let ?ev = "ProductAdded (dk_id dk (2 * n)) details (dk_now dk (2 * n)) who"
    let ?a = "RecordCatalogue ?ev (dk_id dk (2 * n + 1)) (dk_now dk (2 * n + 1))"
    define r where "r = record_catalogue (dk_codec dk) (dk_wire dk) (dk_io dk n) t ?ev (dk_id dk (2 * n + 1)) (dk_now dk (2 * n + 1))"
    have w: "faithful_wire (dk_wire dk)" "lived (dk_codec dk) (dk_wire dk) me t" "strict_mono (dk_id dk)"
      "mono (\<lambda>k. millis (dk_now dk k))" using Cons.prems(1) by (simp_all add: working_def)
    have "adds (dk_wire dk) (keys_of ?a) (writes ?a) t (fst r)"
      using perform_adds [OF w(1) lived_intact [OF w(1,2)], of ?a "dk_io dk n"] Cons.prems(2) by (simp add: r_def)
    then have key: "next_key (tm_store (fst r)) (dk_id dk (2 * (n + 1) + 1)) (dk_now dk (2 * (n + 1) + 1))"
      by (intro next_key_adds [OF _ Cons.prems(2) w(3,4)]) simp_all
    have step: "conducts dk me P t (fst r)" unfolding r_def by (rule conduct_catalogue) (use Cons.prems assms(3) in auto)
    have "fst (write_rows dk c who n (row # rows) t)
        = (case snd r of Inl _ \<Rightarrow> fst r | Inr _ \<Rightarrow> fst (write_rows dk c who (n + 1) rows (fst r)))"
      by (simp add: Inr checked_def r_def split_beta split: sum.split)
    with Cons.IH [OF conducts_working [OF Cons.prems(1) step] key] step show ?thesis
      by (auto split: sum.split intro: conduct_trans)
  qed
qed (simp add: conduct_here)

text \<open>A till at work at a desk, and the events its commands add to its log.\<close>

locale desk_at_work =
  fixes dk :: "'phc desk" and me :: device_identity and t :: terminal
  assumes at_work: "working dk me t"
    and moving: "moves_on dk (tm_store t)"
begin

lemmas key = ready_key [OF at_work moving]
lemmas steps = conduct_checked [OF at_work] conduct_here [OF at_work] apply_conducts [OF at_work moving]
  conduct_stock [OF at_work key] conduct_purchase [OF at_work key] conduct_catalogue [OF at_work key]
  conduct_floor [OF at_work key] conduct_staff [OF at_work key] conduct_outlet [OF at_work key]
  conduct_sale [OF at_work key] conduct_shift [OF at_work moving] conduct_complete [OF at_work moving]
  conduct_receipt [OF at_work moving]
lemmas answering_facts = attributed_def signed_in_answers approver_answers [OF at_work]

lemma sell_conducts:
  "conducts dk me (attributed dk t pin) t (fst (cmd_open_sale dk t))"
  "conducts dk me (attributed dk t pin) t (fst (cmd_change_quantity dk t s l q))"
  "conducts dk me (attributed dk t pin) t (fst (cmd_record_tender dk t s m a refno))"
  "conducts dk me (attributed dk t pin) t (fst (cmd_abandon_sale dk t s))"
  "conducts dk me (attributed dk t pin) t (fst (cmd_seat_sale dk t s tb n))"
  unfolding cmd_open_sale_def cmd_change_quantity_def cmd_record_tender_def cmd_abandon_sale_def cmd_seat_sale_def
  by (intro steps; simp add: answering_facts)+

lemma line_conducts:
  "conducts dk me (attributed dk t pin) t (fst (cmd_add_line dk t s p name price q points tk chosen))"
  unfolding cmd_add_line_def Let_def
  by (intro steps; simp split: option.split; intro conjI allI impI steps; simp add: answering_facts)

lemma void_conducts:
  "conducts dk me (attributed dk t pin) t (fst (cmd_void_line dk t s l why pin))"
  unfolding cmd_void_line_def
  by (intro steps; clarsimp simp: attributed_def; erule limit_answers [OF at_work]; simp add: unaided_def)

lemma discount_conducts:
  "conducts dk me (attributed dk t pin) t (fst (cmd_discount_order dk t s a points pin))"
  unfolding cmd_discount_order_def
  by (intro steps; clarsimp simp: attributed_def split: if_splits; erule limit_answers [OF at_work]; simp add: unaided_def)

lemma complete_conducts:
  "conducts dk me (attributed dk t pin) t (fst (cmd_complete_sale dk t s))"
  unfolding cmd_complete_sale_def
  by (intro conduct_checked [OF at_work]) (simp, intro conduct_complete [OF at_work moving]; simp add: answering_facts)

lemma drawer_conducts:
  "conducts dk me (attributed dk t pin) t (fst (cmd_open_shift dk t float))"
  "conducts dk me (attributed dk t pin) t (fst (cmd_move_cash dk t amount why note pin))"
  "conducts dk me (attributed dk t pin) t (fst (cmd_count_drawer dk t counted))"
  "conducts dk me (attributed dk t pin) t (fst (cmd_close_shift dk t closing))"
  unfolding cmd_open_shift_def cmd_move_cash_def cmd_count_drawer_def cmd_close_shift_def shift_event_of_def cmd_authorize_def
  by (simp_all, (intro steps; simp add: answering_facts)+)

lemma stock_conducts:
  "conducts dk me (attributed dk t pin) t (fst (cmd_receive_stock dk t p lot expires q cost supplier))"
  "conducts dk me (attributed dk t pin) t (fst (cmd_count_stock dk t b n))"
  "conducts dk me (attributed dk t pin) t (fst (cmd_issue_stock dk t b n why))"
  unfolding cmd_receive_stock_def cmd_count_stock_def cmd_issue_stock_def
  by (simp_all, (intro steps; simp add: answering_facts)+)

lemma order_conducts:
  "conducts dk me (attributed dk t pin) t (fst (cmd_place_order dk t supplier refno expected ls))"
  "conducts dk me (attributed dk t pin) t (fst (cmd_receive_against_order dk t ord l q cost lot expires))"
  "conducts dk me (attributed dk t pin) t (fst (cmd_close_order dk t ord why))"
  unfolding cmd_place_order_def cmd_receive_against_order_def cmd_close_order_def Let_def
  by (intro steps; (simp only: fst_with)?; intro steps; simp add: answering_facts)+

lemma nobody_answers:
  "tm_staff t = [] \<Longrightarrow> needed ev = Some ManageStaff \<Longrightarrow> answers_for dk t pin ev nobody"
  by (simp add: answers_for_def)

lemma manager_answers:
  "enroller dk t r pin = Inr who \<Longrightarrow> needed ev = Some ManageStaff \<Longrightarrow> answers_for dk t pin ev who"
  "configurer dk t pin = Inr who \<Longrightarrow> needed ev = Some ManageStaff \<Longrightarrow> answers_for dk t pin ev who"
  by (auto simp: enroller_def configurer_def nobody_answers approver_answers [OF at_work] split: if_splits)

lemma office_conducts:
  "conducts dk me (attributed dk t pin) t (fst (cmd_enrol_staff dk t name r new_pin pin))"
  "conducts dk me (attributed dk t pin) t (fst (cmd_configure_outlet dk t nm pf cc tz reg tr addr sc ap pin))"
  unfolding cmd_enrol_staff_def cmd_configure_outlet_def
  by (intro steps; simp; intro steps; simp add: attributed_def manager_answers)+

lemma catalogue_conducts:
  "conducts dk me (attributed dk t pin) t (fst (cmd_save_product dk t pr nm sku bcs price u points tk cat st grps pin))"
  "conducts dk me (attributed dk t pin) t (fst (cmd_set_product_active dk t p active pin))"
  unfolding cmd_save_product_def cmd_set_product_active_def record_product_def cmd_authorize_def Let_def split_beta
  by (intro steps; simp split: option.split; intro conjI allI impI steps; simp add: answering_facts)+

lemma import_conducts:
  "conducts dk me (attributed dk t pin) t (fst (cmd_commit_import dk t txt tabs pin))"
  unfolding cmd_commit_import_def cmd_authorize_def
  by (intro conduct_checked [OF at_work]; simp add: conduct_here [OF at_work]; intro impI conduct_checked [OF at_work])
    (rule rows_conduct [OF at_work key], simp add: answering_facts)

lemma floor_conducts:
  "conducts dk me (attributed dk t pin) t (fst (cmd_save_table dk t tb label sec seats pin))"
  "conducts dk me (attributed dk t pin) t (fst (cmd_set_table_active dk t tbl active pin))"
  unfolding cmd_save_table_def cmd_set_table_active_def record_table_def cmd_authorize_def Let_def
  by (intro steps; simp split: option.split; intro conjI allI impI steps; simp add: answering_facts)+

lemma tickets_conduct:
  "conducts dk me (attributed dk t pin) t (fst (cmd_discard_empty_tickets dk t))"
  unfolding cmd_discard_empty_tickets_def Let_def split_beta
  by (intro conduct_checked [OF at_work]; simp; rule discard_conducts [OF at_work key]; simp add: answering_facts)

lemma kitchen_conducts:
  "conducts dk me (attributed dk t pin) t (fst (cmd_fire_kitchen dk t s at paper))"
  unfolding cmd_fire_kitchen_def Let_def
  by (intro conduct_checked [OF at_work]; simp add: no_act_def; intro conjI impI steps; simp add: answering_facts)

lemma session_conducts: "conducts dk me P t (t\<lparr>tm_session := p\<rparr>)"
  using signs at_work by (simp add: conducts_def working_def adds_same)

lemma signing_conducts:
  "conducts dk me P t (fst (cmd_sign_in dk t who pin))" "conducts dk me P t (fst (cmd_sign_out t))"
  unfolding cmd_sign_in_def cmd_sign_out_def till_sign_in_def till_sign_out_def
  by (auto simp: split_beta session_conducts conduct_here [OF at_work] split: sum.split sign_in_result.split)

lemmas all_conduct = sell_conducts line_conducts void_conducts discount_conducts complete_conducts drawer_conducts
  stock_conducts order_conducts office_conducts catalogue_conducts import_conducts floor_conducts tickets_conduct
  kitchen_conducts signing_conducts

end

end
