(* ===== verification/Workday.thy ===== *)
theory Workday
  imports Conduct
begin

text \<open>
  A till worked through its commands: every command that a release build offers the screen and that writes
  (\<open>invoke_handler\<close> of \<open>crates/sahl-terminal/src/lib.rs\<close>), whom its events name, and what the till it leaves
  promises.
\<close>

section \<open>The commands\<close>

datatype till_command =
    DoOpenSale
  | DoAddLine uuid uuid utext int int int string "uuid list"
  | DoChangeQuantity uuid uuid int
  | DoVoidLine uuid uuid string "nat list"
  | DoDiscountOrder uuid "int option" "int option" "nat list"
  | DoRecordTender uuid string int "string option"
  | DoCompleteSale uuid
  | DoAbandonSale uuid
  | DoOpenShift int
  | DoMoveCash int string "string option" "nat list"
  | DoCountDrawer int
  | DoCloseShift int
  | DoReceiveStock uuid "string option" "int option" int int "string option"
  | DoCountStock uuid int
  | DoIssueStock uuid int string
  | DoSignIn uuid "nat list"
  | DoSignOut
  | DoEnrolStaff string string "nat list" "nat list"
  | DoCommitImport utext bool "nat list"
  | DoPlaceOrder string "string option" "int option" "order_line_input list"
  | DoReceiveAgainstOrder uuid uuid int int "string option" "int option"
  | DoCloseOrder uuid string
  | DoConfigureOutlet utext string string utext utext "utext option" utext "scale_input option"
      "approval_input option" "nat list"
  | DoSaveProduct "uuid option" utext "utext option" "utext list" int utext int string "utext option" "utext option"
      "group_input list" "nat list"
  | DoSetProductActive uuid bool "nat list"
  | DoSaveTable "uuid option" utext "utext option" nat "nat list"
  | DoSetTableActive uuid bool "nat list"
  | DoSeatSale uuid uuid nat
  | DoDiscardEmptyTickets
  | DoFireKitchen uuid utext string

definition forget :: "terminal \<times> (refusal + 'v) \<Rightarrow> terminal \<times> (refusal + unit)" where
  "forget r = (fst r, map_ok (\<lambda>_. ()) (snd r))"

fun run_command :: "'phc desk \<Rightarrow> terminal \<Rightarrow> till_command \<Rightarrow> terminal \<times> (refusal + unit)" where
  "run_command dk t DoOpenSale = forget (cmd_open_sale dk t)"
| "run_command dk t (DoAddLine s p name price q points tk chosen) = forget (cmd_add_line dk t s p name price q points tk chosen)"
| "run_command dk t (DoChangeQuantity s l q) = forget (cmd_change_quantity dk t s l q)"
| "run_command dk t (DoVoidLine s l why pin) = forget (cmd_void_line dk t s l why pin)"
| "run_command dk t (DoDiscountOrder s amount points pin) = forget (cmd_discount_order dk t s amount points pin)"
| "run_command dk t (DoRecordTender s m amount refno) = forget (cmd_record_tender dk t s m amount refno)"
| "run_command dk t (DoCompleteSale s) = forget (cmd_complete_sale dk t s)"
| "run_command dk t (DoAbandonSale s) = forget (cmd_abandon_sale dk t s)"
| "run_command dk t (DoOpenShift float) = forget (cmd_open_shift dk t float)"
| "run_command dk t (DoMoveCash amount why note pin) = forget (cmd_move_cash dk t amount why note pin)"
| "run_command dk t (DoCountDrawer counted) = forget (cmd_count_drawer dk t counted)"
| "run_command dk t (DoCloseShift closing) = forget (cmd_close_shift dk t closing)"
| "run_command dk t (DoReceiveStock p lot expires q cost supplier) = forget (cmd_receive_stock dk t p lot expires q cost supplier)"
| "run_command dk t (DoCountStock b n) = forget (cmd_count_stock dk t b n)"
| "run_command dk t (DoIssueStock b n why) = forget (cmd_issue_stock dk t b n why)"
| "run_command dk t (DoSignIn who pin) = forget (cmd_sign_in dk t who pin)"
| "run_command dk t DoSignOut = forget (cmd_sign_out t)"
| "run_command dk t (DoEnrolStaff name r new_pin pin) = forget (cmd_enrol_staff dk t name r new_pin pin)"
| "run_command dk t (DoCommitImport txt tabs pin) = forget (cmd_commit_import dk t txt tabs pin)"
| "run_command dk t (DoPlaceOrder supplier refno expected ls) = forget (cmd_place_order dk t supplier refno expected ls)"
| "run_command dk t (DoReceiveAgainstOrder ord l q cost lot expires) =
     forget (cmd_receive_against_order dk t ord l q cost lot expires)"
| "run_command dk t (DoCloseOrder ord why) = forget (cmd_close_order dk t ord why)"
| "run_command dk t (DoConfigureOutlet nm pf cc tz reg tr addr sc ap pin) =
     forget (cmd_configure_outlet dk t nm pf cc tz reg tr addr sc ap pin)"
| "run_command dk t (DoSaveProduct p nm sku bcs price u points tk cat st grps pin) =
     forget (cmd_save_product dk t p nm sku bcs price u points tk cat st grps pin)"
| "run_command dk t (DoSetProductActive p act pin) = forget (cmd_set_product_active dk t p act pin)"
| "run_command dk t (DoSaveTable tb lbl sec n pin) = forget (cmd_save_table dk t tb lbl sec n pin)"
| "run_command dk t (DoSetTableActive tb act pin) = forget (cmd_set_table_active dk t tb act pin)"
| "run_command dk t (DoSeatSale s tb n) = forget (cmd_seat_sale dk t s tb n)"
| "run_command dk t DoDiscardEmptyTickets = forget (cmd_discard_empty_tickets dk t)"
| "run_command dk t (DoFireKitchen s at paper) = forget (cmd_fire_kitchen dk t s at paper)"

text \<open>The PIN typed with a command for somebody's approval.\<close>

fun pin_of :: "till_command \<Rightarrow> nat list" where
  "pin_of (DoVoidLine _ _ _ pin) = pin"
| "pin_of (DoDiscountOrder _ _ _ pin) = pin"
| "pin_of (DoMoveCash _ _ _ pin) = pin"
| "pin_of (DoEnrolStaff _ _ _ pin) = pin"
| "pin_of (DoCommitImport _ _ pin) = pin"
| "pin_of (DoConfigureOutlet _ _ _ _ _ _ _ _ _ pin) = pin"
| "pin_of (DoSaveProduct _ _ _ _ _ _ _ _ _ _ _ pin) = pin"
| "pin_of (DoSetProductActive _ _ pin) = pin"
| "pin_of (DoSaveTable _ _ _ _ pin) = pin"
| "pin_of (DoSetTableActive _ _ pin) = pin"
| "pin_of _ = []"

lemma forget_fst [simp]: "fst (forget r) = fst r"
  by (simp add: forget_def)

context desk_at_work
begin

lemma command_conducts: "conducts dk me (attributed dk t (pin_of c)) t (fst (run_command dk t c))"
  by (cases c) (simp_all add: all_conduct)

end

section \<open>A day of commands\<close>

text \<open>A till that starts on an empty store, is worked through commands at a machine whose clock and ids move on, and
  synchronises and restarts in between.\<close>

inductive worked :: "codec \<Rightarrow> wire \<Rightarrow> 'phc argon \<Rightarrow> device_identity \<Rightarrow> terminal \<Rightarrow> bool" for cd wr ar me where
  starts: "load cd wr (store_open (di_device_id me)) me = Inr t \<Longrightarrow> worked cd wr ar me t"
| commands: "worked cd wr ar me t \<Longrightarrow> dk_codec dk = cd \<Longrightarrow> dk_wire dk = wr \<Longrightarrow> dk_argon dk = ar \<Longrightarrow> moves_on dk (tm_store t)
    \<Longrightarrow> worked cd wr ar me (fst (run_command dk t c))"
| touches: "worked cd wr ar me t \<Longrightarrow> worked cd wr ar me (till_touch t now)"
| rounds: "worked cd wr ar me t \<Longrightarrow> till_sync cd wr (tp :: unit transport) t () now = ((t', ()), r)
    \<Longrightarrow> list_all rw_local (es_rows (tm_store t')) \<Longrightarrow> worked cd wr ar me t'"
| restarts_again: "worked cd wr ar me t \<Longrightarrow> load cd wr (tm_store t) me = Inr t' \<Longrightarrow> worked cd wr ar me t'"

lemma at_work_intro:
  "faithful_wire (dk_wire dk) \<Longrightarrow> lived (dk_codec dk) (dk_wire dk) me t \<Longrightarrow> moves_on dk (tm_store t) \<Longrightarrow> desk_at_work dk me t"
  by unfold_locales (simp_all add: working_def moves_on_def)

lemma worked_lived:
  assumes "faithful_wire wr" and "worked cd wr ar me t"
  shows "lived cd wr me t"
  using assms(2)
proof (induction rule: worked.induct)
  case (commands t dk c)
  then have "desk_at_work dk me t" using at_work_intro assms(1) by blast
  from desk_at_work.command_conducts [OF this] commands.hyps show ?case by (simp add: conducts_def)
next
  case (touches t now)
  then show ?case by (simp add: till_touch_def signs)
qed (auto intro: lived.intros)

section \<open>The commands keep their promises\<close>

text \<open>Whatever command the screen sends to a till that lived, everybody an event it records names is an active
  member who either is the person signed in, whose role may record that alone, or holds the permission the event
  takes and typed their own PIN with the command; only a till without staff records its first enrolment and
  settings in nobody's name.\<close>

theorem commands_name_people:
  assumes "faithful_wire (dk_wire dk)" and "lived (dk_codec dk) (dk_wire dk) me t" and "moves_on dk (tm_store t)"
  shows "\<exists>evs. decoded (dk_wire dk) (tm_store (fst (run_command dk t c))) = decoded (dk_wire dk) (tm_store t) @ evs
    \<and> (\<forall>ev \<in> set evs. \<forall>who \<in> set (people_named ev). answers_for dk t (pin_of c) ev who)"
proof -
  have "adds (dk_wire dk) UNIV (attributed dk t (pin_of c)) t (fst (run_command dk t c))"
    using desk_at_work.command_conducts [OF at_work_intro [OF assms]] by (simp add: conducts_def)
  from adds_decoded [OF this] show ?thesis by (auto simp: attributed_def list_all_iff)
qed

text \<open>A till worked through its commands at a machine whose clock and ids only go forward, holding no other device's
  events, whatever the commands were and however its writes failed, starts again from its store as it was, with
  nobody signed in, and its invoices run without a gap.\<close>

theorem worked_till_resumes:
  assumes "faithful_wire wr" and "worked cd wr ar me t"
  shows "load cd wr (tm_store t) me = Inr (restarted t) \<and> tm_session (restarted t) = SignedOut \<and> tm_book (restarted t) = tm_book t
    \<and> map (is_counter \<circ> fst) (invoices_in wr (decoded wr (tm_store t)))
        = map (\<lambda>i. int i + 1) [0..<length (invoices_in wr (decoded wr (tm_store t)))]"
proof -
  note l = worked_lived [OF assms]
  have "load cd wr (tm_store t) me = Inr (restarted t)" by (rule load_intact(1) [OF lived_intact [OF assms(1) l]])
  with lived_invoices [OF assms(1) l] verified_counters [of cd fiscal_genesis] show ?thesis
    by (auto simp: invoices_ok_def fiscal_genesis_def restarted_def)
qed

section \<open>A first owner\<close>

text \<open>A till just started and a machine in front of it: the first command enrols an owner, whom nobody had to approve.\<close>

definition ana_enrolled :: till_event where
  "ana_enrolled = StaffEv (Enrolled 100 ''Ana'' Owner ''3690'' \<lparr>millis = 100\<rparr> nobody)"

definition office_wire :: wire where
  "office_wire = table_wire [ana_enrolled] sample_content"

definition office_desk :: "nat \<Rightarrow> nat list desk" where
  "office_desk b = \<lparr>dk_codec = quick_codec, dk_wire = office_wire, dk_argon = sample_argon, dk_io = (\<lambda>_. True),
     dk_now = (\<lambda>k. \<lparr>millis = int (b + k)\<rparr>), dk_id = (\<lambda>k. b + k), dk_salt = ''salt'', dk_lower = (\<lambda>s. s),
     dk_show = (\<lambda>_. []), dk_print = (\<lambda>_ _. None)\<rparr>"

definition new_till :: terminal where
  "new_till = projr (load quick_codec office_wire (store_open 3) sample_me)"

lemma office_wire_faithful: "faithful_wire office_wire"
  unfolding office_wire_def by (rule table_wire_faithful)

lemma new_till_starts: "load quick_codec office_wire (store_open 3) sample_me = Inr new_till" "stored_log (tm_store new_till) = []"
proof -
  obtain t where t: "load quick_codec office_wire (store_open 3) sample_me = Inr t" "tm_store t = store_open 3"
    by (simp add: load_def store_open_def load_all_def load_projection_input_def verify_chain_from_genesis_def verify_chain_def
        no_projections_def latest_open_shift_def)
  then show "load quick_codec office_wire (store_open 3) sample_me = Inr new_till" "stored_log (tm_store new_till) = []"
    by (simp_all add: new_till_def stored_log_def store_open_def)
qed

interpretation office: desk_at_work "office_desk 100" sample_me new_till
proof (rule at_work_intro)
  show "faithful_wire (dk_wire (office_desk 100))" by (simp add: office_desk_def office_wire_faithful)
  have "load quick_codec office_wire (store_open (di_device_id sample_me)) sample_me = Inr new_till"
    using new_till_starts(1) by (simp add: sample_me_def)
  then show "lived (dk_codec (office_desk 100)) (dk_wire (office_desk 100)) sample_me new_till"
    by (simp add: office_desk_def first_start)
  show "moves_on (office_desk 100) (tm_store new_till)"
    by (simp add: moves_on_def office_desk_def strict_mono_def mono_def next_key_def used_shifts_def decoded_def
        new_till_starts(2) List.map_filter_simps)
qed

lemma first_owner_enrolled:
  "decoded office_wire (tm_store (fst (cmd_enrol_staff (office_desk 100) new_till '' Ana '' ''owner'' [51, 54, 57, 48] []))) = [ana_enrolled]"
  by code_simp

end
