(* ===== verification/Spec2Isabelle.thy ===== *)
theory Spec2Isabelle
  imports Split Book Shift Fiscal Inventory Staff Exceptions Purchasing Catalogue Import Scale Display
    Sync Ingest Store Engine Replication Floor Kitchen Outlet Printing Amounts Policies Messaging Schedule
    Access Gateway Dashboard Settings Workday
begin

text \<open>
  Sahl is an offline-first point of sale.  Every till records what happens as events, seals each into a hash chain of
  its own, stores it, and shows projections of the log; a server takes the same events, checks the chain and hands them
  to the other tills of the outlet.  All amounts are 64-bit integers of minor units.  This development models the Rust
  crates under \<open>src/crates\<close>: \<open>sahl-core\<close> (the domain), \<open>sahl-sync\<close> (the protocol), \<open>sahl-terminal\<close> (the till),
  \<open>sahl-server\<close>, \<open>sahl-fiscal\<close> (documents of a jurisdiction) and \<open>sahl-escpos\<close> (the printer).

  \<^bold>\<open>Conventions.\<close>  A struct is a \<open>record\<close> whose fields carry a two-letter prefix, an enum a \<open>datatype\<close>, a
  \<open>Result\<close> the sum \<open>error + value\<close> sequenced by \<open>and_then\<close>, \<open>map_err\<close> and \<open>try_fold\<close> (\<open>Prelude\<close>), a \<open>BTreeMap\<close> a sorted
  association list (\<open>BTree\<close>).  \<open>i64\<close>, \<open>i128\<close> and \<open>u64\<close> are integers with their range tested where the code tests it
  (\<open>in_i64\<close>, \<open>fit\<close>) and saturated where it saturates; division truncates as in Rust.  A method on \<open>&mut self\<close> returns the
  state it leaves, also when it fails, wherever a caller can go on with it.  Texts are lists of code points (\<open>Text\<close>).
  What is not code of the repository is a parameter: JSON and SHA-256 (\<open>codec\<close>), what \<open>serde\<close> writes and reads
  (\<open>wire\<close>), Argon2 (\<open>argon\<close>), Unicode lower case, the network (\<open>transport\<close>), the calendar and base64 (\<open>qr_tools\<close>) and
  the key pair arithmetic of requests; the theorems name what they need of them as hypotheses.

  \<^bold>\<open>The domain\<close> (\<open>sahl-core/src\<close>).
  \<^item> \<open>Money\<close>, \<open>Allocation\<close>, \<open>Units\<close>, \<open>Display\<close>: \<open>money/*.rs\<close>, \<open>quantity.rs\<close>, \<open>time.rs\<close>.  Checked arithmetic, rounded
    division and largest-remainder allocation, whose parts always sum to the amount.
  \<^item> \<open>Tax\<close>, \<open>Amounts\<close>: \<open>tax/*.rs\<close>, the order calculation.  Its predicate \<open>trace\<close> exposes every intermediate value of a successful
    run; aggregates, VAT groups, rounding, signs and the type of every amount are read off it.
  \<^item> \<open>Lease\<close>, \<open>Sale\<close>, \<open>Split\<close>, \<open>Book\<close>: \<open>policy/lease.rs\<close>, \<open>sale/*.rs\<close>, \<open>projection/book.rs\<close>.  \<open>moves\<close> is the abstract
    transition relation of a sale, and the event handler accepts exactly it; \<open>good_sale\<close> is the invariant.  A book
    replays every sale as if it were alone.
  \<^item> \<open>EventLog\<close>, \<open>HashChain\<close>, \<open>Fiscal\<close>: \<open>event/*.rs\<close>, \<open>ledger/*.rs\<close>.  Sealing, verification, and what a verified
    log rules out, up to a digest collision that the theorems exhibit.
  \<^item> \<open>Inventory\<close>, \<open>Shift\<close>, \<open>Staff\<close>, \<open>Exceptions\<close>, \<open>Purchasing\<close>, \<open>Catalogue\<close>, \<open>Floor\<close>, \<open>Outlet\<close>, \<open>Kitchen\<close>:
    the other aggregates, each with its invariant and what its figures are sums of.  \<open>Kitchen\<close> runs a sale
    through any events and presses of send (\<open>serve\<close>) to show that no line is told twice.
  \<^item> \<open>Import\<close>, \<open>Scale\<close>, \<open>DayReport\<close>, \<open>Anomaly\<close>: price lists, scale labels, the day's report and the findings.
  \<^item> \<open>Policies\<close>, \<open>Messaging\<close>: oversells and concurrent catalogue edits (\<open>policy/*.rs\<close>), and the digests sent to an
    owner (\<open>messaging/*.rs\<close>).

  \<^bold>\<open>Between till and server.\<close>
  \<^item> \<open>Sync\<close>: \<open>sahl-sync/src\<close>, the plan the server makes of a pushed batch.  \<open>Ingest\<close>: \<open>sahl-server/src/sync\<close> and
    \<open>routes/sync.rs\<close> over tables with their constraints.
  \<^item> \<open>Access\<close>, \<open>Gateway\<close>: \<open>device/*.rs\<close>, \<open>routes/auth.rs\<close>, \<open>routes/enroll.rs\<close> and the till's \<open>sync/http.rs\<close>.  Enrolment is
    an inductive relation over requests that interleave; signing, authentication and the endpoints together are
    shown to be the direct call that \<open>Replication\<close> reasons about.
  \<^item> \<open>Store\<close>, \<open>Engine\<close>, \<open>Schedule\<close>: the till's tables, one sync round, and the thread with its pauses (\<open>paced\<close>).
  \<^item> \<open>Replication\<close>: till, server and a network that loses, repeats and delays, as an inductive relation; safety by
    rule induction, and progress of one batch per delivered round.
  \<^item> \<open>Dashboard\<close>, \<open>Settings\<close>: \<open>routes/reports.rs\<close>, the owner's day and whose events it may show, and \<open>config.rs\<close>.

  \<^bold>\<open>The till\<close> (\<open>sahl-terminal/src/terminal.rs\<close>).
  \<^item> \<open>Terminal\<close>: its state, the recorders, \<open>complete_sale\<close>, \<open>load\<close> and \<open>sync\<close>.  \<open>Till\<close>, \<open>Screens\<close>, \<open>Printing\<close>: its queries,
    reports and paper, on \<open>Invoicing\<close> (\<open>sahl-fiscal\<close>) and \<open>Paper\<close> (\<open>sahl-escpos\<close>).
  \<^item> \<open>Restart\<close>, \<open>Recovery\<close>: \<open>lived\<close> collects the tills reachable by any actions, failed writes included; \<open>intact\<close> is
    their invariant.  As long as clock and ids only go forward and the store holds no other device's events, which
    \<open>lived\<close> asks, a till that starts again has the same projections, goes on in step with the one it replaces, and
    numbers its invoices without a gap; \<open>clock_back_reissues\<close> and \<open>sibling_shift_resumed\<close> show that both conditions are
    needed.  A till whose write failed refuses every later event until it starts again.

  \<^bold>\<open>Its screen\<close> (\<open>sahl-terminal/src/commands\<close>).
  \<^item> \<open>Views\<close>, \<open>Commands\<close>, \<open>Answers\<close>, \<open>Backoffice\<close>: the views a screen draws and the commands it sends, each over a
    \<open>desk\<close>, which is what the machine supplies (clock, ids, salt, outcomes of writes, printer).  The lines on the
    sell screen add up to its total.
  \<^item> \<open>Conduct\<close>, \<open>Workday\<close>: every command that writes is a run of recorders, so a till worked through commands is one
    that \<open>lived\<close>; and everybody its events name was signed in or gave their own PIN with a role that may
    (\<open>commands_name_people\<close>).

  \<^bold>\<open>Interfaces.\<close>  \<open>Projection\<close> declares \<open>event_sourced\<close> (an invariant every step keeps holds after every replay),
  \<open>evidence_log\<close> (nothing recorded is erased), \<open>accounted\<close> (a figure is the sum of what events contribute);
  \<open>BTree\<close> \<open>keyed_book\<close> (events of one key only touch that key), \<open>HashChain\<close> \<open>hash_chain\<close>, \<open>Lease\<close> \<open>contest\<close> and
  \<open>Conduct\<close> \<open>desk_at_work\<close> (a machine whose clock and ids move on, in front of a till that lived).
  The aggregates interpret them, and their properties rest on the interpreted facts.

  \<^bold>\<open>Bounds.\<close>  There is no fuel: every loop of the code is a fold, a structural recursion or has a measure.  Limits of
  the code (500 events in a batch, 30 seats, 255 bytes in a QR field, 7089 bytes in a QR code) are its own constants.

  \<^bold>\<open>Not modelled.\<close>  Database faults on reads, SQL text and row encodings; locks, as the till's mutex makes operations
  sequential; sockets, the printer's device, the keychain and random numbers; the JSON of the views and the sentences beside error codes, the view of a fiscal document, demo data
  and the debug bridge; migrations and the other admin commands of the server; and the Svelte applications and
  packages.
\<close>

end
